(* ===== verification/Prelude.thy ===== *)
theory Prelude
  imports Main "HOL-Library.Word" "HOL-Library.Monad_Syntax" "HOL-Library.Signed_Division"
begin

text \<open>
  Shared vocabulary of the development: the C data the components exchange (pointers, bytes,
  integers of the 32-bit target), the byte order of the machine, the byte-level representation
  of integers, bounds-checked access to byte arrays, and the allocator.

  Undefined behaviour is a value: a C operation that may read or write outside an object, follow a
  null or dangling pointer, or run into a failed assertion is a function into \<open>option\<close>, with
  \<open>None\<close> for the fault and \<open>Some\<close> for a normal return.  Operations are sequenced with
  the option monad, the state being passed explicitly.
\<close>

named_theorems c_defs \<open>definitions of the small C-level helpers\<close>
named_theorems frames \<open>what an operation leaves unchanged\<close>

section \<open>Addresses and integers\<close>

type_synonym addr = nat
type_synonym ptr = "addr option"
type_synonym byte = "8 word"
type_synonym short = "16 word"

text \<open>Conversion of an out-of-range value to the 32-bit \<open>int\<close> of the target.\<close>

definition wrap32 :: "int \<Rightarrow> int" where
  "wrap32 x = (x + 2 ^ 31) mod 2 ^ 32 - 2 ^ 31"

lemma wrap32_id [simp]: "- (2 ^ 31) \<le> x \<Longrightarrow> x < 2 ^ 31 \<Longrightarrow> wrap32 x = x"
  by (simp add: wrap32_def)

lemma wrap32_range: "- (2 ^ 31) \<le> wrap32 x" "wrap32 x < 2 ^ 31"
proof -
  have "0 \<le> (x + 2147483648) mod 4294967296" "(x + 2147483648) mod 4294967296 < 4294967296"
    by (rule pos_mod_sign, simp) (rule pos_mod_bound, simp)
  then show "- (2 ^ 31) \<le> wrap32 x" "wrap32 x < 2 ^ 31"
    by (simp_all add: wrap32_def)
qed

text \<open>The truncating division of C agrees with \<open>div\<close> and \<open>mod\<close> on non-negative numbers.\<close>

lemma sdiv_nonneg: "0 \<le> (a :: int) \<Longrightarrow> 0 < b \<Longrightarrow> a sdiv b = a div b"
  by (simp add: signed_divide_int_def sgn_if)

lemma smod_nonneg: "0 \<le> (a :: int) \<Longrightarrow> 0 < b \<Longrightarrow> a smod b = a mod b"
  by (simp add: signed_modulo_int_def sgn_if)

section \<open>Lists\<close>

lemma list_all_update: "list_all P xs \<Longrightarrow> P x \<Longrightarrow> list_all P (xs[i := x])"
  using set_update_subset_insert [of xs i x] by (auto simp: list_all_iff)

section \<open>Byte order\<close>

text \<open>
  The target of \<open>config.mk\<close> is a big-endian MIPS; the byte-level code is modelled for both
  orders so that the theorems say which behaviour depends on it.
\<close>

datatype byte_order = Little_Endian | Big_Endian

definition be16 :: "16 word \<Rightarrow> byte list" where
  "be16 w = [ucast (drop_bit 8 w), ucast w]"

definition be32 :: "32 word \<Rightarrow> byte list" where
  "be32 w = [ucast (drop_bit 24 w), ucast (drop_bit 16 w), ucast (drop_bit 8 w), ucast w]"

definition be64 :: "64 word \<Rightarrow> byte list" where
  "be64 w = be32 (ucast (drop_bit 32 w)) @ be32 (ucast w)"

fun of_be16 :: "byte list \<Rightarrow> 16 word" where
  "of_be16 [a, b] = or (push_bit 8 (ucast a)) (ucast b)"
| "of_be16 _ = 0"

fun of_be32 :: "byte list \<Rightarrow> 32 word" where
  "of_be32 [a, b, c, d] =
     or (push_bit 24 (ucast a)) (or (push_bit 16 (ucast b)) (or (push_bit 8 (ucast c)) (ucast d)))"
| "of_be32 _ = 0"

fun of_be64 :: "byte list \<Rightarrow> 64 word" where
  "of_be64 bs = or (push_bit 32 (ucast (of_be32 (take 4 bs)))) (ucast (of_be32 (drop 4 bs)))"

lemma length_be [simp]: "length (be16 w) = 2" "length (be32 v) = 4" "length (be64 u) = 8"
  by (simp_all add: be16_def be32_def be64_def)

lemma be16_not_Nil [simp]: "be16 w \<noteq> []"
  by (simp add: be16_def)

lemma of_be16_be16 [simp]: "of_be16 (be16 w) = w"
  by (rule bit_word_eqI) (auto simp: be16_def bit_simps)

lemma of_be32_be32 [simp]: "of_be32 (be32 w) = w"
proof (rule bit_word_eqI)
  fix n assume "n < LENGTH(32)"
  then consider "n < 8" | "8 \<le> n" "n < 16" | "16 \<le> n" "n < 24" | "24 \<le> n" "n < 32"
    by fastforce
  then show "bit (of_be32 (be32 w)) n \<longleftrightarrow> bit w n"
    by cases (auto simp: be32_def bit_simps)
qed

lemma be16_of_be16 [simp]: "length bs = 2 \<Longrightarrow> be16 (of_be16 bs) = bs"
proof -
  assume "length bs = 2"
  then obtain a b where bs: "bs = [a, b]"
    by (auto simp: length_Suc_conv numeral_2_eq_2)
  have "ucast (drop_bit 8 (or (push_bit 8 (ucast a)) (ucast b) :: 16 word)) = a"
       "ucast (or (push_bit 8 (ucast a)) (ucast b) :: 16 word) = b"
    by (rule bit_word_eqI, auto simp: bit_simps dest: bit_imp_le_length)+
  then show ?thesis by (simp add: bs be16_def)
qed

definition native16 :: "byte_order \<Rightarrow> 16 word \<Rightarrow> byte list" where
  "native16 e w = (case e of Big_Endian \<Rightarrow> be16 w | Little_Endian \<Rightarrow> rev (be16 w))"

definition of_native16 :: "byte_order \<Rightarrow> byte list \<Rightarrow> 16 word" where
  "of_native16 e bs = of_be16 (case e of Big_Endian \<Rightarrow> bs | Little_Endian \<Rightarrow> rev bs)"

definition native32 :: "byte_order \<Rightarrow> 32 word \<Rightarrow> byte list" where
  "native32 e w = (case e of Big_Endian \<Rightarrow> be32 w | Little_Endian \<Rightarrow> rev (be32 w))"

definition of_native32 :: "byte_order \<Rightarrow> byte list \<Rightarrow> 32 word" where
  "of_native32 e bs = of_be32 (case e of Big_Endian \<Rightarrow> bs | Little_Endian \<Rightarrow> rev bs)"

definition native64 :: "byte_order \<Rightarrow> 64 word \<Rightarrow> byte list" where
  "native64 e w = (case e of Big_Endian \<Rightarrow> be64 w | Little_Endian \<Rightarrow> rev (be64 w))"

definition of_native64 :: "byte_order \<Rightarrow> byte list \<Rightarrow> 64 word" where
  "of_native64 e bs = of_be64 (case e of Big_Endian \<Rightarrow> bs | Little_Endian \<Rightarrow> rev bs)"

text \<open>\<open>htons\<close>, \<open>ntohs\<close>, \<open>htonl\<close> and \<open>ntohl\<close> of the C library: they swap on a
  little-endian machine only, and each is its own inverse.\<close>

definition htons :: "byte_order \<Rightarrow> 16 word \<Rightarrow> 16 word" where
  "htons e w = (case e of Big_Endian \<Rightarrow> w | Little_Endian \<Rightarrow> of_be16 (rev (be16 w)))"

definition htonl :: "byte_order \<Rightarrow> 32 word \<Rightarrow> 32 word" where
  "htonl e w = (case e of Big_Endian \<Rightarrow> w | Little_Endian \<Rightarrow> of_be32 (rev (be32 w)))"

abbreviation ntohs :: "byte_order \<Rightarrow> 16 word \<Rightarrow> 16 word" where
  "ntohs \<equiv> htons"

abbreviation ntohl :: "byte_order \<Rightarrow> 32 word \<Rightarrow> 32 word" where
  "ntohl \<equiv> htonl"

lemma be32_of_be32 [simp]: "length bs = 4 \<Longrightarrow> be32 (of_be32 bs) = bs"
proof -
  assume "length bs = 4"
  then obtain a b c d where bs: "bs = [a, b, c, d]"
    by (auto simp: length_Suc_conv numeral_eq_Suc)
  let ?w = "or (push_bit 24 (ucast a)) (or (push_bit 16 (ucast b))
     (or (push_bit 8 (ucast c)) (ucast d))) :: 32 word"
  have "ucast (drop_bit 24 ?w) = a" "ucast (drop_bit 16 ?w) = b"
       "ucast (drop_bit 8 ?w) = c" "ucast ?w = d"
    by (rule bit_word_eqI, auto simp: bit_simps dest: bit_imp_le_length)+
  then show ?thesis by (simp add: bs be32_def)
qed

lemma length_native [simp]:
  "length (native16 e w) = 2" "length (native32 e v) = 4" "length (native64 e u) = 8"
  by (simp_all add: native16_def native32_def native64_def split: byte_order.split)

lemma of_native_native [simp]:
  "of_native16 e (native16 e w) = w" "of_native32 e (native32 e v) = v"
  by (simp_all add: native16_def of_native16_def native32_def of_native32_def
      split: byte_order.split)

text \<open>Network order: storing a converted value natively stores the big-endian bytes, and
  converting a natively loaded value reads them as big-endian.\<close>

lemma native_hton [simp]: "native16 e (htons e w) = be16 w" "native32 e (htonl e v) = be32 v"
  by (simp_all add: native16_def htons_def native32_def htonl_def split: byte_order.split)

lemma ntoh_of_native [simp]:
  "length bs = 2 \<Longrightarrow> ntohs e (of_native16 e bs) = of_be16 bs"
  "length cs = 4 \<Longrightarrow> ntohl e (of_native32 e cs) = of_be32 cs"
  by (simp_all add: of_native16_def htons_def of_native32_def htonl_def split: byte_order.split)

section \<open>Byte arrays\<close>

text \<open>Reading or writing outside the array is a fault.\<close>

definition read_bytes :: "byte list \<Rightarrow> nat \<Rightarrow> nat \<Rightarrow> byte list option" where
  "read_bytes buf off n = (if off + n \<le> length buf then Some (take n (drop off buf)) else None)"

definition write_bytes :: "byte list \<Rightarrow> nat \<Rightarrow> byte list \<Rightarrow> byte list option" where
  "write_bytes buf off bs =
     (if off + length bs \<le> length buf
      then Some (take off buf @ bs @ drop (off + length bs) buf) else None)"

lemma write_bytes_length: "write_bytes buf off bs = Some buf' \<Longrightarrow> length buf' = length buf"
  by (auto simp: write_bytes_def split: if_splits)

lemma read_bytes_length: "read_bytes buf off n = Some bs \<Longrightarrow> length bs = n"
  by (auto simp: read_bytes_def split: if_splits)

lemma read_bytes_append [simp]:
  "read_bytes (pre @ bs @ post) (length pre) (length bs) = Some bs"
  by (simp add: read_bytes_def)

lemma write_bytes_append:
  "length ys = length bs \<Longrightarrow>
   write_bytes (pre @ ys @ post) (length pre) bs = Some (pre @ bs @ post)"
  by (simp add: write_bytes_def)

text \<open>A string in a block ends at the first zero byte behind its start.\<close>

definition c_string_at :: "byte list \<Rightarrow> nat \<Rightarrow> byte list option" where
  "c_string_at m p = (if 0 \<in> set (drop p m) then Some (takeWhile (\<lambda>b. b \<noteq> 0) (drop p m)) else None)"

lemma c_string_at_eq: "drop p m = name @ 0 # r \<Longrightarrow> 0 \<notin> set name \<Longrightarrow> c_string_at m p = Some name"
proof -
  assume "drop p m = name @ 0 # r" "0 \<notin> set name"
  moreover from this(2) have "takeWhile (\<lambda>b. b \<noteq> 0) (name @ 0 # r) = name" by (subst takeWhile_append2) auto
  ultimately show ?thesis by (simp add: c_string_at_def)
qed

section \<open>The allocator\<close>

text \<open>
  \<open>malloc\<close> hands out addresses that were never used before, or \<open>NULL\<close>: which calls fail is
  an arbitrary function of the call (\<open>alloc_fails\<close>), so that every failure pattern is covered, and
  a fresh block holds arbitrary bytes (\<open>junk\<close>).  A request that is negative as a signed integer
  is one of at least 2 GB on the 32-bit target and always fails.
\<close>

record mem =
  brk :: addr
  alloc_fails :: "addr \<Rightarrow> bool"
  junk :: "addr \<Rightarrow> nat \<Rightarrow> byte"

definition malloc :: "int \<Rightarrow> 'a mem_scheme \<Rightarrow> ptr \<times> 'a mem_scheme" where
  "malloc n m = (if n < 0 \<or> alloc_fails m (brk m) then None else Some (brk m),
                 m\<lparr>brk := Suc (brk m)\<rparr>)"

definition fresh_bytes :: "addr \<Rightarrow> nat \<Rightarrow> 'a mem_scheme \<Rightarrow> byte list" where
  "fresh_bytes a n m = map (junk m a) [0..<n]"

lemma length_fresh_bytes [simp]: "length (fresh_bytes a n m) = n"
  by (simp add: fresh_bytes_def)

text \<open>No allocation fails: the machine has enough memory for the run.\<close>

definition no_oom :: "'a mem_scheme \<Rightarrow> bool" where
  "no_oom m \<longleftrightarrow> (\<forall>a. \<not> alloc_fails m a)"

lemma malloc_no_oom: "no_oom m \<Longrightarrow> 0 \<le> n \<Longrightarrow> malloc n m = (Some (brk m), m\<lparr>brk := Suc (brk m)\<rparr>)"
  by (simp add: malloc_def no_oom_def)

lemma no_oom_brk [simp]: "no_oom (m\<lparr>brk := b\<rparr>) = no_oom m"
  by (simp add: no_oom_def)

end
