(* ===== verification/KeyList.thy ===== *)
theory KeyList
  imports Prelude
begin

text \<open>
  The keyed list of \<open>src/app/sys/key_list.c\<close>: a null-terminated doubly linked list of
  nodes on the heap, each with an integer key and an opaque value pointer, new nodes at the front.
  The nodes live in an explicit store (the field \<open>nodes\<close> of the memory); the list header
  structure is reached through one pointer only and is passed by value.  The releaser stored in
  the list is a function on the memory.

  The second half abstracts a list to its sequence of \<open>(address, key, value)\<close> triples
  (\<open>key_list_ok\<close>), shows what every operation does to that sequence, and offers the result to
  clients as the interface \<open>keyed_store\<close>.
\<close>

section \<open>Data\<close>

record key_list_node =
  n_key :: int
  n_value :: ptr
  n_prev :: ptr
  n_next :: ptr

record kl_mem = mem +
  nodes :: "addr \<rightharpoonup> key_list_node"

record 'm key_list =
  count :: int
  header :: ptr
  releaser :: "ptr \<Rightarrow> 'm \<Rightarrow> 'm option"

section \<open>Access to nodes\<close>

definition load_node :: "ptr \<Rightarrow> 'x kl_mem_scheme \<Rightarrow> key_list_node option" where
  "load_node p s = Option.bind p (nodes s)"

definition store_node :: "ptr \<Rightarrow> (key_list_node \<Rightarrow> key_list_node) \<Rightarrow> 'x kl_mem_scheme \<Rightarrow>
    'x kl_mem_scheme option" where
  "store_node p f s = do {
     a \<leftarrow> p;
     n \<leftarrow> nodes s a;
     Some (s\<lparr>nodes := (nodes s)(a \<mapsto> f n)\<rparr>) }"

definition free_node :: "ptr \<Rightarrow> 'x kl_mem_scheme \<Rightarrow> 'x kl_mem_scheme option" where
  "free_node p s = (case p of
     None \<Rightarrow> Some s
   | Some a \<Rightarrow> (case nodes s a of
        None \<Rightarrow> None
      | Some _ \<Rightarrow> Some (s\<lparr>nodes := (nodes s)(a := None)\<rparr>)))"

section \<open>Operations\<close>

definition key_list_create :: "(ptr \<Rightarrow> 'x kl_mem_scheme \<Rightarrow> 'x kl_mem_scheme option) \<Rightarrow>
    'x kl_mem_scheme \<Rightarrow> ('x kl_mem_scheme key_list \<times> 'x kl_mem_scheme) option" where
  "key_list_create rel s = (case malloc 12 s of
     (None, s) \<Rightarrow> None
   | (Some _, s) \<Rightarrow> Some (\<lparr>count = 0, header = None, releaser = rel\<rparr>, s))"

partial_function (option) destroy_loop :: "(ptr \<Rightarrow> 'x kl_mem_scheme \<Rightarrow> 'x kl_mem_scheme option) \<Rightarrow>
    ptr \<Rightarrow> 'x kl_mem_scheme \<Rightarrow> 'x kl_mem_scheme option" where
  "destroy_loop rel current s = (if current = None then Some s else do {
     n \<leftarrow> load_node current s;
     let nxt = n_next n;
     s \<leftarrow> rel (n_value n) s;
     s \<leftarrow> free_node current s;
     destroy_loop rel nxt s })"

definition key_list_destroy :: "'x kl_mem_scheme key_list \<Rightarrow> 'x kl_mem_scheme \<Rightarrow>
    (int \<times> 'x kl_mem_scheme) option" where
  "key_list_destroy list s = do {
     s \<leftarrow> destroy_loop (releaser list) (header list) s;
     Some (0, s) }"

definition key_list_count :: "'m key_list \<Rightarrow> int" where
  "key_list_count list = count list"

partial_function (option) keyset_loop :: "ptr \<Rightarrow> nat \<Rightarrow> int list \<Rightarrow> 'x kl_mem_scheme \<Rightarrow>
    (nat \<times> int list) option" where
  "keyset_loop current i array s = (if current = None then Some (i, array) else do {
     n \<leftarrow> load_node current s;
     if i < length array then keyset_loop (n_next n) (Suc i) (array[i := n_key n]) s else None })"

definition key_list_keyset :: "'m key_list \<Rightarrow> int list \<Rightarrow> int \<Rightarrow> 'x kl_mem_scheme \<Rightarrow>
    (int \<times> int list) option" where
  "key_list_keyset list array array_size s =
     (if array_size < count list then Some (-1, array)
      else do {
        (i, array) \<leftarrow> keyset_loop (header list) 0 array s;
        Some (int i, array) })"

partial_function (option) get_node_loop :: "ptr \<Rightarrow> int \<Rightarrow> 'x kl_mem_scheme \<Rightarrow> ptr option" where
  "get_node_loop current key s = (if current = None then Some None else do {
     n \<leftarrow> load_node current s;
     if key = n_key n then Some current else get_node_loop (n_next n) key s })"

definition key_list_get_node :: "'m key_list \<Rightarrow> int \<Rightarrow> 'x kl_mem_scheme \<Rightarrow> ptr option" where
  "key_list_get_node list key s = get_node_loop (header list) key s"

definition key_list_remove_node :: "'x kl_mem_scheme key_list \<Rightarrow> ptr \<Rightarrow> 'x kl_mem_scheme \<Rightarrow>
    (int \<times> 'x kl_mem_scheme key_list \<times> 'x kl_mem_scheme) option" where
  "key_list_remove_node list node s = do {
     n \<leftarrow> load_node node s;
     (list, s) \<leftarrow> (if node = header list then Some (list\<lparr>header := n_next n\<rparr>, s)
        else do {
          s \<leftarrow> store_node (n_prev n) (\<lambda>p. p\<lparr>n_next := n_next n\<rparr>) s;
          Some (list, s) });
     n \<leftarrow> load_node node s;
     s \<leftarrow> (if n_next n \<noteq> None then store_node (n_next n) (\<lambda>p. p\<lparr>n_prev := n_prev n\<rparr>) s else Some s);
     n \<leftarrow> load_node node s;
     s \<leftarrow> releaser list (n_value n) s;
     s \<leftarrow> free_node node s;
     Some (0, list\<lparr>count := count list - 1\<rparr>, s) }"

definition key_list_find_key :: "'m key_list \<Rightarrow> int \<Rightarrow> 'x kl_mem_scheme \<Rightarrow> int option" where
  "key_list_find_key list key s = do {
     p \<leftarrow> key_list_get_node list key s;
     Some (if p \<noteq> None then 1 else 0) }"

definition key_list_add :: "'m key_list \<Rightarrow> int \<Rightarrow> ptr \<Rightarrow> 'x kl_mem_scheme \<Rightarrow>
    (int \<times> 'm key_list \<times> 'x kl_mem_scheme) option" where
  "key_list_add list key value s = do {
     found \<leftarrow> key_list_find_key list key s;
     if found \<noteq> 0 then Some (-1, list, s) else
     (case malloc 16 s of
        (None, s) \<Rightarrow> Some (-1, list, s)
      | (Some a, s) \<Rightarrow> do {
          let s = s\<lparr>nodes := (nodes s)(a \<mapsto>
                    \<lparr>n_key = key, n_value = value, n_prev = None, n_next = None\<rparr>)\<rparr>;
          s \<leftarrow> (if header list \<noteq> None then do {
                 s \<leftarrow> store_node (Some a) (\<lambda>n. n\<lparr>n_next := header list\<rparr>) s;
                 store_node (header list) (\<lambda>n. n\<lparr>n_prev := Some a\<rparr>) s }
               else Some s);
          Some (0, list\<lparr>header := Some a, count := count list + 1\<rparr>, s) }) }"

text \<open>The out-parameter of \<open>key_list_get\<close> is \<open>None\<close> when it is not written.\<close>

definition key_list_get :: "'m key_list \<Rightarrow> int \<Rightarrow> 'x kl_mem_scheme \<Rightarrow> (int \<times> ptr option) option" where
  "key_list_get list key s = do {
     node \<leftarrow> key_list_get_node list key s;
     if node = None then Some (-1, None) else do {
       n \<leftarrow> load_node node s;
       Some (0, Some (n_value n)) } }"

definition key_list_edit :: "'m key_list \<Rightarrow> int \<Rightarrow> ptr \<Rightarrow> 'x kl_mem_scheme \<Rightarrow>
    (int \<times> 'x kl_mem_scheme) option" where
  "key_list_edit list key value s = do {
     node \<leftarrow> key_list_get_node list key s;
     if node = None then Some (-1, s) else do {
       s \<leftarrow> store_node node (\<lambda>n. n\<lparr>n_value := value\<rparr>) s;
       Some (0, s) } }"

definition key_list_delete :: "'x kl_mem_scheme key_list \<Rightarrow> int \<Rightarrow> 'x kl_mem_scheme \<Rightarrow>
    (int \<times> 'x kl_mem_scheme key_list \<times> 'x kl_mem_scheme) option" where
  "key_list_delete list key s = do {
     node \<leftarrow> key_list_get_node list key s;
     if node = None then Some (-1, list, s) else key_list_remove_node list node s }"

section \<open>Abstraction\<close>

type_synonym entry = "addr \<times> int \<times> ptr"

text \<open>\<open>dlseg N pv p xs pv' p'\<close>: from \<open>p\<close> (whose predecessor is \<open>pv\<close>) the nodes \<open>xs\<close> follow
  each other, the last one is \<open>pv'\<close> and its successor is \<open>p'\<close>.\<close>

fun dlseg :: "(addr \<rightharpoonup> key_list_node) \<Rightarrow> ptr \<Rightarrow> ptr \<Rightarrow> entry list \<Rightarrow> ptr \<Rightarrow> ptr \<Rightarrow> bool" where
  "dlseg N pv p [] pv' p' = (pv' = pv \<and> p' = p)"
| "dlseg N pv p ((a, k, v) # xs) pv' p' = (p = Some a \<and> (case N a of
     None \<Rightarrow> False
   | Some n \<Rightarrow> n_key n = k \<and> n_value n = v \<and> n_prev n = pv \<and> dlseg N (Some a) (n_next n) xs pv' p'))"

abbreviation addrs :: "entry list \<Rightarrow> addr list" where
  "addrs \<equiv> map fst"

abbreviation keys :: "entry list \<Rightarrow> int list" where
  "keys xs \<equiv> map fst (map snd xs)"

definition last_ptr :: "ptr \<Rightarrow> entry list \<Rightarrow> ptr" where
  "last_ptr pv xs = (if xs = [] then pv else Some (fst (last xs)))"

definition key_list_ok :: "'m key_list \<Rightarrow> 'x kl_mem_scheme \<Rightarrow> entry list \<Rightarrow> bool" where
  "key_list_ok list s xs \<longleftrightarrow>
     dlseg (nodes s) None (header list) xs (last_ptr None xs) None \<and>
     distinct (addrs xs) \<and> distinct (keys xs) \<and> count list = int (length xs) \<and>
     (\<forall>a \<in> set (addrs xs). a < brk s)"

section \<open>Segments\<close>

lemmas kl_access = load_node_def store_node_def free_node_def

lemma dlseg_append:
  "dlseg N pv p (xs @ ys) pv' p' \<longleftrightarrow> (\<exists>q r. dlseg N pv p xs q r \<and> dlseg N q r ys pv' p')"
proof (induction xs arbitrary: pv p)
  case (Cons x xs)
  then show ?case by (cases x) (simp split: option.split)
qed simp

lemma dlseg_cong:
  "(\<And>a. a \<in> set (addrs xs) \<Longrightarrow> N a = N' a) \<Longrightarrow> dlseg N pv p xs pv' p' = dlseg N' pv p xs pv' p'"
  by (induction xs arbitrary: pv p) (auto split: option.splits)

lemma dlseg_frame [frames]:
  "a \<notin> set (addrs xs) \<Longrightarrow> dlseg (N(a := x)) pv p xs pv' p' = dlseg N pv p xs pv' p'"
  by (rule dlseg_cong) auto

lemma dlseg_last: "dlseg N pv p xs pv' p' \<Longrightarrow> pv' = last_ptr pv xs"
  by (induction xs arbitrary: pv p) (auto simp: last_ptr_def split: option.splits if_splits)

lemma dlseg_node:
  assumes "dlseg N pv p xs pv' p'" "(a, k, v) \<in> set xs"
  shows "\<exists>n. N a = Some n \<and> n_key n = k \<and> n_value n = v"
  using assms by (induction xs arbitrary: pv p) (auto split: option.splits)

text \<open>Relinking at either end of a segment.\<close>

lemma dlseg_set_next:
  assumes "dlseg N pv p (xs @ [(b, k, v)]) q r" "b \<notin> set (addrs xs)"
  obtains n where "N b = Some n"
    and "dlseg (N(b \<mapsto> n\<lparr>n_next := r'\<rparr>)) pv p (xs @ [(b, k, v)]) (Some b) r'"
  using assms by (auto simp: dlseg_append dlseg_frame split: option.splits)

lemma dlseg_set_prev:
  assumes "dlseg N pv p ((c, k, v) # ys) q r" "c \<notin> set (addrs ys)"
  obtains n where "N c = Some n" "p = Some c"
    and "dlseg (N(c \<mapsto> n\<lparr>n_prev := pv'\<rparr>)) pv' p ((c, k, v) # ys) q r"
  using assms by (auto simp: dlseg_frame split: option.splits)

section \<open>Searching\<close>

definition addr_of :: "entry list \<Rightarrow> int \<Rightarrow> ptr" where
  "addr_of xs = map_of (map (\<lambda>(a, k, v). (k, a)) xs)"

lemma addr_of_simps [simp]:
  "addr_of [] k = None"
  "addr_of ((a, j, v) # xs) k = (if k = j then Some a else addr_of xs k)"
  by (simp_all add: addr_of_def)

lemma addr_of_None: "addr_of xs k = None \<longleftrightarrow> k \<notin> set (keys xs)"
  by (simp add: addr_of_def map_of_eq_None_iff image_image case_prod_beta)

lemma addr_of_Some: "addr_of xs k = Some a \<Longrightarrow> \<exists>v. (a, k, v) \<in> set xs"
  by (induction xs) (auto split: if_splits)

lemma get_node_loop_dlseg:
  "dlseg (nodes s) pv p xs q None \<Longrightarrow> get_node_loop p key s = Some (addr_of xs key)"
  by (induction xs arbitrary: pv p)
     (auto simp: get_node_loop.simps load_node_def split: option.splits)

lemma key_list_okD:
  assumes "key_list_ok list s xs"
  shows "dlseg (nodes s) None (header list) xs (last_ptr None xs) None"
    and "distinct (addrs xs)" and "distinct (keys xs)" and "count list = int (length xs)"
    and "\<And>a. a \<in> set (addrs xs) \<Longrightarrow> a < brk s"
  using assms by (auto simp: key_list_ok_def)

lemma key_list_ok_frame [frames]:
  "key_list_ok list s xs \<Longrightarrow> nodes t = nodes s \<Longrightarrow> brk s \<le> brk t \<Longrightarrow> key_list_ok list t xs"
  by (fastforce simp: key_list_ok_def)

lemma get_node_ok:
  "key_list_ok list s xs \<Longrightarrow> key_list_get_node list key s = Some (addr_of xs key)"
  by (simp add: key_list_get_node_def get_node_loop_dlseg [OF key_list_okD(1)])

lemma find_key_ok:
  "key_list_ok list s xs \<Longrightarrow>
   key_list_find_key list key s = Some (if key \<in> set (keys xs) then 1 else 0)"
  using addr_of_None [of xs key]
  by (cases "addr_of xs key") (simp_all add: key_list_find_key_def get_node_ok)

lemma map_of_addr:
  assumes "distinct (keys xs)" "(a, k, v) \<in> set xs"
  shows "map_of (map snd xs) k = Some v" "addr_of xs k = Some a"
  using assms by (induction xs) force+

lemma get_ok:
  assumes ok: "key_list_ok list s xs"
  shows "key_list_get list key s = Some (case map_of (map snd xs) key of
     None \<Rightarrow> (-1, None) | Some v \<Rightarrow> (0, Some v))"
proof (cases "addr_of xs key")
  case None
  then have "map_of (map snd xs) key = None"
    by (simp add: addr_of_None map_of_eq_None_iff image_image)
  with None ok show ?thesis by (simp add: key_list_get_def get_node_ok)
next
  case (Some a)
  then obtain v where v: "(a, key, v) \<in> set xs" using addr_of_Some by blast
  from dlseg_node [OF key_list_okD(1) [OF ok] v] map_of_addr(1) [OF key_list_okD(3) [OF ok] v] Some ok
  show ?thesis by (auto simp: key_list_get_def get_node_ok load_node_def)
qed

section \<open>Adding\<close>

lemma add_dup:
  "key_list_ok list s xs \<Longrightarrow> key \<in> set (keys xs) \<Longrightarrow> key_list_add list key v s = Some (-1, list, s)"
  by (simp add: key_list_add_def find_key_ok)

lemma add_oom:
  "key_list_ok list s xs \<Longrightarrow> key \<notin> set (keys xs) \<Longrightarrow> alloc_fails s (brk s) \<Longrightarrow>
   key_list_add list key v s = Some (-1, list, s\<lparr>brk := Suc (brk s)\<rparr>)"
  by (simp add: key_list_add_def find_key_ok malloc_def)

text \<open>The memory after a successful insertion: a new node at the front, whose old first node
  points back to it.\<close>

definition add_nodes :: "(addr \<rightharpoonup> key_list_node) \<Rightarrow> addr \<Rightarrow> ptr \<Rightarrow> int \<Rightarrow> ptr \<Rightarrow> (addr \<rightharpoonup> key_list_node)" where
  "add_nodes N a first key v = (case first of
     None \<Rightarrow> N(a \<mapsto> \<lparr>n_key = key, n_value = v, n_prev = None, n_next = None\<rparr>)
   | Some h \<Rightarrow> N(a \<mapsto> \<lparr>n_key = key, n_value = v, n_prev = None, n_next = Some h\<rparr>,
                h \<mapsto> (the (N h))\<lparr>n_prev := Some a\<rparr>))"

lemma add_new:
  fixes v :: ptr
  assumes ok: "key_list_ok list s xs" and new: "key \<notin> set (keys xs)"
    and mem: "\<not> alloc_fails s (brk s)"
  defines "list' \<equiv> list\<lparr>header := Some (brk s), count := count list + 1\<rparr>"
    and "s' \<equiv> s\<lparr>brk := Suc (brk s), nodes := add_nodes (nodes s) (brk s) (header list) key v\<rparr>"
  shows "key_list_add list key v s = Some (0, list', s')"
    and "key_list_ok list' s' ((brk s, key, v) # xs)"
proof -
  note d = key_list_okD [OF ok]
  have fresh: "brk s \<notin> set (addrs xs)" using d(5) by blast
  have h: "\<exists>n. nodes s b = Some n" "b \<noteq> brk s" if "header list = Some b" for b
    using that d(1) fresh by (cases xs; auto split: option.splits)+
  show "key_list_add list key v s = Some (0, list', s')"
    using h by (cases "header list")
      (auto simp: key_list_add_def find_key_ok [OF ok] new [simplified] mem malloc_def store_node_def
        list'_def s'_def add_nodes_def)
  have "dlseg (add_nodes (nodes s) (brk s) (header list) key v) None (Some (brk s))
          ((brk s, key, v) # xs) (last_ptr None ((brk s, key, v) # xs)) None"
  proof (cases xs)
    case Nil
    with d(1) show ?thesis by (simp add: add_nodes_def last_ptr_def)
  next
    case (Cons x ys)
    obtain b k w where x: "x = (b, k, w)" by (cases x)
    with d(1,2) fresh Cons show ?thesis
      by (auto simp: add_nodes_def last_ptr_def dlseg_frame split: option.splits)
  qed
  then show "key_list_ok list' s' ((brk s, key, v) # xs)"
    using d(2-5) fresh new by (auto simp: key_list_ok_def list'_def s'_def less_Suc_eq)
qed

section \<open>Editing\<close>

lemma dlseg_edit:
  assumes "dlseg N pv p (xs @ (a, k, v) # ys) q r" "distinct (addrs (xs @ (a, k, v) # ys))"
  obtains n where "N a = Some n"
    and "dlseg (N(a \<mapsto> n\<lparr>n_value := w\<rparr>)) pv p (xs @ (a, k, w) # ys) q r"
  using assms by (auto simp: dlseg_append dlseg_frame split: option.splits)

lemma edit_ok:
  assumes ok: "key_list_ok list s (xs @ (a, key, v) # ys)"
  obtains s' where "key_list_edit list key w s = Some (0, s')"
    and "key_list_ok list s' (xs @ (a, key, w) # ys)"
    and "s' = s\<lparr>nodes := nodes s'\<rparr>"
proof -
  note d = key_list_okD [OF ok]
  obtain n where n: "nodes s a = Some n"
    "dlseg ((nodes s)(a \<mapsto> n\<lparr>n_value := w\<rparr>)) None (header list) (xs @ (a, key, w) # ys)
       (last_ptr None (xs @ (a, key, v) # ys)) None"
    using dlseg_edit [OF d(1,2)] by blast
  have "addr_of (xs @ (a, key, v) # ys) key = Some a"
    by (rule map_of_addr(2) [OF d(3), of a key v]) simp
  with n(1) have "key_list_edit list key w s =
      Some (0, s\<lparr>nodes := (nodes s)(a \<mapsto> n\<lparr>n_value := w\<rparr>)\<rparr>)"
    by (simp add: key_list_edit_def get_node_ok [OF ok] store_node_def)
  moreover have "key_list_ok list (s\<lparr>nodes := (nodes s)(a \<mapsto> n\<lparr>n_value := w\<rparr>)\<rparr>) (xs @ (a, key, w) # ys)"
    using n(2) d(2-5) by (auto simp: key_list_ok_def last_ptr_def)
  ultimately show thesis using that by simp
qed

lemma edit_absent:
  "key_list_ok list s xs \<Longrightarrow> key \<notin> set (keys xs) \<Longrightarrow> key_list_edit list key w s = Some (-1, s)"
  using addr_of_None [of xs key] by (simp add: key_list_edit_def get_node_ok)

section \<open>Removing\<close>

text \<open>Unlinking the node after \<open>xs\<close>: first the predecessor (or the header) skips it, then its
  successor points back to the predecessor.\<close>

definition unlink_next :: "(addr \<rightharpoonup> key_list_node) \<Rightarrow> entry list \<Rightarrow> ptr \<Rightarrow> (addr \<rightharpoonup> key_list_node)" where
  "unlink_next N xs r = (if xs = [] then N else
     let b = fst (last xs) in N(b \<mapsto> (the (N b))\<lparr>n_next := r\<rparr>))"

definition unlink_prev :: "(addr \<rightharpoonup> key_list_node) \<Rightarrow> ptr \<Rightarrow> ptr \<Rightarrow> (addr \<rightharpoonup> key_list_node)" where
  "unlink_prev N r pv = (case r of None \<Rightarrow> N | Some c \<Rightarrow> N(c \<mapsto> (the (N c))\<lparr>n_prev := pv\<rparr>))"

lemma unlink_next_other: "c \<notin> set (addrs xs) \<Longrightarrow> unlink_next N xs nx c = N c"
  by (auto simp: unlink_next_def Let_def)

lemma unlink_next_seg:
  assumes xs: "dlseg N None h xs pv (Some a)" and dist: "distinct (addrs xs)"
  shows "dlseg (unlink_next N xs nx) None (if xs = [] then nx else h) xs pv nx"
proof (cases xs rule: rev_cases)
  case (snoc zs z)
  obtain b j w where z: "z = (b, j, w)" by (cases z)
  have "b \<notin> set (addrs zs)" using dist snoc z by auto
  from dlseg_set_next [OF xs [unfolded snoc z] this, of nx] obtain m where "N b = Some m"
    "dlseg (N(b \<mapsto> m\<lparr>n_next := nx\<rparr>)) None h (zs @ [(b, j, w)]) (Some b) nx" .
  then show ?thesis using dlseg_last [OF xs] by (simp add: unlink_next_def last_ptr_def snoc z)
qed (use dlseg_last [OF xs] in \<open>simp add: unlink_next_def last_ptr_def\<close>)

lemma unlink_prev_seg:
  assumes ys: "dlseg M (Some a) nx ys q None" and dist: "distinct (addrs ys)"
  shows "dlseg (unlink_prev M nx pv) pv nx ys (last_ptr pv ys) None \<and> (\<forall>c. c \<notin> set (addrs ys) \<longrightarrow> unlink_prev M nx pv c = M c)"
proof (cases ys)
  case Nil
  with ys show ?thesis by (auto simp: unlink_prev_def last_ptr_def)
next
  case (Cons y zs)
  obtain c j w where y: "y = (c, j, w)" by (cases y)
  have "c \<notin> set (addrs zs)" using dist Cons y by auto
  from dlseg_set_prev [OF ys [unfolded Cons y] this, of pv] obtain m where m: "M c = Some m" "nx = Some c"
    "dlseg (M(c \<mapsto> m\<lparr>n_prev := pv\<rparr>)) pv nx ((c, j, w) # zs) q None" .
  with dlseg_last [OF m(3)] show ?thesis by (simp add: unlink_prev_def Cons y)
qed

lemma unlink_seg:
  assumes seg: "dlseg N None h (xs @ (a, k, v) # ys) q None"
    and dist: "distinct (addrs (xs @ (a, k, v) # ys))"
  obtains n where "N a = Some n" "n_value n = v" "n_prev n = last_ptr None xs"
    and "(unlink_prev (unlink_next N xs (n_next n)) (n_next n) (n_prev n)) a = Some n"
    and "dlseg (unlink_prev (unlink_next N xs (n_next n)) (n_next n) (n_prev n)) None
           (if xs = [] then n_next n else h) (xs @ ys) (last_ptr None (xs @ ys)) None"
proof -
  from seg obtain pv n where n: "N a = Some n" "n_value n = v" "n_prev n = pv"
    and xs: "dlseg N None h xs pv (Some a)" and ys: "dlseg N (Some a) (n_next n) ys q None"
    by (auto simp: dlseg_append split: option.splits)
  have pv: "pv = last_ptr None xs" by (rule dlseg_last [OF xs])
  from dist have d: "distinct (addrs xs)" "distinct (addrs ys)" by auto
  let ?M = "unlink_next N xs (n_next n)"
  let ?P = "unlink_prev ?M (n_next n) pv"
  have disj: "c \<notin> set (addrs xs)" if "c \<in> set (addrs ys)" for c using that dist by auto
  have "dlseg ?M (Some a) (n_next n) ys q None = dlseg N (Some a) (n_next n) ys q None"
    by (rule dlseg_cong) (rule unlink_next_other [OF disj])
  with ys have "dlseg ?M (Some a) (n_next n) ys q None" by simp
  note P = unlink_prev_seg [OF this d(2), of pv]
  have "dlseg ?P None (if xs = [] then n_next n else h) xs pv (n_next n) =
        dlseg ?M None (if xs = [] then n_next n else h) xs pv (n_next n)"
    by (rule dlseg_cong) (use P disj in blast)
  with P unlink_next_seg [OF xs d(1)] have "dlseg ?P None (if xs = [] then n_next n else h) (xs @ ys) (last_ptr pv ys) None"
    unfolding dlseg_append by blast
  moreover have "last_ptr pv ys = last_ptr None (xs @ ys)" by (simp add: pv last_ptr_def)
  moreover have "?P a = Some n" using P unlink_next_other [of a xs N] n dist by auto
  ultimately show thesis using n pv that by metis
qed

text \<open>The two writes of \<open>key_list_remove_node\<close>, each only when there is a neighbour.\<close>

lemma relink_next:
  assumes "dlseg (nodes s) None h (xs @ (a, k, v) # ys) q None" "nodes s a = Some n" "M = unlink_next (nodes s) xs (n_next n)"
  shows "(if n_next n \<noteq> None then store_node (n_next n) (\<lambda>p. p\<lparr>n_prev := pv\<rparr>) (s\<lparr>nodes := M\<rparr>) else Some (s\<lparr>nodes := M\<rparr>)) =
    Some (s\<lparr>nodes := unlink_prev M (n_next n) pv\<rparr>)"
proof (cases "n_next n")
  case None
  then show ?thesis by (simp add: unlink_prev_def)
next
  case (Some c)
  with assms(1,2) obtain y zs where ys: "ys = y # zs" "fst y = c" by (cases ys) (auto simp: dlseg_append split: option.splits)
  have "nodes s c \<noteq> None" using assms(1) ys by (cases y) (auto simp: dlseg_append split: option.splits)
  then have "M c \<noteq> None" by (auto simp: assms(3) unlink_next_def Let_def)
  with Some show ?thesis by (auto simp: store_node_def unlink_prev_def)
qed

lemma relink_prev:
  assumes "dlseg (nodes s) None h (xs @ (a, k, v) # ys) q None" "xs \<noteq> []"
  shows "store_node (last_ptr None xs) (\<lambda>p. p\<lparr>n_next := nx\<rparr>) s = Some (s\<lparr>nodes := unlink_next (nodes s) xs nx\<rparr>)"
  using assms by (cases xs rule: rev_cases)
    (auto simp: store_node_def unlink_next_def last_ptr_def dlseg_append split: option.splits)

lemma remove_node_ok:
  assumes ok: "key_list_ok list s (xs @ (a, k, v) # ys)"
  obtains N hd' where
    "key_list_remove_node list (Some a) s = do {
       t \<leftarrow> releaser list v (s\<lparr>nodes := N\<rparr>);
       t \<leftarrow> free_node (Some a) t;
       Some (0, list\<lparr>header := hd', count := count list - 1\<rparr>, t) }"
    and "a \<in> dom N"
    and "key_list_ok (list\<lparr>header := hd', count := count list - 1\<rparr>) (s\<lparr>nodes := N(a := None)\<rparr>) (xs @ ys)"
proof -
  note d = key_list_okD [OF ok]
  obtain n where n: "nodes s a = Some n" "n_value n = v" "n_prev n = last_ptr None xs"
    and a: "(unlink_prev (unlink_next (nodes s) xs (n_next n)) (n_next n) (n_prev n)) a = Some n"
    and seg: "dlseg (unlink_prev (unlink_next (nodes s) xs (n_next n)) (n_next n) (n_prev n)) None
       (if xs = [] then n_next n else header list) (xs @ ys) (last_ptr None (xs @ ys)) None"
    using unlink_seg [OF d(1,2)] by metis
  define M where "M = unlink_next (nodes s) xs (n_next n)"
  define P where "P = unlink_prev M (n_next n) (n_prev n)"
  note a = a [folded M_def, folded P_def] and seg = seg [folded M_def, folded P_def]
  note relink = relink_next [OF d(1) n(1) M_def, of "n_prev n", folded P_def]
  let ?hd = "if xs = [] then n_next n else header list"
  have hd_eq: "Some a = header list \<longleftrightarrow> xs = []" using d(1,2) by (cases xs) (auto split: option.splits)
  have M_a: "M a = Some n" using n(1) d(2) by (simp add: M_def unlink_next_other)
  have "key_list_remove_node list (Some a) s = do {
       t \<leftarrow> releaser list v (s\<lparr>nodes := P\<rparr>);
       t \<leftarrow> free_node (Some a) t;
       Some (0, list\<lparr>header := ?hd, count := count list - 1\<rparr>, t) }"
  proof (cases "xs = []")
    case True
    then have "s\<lparr>nodes := M\<rparr> = s" by (simp add: M_def unlink_next_def)
    note relink [unfolded this]
    with True n(1,2) a show ?thesis by (simp add: key_list_remove_node_def load_node_def hd_eq)
  next
    case False
    with n a M_a relink relink_prev [OF d(1) False, of "n_next n", folded M_def] show ?thesis
      by (simp add: key_list_remove_node_def load_node_def hd_eq)
  qed
  moreover have "key_list_ok (list\<lparr>header := ?hd, count := count list - 1\<rparr>) (s\<lparr>nodes := P(a := None)\<rparr>) (xs @ ys)"
    using seg d(2-5) by (auto simp: key_list_ok_def dlseg_frame)
  ultimately show thesis using a that by blast
qed

lemma delete_absent:
  "key_list_ok list s xs \<Longrightarrow> key \<notin> set (keys xs) \<Longrightarrow> key_list_delete list key s = Some (-1, list, s)"
  using addr_of_None [of xs key] by (simp add: key_list_delete_def get_node_ok)

section \<open>Enumerating the keys\<close>

lemma keyset_loop_dlseg:
  "dlseg (nodes s) pv p xs q None \<Longrightarrow> i + length xs \<le> length array \<Longrightarrow>
   keyset_loop p i array s =
     Some (i + length xs, take i array @ keys xs @ drop (i + length xs) array)"
proof (induction xs arbitrary: pv p i array)
  case Nil
  then show ?case by (simp add: keyset_loop.simps)
next
  case (Cons x xs)
  obtain a k v where x: "x = (a, k, v)" by (cases x)
  from Cons.prems x obtain n where n: "p = Some a" "nodes s a = Some n" "n_key n = k"
    "dlseg (nodes s) (Some a) (n_next n) xs q None"
    by (auto split: option.splits)
  have "keyset_loop (n_next n) (Suc i) (array[i := k]) s =
      Some (Suc i + length xs, take (Suc i) (array[i := k]) @ keys xs @ drop (Suc i + length xs) (array[i := k]))"
    by (rule Cons.IH [OF n(4)]) (use Cons.prems(2) in simp)
  with n Cons.prems(2) x show ?case
    by (simp add: keyset_loop.simps [of "Some a"] load_node_def take_Suc_conv_app_nth)
qed

section \<open>Releasing values\<close>

fun release_values :: "(ptr \<Rightarrow> 'm \<Rightarrow> 'm option) \<Rightarrow> ptr list \<Rightarrow> 'm \<Rightarrow> 'm option" where
  "release_values rel [] s = Some s"
| "release_values rel (v # vs) s = Option.bind (rel v s) (release_values rel vs)"

text \<open>What the list expects of the releaser it is created with: it neither touches nor depends on
  the list's own nodes.\<close>

locale value_releaser =
  fixes rel :: "ptr \<Rightarrow> 'x kl_mem_scheme \<Rightarrow> 'x kl_mem_scheme option"
  assumes rel_brk: "rel v s = Some t \<Longrightarrow> brk t = brk s"
    and rel_nodes: "rel v s = Some t \<Longrightarrow> nodes t = nodes s"
    and rel_indep: "rel v (s\<lparr>nodes := N\<rparr>) = map_option (\<lambda>t. t\<lparr>nodes := N\<rparr>) (rel v s)"
begin

lemma release_values_indep:
  "release_values rel vs (s\<lparr>nodes := N\<rparr>) = map_option (\<lambda>t. t\<lparr>nodes := N\<rparr>) (release_values rel vs s)"
proof (induction vs arbitrary: s)
  case (Cons v vs)
  then show ?case by (cases "rel v s") (simp_all add: rel_indep)
qed simp

lemma delete_present:
  assumes ok: "key_list_ok list s (xs @ (a, k, v) # ys)" and rel: "releaser list = rel"
    and t: "rel v s = Some t"
  obtains list' N where "key_list_delete list k s = Some (0, list', t\<lparr>nodes := N\<rparr>)"
    and "key_list_ok list' (t\<lparr>nodes := N\<rparr>) (xs @ ys)" and "N a = None"
proof -
  from remove_node_ok [OF ok] obtain M hd' where
    M: "key_list_remove_node list (Some a) s = do {
       t \<leftarrow> releaser list v (s\<lparr>nodes := M\<rparr>);
       t \<leftarrow> free_node (Some a) t;
       Some (0, list\<lparr>header := hd', count := count list - 1\<rparr>, t) }"
    and a: "a \<in> dom M"
    and ok': "key_list_ok (list\<lparr>header := hd', count := count list - 1\<rparr>) (s\<lparr>nodes := M(a := None)\<rparr>) (xs @ ys)" .
  have "addr_of (xs @ (a, k, v) # ys) k = Some a"
    by (rule map_of_addr(2) [OF key_list_okD(3) [OF ok], of a k v]) simp
  with M a t rel have del: "key_list_delete list k s =
      Some (0, list\<lparr>header := hd', count := count list - 1\<rparr>, t\<lparr>nodes := M(a := None)\<rparr>)"
    by (auto simp: key_list_delete_def get_node_ok [OF ok] rel_indep free_node_def)
  have "key_list_ok (list\<lparr>header := hd', count := count list - 1\<rparr>) (t\<lparr>nodes := M(a := None)\<rparr>) (xs @ ys)"
    using ok' rel_brk [OF t] by (simp add: key_list_ok_def)
  with del show thesis by (rule that) simp
qed

lemma destroy_loop_dlseg:
  "dlseg (nodes s) pv p xs q None \<Longrightarrow> distinct (addrs xs) \<Longrightarrow>
   destroy_loop rel p s = map_option (\<lambda>t. t\<lparr>nodes := nodes s |` (- set (addrs xs))\<rparr>)
     (release_values rel (map (snd \<circ> snd) xs) s)"
proof (induction xs arbitrary: s pv p)
  case Nil
  then show ?case by (simp add: destroy_loop.simps restrict_map_def)
next
  case (Cons x xs)
  obtain a k v where x: "x = (a, k, v)" by (cases x)
  from Cons.prems x obtain n where n: "p = Some a" "nodes s a = Some n" "n_value n = v"
    "dlseg (nodes s) (Some a) (n_next n) xs q None"
    by (auto split: option.splits)
  show ?case
  proof (cases "rel v s")
    case None
    with n show ?thesis by (simp add: destroy_loop.simps [of _ "Some a"] load_node_def x)
  next
    case (Some t)
    have nodes_t: "nodes t = nodes s" by (rule rel_nodes [OF Some])
    define N where "N = (nodes s)(a := None)"
    have step: "destroy_loop rel p s = destroy_loop rel (n_next n) (t\<lparr>nodes := N\<rparr>)"
      using n Some nodes_t
      by (simp add: destroy_loop.simps [of _ "Some a"] load_node_def free_node_def N_def)
    have a: "a \<notin> set (addrs xs)" using Cons.prems(2) x by simp
    then have seg: "dlseg N (Some a) (n_next n) xs q None"
      unfolding N_def using n(4) by (subst dlseg_frame)
    have N: "N |` (- set (addrs xs)) = nodes s |` (- set (addrs (x # xs)))"
      using a by (auto simp: N_def x restrict_map_def fun_eq_iff)
    have "destroy_loop rel (n_next n) (t\<lparr>nodes := N\<rparr>) =
        map_option (\<lambda>u. u\<lparr>nodes := N |` (- set (addrs xs))\<rparr>)
          (release_values rel (map (snd \<circ> snd) xs) (t\<lparr>nodes := N\<rparr>))"
      using Cons.IH [of "t\<lparr>nodes := N\<rparr>" "Some a" "n_next n"] seg Cons.prems(2)
      by (simp add: comp_def)
    also have "\<dots> = map_option (\<lambda>u. u\<lparr>nodes := N |` (- set (addrs xs))\<rparr>)
        (release_values rel (map (snd \<circ> snd) xs) t)"
      by (simp add: release_values_indep option.map_comp comp_def)
    finally show ?thesis unfolding step N by (simp add: x Some comp_def)
  qed
qed

end

section \<open>The interface of a keyed store\<close>

text \<open>
  What a client of the list relies on: the store represents a sequence of distinct keys with their
  values, newest first; adding a key that is present fails and changes nothing; adding a new key
  puts it in front, provided memory is left; looking a key up gives its value.
\<close>

locale keyed_store =
  fixes rep :: "'s \<Rightarrow> (int \<times> ptr) list \<Rightarrow> bool"
    and mem_ok :: "'s \<Rightarrow> bool"
    and add :: "int \<Rightarrow> ptr \<Rightarrow> 's \<Rightarrow> (int \<times> 's) option"
    and get :: "int \<Rightarrow> 's \<Rightarrow> (int \<times> ptr option) option"
  assumes rep_distinct: "rep s es \<Longrightarrow> distinct (map fst es)"
    and add_present: "rep s es \<Longrightarrow> k \<in> fst ` set es \<Longrightarrow> add k v s = Some (-1, s)"
    and add_absent: "rep s es \<Longrightarrow> mem_ok s \<Longrightarrow> k \<notin> fst ` set es \<Longrightarrow>
      \<exists>s'. add k v s = Some (0, s') \<and> rep s' ((k, v) # es) \<and> mem_ok s'"
    and get_rep: "rep s es \<Longrightarrow> get k s = Some (case map_of es k of
      None \<Rightarrow> (-1, None) | Some v \<Rightarrow> (0, Some v))"
begin

text \<open>A sequence of insertions, as a client's loop performs it: the results of the single
  calls are ignored, so the first value of a key stays.\<close>

fun add_all :: "(int \<times> ptr) list \<Rightarrow> 's \<Rightarrow> 's option" where
  "add_all [] s = Some s"
| "add_all ((k, v) # kvs) s = Option.bind (add k v s) (\<lambda>(_, s'). add_all kvs s')"

lemma add_all_rep:
  assumes "rep s es" "mem_ok s"
  shows "\<exists>s' es'. add_all kvs s = Some s' \<and> rep s' es' \<and> mem_ok s' \<and>
     map_of es' = map_of kvs ++ map_of es"
  using assms
proof (induction kvs arbitrary: s es)
  case Nil
  then show ?case by auto
next
  case (Cons kv kvs)
  obtain k v where kv: "kv = (k, v)" by (cases kv)
  show ?case
  proof (cases "k \<in> fst ` set es")
    case True
    then have ext: "map_of es k \<noteq> None" by (simp add: map_of_eq_None_iff)
    from Cons.IH [OF Cons.prems] obtain s' es' where IH:
      "add_all kvs s = Some s'" "rep s' es'" "mem_ok s'" "map_of es' = map_of kvs ++ map_of es" by blast
    from IH(4) ext have "map_of es' = map_of (kv # kvs) ++ map_of es"
      by (auto simp: kv map_add_def fun_eq_iff split: option.splits)
    moreover have "add_all (kv # kvs) s = Some s'"
      using IH(1) True Cons.prems(1) by (simp add: kv add_present)
    ultimately show ?thesis using IH(2,3) by blast
  next
    case False
    from add_absent [OF Cons.prems False] obtain t where t:
      "add k v s = Some (0, t)" "rep t ((k, v) # es)" "mem_ok t" by blast
    from Cons.IH [OF t(2,3)] obtain s' es' where IH:
      "add_all kvs t = Some s'" "rep s' es'" "mem_ok s'" "map_of es' = map_of kvs ++ map_of ((k, v) # es)"
      by blast
    have "map_of es k = None" using False by (simp add: map_of_eq_None_iff)
    with IH(4) have "map_of es' = map_of (kv # kvs) ++ map_of es"
      by (auto simp: kv map_add_def fun_eq_iff split: option.splits)
    moreover have "add_all (kv # kvs) s = Some s'"
      using IH(1) t(1) by (simp add: kv)
    ultimately show ?thesis using IH(2,3) by blast
  qed
qed

end

definition kl_rep :: "'m key_list \<times> 'x kl_mem_scheme \<Rightarrow> (int \<times> ptr) list \<Rightarrow> bool" where
  "kl_rep = (\<lambda>(list, s) es. \<exists>xs. key_list_ok list s xs \<and> map snd xs = es)"

interpretation kl: keyed_store kl_rep "\<lambda>(list, s). no_oom s"
  "\<lambda>k v (list, s). key_list_add list k v s" "\<lambda>k (list, s). key_list_get list k s"
proof (unfold_locales, goal_cases)
  case (1 s es)
  then show ?case by (auto simp: kl_rep_def dest: key_list_okD(3))
next
  case (2 s es k v)
  then obtain list m xs where "s = (list, m)" "key_list_ok list m xs" "map snd xs = es"
    by (auto simp: kl_rep_def)
  with 2 add_dup [of list m xs k v] show ?case by auto
next
  case (3 s es k v)
  obtain list m where s: "s = (list, m)" by (cases s)
  from 3 s obtain xs where xs: "key_list_ok list m xs" "map snd xs = es" "no_oom m"
    by (auto simp: kl_rep_def)
  have "k \<notin> set (keys xs)" using 3 xs(2) by auto
  moreover have "\<not> alloc_fails m (brk m)" using xs(3) by (simp add: no_oom_def)
  ultimately have "key_list_add list k v m = Some (0, list\<lparr>header := Some (brk m), count := count list + 1\<rparr>,
      m\<lparr>brk := Suc (brk m), nodes := add_nodes (nodes m) (brk m) (header list) k v\<rparr>) \<and>
    key_list_ok (list\<lparr>header := Some (brk m), count := count list + 1\<rparr>)
      (m\<lparr>brk := Suc (brk m), nodes := add_nodes (nodes m) (brk m) (header list) k v\<rparr>) ((brk m, k, v) # xs)"
    using add_new [OF xs(1)] by blast
  with xs show ?case by (fastforce simp: s kl_rep_def no_oom_def)
next
  case (4 s es k)
  then show ?case by (auto simp: kl_rep_def get_ok)
qed

section \<open>Properties\<close>

text \<open>C22: adding a key to a well-formed list always returns; it succeeds exactly when the key is
  absent and a node can be allocated, and then the new entry is the first one; otherwise it returns
  -1 and the list keeps its entries.  The result is well formed in every case.\<close>

theorem key_list_add_total:
  assumes "key_list_ok list s xs"
  shows "\<exists>r list' s' xs'. key_list_add list key v s = Some (r, list', s') \<and> key_list_ok list' s' xs' \<and>
     (if key \<in> set (keys xs) \<or> alloc_fails s (brk s) then r = -1 \<and> list' = list \<and> xs' = xs
      else r = 0 \<and> xs' = (brk s, key, v) # xs)"
proof -
  consider (dup) "key \<in> set (keys xs)" | (oom) "key \<notin> set (keys xs)" "alloc_fails s (brk s)"
    | (new) "key \<notin> set (keys xs)" "\<not> alloc_fails s (brk s)" by blast
  then show ?thesis
  proof cases
    case dup
    then show ?thesis using assms by (auto simp: add_dup)
  next
    case oom
    have "key_list_ok list (s\<lparr>brk := Suc (brk s)\<rparr>) xs"
      using assms by (auto simp: key_list_ok_def)
    then show ?thesis using oom add_oom [OF assms oom] by auto
  next
    case new
    then show ?thesis using add_new [OF assms new, of v] by auto
  qed
qed

definition kl_mem0 :: kl_mem where
  "kl_mem0 = \<lparr>brk = 1, alloc_fails = (\<lambda>a. a = 3), junk = (\<lambda>_ _. 0), nodes = Map.empty\<rparr>"

definition kl_empty :: "'m key_list" where
  "kl_empty = \<lparr>count = 0, header = None, releaser = (\<lambda>_ s. Some s)\<rparr>"

lemma kl_empty_ok: "key_list_ok kl_empty s []"
  by (simp add: key_list_ok_def kl_empty_def last_ptr_def)

theorem key_list_add_total_witness:
  "key_list_ok (kl_empty :: kl_mem key_list) kl_mem0 [] \<and>
   (\<exists>r list' s' xs'. key_list_add (kl_empty :: kl_mem key_list) 5 (Some 9) kl_mem0 = Some (r, list', s') \<and>
      key_list_ok list' s' xs' \<and> r = 0 \<and> xs' = [(1, 5, Some 9)])"
  using key_list_add_total [OF kl_empty_ok [of kl_mem0], of 5 "Some 9"] kl_empty_ok [of kl_mem0]
  by (auto simp: kl_mem0_def)

text \<open>C21: after any sequence of insertions into a well-formed list, with memory left, a lookup
  gives the value the key had before if it was present, else the value of its first insertion, and fails
  for a key that is in neither.\<close>

theorem key_list_insert_lookup:
  assumes "key_list_ok list s xs" "no_oom s"
  shows "\<exists>list' s'. kl.add_all kvs (list, s) = Some (list', s') \<and>
    (\<forall>k. key_list_get list' k s' = Some (case (map_of kvs ++ map_of (map snd xs)) k of
        None \<Rightarrow> (-1, None) | Some v \<Rightarrow> (0, Some v)))"
proof -
  have "kl_rep (list, s) (map snd xs)" using assms(1) by (auto simp: kl_rep_def)
  from kl.add_all_rep [OF this, of kvs] assms(2)
  obtain list' s' es' where *: "kl.add_all kvs (list, s) = Some (list', s')" "kl_rep (list', s') es'"
    "map_of es' = map_of kvs ++ map_of (map snd xs)" by auto
  with kl.get_rep [OF *(2)] show ?thesis by auto
qed

theorem key_list_insert_lookup_witness:
  "\<exists>list' s'. kl.add_all [(5, Some 9), (5, Some 8)] (kl_empty :: kl_mem key_list, kl_mem0\<lparr>alloc_fails := \<lambda>_. False\<rparr>) =
      Some (list', s') \<and> key_list_get list' 5 s' = Some (0, Some (Some 9)) \<and>
      key_list_get list' 6 s' = Some (-1, None)"
proof -
  let ?s = "kl_mem0\<lparr>alloc_fails := \<lambda>_. False\<rparr>"
  have "no_oom ?s" by (simp add: no_oom_def)
  from key_list_insert_lookup [of "kl_empty :: kl_mem key_list", OF kl_empty_ok this, of "[(5, Some 9), (5, Some 8)]"]
  obtain list' s' where add: "kl.add_all [(5, Some 9), (5, Some 8)] (kl_empty :: kl_mem key_list, ?s) = Some (list', s')"
    and get: "\<forall>k. key_list_get list' k s' = Some (case (map_of [(5, Some 9), (5, Some 8)] ++ map_of (map snd ([] :: entry list))) k of
        None \<Rightarrow> (-1, None) | Some v \<Rightarrow> (0, Some v))" by blast
  have "key_list_get list' 5 s' = Some (0, Some (Some 9))" "key_list_get list' 6 s' = Some (-1, None)"
    using get by simp_all
  with add show ?thesis by blast
qed

text \<open>C25: deletion.  When the releaser accepts the values of the list and leaves the nodes alone,
  \<open>key_list_delete\<close> always returns: it removes the entry of the key, keeping the order and the
  well-formedness of the rest, calls the releaser on that entry's value only and frees its node; for an
  absent key it returns \<open>-1\<close> and changes nothing.\<close>

theorem key_list_delete_total:
  assumes rel: "value_releaser (releaser list)" and ok: "key_list_ok list s xs"
    and frees: "\<forall>(a, k, v) \<in> set xs. releaser list v s \<noteq> None"
  shows "if key \<in> set (keys xs) then
      \<exists>list' t N. key_list_delete list key s = Some (0, list', t\<lparr>nodes := N\<rparr>) \<and>
        releaser list (the (map_of (map snd xs) key)) s = Some t \<and>
        N (the (addr_of xs key)) = None \<and>
        key_list_ok list' (t\<lparr>nodes := N\<rparr>) (filter (\<lambda>(a, k, v). k \<noteq> key) xs)
    else key_list_delete list key s = Some (-1, list, s)"
proof (cases "key \<in> set (keys xs)")
  case True
  then obtain a v where "(a, key, v) \<in> set xs" by auto
  then obtain ys zs where xs: "xs = ys @ (a, key, v) # zs" by (auto simp: in_set_conv_decomp)
  note d = key_list_okD(3) [OF ok]
  have here: "map_of (map snd xs) key = Some v" "addr_of xs key = Some a"
    using map_of_addr [OF d, of a key v] xs by auto
  have rest: "filter (\<lambda>(a, k, v). k \<noteq> key) xs = ys @ zs"
  proof -
    have "key \<notin> set (keys ys)" "key \<notin> set (keys zs)" using d by (simp_all add: xs)
    then have "filter (\<lambda>(a, k, v). k \<noteq> key) ys = ys" "filter (\<lambda>(a, k, v). k \<noteq> key) zs = zs"
      by (intro filter_True; force simp: image_iff)+
    then show ?thesis by (simp add: xs)
  qed
  from frees xs obtain t where t: "releaser list v s = Some t" by auto
  from value_releaser.delete_present [OF rel ok [unfolded xs] refl t] obtain list' N where
    "key_list_delete list key s = Some (0, list', t\<lparr>nodes := N\<rparr>)"
    "key_list_ok list' (t\<lparr>nodes := N\<rparr>) (ys @ zs)" "N a = None" .
  with True here rest t show ?thesis by auto
next
  case False
  then show ?thesis using delete_absent [OF ok] by simp
qed

lemma value_releaser_trivial: "value_releaser (\<lambda>_ s. Some s)"
  by unfold_locales auto

theorem key_list_delete_total_witness:
  "\<exists>list s. key_list_ok list (s :: kl_mem) [(1, 5, Some 9)] \<and>
     (\<exists>list' t N. key_list_delete list 5 s = Some (0, list', t\<lparr>nodes := N\<rparr>) \<and> N 1 = None \<and>
        key_list_ok list' (t\<lparr>nodes := N\<rparr>) []) \<and>
     key_list_delete list 6 s = Some (-1, list, s)"
proof -
  have "\<not> alloc_fails kl_mem0 (brk kl_mem0)" by (simp add: kl_mem0_def)
  note add = add_new(2) [OF kl_empty_ok [of kl_mem0], of 5, OF _ this, of "Some 9"]
  define l where "l = (kl_empty :: kl_mem key_list)\<lparr>header := Some (brk kl_mem0), count := count (kl_empty :: kl_mem key_list) + 1\<rparr>"
  define s where "s = kl_mem0\<lparr>brk := Suc (brk kl_mem0),
    nodes := add_nodes (nodes kl_mem0) (brk kl_mem0) (header (kl_empty :: kl_mem key_list)) 5 (Some 9)\<rparr>"
  have ok: "key_list_ok l s [(1, 5, Some 9)]" using add by (simp add: l_def s_def kl_mem0_def)
  have rel: "releaser l = (\<lambda>_ s. Some s)" by (simp add: l_def kl_empty_def)
  from key_list_delete_total [of l s "[(1, 5, Some 9)]" 5] key_list_delete_total [of l s "[(1, 5, Some 9)]" 6]
    ok rel value_releaser_trivial show ?thesis by (intro exI [of _ l] exI [of _ s]) auto
qed

text \<open>\<open>key_list_keyset\<close> fills the caller's array with the keys of a well-formed list in order and returns
  their number when the announced size covers the list; it returns \<open>-1\<close> and leaves the array alone
  when the announced size is too small.  It never writes past an array of the announced size.\<close>

lemma key_list_keyset_total:
  assumes ok: "key_list_ok list s xs" and "n \<le> int (length array)"
  shows "key_list_keyset list array n s =
    (if n < int (length xs) then Some (-1, array)
     else Some (int (length xs), keys xs @ drop (length xs) array))"
  using assms keyset_loop_dlseg [OF key_list_okD(1) [OF ok], of 0 array] key_list_okD(4) [OF ok]
  by (simp add: key_list_keyset_def)

lemma key_list_keyset_total_witness:
  "key_list_keyset (kl_empty :: kl_mem key_list) [1, 2] 1 kl_mem0 = Some (0, [1, 2])"
  using key_list_keyset_total [OF kl_empty_ok [of kl_mem0], of 1 "[1, 2]"] by simp

end
