(* ===== verification/TlvBox.thy ===== *)
theory TlvBox
  imports KeyList
begin

text \<open>
  The type-length-value container of \<open>src/app/sys/tlv_box.c\<close>: a keyed list of
  heap-allocated items that can be serialized into one network-order byte buffer and parsed back.
  The memory extends that of the keyed list with the \<open>tlv_t\<close> structures and the byte blocks;
  every \<open>malloc\<close>, \<open>memcpy\<close> and \<open>free\<close> of the source is a step on it, so leaks, double
  frees and reads or writes outside a block are visible.  A \<open>void *\<close> argument that is only read
  is the list of bytes readable from it.  The functions that move integers between memory and values
  take the byte order of the machine.
\<close>

section \<open>Data\<close>

datatype TLV_DATA_TYPE =
    TLV_DATA_TYPE_CHAR | TLV_DATA_TYPE_SHORT | TLV_DATA_TYPE_INT | TLV_DATA_TYPE_LONG
  | TLV_DATA_TYPE_FLOAT | TLV_DATA_TYPE_DOUBLE | TLV_DATA_TYPE_LONGLONG | TLV_DATA_TYPE_BYTES
  | TLV_DATA_TYPE_STRING | TLV_DATA_TYPE_OBJECT | TLV_DATA_TYPE_COUNT

record tlv =
  t_type :: short
  t_length :: short
  t_value :: ptr
  t_data_type :: TLV_DATA_TYPE

record tlv_mem = kl_mem +
  tlvs :: "addr \<rightharpoonup> tlv"
  bufs :: "addr \<rightharpoonup> byte list"

record tlv_box =
  m_list :: "tlv_mem key_list"
  m_serialized_buffer :: ptr
  m_serialized_bytes :: int

section \<open>Memory access\<close>

text \<open>The bytes readable at a pointer to the start of a block; none at a null or dangling one.\<close>

definition bytes_at :: "ptr \<Rightarrow> tlv_mem \<Rightarrow> byte list" where
  "bytes_at p s = (case Option.bind p (bufs s) of None \<Rightarrow> [] | Some bs \<Rightarrow> bs)"

definition free_buf :: "ptr \<Rightarrow> tlv_mem \<Rightarrow> tlv_mem option" where
  "free_buf p s = (case p of
     None \<Rightarrow> Some s
   | Some a \<Rightarrow> (if bufs s a = None then None else Some (s\<lparr>bufs := (bufs s)(a := None)\<rparr>)))"

text \<open>\<open>memcpy (p, src, n)\<close> that fills a block of \<open>n\<close> bytes just returned by \<open>malloc\<close>.\<close>

definition memcpy_block :: "ptr \<Rightarrow> byte list \<Rightarrow> int \<Rightarrow> tlv_mem \<Rightarrow> tlv_mem option" where
  "memcpy_block p src n s =
     (if n < 0 then None else do {
        bs \<leftarrow> read_bytes src 0 (nat n);
        (case p of
           None \<Rightarrow> if n = 0 then Some s else None
         | Some a \<Rightarrow> Some (s\<lparr>bufs := (bufs s)(a \<mapsto> bs)\<rparr>)) })"

section \<open>Creating, filling and releasing\<close>

definition tlv_box_release_tlv :: "ptr \<Rightarrow> tlv_mem \<Rightarrow> tlv_mem option" where
  "tlv_box_release_tlv value s = do {
     a \<leftarrow> value;
     t \<leftarrow> tlvs s a;
     s \<leftarrow> free_buf (t_value t) s;
     Some (s\<lparr>tlvs := (tlvs s)(a := None)\<rparr>) }"

definition tlv_box_create :: "tlv_mem \<Rightarrow> (tlv_box \<times> tlv_mem) option" where
  "tlv_box_create s = (case malloc 12 s of
     (None, s) \<Rightarrow> None
   | (Some _, s) \<Rightarrow> do {
       (l, s) \<leftarrow> key_list_create tlv_box_release_tlv s;
       Some (\<lparr>m_list = l, m_serialized_buffer = None, m_serialized_bytes = 0\<rparr>, s) })"

definition tlv_box_putobject :: "tlv_box \<Rightarrow> short \<Rightarrow> byte list \<Rightarrow> short \<Rightarrow> TLV_DATA_TYPE \<Rightarrow> tlv_mem \<Rightarrow>
    (int \<times> tlv_box \<times> tlv_mem) option" where
  "tlv_box_putobject box type value len data_type s =
     (if m_serialized_buffer box \<noteq> None then Some (-1, box, s) else
      (case malloc 16 s of
         (None, s) \<Rightarrow> None
       | (Some t, s) \<Rightarrow>
         (case malloc (sint len) s of (p, s) \<Rightarrow> do {
            s \<leftarrow> memcpy_block p value (sint len) s;
            let s = s\<lparr>tlvs := (tlvs s)(t \<mapsto>
              \<lparr>t_type = type, t_length = len, t_value = p, t_data_type = data_type\<rparr>)\<rparr>;
            (r, l, s) \<leftarrow> key_list_add (m_list box) (sint type) (Some t) s;
            if r \<noteq> 0 then Some (-1, box\<lparr>m_list := l\<rparr>, s)
            else Some (0, box\<lparr>m_list := l,
              m_serialized_bytes := wrap32 (m_serialized_bytes box + (4 + sint len))\<rparr>, s) })))"

definition tlv_box_destroy :: "tlv_box \<Rightarrow> tlv_mem \<Rightarrow> (int \<times> tlv_mem) option" where
  "tlv_box_destroy box s = do {
     (_, s) \<leftarrow> key_list_destroy (m_list box) s;
     s \<leftarrow> (if m_serialized_buffer box \<noteq> None then free_buf (m_serialized_buffer box) s else Some s);
     Some (0, s) }"

definition tlv_box_get_buffer :: "tlv_box \<Rightarrow> ptr" where
  "tlv_box_get_buffer box = m_serialized_buffer box"

definition tlv_box_get_size :: "tlv_box \<Rightarrow> int" where
  "tlv_box_get_size box = m_serialized_bytes box"

definition tlv_box_put_char :: "tlv_box \<Rightarrow> short \<Rightarrow> byte \<Rightarrow> tlv_mem \<Rightarrow> (int \<times> tlv_box \<times> tlv_mem) option" where
  "tlv_box_put_char box type value s = tlv_box_putobject box type [value] 1 TLV_DATA_TYPE_CHAR s"

definition tlv_box_put_short :: "byte_order \<Rightarrow> tlv_box \<Rightarrow> short \<Rightarrow> 16 word \<Rightarrow> tlv_mem \<Rightarrow>
    (int \<times> tlv_box \<times> tlv_mem) option" where
  "tlv_box_put_short e box type value s =
     tlv_box_putobject box type (native16 e value) 2 TLV_DATA_TYPE_SHORT s"

definition tlv_box_put_int :: "byte_order \<Rightarrow> tlv_box \<Rightarrow> short \<Rightarrow> 32 word \<Rightarrow> tlv_mem \<Rightarrow>
    (int \<times> tlv_box \<times> tlv_mem) option" where
  "tlv_box_put_int e box type value s =
     tlv_box_putobject box type (native32 e value) 4 TLV_DATA_TYPE_INT s"

text \<open>\<open>long\<close> has four bytes on the 32-bit target.\<close>

definition tlv_box_put_long :: "byte_order \<Rightarrow> tlv_box \<Rightarrow> short \<Rightarrow> 32 word \<Rightarrow> tlv_mem \<Rightarrow>
    (int \<times> tlv_box \<times> tlv_mem) option" where
  "tlv_box_put_long e box type value s =
     tlv_box_putobject box type (native32 e value) 4 TLV_DATA_TYPE_LONG s"

text \<open>\<open>strlen\<close> of the bytes at a \<open>char *\<close>: a fault when no terminator is in reach.  The
  length argument is converted to \<open>short\<close>.\<close>

fun c_strlen :: "byte list \<Rightarrow> nat option" where
  "c_strlen [] = None"
| "c_strlen (b # bs) = (if b = 0 then Some 0 else map_option Suc (c_strlen bs))"

definition tlv_box_put_string :: "tlv_box \<Rightarrow> short \<Rightarrow> byte list \<Rightarrow> tlv_mem \<Rightarrow>
    (int \<times> tlv_box \<times> tlv_mem) option" where
  "tlv_box_put_string box type value s = do {
     n \<leftarrow> c_strlen value;
     tlv_box_putobject box type value (of_nat (n + 1)) TLV_DATA_TYPE_STRING s }"

definition tlv_box_put_bytes :: "tlv_box \<Rightarrow> short \<Rightarrow> byte list \<Rightarrow> short \<Rightarrow> tlv_mem \<Rightarrow>
    (int \<times> tlv_box \<times> tlv_mem) option" where
  "tlv_box_put_bytes box type value len s =
     tlv_box_putobject box type value len TLV_DATA_TYPE_BYTES s"

definition tlv_box_put_object :: "tlv_box \<Rightarrow> short \<Rightarrow> tlv_box \<Rightarrow> tlv_mem \<Rightarrow>
    (int \<times> tlv_box \<times> tlv_mem) option" where
  "tlv_box_put_object box type object s =
     tlv_box_putobject box type (bytes_at (tlv_box_get_buffer object) s)
       (of_int (tlv_box_get_size object)) TLV_DATA_TYPE_OBJECT s"

section \<open>Parsing\<close>

function tlv_box_parse_loop :: "byte_order \<Rightarrow> byte list \<Rightarrow> nat \<Rightarrow> tlv_box \<Rightarrow> tlv_mem \<Rightarrow>
    (tlv_box \<times> tlv_mem) option" where
  "tlv_box_parse_loop e cached offset box s = (if offset < length cached then do {
     x \<leftarrow> read_bytes cached offset 2;
     let type = ntohs e (of_native16 e x);
     y \<leftarrow> read_bytes cached (offset + 2) 2;
     let len = ntohs e (of_native16 e y);
     (_, box, s) \<leftarrow> tlv_box_putobject box type (drop (offset + 4) cached) len TLV_DATA_TYPE_BYTES s;
     tlv_box_parse_loop e cached (offset + 4 + nat (sint len)) box s }
   else Some (box, s))"
  by pat_completeness auto
termination
  by (relation "measure (\<lambda>(e, cached, offset, box, s). length cached - offset)") auto

declare tlv_box_parse_loop.simps [simp del]

definition tlv_box_parse :: "byte_order \<Rightarrow> byte list \<Rightarrow> int \<Rightarrow> tlv_mem \<Rightarrow> (tlv_box \<times> tlv_mem) option" where
  "tlv_box_parse e buffer buffersize s = do {
     (box, s) \<leftarrow> tlv_box_create s;
     let (p, s) = malloc buffersize s;
     s \<leftarrow> memcpy_block p buffer buffersize s;
     (box, s) \<leftarrow> tlv_box_parse_loop e (take (nat buffersize) buffer) 0 box s;
     Some (box\<lparr>m_serialized_buffer := p, m_serialized_bytes := buffersize\<rparr>, s) }"

section \<open>Conversions between binary floating point and integers\<close>

text \<open>
  The serializer assigns the integer result of \<open>htonl\<close> to a \<open>float\<close> or \<open>double\<close>, so C
  converts the value to \<open>uint32_t\<close> (truncating; undefined outside its range) and back
  (rounding to nearest, ties to even).  Both are on IEEE bit patterns with \<open>mb\<close> mantissa and
  \<open>eb\<close> exponent bits.
\<close>

definition float_trunc :: "nat \<Rightarrow> nat \<Rightarrow> nat \<Rightarrow> int option" where
  "float_trunc mb eb bits =
     (let m = bits mod 2 ^ mb; ex = (bits div 2 ^ mb) mod 2 ^ eb; neg = odd (bits div 2 ^ (mb + eb));
          off = 2 ^ (eb - 1) - 1 + mb;
          sig = (if ex = 0 then m else 2 ^ mb + m); ex1 = max 1 ex;
          mag = (if off \<le> ex1 then sig * 2 ^ (ex1 - off) else sig div 2 ^ (off - ex1))
      in if ex = 2 ^ eb - 1 then None else Some (if neg then - int mag else int mag))"

fun ilog2 :: "nat \<Rightarrow> nat" where
  "ilog2 n = (if n < 2 then 0 else Suc (ilog2 (n div 2)))"

declare ilog2.simps [simp del]

definition float_of_nat :: "nat \<Rightarrow> nat \<Rightarrow> nat \<Rightarrow> nat" where
  "float_of_nat mb eb n =
     (if n = 0 then 0 else
      let x = ilog2 n; bias = 2 ^ (eb - 1) - 1;
          q = (if x \<le> mb then n * 2 ^ (mb - x)
               else let d = x - mb; q = n div 2 ^ d; r = n mod 2 ^ d; half = 2 ^ (d - 1)
                    in if half < r \<or> r = half \<and> odd q then q + 1 else q)
      in (x + bias) * 2 ^ mb + (q - 2 ^ mb))"

definition float_to_u32 :: "nat \<Rightarrow> nat \<Rightarrow> nat \<Rightarrow> 32 word option" where
  "float_to_u32 mb eb bits = do {
     v \<leftarrow> float_trunc mb eb bits;
     if 0 \<le> v \<and> v < 2 ^ 32 then Some (of_int v) else None }"

section \<open>Serializing\<close>

text \<open>The bytes copied into the buffer for one item: a local variable of the item's type is loaded
  from the item's block, converted, and \<open>tlv->length\<close> bytes are copied out of it.\<close>

fun tlv_wire_value :: "byte_order \<Rightarrow> TLV_DATA_TYPE \<Rightarrow> byte list \<Rightarrow> nat \<Rightarrow> byte list option" where
  "tlv_wire_value e TLV_DATA_TYPE_SHORT v n = do {
     x \<leftarrow> read_bytes v 0 2;
     read_bytes (native16 e (htons e (of_native16 e x))) 0 n }"
| "tlv_wire_value e TLV_DATA_TYPE_INT v n = do {
     x \<leftarrow> read_bytes v 0 4;
     read_bytes (native32 e (htonl e (of_native32 e x))) 0 n }"
| "tlv_wire_value e TLV_DATA_TYPE_LONG v n = do {
     x \<leftarrow> read_bytes v 0 4;
     read_bytes (native32 e (htonl e (of_native32 e x))) 0 n }"
| "tlv_wire_value e TLV_DATA_TYPE_LONGLONG v n = do {
     x \<leftarrow> read_bytes v 0 8;
     read_bytes (native64 e (ucast (htonl e (ucast (of_native64 e x))))) 0 n }"
| "tlv_wire_value e TLV_DATA_TYPE_FLOAT v n = do {
     x \<leftarrow> read_bytes v 0 4;
     u \<leftarrow> float_to_u32 23 8 (unat (of_native32 e x));
     read_bytes (native32 e (of_nat (float_of_nat 23 8 (unat (htonl e u))))) 0 n }"
| "tlv_wire_value e TLV_DATA_TYPE_DOUBLE v n = do {
     x \<leftarrow> read_bytes v 0 8;
     u \<leftarrow> float_to_u32 52 11 (unat (of_native64 e x));
     read_bytes (native64 e (of_nat (float_of_nat 52 11 (unat (htonl e u))))) 0 n }"
| "tlv_wire_value e _ v n = read_bytes v 0 n"

partial_function (option) tlv_box_serialize_loop :: "byte_order \<Rightarrow> ptr \<Rightarrow> nat \<Rightarrow> byte list \<Rightarrow> tlv_mem \<Rightarrow>
    (nat \<times> byte list) option" where
  "tlv_box_serialize_loop e node offset buffer s = (if node = None then Some (offset, buffer) else do {
     n \<leftarrow> load_node node s;
     a \<leftarrow> n_value n;
     t \<leftarrow> tlvs s a;
     buffer \<leftarrow> write_bytes buffer offset (native16 e (htons e (t_type t)));
     buffer \<leftarrow> write_bytes buffer (offset + 2) (native16 e (htons e (t_length t)));
     if sint (t_length t) < 0 then None else do {
       v \<leftarrow> tlv_wire_value e (t_data_type t) (bytes_at (t_value t) s) (nat (sint (t_length t)));
       buffer \<leftarrow> write_bytes buffer (offset + 4) v;
       tlv_box_serialize_loop e (n_next n) (offset + 4 + nat (sint (t_length t))) buffer s } })"

definition tlv_box_serialize :: "byte_order \<Rightarrow> tlv_box \<Rightarrow> tlv_mem \<Rightarrow> (int \<times> tlv_box \<times> tlv_mem) option" where
  "tlv_box_serialize e box s =
     (if m_serialized_buffer box \<noteq> None then Some (-1, box, s) else
      (case malloc (m_serialized_bytes box) s of (p, s) \<Rightarrow> do {
         let buffer = (case p of None \<Rightarrow> [] | Some b \<Rightarrow> fresh_bytes b (nat (m_serialized_bytes box)) s);
         (_, buffer) \<leftarrow> tlv_box_serialize_loop e (header (m_list box)) 0 buffer s;
         let s = (case p of None \<Rightarrow> s | Some b \<Rightarrow> s\<lparr>bufs := (bufs s)(b \<mapsto> buffer)\<rparr>);
         Some (0, box\<lparr>m_serialized_buffer := p\<rparr>, s) }))"

section \<open>Reading items\<close>

text \<open>The common prefix of the getters: the item of a type, \<open>None\<close> inside when there is none.\<close>

definition tlv_lookup :: "tlv_box \<Rightarrow> short \<Rightarrow> tlv_mem \<Rightarrow> tlv option option" where
  "tlv_lookup box type s = do {
     (r, object) \<leftarrow> key_list_get (m_list box) (sint type) s;
     if r \<noteq> 0 then Some None else do {
       value \<leftarrow> object;
       a \<leftarrow> value;
       t \<leftarrow> tlvs s a;
       Some (Some t) } }"

text \<open>An out-parameter is \<open>None\<close> when it is not written.\<close>

definition tlv_box_get_char :: "tlv_box \<Rightarrow> short \<Rightarrow> tlv_mem \<Rightarrow> (int \<times> byte option) option" where
  "tlv_box_get_char box type s = do {
     r \<leftarrow> tlv_lookup box type s;
     (case r of
        None \<Rightarrow> Some (-1, None)
      | Some t \<Rightarrow> do {
          x \<leftarrow> read_bytes (bytes_at (t_value t) s) 0 1;
          Some (0, Some (hd x)) }) }"

definition tlv_box_get_short :: "byte_order \<Rightarrow> tlv_box \<Rightarrow> short \<Rightarrow> tlv_mem \<Rightarrow> (int \<times> 16 word option) option" where
  "tlv_box_get_short e box type s = do {
     r \<leftarrow> tlv_lookup box type s;
     (case r of
        None \<Rightarrow> Some (-1, None)
      | Some t \<Rightarrow> do {
          x \<leftarrow> read_bytes (bytes_at (t_value t) s) 0 2;
          Some (0, Some (ntohs e (of_native16 e x))) }) }"

definition tlv_box_get_int :: "byte_order \<Rightarrow> tlv_box \<Rightarrow> short \<Rightarrow> tlv_mem \<Rightarrow> (int \<times> 32 word option) option" where
  "tlv_box_get_int e box type s = do {
     r \<leftarrow> tlv_lookup box type s;
     (case r of
        None \<Rightarrow> Some (-1, None)
      | Some t \<Rightarrow> do {
          x \<leftarrow> read_bytes (bytes_at (t_value t) s) 0 4;
          Some (0, Some (ntohl e (of_native32 e x))) }) }"

definition tlv_box_get_long :: "byte_order \<Rightarrow> tlv_box \<Rightarrow> short \<Rightarrow> tlv_mem \<Rightarrow> (int \<times> 32 word option) option" where
  "tlv_box_get_long e box type s = do {
     r \<leftarrow> tlv_lookup box type s;
     (case r of
        None \<Rightarrow> Some (-1, None)
      | Some t \<Rightarrow> do {
          x \<leftarrow> read_bytes (bytes_at (t_value t) s) 0 4;
          Some (0, Some (ntohl e (of_native32 e x))) }) }"

text \<open>\<open>value\<close> is the caller's array and \<open>len\<close> the length the caller passes; the result has the
  array and the length after the call.\<close>

definition tlv_box_get_bytes :: "tlv_box \<Rightarrow> short \<Rightarrow> byte list \<Rightarrow> short \<Rightarrow> tlv_mem \<Rightarrow>
    (int \<times> byte list \<times> short) option" where
  "tlv_box_get_bytes box type value len s = do {
     r \<leftarrow> tlv_lookup box type s;
     (case r of
        None \<Rightarrow> Some (-1, value, len)
      | Some t \<Rightarrow>
          if sint len < sint (t_length t) then Some (-1, value, len)
          else if sint len < 0 \<or> sint (t_length t) < 0 then None
          else do {
            value \<leftarrow> write_bytes value 0 (replicate (nat (sint len)) 0);
            x \<leftarrow> read_bytes (bytes_at (t_value t) s) 0 (nat (sint (t_length t)));
            value \<leftarrow> write_bytes value 0 x;
            Some (0, value, t_length t) }) }"

definition tlv_box_get_string :: "tlv_box \<Rightarrow> short \<Rightarrow> byte list \<Rightarrow> short \<Rightarrow> tlv_mem \<Rightarrow>
    (int \<times> byte list \<times> short) option" where
  "tlv_box_get_string box type value len s = tlv_box_get_bytes box type value len s"

definition tlv_box_get_bytes_ptr :: "tlv_box \<Rightarrow> short \<Rightarrow> tlv_mem \<Rightarrow> (int \<times> (ptr \<times> short) option) option" where
  "tlv_box_get_bytes_ptr box type s = do {
     r \<leftarrow> tlv_lookup box type s;
     (case r of
        None \<Rightarrow> Some (-1, None)
      | Some t \<Rightarrow> Some (0, Some (t_value t, t_length t))) }"

definition tlv_box_get_object :: "byte_order \<Rightarrow> tlv_box \<Rightarrow> short \<Rightarrow> tlv_mem \<Rightarrow>
    (int \<times> tlv_box option \<times> tlv_mem) option" where
  "tlv_box_get_object e box type s = do {
     r \<leftarrow> tlv_lookup box type s;
     (case r of
        None \<Rightarrow> Some (-1, None, s)
      | Some t \<Rightarrow> do {
          (object, s) \<leftarrow> tlv_box_parse e (bytes_at (t_value t) s) (sint (t_length t)) s;
          Some (0, Some object, s) }) }"

end
