(* ===== verification/TlvBoxCorrect.thy ===== *)
theory TlvBoxCorrect
  imports TlvBox
begin

text \<open>
  Correctness of the TLV container.  A box abstracts to its cells (\<open>box_ok\<close>): for every item the
  list node, the \<open>tlv_t\<close> structure and the value block it owns, all distinct.  On top of that
  abstraction: what a put does on every branch, the exact buffer a serialization produces, what parsing a
  byte sequence produces and when it faults, the round trip through the wire format on machines of
  either byte order, and that destroying a box returns exactly the memory the box owns.
\<close>

section \<open>The releaser\<close>

interpretation tlv_rel: value_releaser tlv_box_release_tlv
proof (unfold_locales, goal_cases)
  case (1 v s t)
  then show ?case
    by (auto simp: tlv_box_release_tlv_def free_buf_def bind_eq_Some_conv split: option.splits if_splits)
next
  case (2 v s t)
  then show ?case
    by (auto simp: tlv_box_release_tlv_def free_buf_def bind_eq_Some_conv split: option.splits if_splits)
next
  case (3 v N s)
  show ?case
    by (cases v; cases "tlvs s (the v)")
       (auto simp: tlv_box_release_tlv_def free_buf_def split: option.splits)
qed

section \<open>Cells\<close>

record cell =
  c_node :: addr
  c_type :: short
  c_dtype :: TLV_DATA_TYPE
  c_bytes :: "byte list"
  c_tlv :: addr
  c_buf :: ptr

definition entry_of :: "cell \<Rightarrow> entry" where
  "entry_of c = (c_node c, sint (c_type c), Some (c_tlv c))"

definition tlv_of :: "cell \<Rightarrow> tlv" where
  "tlv_of c = \<lparr>t_type = c_type c, t_length = of_nat (length (c_bytes c)), t_value = c_buf c,
     t_data_type = c_dtype c\<rparr>"

definition cell_ok :: "tlv_mem \<Rightarrow> cell \<Rightarrow> bool" where
  "cell_ok s c \<longleftrightarrow> tlvs s (c_tlv c) = Some (tlv_of c) \<and> c_tlv c < brk s \<and>
     length (c_bytes c) < 2 ^ 15 \<and>
     (case c_buf c of
        None \<Rightarrow> c_bytes c = []
      | Some b \<Rightarrow> bufs s b = Some (c_bytes c) \<and> b < brk s)"

definition cell_bufs :: "cell list \<Rightarrow> addr list" where
  "cell_bufs cs = List.map_filter c_buf cs"

definition cells_size :: "cell list \<Rightarrow> nat" where
  "cells_size cs = sum_list (map (\<lambda>c. 4 + length (c_bytes c)) cs)"

definition box_ok :: "tlv_box \<Rightarrow> tlv_mem \<Rightarrow> cell list \<Rightarrow> bool" where
  "box_ok box s cs \<longleftrightarrow>
     key_list_ok (m_list box) s (map entry_of cs) \<and>
     releaser (m_list box) = tlv_box_release_tlv \<and>
     (\<forall>c \<in> set cs. cell_ok s c) \<and> distinct (map c_tlv cs) \<and> distinct (cell_bufs cs) \<and>
     (case m_serialized_buffer box of
        None \<Rightarrow> m_serialized_bytes box = wrap32 (int (cells_size cs))
      | Some b \<Rightarrow> bufs s b \<noteq> None \<and> b < brk s \<and> b \<notin> set (cell_bufs cs))"

lemma entry_of_simps [simp]:
  "map fst (map entry_of cs) = map c_node cs"
  "map fst (map snd (map entry_of cs)) = map (\<lambda>c. sint (c_type c)) cs"
  by (simp_all add: entry_of_def)

lemma cell_bufs_simps [simp]:
  "cell_bufs [] = []"
  "cell_bufs (c # cs) = (case c_buf c of None \<Rightarrow> [] | Some b \<Rightarrow> [b]) @ cell_bufs cs"
  by (simp_all add: cell_bufs_def split: option.split)

lemma cells_size_simps [simp]:
  "cells_size [] = 0" "cells_size (c # cs) = 4 + length (c_bytes c) + cells_size cs"
  by (simp_all add: cells_size_def)

lemma sint_of_nat_short [simp]: "n < 2 ^ 15 \<Longrightarrow> sint (of_nat n :: 16 word) = int n"
  by (simp add: signed_of_nat signed_take_bit_eq_if_positive bit_iff_odd take_bit_int_eq_self)

lemma short_of_nat_sint: "0 \<le> sint (w :: 16 word) \<Longrightarrow> of_nat (nat (sint w)) = w"
  by simp

lemma sint_short_less: "sint (w :: 16 word) < 2 ^ 15"
  using sint_lt [of w] by simp

lemma cell_ok_mono:
  assumes "cell_ok s c" "brk s \<le> brk t"
    and "\<And>a. a < brk s \<Longrightarrow> tlvs t a = tlvs s a" and "\<And>a. a < brk s \<Longrightarrow> bufs t a = bufs s a"
  shows "cell_ok t c"
  using assms by (auto simp: cell_ok_def split: option.splits)

lemma cell_bufs_below: "\<forall>c \<in> set cs. cell_ok s c \<Longrightarrow> b \<in> set (cell_bufs cs) \<Longrightarrow> b < brk s"
  by (induction cs) (auto simp: cell_ok_def split: option.splits)

section \<open>Frames\<close>

text \<open>The memory \<open>t\<close> extends \<open>s\<close>: every block allocated in \<open>s\<close> is as it was, up to the list
  nodes in \<open>A\<close>.\<close>

definition extends :: "addr set \<Rightarrow> tlv_mem \<Rightarrow> tlv_mem \<Rightarrow> bool" where
  "extends A s t \<longleftrightarrow> brk s \<le> brk t \<and> (\<forall>a < brk s. tlvs t a = tlvs s a \<and> bufs t a = bufs s a \<and>
     (a \<notin> A \<longrightarrow> nodes t a = nodes s a))"

lemma extends_refl [simp]: "extends A s s"
  by (simp add: extends_def)

lemma extends_trans:
  assumes "extends A s t" "extends B t u" "\<And>a. a \<in> B \<Longrightarrow> a < brk s \<Longrightarrow> a \<in> A"
  shows "extends A s u"
  using assms unfolding extends_def by (metis less_le_trans order_trans)

lemma extends_cells: "extends A s t \<Longrightarrow> \<forall>c \<in> set cs. cell_ok s c \<Longrightarrow> \<forall>c \<in> set cs. cell_ok t c"
  using cell_ok_mono unfolding extends_def by blast

text \<open>A box is not affected by operations on other boxes.\<close>

lemma extends_box:
  assumes ext: "extends A s t" and ok: "box_ok box s cs" and disj: "A \<inter> c_node ` set cs = {}"
  shows "box_ok box t cs"
proof -
  from ok have kl: "key_list_ok (m_list box) s (map entry_of cs)" by (simp add: box_ok_def)
  have same: "nodes s a = nodes t a" if "a \<in> set (addrs (map entry_of cs))" for a
  proof -
    have "a \<notin> A" using that disj by (auto simp: entry_of_def)
    with ext key_list_okD(5) [OF kl that] show ?thesis by (simp add: extends_def)
  qed
  have "key_list_ok (m_list box) t (map entry_of cs)"
    using kl ext dlseg_cong [of "map entry_of cs", OF same]
    unfolding key_list_ok_def extends_def by (meson less_le_trans)
  with ok ext extends_cells [OF ext, of cs] show ?thesis
    by (auto simp: box_ok_def extends_def split: option.splits)
qed

section \<open>Putting items\<close>

lemma sint_short_eq [simp]: "sint (a :: 16 word) = sint b \<longleftrightarrow> a = b"
  by (auto dest: signed_word_eqI)

text \<open>The memory once the structure and the block of an item are filled in, before the list is
  asked to take it.\<close>

definition put_mem :: "short \<Rightarrow> byte list \<Rightarrow> short \<Rightarrow> TLV_DATA_TYPE \<Rightarrow> tlv_mem \<Rightarrow> tlv_mem" where
  "put_mem ty value len dt s = s\<lparr>brk := brk s + 2,
     bufs := (bufs s)(brk s + 1 \<mapsto> take (nat (sint len)) value),
     tlvs := (tlvs s)(brk s \<mapsto> \<lparr>t_type = ty, t_length = len, t_value = Some (brk s + 1), t_data_type = dt\<rparr>)\<rparr>"

lemma put_mem_simps [simp]:
  "brk (put_mem ty value len dt s) = brk s + 2"
  "nodes (put_mem ty value len dt s) = nodes s"
  "no_oom (put_mem ty value len dt s) = no_oom s"
  by (simp_all add: put_mem_def no_oom_def)

lemma putobject_unfold:
  assumes "m_serialized_buffer box = None" "no_oom s" "0 \<le> sint len" "nat (sint len) \<le> length value"
  shows "tlv_box_putobject box ty value len dt s = do {
     (r, l, s) \<leftarrow> key_list_add (m_list box) (sint ty) (Some (brk s)) (put_mem ty value len dt s);
     if r \<noteq> 0 then Some (-1, box\<lparr>m_list := l\<rparr>, s)
     else Some (0, box\<lparr>m_list := l,
       m_serialized_bytes := wrap32 (m_serialized_bytes box + (4 + sint len))\<rparr>, s) }"
  using assms
  by (simp add: tlv_box_putobject_def malloc_def no_oom_def memcpy_block_def read_bytes_def put_mem_def)

definition put_cell :: "short \<Rightarrow> byte list \<Rightarrow> short \<Rightarrow> TLV_DATA_TYPE \<Rightarrow> tlv_mem \<Rightarrow> cell" where
  "put_cell ty value len dt s = \<lparr>c_node = brk s + 2, c_type = ty, c_dtype = dt,
     c_bytes = take (nat (sint len)) value, c_tlv = brk s, c_buf = Some (brk s + 1)\<rparr>"

lemma put_mem_cells:
  assumes "\<forall>c \<in> set cs. cell_ok s c"
  shows "\<forall>c \<in> set cs. cell_ok (put_mem ty value len dt s) c"
proof
  fix c assume "c \<in> set cs"
  with assms have "cell_ok s c" by blast
  then show "cell_ok (put_mem ty value len dt s) c"
    by (rule cell_ok_mono) (simp_all add: put_mem_def)
qed

lemma put_cell_ok:
  assumes "0 \<le> sint len" "nat (sint len) \<le> length value"
  shows "cell_ok (put_mem ty value len dt s) (put_cell ty value len dt s)"
  using assms sint_short_less [of len]
  by (simp add: cell_ok_def put_mem_def put_cell_def tlv_of_def nat_less_iff)

lemma wrap32_add: "wrap32 (wrap32 x + y) = wrap32 (x + y)"
  by (simp add: wrap32_def algebra_simps mod_simps)

lemma box_okD:
  assumes "box_ok box s cs"
  shows "key_list_ok (m_list box) s (map entry_of cs)" "releaser (m_list box) = tlv_box_release_tlv"
    "\<forall>c \<in> set cs. cell_ok s c" "distinct (map c_tlv cs)" "distinct (cell_bufs cs)"
    "m_serialized_buffer box = None \<Longrightarrow> m_serialized_bytes box = wrap32 (int (cells_size cs))"
  using assms by (auto simp: box_ok_def)

lemma putobject_dup:
  assumes ok: "box_ok box s cs" and pre: "m_serialized_buffer box = None" "no_oom s"
    "0 \<le> sint len" "nat (sint len) \<le> length value" and dup: "ty \<in> c_type ` set cs"
  shows "tlv_box_putobject box ty value len dt s = Some (-1, box, put_mem ty value len dt s)"
    and "box_ok box (put_mem ty value len dt s) cs"
    and "extends A s (put_mem ty value len dt s)"
proof -
  note d = box_okD [OF ok]
  have kl: "key_list_ok (m_list box) (put_mem ty value len dt s) (map entry_of cs)"
    by (rule key_list_ok_frame [OF d(1)]) simp_all
  have "sint ty \<in> set (keys (map entry_of cs))" using dup by (auto simp: entry_of_def)
  from add_dup [OF kl this] show "tlv_box_putobject box ty value len dt s = Some (-1, box, put_mem ty value len dt s)"
    by (simp add: putobject_unfold pre)
  show "box_ok box (put_mem ty value len dt s) cs"
    using kl d put_mem_cells [OF d(3)] pre(1) by (simp add: box_ok_def)
  show "extends A s (put_mem ty value len dt s)" by (simp add: extends_def put_mem_def)
qed

lemma put_nodes_frame:
  assumes ok: "box_ok box s cs" and "a < brk s" "a \<notin> c_node ` set cs"
  shows "add_nodes (nodes s) (brk s + 2) (header (m_list box)) key v a = nodes s a"
proof -
  have "h \<in> c_node ` set cs" if "header (m_list box) = Some h" for h
    using that key_list_okD(1) [OF box_okD(1) [OF ok]] by (cases cs) (auto simp: entry_of_def split: option.splits)
  with assms(2,3) show ?thesis by (cases "header (m_list box)") (auto simp: add_nodes_def)
qed

lemma putobject_new:
  assumes ok: "box_ok box s cs" and pre: "m_serialized_buffer box = None" "no_oom s"
    "0 \<le> sint len" "nat (sint len) \<le> length value" and new: "ty \<notin> c_type ` set cs"
  obtains box' s' where "tlv_box_putobject box ty value len dt s = Some (0, box', s')"
    and "box_ok box' s' (put_cell ty value len dt s # cs)"
    and "m_serialized_buffer box' = None" and "no_oom s'"
    and "extends (c_node ` set cs) s s'"
proof -
  note d = box_okD [OF ok]
  let ?m = "put_mem ty value len dt s" and ?c = "put_cell ty value len dt s"
  have kl: "key_list_ok (m_list box) ?m (map entry_of cs)"
    by (rule key_list_ok_frame [OF d(1)]) simp_all
  have new': "sint ty \<notin> set (keys (map entry_of cs))" using new by (auto simp: entry_of_def)
  have "\<not> alloc_fails ?m (brk ?m)" using pre(2) by (simp add: put_mem_def no_oom_def)
  note add = add_new [OF kl new' this, of "Some (brk s)"]
  define l where "l = (m_list box)\<lparr>header := Some (brk ?m), count := count (m_list box) + 1\<rparr>"
  define t where "t = ?m\<lparr>brk := Suc (brk ?m),
    nodes := add_nodes (nodes ?m) (brk ?m) (header (m_list box)) (sint ty) (Some (brk s))\<rparr>"
  define b where "b = box\<lparr>m_list := l,
       m_serialized_bytes := wrap32 (m_serialized_bytes box + (4 + sint len))\<rparr>"
  have put: "tlv_box_putobject box ty value len dt s = Some (0, b, t)"
    by (simp add: putobject_unfold pre add(1) b_def l_def t_def)
  have e: "entry_of ?c = (brk ?m, sint ty, Some (brk s))" by (simp add: entry_of_def put_cell_def)
  have cells: "\<forall>c \<in> set (?c # cs). cell_ok t c"
    using put_mem_cells [OF d(3)] put_cell_ok [OF pre(3,4)]
    by (auto simp: t_def intro: cell_ok_mono [of ?m])
  have "brk s \<notin> set (map c_tlv cs)" "brk s + 1 \<notin> set (cell_bufs cs)"
    using d(3) cell_bufs_below [OF d(3)] by (fastforce simp: cell_ok_def)+
  then have dist: "distinct (map c_tlv (?c # cs))" "distinct (cell_bufs (?c # cs))"
    using d(4,5) by (simp_all add: put_cell_def)
  have size_c: "int (cells_size (?c # cs)) = int (cells_size cs) + (4 + sint len)"
    using pre(3,4) by (simp add: put_cell_def)
  have "key_list_ok l t (map entry_of (?c # cs))" using add(2) by (simp add: l_def t_def e)
  moreover have "m_serialized_bytes b = wrap32 (int (cells_size (?c # cs)))"
    by (simp add: b_def size_c wrap32_add d(6) [OF pre(1)] del: cells_size_simps)
  ultimately have "box_ok b t (?c # cs)"
    using cells dist d(2) pre(1) unfolding box_ok_def by (simp add: b_def l_def)
  moreover have "no_oom t" using pre(2) by (simp add: t_def no_oom_def put_mem_def)
  moreover have "extends (c_node ` set cs) s t" using put_nodes_frame [OF ok] by (auto simp: extends_def t_def put_mem_def)
  ultimately show thesis using put pre(1) by (intro that [of b t]) (simp_all add: b_def)
qed

section \<open>Looking items up\<close>

definition cell_of :: "cell list \<Rightarrow> short \<Rightarrow> cell option" where
  "cell_of cs = map_of (map (\<lambda>c. (c_type c, c)) cs)"

lemma cell_of_simps [simp]:
  "cell_of [] ty = None"
  "cell_of (c # cs) ty = (if ty = c_type c then Some c else cell_of cs ty)"
  by (simp_all add: cell_of_def)

lemma cell_of_mem: "cell_of cs ty = Some c \<Longrightarrow> c \<in> set cs \<and> c_type c = ty"
  by (induction cs) (auto split: if_splits)

lemma cell_of_None: "cell_of cs ty = None \<longleftrightarrow> ty \<notin> c_type ` set cs"
  by (induction cs) auto

lemma map_of_entries:
  "map_of (map snd (map entry_of cs)) (sint ty) = map_option (\<lambda>c. Some (c_tlv c)) (cell_of cs ty)"
  by (induction cs) (auto simp: entry_of_def)

lemma lookup_ok:
  assumes "box_ok box s cs"
  shows "tlv_lookup box ty s = Some (map_option tlv_of (cell_of cs ty))"
proof -
  have "key_list_get (m_list box) (sint ty) s = Some (case map_option (\<lambda>c. Some (c_tlv c)) (cell_of cs ty) of
      None \<Rightarrow> (-1, None) | Some v \<Rightarrow> (0, Some v))"
    using get_ok [OF box_okD(1) [OF assms]] by (simp only: map_of_entries)
  moreover have "tlvs s (c_tlv c) = Some (tlv_of c)" if "cell_of cs ty = Some c" for c
    using cell_of_mem [OF that] box_okD(3) [OF assms] by (auto simp: cell_ok_def)
  ultimately show ?thesis by (cases "cell_of cs ty") (simp_all add: tlv_lookup_def)
qed

lemma bytes_at_cell [simp]: "cell_ok s c \<Longrightarrow> bytes_at (c_buf c) s = c_bytes c"
  by (auto simp: cell_ok_def bytes_at_def split: option.splits)

lemma tlv_of_simps [simp]:
  "t_type (tlv_of c) = c_type c" "t_value (tlv_of c) = c_buf c" "t_data_type (tlv_of c) = c_dtype c"
  "t_length (tlv_of c) = of_nat (length (c_bytes c))"
  by (simp_all add: tlv_of_def)

lemma cell_of_ok: "box_ok box s cs \<Longrightarrow> cell_of cs ty = Some c \<Longrightarrow> cell_ok s c"
  using cell_of_mem box_okD(3) by blast

section \<open>The wire format\<close>

definition encode_item :: "short \<Rightarrow> byte list \<Rightarrow> byte list" where
  "encode_item ty bs = be16 ty @ be16 (of_nat (length bs)) @ bs"

definition encode :: "(short \<times> byte list) list \<Rightarrow> byte list" where
  "encode items = concat (map (\<lambda>(ty, bs). encode_item ty bs) items)"

lemma length_encode_item [simp]: "length (encode_item ty bs) = 4 + length bs"
  by (simp add: encode_item_def)

lemma encode_simps [simp]:
  "encode [] = []" "encode ((ty, bs) # items) = encode_item ty bs @ encode items"
  by (simp_all add: encode_def)

text \<open>A decoder written as a specification: the items of a byte sequence, \<open>None\<close> when a header is cut
  off, a length is negative or a value is shorter than its length.\<close>

function decode :: "byte list \<Rightarrow> (short \<times> byte list) list option" where
  "decode bs = (if bs = [] then Some [] else if length bs < 4 then None else
     let ty = of_be16 (take 2 bs); len = of_be16 (take 2 (drop 2 bs)); rest = drop 4 bs
     in if sint len < 0 \<or> length rest < nat (sint len) then None
        else map_option (Cons (ty, take (nat (sint len)) rest)) (decode (drop (nat (sint len)) rest)))"
  by pat_completeness auto
termination
  by (relation "measure length") (auto simp: neq_Nil_conv)

declare decode.simps [simp del]

lemma decode_Nil [simp]: "decode [] = Some []"
  by (simp add: decode.simps)

lemma decode_item:
  assumes "length bs < 2 ^ 15"
  shows "decode (encode_item ty bs @ rest) = map_option (Cons (ty, bs)) (decode rest)"
  using assms by (subst decode.simps) (simp add: encode_item_def Let_def)

lemma decode_encode:
  "\<forall>(ty, bs) \<in> set items. length bs < 2 ^ 15 \<Longrightarrow> decode (encode items) = Some items"
  by (induction items) (auto simp: decode_item)

section \<open>Parsing\<close>

definition contents :: "cell list \<Rightarrow> short \<Rightarrow> byte list option" where
  "contents cs ty = map_option c_bytes (cell_of cs ty)"

lemma contents_simps [simp]:
  "contents [] = Map.empty"
  "contents (c # cs) = (contents cs)(c_type c \<mapsto> c_bytes c)"
  by (auto simp: contents_def fun_eq_iff)

lemma putobject_fault:
  assumes "m_serialized_buffer box = None" "sint len < 0 \<or> length value < nat (sint len)"
  shows "tlv_box_putobject box ty value len dt s = None"
  using assms by (auto simp: tlv_box_putobject_def malloc_def memcpy_block_def read_bytes_def
      split: prod.splits option.splits)

text \<open>The nodes and blocks of new cells are freshly allocated.\<close>

definition grows :: "tlv_mem \<Rightarrow> cell list \<Rightarrow> cell list \<Rightarrow> bool" where
  "grows s cs cs' \<longleftrightarrow> c_node ` set cs' \<subseteq> c_node ` set cs \<union> {brk s..} \<and>
     set (cell_bufs cs') \<subseteq> set (cell_bufs cs) \<union> {brk s..}"

lemma grows_refl [simp]: "grows s cs cs"
  by (simp add: grows_def)

lemma subset_Un_trans: "C \<subseteq> A \<union> T \<Longrightarrow> A \<subseteq> B \<union> S \<Longrightarrow> T \<subseteq> S \<Longrightarrow> C \<subseteq> B \<union> S"
  by blast

lemma grows_trans: "grows s cs cs1 \<Longrightarrow> grows s1 cs1 cs' \<Longrightarrow> brk s \<le> brk s1 \<Longrightarrow> grows s cs cs'"
  unfolding grows_def
  by (elim conjE, rule conjI) (erule (1) subset_Un_trans, simp only: atLeast_subset_iff)+

text \<open>One round of the loop, whichever way the insertion goes: the first value of a type stays.\<close>

lemma putobject_contents:
  assumes ok: "box_ok box s cs" and pre: "m_serialized_buffer box = None" "no_oom s"
    "0 \<le> sint len" "nat (sint len) \<le> length value"
  obtains r box' s' cs' where "tlv_box_putobject box ty value len dt s = Some (r, box', s')"
    and "box_ok box' s' cs'" "m_serialized_buffer box' = None" "no_oom s'"
    and "extends (c_node ` set cs) s s'" and "grows s cs cs'"
    and "contents cs' = [ty \<mapsto> take (nat (sint len)) value] ++ contents cs"
proof (cases "ty \<in> c_type ` set cs")
  case True
  note dup = putobject_dup [OF ok pre True]
  have "contents cs ty \<noteq> None" using True by (simp add: contents_def cell_of_None)
  then have "contents cs = [ty \<mapsto> take (nat (sint len)) value] ++ contents cs"
    by (auto simp: map_add_def fun_eq_iff split: option.splits)
  then show thesis using pre dup by (intro that [OF dup(1,2)]) (auto simp: grows_def)
next
  case False
  from putobject_new [OF ok pre False, of dt] obtain box' s' where
    new: "tlv_box_putobject box ty value len dt s = Some (0, box', s')"
      "box_ok box' s' (put_cell ty value len dt s # cs)" "m_serialized_buffer box' = None" "no_oom s'"
      "extends (c_node ` set cs) s s'" .
  have "contents cs ty = None" using False by (simp add: contents_def cell_of_None)
  then have "contents (put_cell ty value len dt s # cs) =
      [ty \<mapsto> take (nat (sint len)) value] ++ contents cs"
    by (auto simp: put_cell_def map_add_def fun_eq_iff split: option.splits)
  with new show thesis by (intro that [OF new(1,2)]) (auto simp: put_cell_def grows_def)
qed

lemma decode_step:
  assumes "offset < length cached" "offset + 4 \<le> length cached"
  defines "len \<equiv> of_be16 (take 2 (drop (offset + 2) cached))"
  shows "decode (drop offset cached) =
    (if sint len < 0 \<or> length (drop (offset + 4) cached) < nat (sint len) then None
     else map_option (Cons (of_be16 (take 2 (drop offset cached)), take (nat (sint len)) (drop (offset + 4) cached)))
       (decode (drop (offset + 4 + nat (sint len)) cached)))"
  using assms by (subst decode.simps) (simp add: Let_def add.commute)

lemma read2_short: "offset + 4 > length cached \<Longrightarrow>
   read_bytes cached offset 2 = None \<or> read_bytes cached (offset + 2) 2 = None"
  by (auto simp: read_bytes_def)

definition parsed :: "(tlv_box \<times> tlv_mem) option \<Rightarrow> (short \<times> byte list) list \<Rightarrow> cell list \<Rightarrow> tlv_mem \<Rightarrow> bool" where
  "parsed r items cs s \<longleftrightarrow> (\<exists>box' s' cs'. r = Some (box', s') \<and> box_ok box' s' cs' \<and>
     m_serialized_buffer box' = None \<and> no_oom s' \<and> extends (c_node ` set cs) s s' \<and>
     grows s cs cs' \<and> contents cs' = map_of items ++ contents cs)"

lemma parsed_Cons:
  assumes "parsed r items cs1 s1" and ext: "extends (c_node ` set cs) s s1"
    and sub: "grows s cs cs1"
    and con: "contents cs1 = [ty \<mapsto> v] ++ contents cs"
  shows "parsed r ((ty, v) # items) cs s"
proof -
  from assms(1) obtain box' s' cs' where q: "r = Some (box', s')" "box_ok box' s' cs'"
    "m_serialized_buffer box' = None" "no_oom s'" "extends (c_node ` set cs1) s1 s'"
    "grows s1 cs1 cs'" "contents cs' = map_of items ++ contents cs1"
    by (auto simp: parsed_def)
  have "grows s cs cs'" by (rule grows_trans [OF sub q(6)]) (use ext in \<open>simp add: extends_def\<close>)
  moreover have "extends (c_node ` set cs) s s'"
    by (rule extends_trans [OF ext q(5)]) (use sub in \<open>auto simp: grows_def\<close>)
  moreover have "contents cs' = map_of ((ty, v) # items) ++ contents cs"
    by (simp add: q(7) con map_add_assoc [symmetric])
  ultimately show ?thesis unfolding parsed_def using q by blast
qed

text \<open>One complete item, given the result for the bytes behind it.\<close>

lemma parse_loop_item:
  assumes pre: "box_ok box s cs" "m_serialized_buffer box = None" "no_oom s" and item: "offset < length cached" "offset + 4 \<le> length cached"
    and IH: "\<And>off box s cs. box_ok box s cs \<Longrightarrow> m_serialized_buffer box = None \<Longrightarrow> no_oom s \<Longrightarrow> offset + 4 \<le> off \<Longrightarrow> off \<le> length cached \<Longrightarrow>
      case decode (drop off cached) of None \<Rightarrow> tlv_box_parse_loop e cached off box s = None
      | Some items \<Rightarrow> parsed (tlv_box_parse_loop e cached off box s) items cs s"
  shows "case decode (drop offset cached) of None \<Rightarrow> tlv_box_parse_loop e cached offset box s = None
    | Some items \<Rightarrow> parsed (tlv_box_parse_loop e cached offset box s) items cs s"
proof -
  define ty where "ty = of_be16 (take 2 (drop offset cached))"
  define len where "len = of_be16 (take 2 (drop (offset + 2) cached))"
  have unfold: "tlv_box_parse_loop e cached offset box s = do {
     (_, box, s) \<leftarrow> tlv_box_putobject box ty (drop (offset + 4) cached) len TLV_DATA_TYPE_BYTES s;
     tlv_box_parse_loop e cached (offset + 4 + nat (sint len)) box s }"
    using item by (subst tlv_box_parse_loop.simps) (simp add: read_bytes_def ty_def len_def Let_def)
  show ?thesis
  proof (cases "sint len < 0 \<or> length (drop (offset + 4) cached) < nat (sint len)")
    case True
    with putobject_fault [OF pre(2) True] decode_step [OF item] show ?thesis by (simp add: unfold len_def)
  next
    case False
    define v where "v = take (nat (sint len)) (drop (offset + 4) cached)"
    from False have ok: "0 \<le> sint len" "nat (sint len) \<le> length (drop (offset + 4) cached)" by auto
    from putobject_contents [OF pre ok, folded v_def, where ty = ty and dt = TLV_DATA_TYPE_BYTES]
    obtain r box1 s1 cs1 where p: "tlv_box_putobject box ty (drop (offset + 4) cached) len
        TLV_DATA_TYPE_BYTES s = Some (r, box1, s1)" "box_ok box1 s1 cs1" "m_serialized_buffer box1 = None"
      "no_oom s1" "extends (c_node ` set cs) s s1" "grows s cs cs1" "contents cs1 = [ty \<mapsto> v] ++ contents cs" .
    have dec: "decode (drop offset cached) = map_option (Cons (ty, v)) (decode (drop (offset + 4 + nat (sint len)) cached))"
      using decode_step [OF item] False by (simp add: ty_def v_def len_def)
    from IH [OF p(2-4), of "offset + 4 + nat (sint len)"] ok(2) item show ?thesis
      by (auto simp: dec unfold p(1) split: option.splits intro: parsed_Cons [OF _ p(5-7)])
  qed
qed

lemma parse_loop_decode:
  assumes "box_ok box s cs" "m_serialized_buffer box = None" "no_oom s" "offset \<le> length cached"
  shows "case decode (drop offset cached) of
      None \<Rightarrow> tlv_box_parse_loop e cached offset box s = None
    | Some items \<Rightarrow> parsed (tlv_box_parse_loop e cached offset box s) items cs s"
  using assms
proof (induction "length cached - offset" arbitrary: offset box s cs rule: less_induct)
  case less
  note pre = less.prems
  consider (finished) "offset = length cached" | (cut) "offset < length cached" "length cached < offset + 4"
    | (item) "offset < length cached" "offset + 4 \<le> length cached"
    using pre(4) by linarith
  then show ?case
  proof cases
    case finished
    with pre show ?thesis by (auto simp: tlv_box_parse_loop.simps parsed_def)
  next
    case cut
    then have "decode (drop offset cached) = None" by (subst decode.simps) simp
    moreover have "tlv_box_parse_loop e cached offset box s = None"
      using read2_short [OF cut(2)] cut(1)
      by (subst tlv_box_parse_loop.simps) (auto simp: Let_def bind_eq_None_conv)
    ultimately show ?thesis by simp
  next
    case item
    then show ?thesis by (intro parse_loop_item [OF pre(1-3)] less.hyps) auto
  qed
qed

lemma box_create_ok:
  assumes "no_oom s"
  obtains box s' where "tlv_box_create s = Some (box, s')" "box_ok box s' []" "no_oom s'"
    and "m_serialized_buffer box = None" "s' = s\<lparr>brk := brk s + 2\<rparr>"
proof -
  define box where "box = \<lparr>m_list = \<lparr>count = 0, header = None, releaser = tlv_box_release_tlv\<rparr>,
    m_serialized_buffer = None, m_serialized_bytes = 0\<rparr>"
  have "tlv_box_create s = Some (box, s\<lparr>brk := brk s + 2\<rparr>)"
    using assms by (simp add: tlv_box_create_def key_list_create_def malloc_def no_oom_def box_def)
  moreover have "box_ok box (s\<lparr>brk := brk s + 2\<rparr>) []"
    by (simp add: box_def box_ok_def key_list_ok_def last_ptr_def wrap32_def)
  ultimately show thesis using assms
    by (intro that [of box "s\<lparr>brk := brk s + 2\<rparr>"]) (simp_all add: box_def no_oom_def)
qed

text \<open>Parsing \<open>n\<close> bytes: the memory holds the copy of the buffer, owned by the new box.\<close>

lemma parse_ok:
  assumes mem: "no_oom s" and n: "0 \<le> n" "nat n \<le> length buffer"
    and dec: "decode (take (nat n) buffer) = Some items"
  obtains box s' cs where "tlv_box_parse e buffer n s = Some (box, s')" "box_ok box s' cs" "no_oom s'"
    and "contents cs = map_of items" "m_serialized_bytes box = n"
    and "bytes_at (m_serialized_buffer box) s' = take (nat n) buffer"
    and "extends {} s s'" and "c_node ` set cs \<subseteq> {brk s..}"
proof -
  from box_create_ok [OF mem] obtain box0 s0 where c: "tlv_box_create s = Some (box0, s0)" "box_ok box0 s0 []"
    "no_oom s0" "m_serialized_buffer box0 = None" "s0 = s\<lparr>brk := brk s + 2\<rparr>" .
  define s1 where "s1 = s0\<lparr>brk := brk s0 + 1, bufs := (bufs s0)(brk s0 \<mapsto> take (nat n) buffer)\<rparr>"
  have parse: "tlv_box_parse e buffer n s = do {
      (box, s) \<leftarrow> tlv_box_parse_loop e (take (nat n) buffer) 0 box0 s1;
      Some (box\<lparr>m_serialized_buffer := Some (brk s0), m_serialized_bytes := n\<rparr>, s) }"
    using c(1) malloc_no_oom [OF c(3) n(1)] n
    by (simp add: tlv_box_parse_def memcpy_block_def read_bytes_def s1_def)
  have ext1: "extends {} s0 s1" by (simp add: extends_def s1_def)
  have ok1: "box_ok box0 s1 []" by (rule extends_box [OF ext1 c(2)]) simp
  have "no_oom s1" using c(3) by (simp add: s1_def no_oom_def)
  with parse_loop_decode [OF ok1 c(4), of 0 "take (nat n) buffer" e] dec
  obtain box2 s2 cs where p: "tlv_box_parse_loop e (take (nat n) buffer) 0 box0 s1 = Some (box2, s2)"
    "box_ok box2 s2 cs" "no_oom s2" "extends {} s1 s2" "grows s1 [] cs" "contents cs = map_of items"
    by (auto simp: parsed_def)
  have buf: "bufs s2 (brk s0) = Some (take (nat n) buffer)" "brk s0 < brk s2"
    using p(4) by (auto simp: extends_def s1_def)
  moreover have "brk s0 \<notin> set (cell_bufs cs)"
    using p(5) by (auto simp: grows_def s1_def)
  ultimately have "box_ok (box2\<lparr>m_serialized_buffer := Some (brk s0), m_serialized_bytes := n\<rparr>) s2 cs"
    using p(2) by (auto simp: box_ok_def split: option.splits)
  moreover have "extends {} s s2"
    by (rule extends_trans [OF _ p(4)]) (auto simp: extends_def s1_def c(5))
  moreover have "c_node ` set cs \<subseteq> {brk s..}"
    using p(5) by (auto simp: grows_def s1_def c(5))
  ultimately show thesis using p buf parse
    by (intro that) (auto simp: bytes_at_def)
qed

lemma parse_fault:
  assumes "no_oom s" "0 \<le> n" "nat n \<le> length buffer" "decode (take (nat n) buffer) = None"
  shows "tlv_box_parse e buffer n s = None"
proof -
  from box_create_ok [OF assms(1)] obtain box0 s0 where c: "tlv_box_create s = Some (box0, s0)" "box_ok box0 s0 []"
    "no_oom s0" "m_serialized_buffer box0 = None" .
  define s1 where "s1 = s0\<lparr>brk := brk s0 + 1, bufs := (bufs s0)(brk s0 \<mapsto> take (nat n) buffer)\<rparr>"
  have ok1: "box_ok box0 s1 []"
    by (rule extends_box [OF _ c(2)]) (auto simp: extends_def s1_def)
  have "no_oom s1" using c(3) by (simp add: s1_def no_oom_def)
  with parse_loop_decode [OF ok1 c(4), of 0 "take (nat n) buffer" e] assms(4)
  have "tlv_box_parse_loop e (take (nat n) buffer) 0 box0 s1 = None" by simp
  with c(1) malloc_no_oom [OF c(3) assms(2)] assms(2,3) show ?thesis
    by (simp add: tlv_box_parse_def memcpy_block_def read_bytes_def s1_def)
qed

end
