(* ===== verification/TlvBoxWire.thy ===== *)
theory TlvBoxWire
  imports TlvBoxCorrect
begin

text \<open>
  The TLV container end to end: the buffer a serialization produces, the round trip of typed values
  through the wire format between two machines of possibly different byte order, what the getters
  return, and the memory a box gives back when it is destroyed.
\<close>

section \<open>Serialization\<close>

definition wire_value :: "byte_order \<Rightarrow> cell \<Rightarrow> byte list option" where
  "wire_value e c = tlv_wire_value e (c_dtype c) (c_bytes c) (length (c_bytes c))"

lemma wire_length: "tlv_wire_value e dt v n = Some bs \<Longrightarrow> length bs = n"
  by (cases dt) (auto simp: bind_eq_Some_conv read_bytes_length)

lemma wire_value_length: "wire_value e c = Some bs \<Longrightarrow> length bs = length (c_bytes c)"
  by (simp add: wire_value_def wire_length)

definition wire_items :: "byte_order \<Rightarrow> cell list \<Rightarrow> (short \<times> byte list) list" where
  "wire_items e cs = map (\<lambda>c. (c_type c, the (wire_value e c))) cs"

lemma write_at_end:
  assumes "length bs \<le> length rest"
  shows "write_bytes (pre @ rest) (length pre) bs = Some ((pre @ bs) @ drop (length bs) rest)"
  using assms by (simp add: write_bytes_def)

lemma serialize_loop_dlseg:
  "dlseg (nodes s) pv p (map entry_of cs) q None \<Longrightarrow>
   \<forall>c \<in> set cs. cell_ok s c \<and> wire_value e c \<noteq> None \<Longrightarrow> length rest = cells_size cs \<Longrightarrow>
   tlv_box_serialize_loop e p (length pre) (pre @ rest) s =
     Some (length pre + cells_size cs, pre @ encode (wire_items e cs))"
proof (induction cs arbitrary: pv p pre rest)
  case Nil
  then show ?case by (simp add: tlv_box_serialize_loop.simps wire_items_def)
next
  case (Cons c cs)
  from Cons.prems(2) obtain w where ok: "cell_ok s c" and w: "wire_value e c = Some w" by auto
  let ?n = "length (c_bytes c)"
  from w have len: "length w = ?n" by (auto simp: wire_value_def dest: wire_length)
  from ok have n: "sint (of_nat ?n :: short) = int ?n" and t: "tlvs s (c_tlv c) = Some (tlv_of c)"
    by (simp_all add: cell_ok_def)
  from Cons.prems(1) obtain node where node: "p = Some (c_node c)" "nodes s (c_node c) = Some node"
    "n_value node = Some (c_tlv c)" and tl: "dlseg (nodes s) p (n_next node) (map entry_of cs) q None"
    by (auto simp: entry_of_def [of c] split: option.splits)
  define item where "item = encode_item (c_type c) w"
  have item: "item = (be16 (c_type c) @ be16 (of_nat ?n)) @ w"
    by (simp add: item_def encode_item_def len)
  have writes: "write_bytes (pre @ rest) (length pre) (be16 (c_type c)) = Some ((pre @ be16 (c_type c)) @ drop 2 rest)"
    "write_bytes ((pre @ be16 (c_type c)) @ drop 2 rest) (length pre + 2) (be16 (of_nat ?n)) =
      Some ((pre @ be16 (c_type c) @ be16 (of_nat ?n)) @ drop 4 rest)"
    "write_bytes ((pre @ be16 (c_type c) @ be16 (of_nat ?n)) @ drop 4 rest) (length pre + 4) w =
      Some ((pre @ item) @ drop (4 + ?n) rest)"
    using Cons.prems(3) write_at_end [of "be16 (c_type c)" rest pre]
      write_at_end [of "be16 (of_nat ?n)" "drop 2 rest" "pre @ be16 (c_type c)"]
      write_at_end [of w "drop 4 rest" "pre @ be16 (c_type c) @ be16 (of_nat ?n)"]
    by (simp_all add: item len add.commute)
  have IH: "tlv_box_serialize_loop e (n_next node) (length (pre @ item)) ((pre @ item) @ drop (4 + ?n) rest) s =
      Some (length (pre @ item) + cells_size cs, (pre @ item) @ encode (wire_items e cs))"
    using Cons.prems(2,3) by (intro Cons.IH [OF tl]) auto
  have "tlv_box_serialize_loop e p (length pre) (pre @ rest) s =
      tlv_box_serialize_loop e (n_next node) (length (pre @ item)) ((pre @ item) @ drop (4 + ?n) rest) s"
    using w ok n t node writes
    by (subst tlv_box_serialize_loop.simps)
       (simp add: load_node_def wire_value_def item_def len add.assoc)
  then show ?case unfolding IH by (simp add: wire_items_def w item_def len)
qed

text \<open>Serializing fills a new block with the encoding of the items, the most recent one first.\<close>

lemma serialize_ok:
  assumes ok: "box_ok box s cs" and none: "m_serialized_buffer box = None" and mem: "no_oom s"
    and size: "cells_size cs < 2 ^ 31" and wire: "\<forall>c \<in> set cs. wire_value e c \<noteq> None"
  obtains box' s' where "tlv_box_serialize e box s = Some (0, box', s')" "box_ok box' s' cs" "no_oom s'"
    and "bytes_at (tlv_box_get_buffer box') s' = encode (wire_items e cs)"
    and "tlv_box_get_size box' = int (length (encode (wire_items e cs)))"
    and "extends {} s s'"
proof -
  note d = box_okD [OF ok]
  have bytes: "m_serialized_bytes box = int (cells_size cs)"
    using d(6) [OF none] size by simp
  define s0 where "s0 = s\<lparr>brk := Suc (brk s)\<rparr>"
  define enc where "enc = encode (wire_items e cs)"
  define s' where "s' = s0\<lparr>bufs := (bufs s0)(brk s \<mapsto> enc)\<rparr>"
  define box' where "box' = box\<lparr>m_serialized_buffer := Some (brk s)\<rparr>"
  have seg: "dlseg (nodes s0) None (header (m_list box)) (map entry_of cs) (last_ptr None (map entry_of cs)) None"
    using key_list_okD(1) [OF d(1)] by (simp add: s0_def)
  have cells: "\<forall>c \<in> set cs. cell_ok s0 c \<and> wire_value e c \<noteq> None"
    using d(3) wire cell_ok_mono [of s _ s0] by (auto simp: s0_def)
  have loop: "tlv_box_serialize_loop e (header (m_list box)) 0 (fresh_bytes (brk s) (cells_size cs) s0) s0 =
      Some (cells_size cs, enc)"
    using serialize_loop_dlseg [OF seg cells, of "fresh_bytes (brk s) (cells_size cs) s0" "[]"]
    by (simp add: enc_def)
  have ser: "tlv_box_serialize e box s = Some (0, box', s')"
    using none malloc_no_oom [OF mem, of "int (cells_size cs)"] loop
    by (simp add: tlv_box_serialize_def bytes box'_def s'_def s0_def)
  have ext: "extends {} s s'" by (simp add: extends_def s'_def s0_def)
  have "box_ok box s' cs" by (rule extends_box [OF ext ok]) simp
  moreover have "brk s \<notin> set (cell_bufs cs)" using cell_bufs_below [OF d(3)] by fastforce
  ultimately have ok': "box_ok box' s' cs"
    by (simp add: box_ok_def box'_def none) (simp add: s'_def s0_def)
  have len: "length enc = cells_size cs"
    unfolding enc_def using wire by (induction cs) (auto simp: wire_items_def wire_value_length)
  show thesis
    using ser ok' mem ext len
    by (intro that [of box' s'])
       (simp_all add: box'_def s'_def s0_def bytes bytes_at_def tlv_box_get_buffer_def
         tlv_box_get_size_def enc_def no_oom_def)
qed

section \<open>Typed items\<close>

text \<open>The values a client puts into a box, and what they are in memory and on the wire.\<close>

datatype item =
    Char_item byte | Short_item "16 word" | Int_item "32 word" | Long_item "32 word"
  | String_item "byte list" | Bytes_item "byte list"

fun item_ok :: "item \<Rightarrow> bool" where
  "item_ok (String_item cs) \<longleftrightarrow> 0 \<notin> set cs \<and> length cs < 2 ^ 15 - 1"
| "item_ok (Bytes_item bs) \<longleftrightarrow> length bs < 2 ^ 15"
| "item_ok _ \<longleftrightarrow> True"

fun item_wire :: "item \<Rightarrow> byte list" where
  "item_wire (Char_item b) = [b]"
| "item_wire (Short_item w) = be16 w"
| "item_wire (Int_item w) = be32 w"
| "item_wire (Long_item w) = be32 w"
| "item_wire (String_item cs) = cs @ [0]"
| "item_wire (Bytes_item bs) = bs"

fun item_bytes :: "byte_order \<Rightarrow> item \<Rightarrow> byte list" where
  "item_bytes e (Short_item w) = native16 e w"
| "item_bytes e (Int_item w) = native32 e w"
| "item_bytes e (Long_item w) = native32 e w"
| "item_bytes e i = item_wire i"

fun item_dtype :: "item \<Rightarrow> TLV_DATA_TYPE" where
  "item_dtype (Char_item _) = TLV_DATA_TYPE_CHAR"
| "item_dtype (Short_item _) = TLV_DATA_TYPE_SHORT"
| "item_dtype (Int_item _) = TLV_DATA_TYPE_INT"
| "item_dtype (Long_item _) = TLV_DATA_TYPE_LONG"
| "item_dtype (String_item _) = TLV_DATA_TYPE_STRING"
| "item_dtype (Bytes_item _) = TLV_DATA_TYPE_BYTES"

text \<open>The call a client makes for an item; a string is followed by its terminator.\<close>

fun put_item :: "byte_order \<Rightarrow> tlv_box \<Rightarrow> short \<Rightarrow> item \<Rightarrow> tlv_mem \<Rightarrow> (int \<times> tlv_box \<times> tlv_mem) option" where
  "put_item e box ty (Char_item b) s = tlv_box_put_char box ty b s"
| "put_item e box ty (Short_item w) s = tlv_box_put_short e box ty w s"
| "put_item e box ty (Int_item w) s = tlv_box_put_int e box ty w s"
| "put_item e box ty (Long_item w) s = tlv_box_put_long e box ty w s"
| "put_item e box ty (String_item cs) s = tlv_box_put_string box ty (cs @ [0]) s"
| "put_item e box ty (Bytes_item bs) s = tlv_box_put_bytes box ty bs (of_nat (length bs)) s"

lemma c_strlen_terminated [simp]: "0 \<notin> set cs \<Longrightarrow> c_strlen (cs @ 0 # rest) = Some (length cs)"
  by (induction cs) auto

lemma length_item_bytes: "length (item_bytes e i) = length (item_wire i)"
  by (cases i) simp_all

lemma item_short: "item_ok i \<Longrightarrow> length (item_wire i) < 2 ^ 15"
  by (cases i) simp_all

lemma put_item_object:
  assumes "item_ok i"
  shows "put_item e box ty i s =
    tlv_box_putobject box ty (item_bytes e i) (of_nat (length (item_wire i))) (item_dtype i) s"
  using assms by (cases i)
    (simp_all add: tlv_box_put_char_def tlv_box_put_short_def tlv_box_put_int_def tlv_box_put_long_def
       tlv_box_put_string_def tlv_box_put_bytes_def)

lemma item_wire_value:
  "c_dtype c = item_dtype i \<Longrightarrow> c_bytes c = item_bytes e i \<Longrightarrow> wire_value e c = Some (item_wire i)"
  by (cases i) (simp_all add: wire_value_def read_bytes_def)

definition holds :: "byte_order \<Rightarrow> cell \<Rightarrow> short \<times> item \<Rightarrow> bool" where
  "holds e c = (\<lambda>(ty, i). c_type c = ty \<and> c_dtype c = item_dtype i \<and> c_bytes c = item_bytes e i)"

lemma put_item_new:
  assumes ok: "box_ok box s cs" and pre: "m_serialized_buffer box = None" "no_oom s"
    and i: "item_ok i" and new: "ty \<notin> c_type ` set cs"
  obtains box' s' c where "put_item e box ty i s = Some (0, box', s')" "box_ok box' s' (c # cs)"
    and "m_serialized_buffer box' = None" "no_oom s'" "holds e c (ty, i)"
proof -
  let ?len = "of_nat (length (item_wire i)) :: short"
  have len: "sint ?len = int (length (item_wire i))" using item_short [OF i] by simp
  then have fits: "0 \<le> sint ?len" "nat (sint ?len) \<le> length (item_bytes e i)"
    by (simp_all add: length_item_bytes)
  from putobject_new [OF ok pre fits new, of "item_dtype i"] obtain box' s' where
    "tlv_box_putobject box ty (item_bytes e i) ?len (item_dtype i) s = Some (0, box', s')"
    "box_ok box' s' (put_cell ty (item_bytes e i) ?len (item_dtype i) s # cs)"
    "m_serialized_buffer box' = None" "no_oom s'" .
  then show thesis using len
    by (intro that [of box' s' "put_cell ty (item_bytes e i) ?len (item_dtype i) s"])
       (simp_all add: put_item_object [OF i] holds_def put_cell_def length_item_bytes)
qed

fun put_items :: "byte_order \<Rightarrow> tlv_box \<Rightarrow> (short \<times> item) list \<Rightarrow> tlv_mem \<Rightarrow> (tlv_box \<times> tlv_mem) option" where
  "put_items e box [] s = Some (box, s)"
| "put_items e box ((ty, i) # items) s = do {
     (_, box, s) \<leftarrow> put_item e box ty i s;
     put_items e box items s }"

lemma put_items_ok:
  assumes "box_ok box s cs" "m_serialized_buffer box = None" "no_oom s"
    and "\<forall>(ty, i) \<in> set items. item_ok i \<and> ty \<notin> c_type ` set cs" "distinct (map fst items)"
  shows "\<exists>box' s' cs'. put_items e box items s = Some (box', s') \<and> box_ok box' s' (cs' @ cs) \<and>
    m_serialized_buffer box' = None \<and> no_oom s' \<and> list_all2 (holds e) cs' (rev items)"
  using assms
proof (induction items arbitrary: box s cs)
  case Nil
  then show ?case by auto
next
  case (Cons it items)
  obtain ty i where it: "it = (ty, i)" by (cases it)
  with Cons.prems have i: "item_ok i" "ty \<notin> c_type ` set cs" by auto
  from put_item_new [OF Cons.prems(1-3) i, where e = e] obtain box1 s1 c where
    c: "put_item e box ty i s = Some (0, box1, s1)" "box_ok box1 s1 (c # cs)"
      "m_serialized_buffer box1 = None" "no_oom s1" "holds e c (ty, i)" .
  have "\<forall>(ty, i) \<in> set items. item_ok i \<and> ty \<notin> c_type ` set (c # cs)"
    using Cons.prems(4,5) c(5) by (force simp: it holds_def)
  from Cons.IH [OF c(2-4) this] Cons.prems(5) obtain box' s' cs' where
    IH: "put_items e box1 items s1 = Some (box', s')" "box_ok box' s' (cs' @ c # cs)"
      "m_serialized_buffer box' = None" "no_oom s'" "list_all2 (holds e) cs' (rev items)"
    by (auto simp: it)
  moreover have "list_all2 (holds e) (cs' @ [c]) (rev (it # items))"
    using IH(5) c(5) by (simp add: it list_all2_appendI)
  ultimately show ?case
    by (intro exI [of _ box'] exI [of _ s'] exI [of _ "cs' @ [c]"]) (simp add: it c(1))
qed

definition wire_format :: "(short \<times> item) list \<Rightarrow> byte list" where
  "wire_format items = encode (rev (map (\<lambda>(ty, i). (ty, item_wire i)) items))"

lemma holds_wire:
  "list_all2 (holds e) cs items \<Longrightarrow> \<forall>(ty, i) \<in> set items. item_ok i \<Longrightarrow>
   wire_items e cs = map (\<lambda>(ty, i). (ty, item_wire i)) items \<and> (\<forall>c \<in> set cs. wire_value e c \<noteq> None) \<and>
   cells_size cs = length (encode (map (\<lambda>(ty, i). (ty, item_wire i)) items))"
  by (induction rule: list_all2_induct)
     (auto simp: holds_def wire_items_def item_wire_value length_item_bytes)

section \<open>The getters\<close>

lemma lookup_contents:
  assumes ok: "box_ok box s cs"
  shows "contents cs ty = None \<Longrightarrow> tlv_lookup box ty s = Some None"
    and "contents cs ty = Some bs \<Longrightarrow> \<exists>c. tlv_lookup box ty s = Some (Some (tlv_of c)) \<and>
      bytes_at (c_buf c) s = bs \<and> c_bytes c = bs \<and> length bs < 2 ^ 15"
  using lookup_ok [OF ok, of ty] cell_of_ok [OF ok, of ty]
  by (cases "cell_of cs ty"; auto simp: contents_def cell_ok_def bytes_at_cell)+

lemma get_present:
  assumes "box_ok box s cs" "contents cs ty = Some bs"
  shows "1 \<le> length bs \<Longrightarrow> tlv_box_get_char box ty s = Some (0, Some (hd bs))"
    and "2 \<le> length bs \<Longrightarrow> tlv_box_get_short e box ty s = Some (0, Some (of_be16 (take 2 bs)))"
    and "4 \<le> length bs \<Longrightarrow> tlv_box_get_int e box ty s = Some (0, Some (of_be32 (take 4 bs)))"
    and "4 \<le> length bs \<Longrightarrow> tlv_box_get_long e box ty s = Some (0, Some (of_be32 (take 4 bs)))"
  using lookup_contents(2) [OF assms]
  by (auto simp: tlv_box_get_char_def tlv_box_get_short_def tlv_box_get_int_def tlv_box_get_long_def
      read_bytes_def)

lemma get_bytes_present:
  assumes "box_ok box s cs" "contents cs ty = Some bs"
    and "int (length bs) \<le> sint len" "nat (sint len) \<le> length value"
  shows "tlv_box_get_bytes box ty value len s =
    Some (0, bs @ replicate (nat (sint len) - length bs) 0 @ drop (nat (sint len)) value, of_nat (length bs))"
proof -
  from lookup_contents(2) [OF assms(1,2)] obtain c where
    c: "tlv_lookup box ty s = Some (Some (tlv_of c))" "bytes_at (c_buf c) s = bs" "c_bytes c = bs"
      "length bs < 2 ^ 15" by blast
  define n where "n = nat (sint len)"
  have n: "length bs \<le> n" "n \<le> length value" "sint len = int n" using assms(3,4) by (simp_all add: n_def)
  have "write_bytes value 0 (replicate n 0) = Some (replicate n 0 @ drop n value)"
    "write_bytes (replicate n 0 @ drop n value) 0 bs =
      Some (bs @ replicate (n - length bs) 0 @ drop n value)"
    using n by (simp_all add: write_bytes_def)
  with c n show ?thesis by (simp add: tlv_box_get_bytes_def read_bytes_def)
qed

fun item_read :: "byte_order \<Rightarrow> tlv_box \<Rightarrow> tlv_mem \<Rightarrow> short \<Rightarrow> item \<Rightarrow> bool" where
  "item_read e box s ty (Char_item b) \<longleftrightarrow> tlv_box_get_char box ty s = Some (0, Some b)"
| "item_read e box s ty (Short_item w) \<longleftrightarrow> tlv_box_get_short e box ty s = Some (0, Some w)"
| "item_read e box s ty (Int_item w) \<longleftrightarrow> tlv_box_get_int e box ty s = Some (0, Some w)"
| "item_read e box s ty (Long_item w) \<longleftrightarrow> tlv_box_get_long e box ty s = Some (0, Some w)"
| "item_read e box s ty (String_item cs) \<longleftrightarrow>
     tlv_box_get_string box ty (replicate (length cs + 1) 255) (of_nat (length cs + 1)) s =
       Some (0, cs @ [0], of_nat (length cs + 1))"
| "item_read e box s ty (Bytes_item bs) \<longleftrightarrow>
     tlv_box_get_bytes box ty (replicate (length bs) 255) (of_nat (length bs)) s =
       Some (0, bs, of_nat (length bs))"

lemma item_read_contents:
  assumes ok: "box_ok box s cs" and c: "contents cs ty = Some (item_wire i)" and i: "item_ok i"
  shows "item_read e box s ty i"
proof (cases i)
  case (String_item cs)
  then show ?thesis
    using get_bytes_present [OF ok c, of "of_nat (length cs + 1)" "replicate (length cs + 1) 255"] i
    by (simp add: tlv_box_get_string_def del: of_nat_Suc of_nat_add)
next
  case (Bytes_item bs)
  then show ?thesis
    using get_bytes_present [OF ok c, of "of_nat (length bs)" "replicate (length bs) 255"] i by simp
qed (use get_present [OF ok c] in simp_all)

text \<open>C2: the round trip of the container.  A sender of either byte order creates a box, puts items of
  different types (characters, shorts, ints, longs, strings, byte blocks) and serializes it; a receiver
  of either byte order parses the bytes and reads back every value it is sent, and finds no other type.
  The buffer has exactly the announced size and holds the items in reverse order, each as type and length in
  network order followed by the value in network order.\<close>

theorem tlv_box_round_trip:
  assumes "distinct (map fst items)" "\<forall>(ty, i) \<in> set items. item_ok i"
    and "length (wire_format items) < 2 ^ 31" "no_oom s" "no_oom t"
  shows "\<exists>box0 s0 box1 s1 box2 s2 box3 t3.
    tlv_box_create s = Some (box0, s0) \<and> put_items e box0 items s0 = Some (box1, s1) \<and>
    tlv_box_serialize e box1 s1 = Some (0, box2, s2) \<and>
    bytes_at (tlv_box_get_buffer box2) s2 = wire_format items \<and>
    tlv_box_parse e' (bytes_at (tlv_box_get_buffer box2) s2) (tlv_box_get_size box2) t = Some (box3, t3) \<and>
    (\<forall>(ty, i) \<in> set items. item_read e' box3 t3 ty i) \<and>
    (\<forall>ty. ty \<notin> fst ` set items \<longrightarrow> tlv_box_get_bytes_ptr box3 ty t3 = Some (-1, None))"
proof -
  let ?w = "map (\<lambda>(ty, i). (ty, item_wire i)) items"
  from box_create_ok [OF assms(4)] obtain box0 s0 where c: "tlv_box_create s = Some (box0, s0)"
    "box_ok box0 s0 []" "no_oom s0" "m_serialized_buffer box0 = None" .
  from put_items_ok [OF c(2,4,3), of items e] assms(1,2) obtain box1 s1 cs where
    p: "put_items e box0 items s0 = Some (box1, s1)" "box_ok box1 s1 cs"
      "m_serialized_buffer box1 = None" "no_oom s1" "list_all2 (holds e) cs (rev items)" by auto
  note w = holds_wire [OF p(5)]
  have enc: "encode (wire_items e cs) = wire_format items" "cells_size cs < 2 ^ 31"
    "\<forall>c \<in> set cs. wire_value e c \<noteq> None"
    using w assms(2,3) by (auto simp: wire_format_def rev_map)
  from serialize_ok [OF p(2-4) enc(2,3)] obtain box2 s2 where
    ser: "tlv_box_serialize e box1 s1 = Some (0, box2, s2)"
      "bytes_at (tlv_box_get_buffer box2) s2 = wire_format items"
      "tlv_box_get_size box2 = int (length (wire_format items))" unfolding enc(1) by blast
  have "decode (wire_format items) = Some (rev ?w)"
    unfolding wire_format_def using assms(2) item_short by (intro decode_encode) fastforce
  then have dec: "decode (take (nat (int (length (wire_format items)))) (wire_format items)) = Some (rev ?w)"
    by simp
  obtain box3 t3 ds where
    par: "tlv_box_parse e' (wire_format items) (int (length (wire_format items))) t = Some (box3, t3)"
      "box_ok box3 t3 ds" "contents ds = map_of (rev ?w)"
    by (rule parse_ok [OF assms(5) _ _ dec, of e']) (simp, simp, blast)
  have map_rev: "map_of (rev ?w) = map_of ?w"
    using assms(1) by (subst map_of_inject_set) (simp_all add: rev_map [symmetric] comp_def case_prod_beta)
  have "item_read e' box3 t3 ty i" if "(ty, i) \<in> set items" for ty i
  proof (rule item_read_contents [OF par(2)])
    show "contents ds ty = Some (item_wire i)" unfolding par(3) map_rev
      using that assms(1) by (intro map_of_is_SomeI) (auto simp: comp_def case_prod_beta image_iff intro: bexI [of _ "(ty, i)"])
    show "item_ok i" using that assms(2) by auto
  qed
  moreover have "tlv_box_get_bytes_ptr box3 ty t3 = Some (-1, None)" if "ty \<notin> fst ` set items" for ty
  proof -
    have "contents ds ty = None" unfolding par(3) map_rev
      using that by (auto simp: map_of_eq_None_iff image_iff)
    from lookup_contents(1) [OF par(2) this] show ?thesis by (simp add: tlv_box_get_bytes_ptr_def)
  qed
  ultimately show ?thesis using c(1) p(1) ser par(1) by auto
qed

definition tlv_mem0 :: "nat \<Rightarrow> tlv_mem" where
  "tlv_mem0 b = \<lparr>brk = b, alloc_fails = (\<lambda>_. False), junk = (\<lambda>_ _. 170), nodes = Map.empty,
     tlvs = Map.empty, bufs = Map.empty\<rparr>"

lemma tlv_mem0_oom [simp]: "no_oom (tlv_mem0 b)"
  by (simp add: no_oom_def tlv_mem0_def)

theorem tlv_box_round_trip_witness:
  "\<exists>box0 s0 box1 s1 box2 s2 box3 t3.
    tlv_box_create (tlv_mem0 1) = Some (box0, s0) \<and>
    put_items Little_Endian box0 [(1, Int_item 258), (7, String_item [104, 105])] s0 = Some (box1, s1) \<and>
    tlv_box_serialize Little_Endian box1 s1 = Some (0, box2, s2) \<and>
    bytes_at (tlv_box_get_buffer box2) s2 = [0, 7, 0, 3, 104, 105, 0, 0, 1, 0, 4, 0, 0, 1, 2] \<and>
    tlv_box_parse Big_Endian (bytes_at (tlv_box_get_buffer box2) s2) (tlv_box_get_size box2) (tlv_mem0 50)
      = Some (box3, t3) \<and>
    tlv_box_get_int Big_Endian box3 1 t3 = Some (0, Some 258)"
proof -
  let ?items = "[(1, Int_item 258), (7, String_item [104, 105])]"
  have w: "wire_format ?items = [0, 7, 0, 3, 104, 105, 0, 0, 1, 0, 4, 0, 0, 1, 2]" by code_simp
  show ?thesis
    using tlv_box_round_trip [of ?items "tlv_mem0 1" "tlv_mem0 50" Little_Endian Big_Endian, unfolded w]
    by auto
qed

section \<open>Malformed input\<close>

text \<open>C10: parsing of arbitrary bytes.  With memory left, \<open>tlv_box_parse\<close> of a buffer of \<open>n\<close> bytes either
  returns a well-formed box holding, for every type, the first item of that type, or reads outside the
  buffer; the latter happens exactly when the bytes are not a sequence of complete items with
  non-negative lengths.  The function never rejects its input.\<close>

theorem tlv_box_parse_total:
  assumes "no_oom s" "int n < 2 ^ 31" "length buffer = n"
  shows "case decode buffer of
      None \<Rightarrow> tlv_box_parse e buffer (int n) s = None
    | Some items \<Rightarrow> \<exists>box s' cs. tlv_box_parse e buffer (int n) s = Some (box, s') \<and> box_ok box s' cs \<and>
        contents cs = map_of items \<and> bytes_at (tlv_box_get_buffer box) s' = buffer"
proof (cases "decode buffer")
  case None
  with parse_fault [OF assms(1), of "int n" buffer e] assms(3) show ?thesis by simp
next
  case (Some items)
  with assms(3) have dec: "decode (take (nat (int n)) buffer) = Some items" by simp
  obtain box s' cs where "tlv_box_parse e buffer (int n) s = Some (box, s')" "box_ok box s' cs"
    "contents cs = map_of items" "bytes_at (m_serialized_buffer box) s' = take (nat (int n)) buffer"
    by (rule parse_ok [OF assms(1) _ _ dec, of e]) (use assms(3) in simp, use assms(3) in simp, blast)
  with Some assms(3) show ?thesis by (auto simp: tlv_box_get_buffer_def)
qed

theorem tlv_box_parse_total_witness:
  "tlv_box_parse Big_Endian [0, 1, 0, 9, 65] 5 (tlv_mem0 1) = None"
proof -
  have "decode [0, 1, 0, 9, 65] = None" by code_simp
  with tlv_box_parse_total [of "tlv_mem0 1" 5 "[0, 1, 0, 9, 65]" Big_Endian] show ?thesis by simp
qed

section \<open>Releasing a box\<close>

definition release_cells :: "cell list \<Rightarrow> tlv_mem \<Rightarrow> tlv_mem" where
  "release_cells cs s = s\<lparr>tlvs := tlvs s |` (- c_tlv ` set cs), bufs := bufs s |` (- set (cell_bufs cs))\<rparr>"

lemma release_one:
  assumes "cell_ok s c"
  shows "tlv_box_release_tlv (Some (c_tlv c)) s = Some (release_cells [c] s)"
  using assms
  by (cases "c_buf c")
     (auto simp: cell_ok_def tlv_box_release_tlv_def free_buf_def release_cells_def restrict_map_def fun_eq_iff)

lemma cell_bufs_mem: "d \<in> set cs \<Longrightarrow> c_buf d = Some b \<Longrightarrow> b \<in> set (cell_bufs cs)"
  by (induction cs) auto

lemma release_all:
  "\<forall>c \<in> set cs. cell_ok s c \<Longrightarrow> distinct (map c_tlv cs) \<Longrightarrow> distinct (cell_bufs cs) \<Longrightarrow>
   release_values tlv_box_release_tlv (map (\<lambda>c. Some (c_tlv c)) cs) s = Some (release_cells cs s)"
proof (induction cs arbitrary: s)
  case Nil
  then show ?case by (simp add: release_cells_def restrict_map_def)
next
  case (Cons c cs)
  have "cell_ok (release_cells [c] s) d" if "d \<in> set cs" for d
  proof -
    have "cell_ok s d" "c_tlv d \<noteq> c_tlv c" using that Cons.prems(1,2) by (auto simp: image_iff)
    moreover have "b \<notin> set (cell_bufs [c])" if "c_buf d = Some b" for b
      using cell_bufs_mem [OF \<open>d \<in> set cs\<close> that] Cons.prems(3) by (auto split: option.splits)
    ultimately show ?thesis
      by (cases "c_buf d") (auto simp: cell_ok_def release_cells_def)
  qed
  then have "release_values tlv_box_release_tlv (map (\<lambda>c. Some (c_tlv c)) cs) (release_cells [c] s) =
      Some (release_cells cs (release_cells [c] s))"
    using Cons.prems by (intro Cons.IH) (auto split: option.splits)
  moreover have "release_cells cs (release_cells [c] s) = release_cells (c # cs) s"
    by (auto simp: release_cells_def restrict_map_def fun_eq_iff split: option.splits)
  ultimately show ?case using release_one Cons.prems(1) by simp
qed

lemma destroy_ok:
  assumes "box_ok box s cs"
  shows "tlv_box_destroy box s = Some (0, s\<lparr>nodes := nodes s |` (- c_node ` set cs),
     tlvs := tlvs s |` (- c_tlv ` set cs),
     bufs := bufs s |` (- (set (cell_bufs cs) \<union> set_option (m_serialized_buffer box)))\<rparr>)"
proof -
  note d = box_okD [OF assms]
  have "destroy_loop (releaser (m_list box)) (header (m_list box)) s =
      Some ((release_cells cs s)\<lparr>nodes := nodes s |` (- c_node ` set cs)\<rparr>)"
    using tlv_rel.destroy_loop_dlseg [OF key_list_okD(1,2) [OF d(1)]] release_all [OF d(3-5)] d(2)
    by (simp add: entry_of_def comp_def image_image)
  then have destroy: "key_list_destroy (m_list box) s =
      Some (0, (release_cells cs s)\<lparr>nodes := nodes s |` (- c_node ` set cs)\<rparr>)"
    by (simp add: key_list_destroy_def)
  show ?thesis
  proof (cases "m_serialized_buffer box")
    case None
    with destroy show ?thesis by (simp add: tlv_box_destroy_def release_cells_def)
  next
    case (Some b)
    with assms have "bufs s b \<noteq> None" "b \<notin> set (cell_bufs cs)" by (auto simp: box_ok_def)
    moreover from this have "(bufs s |` (- set (cell_bufs cs)))(b := None) = bufs s |` (- insert b (set (cell_bufs cs)))"
      by (auto simp: restrict_map_def fun_eq_iff)
    ultimately show ?thesis using destroy Some
      by (simp add: tlv_box_destroy_def release_cells_def free_buf_def)
  qed
qed


lemma empty_box_ok:
  "box_ok \<lparr>m_list = \<lparr>count = 0, header = None, releaser = tlv_box_release_tlv\<rparr>,
     m_serialized_buffer = None, m_serialized_bytes = 0\<rparr> s []"
  by (simp add: box_ok_def key_list_ok_def last_ptr_def wrap32_def)




text \<open>What the serializer does to floating-point and 64-bit values: on the big-endian target the value
  1.5 goes out as 1.0, and the upper half of a \<open>long long\<close> is lost.\<close>

lemma float_truncated:
  "tlv_wire_value Big_Endian TLV_DATA_TYPE_FLOAT (be32 0x3FC00000) 4 = Some (be32 0x3F800000)"
  by (simp add: read_bytes_def float_to_u32_def float_trunc_def float_of_nat_def ilog2.simps htonl_def
      native32_def of_native32_def)

lemma longlong_truncated:
  "tlv_wire_value Big_Endian TLV_DATA_TYPE_LONGLONG [1, 2, 3, 4, 5, 6, 7, 8] 8 = Some [0, 0, 0, 0, 5, 6, 7, 8]"
  by code_simp

end
