(* ===== verification/ListLinks.thy ===== *)
theory ListLinks
  imports Prelude
begin

text \<open>
  The circular doubly linked lists of \<open>src/osal/linux/os_timer.c\<close> (\<open>struct list_links\<close>), which
  keep the free timers, the free and active service threads, and the timer queue of every thread.
  The links are intrusive: a node is a member of at most one list at a time, and a node that is
  in none may point to itself.  The store maps every node to its two pointers, \<open>None\<close> being the
  null pointer of a node that was never initialised.

  The store is abstracted to a family of disjoint rings (\<open>rings\<close>): a set of heads, each with the
  sequence of nodes linked behind it.  A node unlinked by \<open>list_unlink_ip\<close> is the head of an
  empty ring of its own.
\<close>

record 'l links =
  lnext :: "'l \<Rightarrow> 'l option"
  lprev :: "'l \<Rightarrow> 'l option"

section \<open>Operations\<close>

definition set_next :: "'l \<Rightarrow> 'l \<Rightarrow> 'l links \<Rightarrow> 'l links" where
  "set_next a b L = L\<lparr>lnext := (lnext L)(a := Some b)\<rparr>"

definition set_prev :: "'l \<Rightarrow> 'l \<Rightarrow> 'l links \<Rightarrow> 'l links" where
  "set_prev a b L = L\<lparr>lprev := (lprev L)(a := Some b)\<rparr>"

definition list_init :: "'l \<Rightarrow> 'l links \<Rightarrow> 'l links" where
  "list_init list L = set_next list list (set_prev list list L)"

definition list_append :: "'l \<Rightarrow> 'l \<Rightarrow> 'l links \<Rightarrow> 'l links option" where
  "list_append list newp L = do {
     let L = L\<lparr>lprev := (lprev L)(newp := lprev L list)\<rparr>;
     let L = set_next newp list L;
     p \<leftarrow> lprev L list;
     let L = set_next p newp L;
     Some (set_prev list newp L) }"

definition list_insbefore :: "'l \<Rightarrow> 'l \<Rightarrow> 'l links \<Rightarrow> 'l links option" where
  "list_insbefore list newp L = list_append list newp L"

definition list_unlink :: "'l \<Rightarrow> 'l links \<Rightarrow> 'l links option" where
  "list_unlink list L = do {
     n \<leftarrow> lnext L list;
     p \<leftarrow> lprev L list;
     let L = set_prev n p L;
     Some (set_next p n L) }"

definition list_unlink_ip :: "'l \<Rightarrow> 'l links \<Rightarrow> 'l links option" where
  "list_unlink_ip list L = do {
     n \<leftarrow> lnext L list;
     p \<leftarrow> lprev L list;
     let L = set_prev n p L;
     let L = set_next p n L;
     let L = set_next list list L;
     Some (set_prev list list L) }"

definition list_first :: "'l \<Rightarrow> 'l links \<Rightarrow> 'l option" where
  "list_first list L = lnext L list"

definition list_null :: "'l \<Rightarrow> 'l" where
  "list_null list = list"

definition list_next :: "'l \<Rightarrow> 'l links \<Rightarrow> 'l option" where
  "list_next list L = lnext L list"

definition list_isempty :: "'l \<Rightarrow> 'l links \<Rightarrow> bool" where
  "list_isempty list L \<longleftrightarrow> lnext L list = Some list"

lemmas link_writes = set_next_def set_prev_def

lemma set_next_sel [simp]: "lnext (set_next a b L) = (lnext L)(a := Some b)" "lprev (set_next a b L) = lprev L"
  by (simp_all add: set_next_def)

lemma set_prev_sel [simp]: "lprev (set_prev a b L) = (lprev L)(a := Some b)" "lnext (set_prev a b L) = lnext L"
  by (simp_all add: set_prev_def)

section \<open>Rings\<close>

text \<open>The nodes of a sequence are linked to their neighbours in both directions.\<close>

fun chain :: "'l links \<Rightarrow> 'l list \<Rightarrow> bool" where
  "chain L (a # b # xs) \<longleftrightarrow> lnext L a = Some b \<and> lprev L b = Some a \<and> chain L (b # xs)"
| "chain L _ \<longleftrightarrow> True"

definition ring :: "'l links \<Rightarrow> 'l \<Rightarrow> 'l list \<Rightarrow> bool" where
  "ring L h xs \<longleftrightarrow> distinct (h # xs) \<and> chain L (h # xs @ [h])"

lemma chain_append: "chain L (xs @ p # q # ys) \<longleftrightarrow>
    chain L (xs @ [p]) \<and> lnext L p = Some q \<and> lprev L q = Some p \<and> chain L (q # ys)"
  by (induction L xs rule: chain.induct) auto

lemma chain_cong:
  "(\<And>x. x \<in> set (butlast xs) \<Longrightarrow> lnext L' x = lnext L x) \<Longrightarrow>
   (\<And>x. x \<in> set (tl xs) \<Longrightarrow> lprev L' x = lprev L x) \<Longrightarrow> chain L xs \<Longrightarrow> chain L' xs"
  by (induction L xs rule: chain.induct) auto

text \<open>A ring seen from between two of its elements: \<open>p\<close> is the last node before the gap, \<open>q\<close> the
  first one after it.\<close>

lemma gap_split:
  obtains us vs p q where "h # xs = us @ [p]" "ys @ [h] = q # vs" "p = last (h # xs)" "q = hd (ys @ [h])"
  by (metis append_butlast_last_id hd_Cons_tl list.distinct(1) snoc_eq_iff_butlast)

lemma ring_gap:
  assumes "h # xs = us @ [p]" "ys @ [h] = q # vs"
  shows "ring L h (xs @ ys) \<longleftrightarrow> distinct (h # xs @ ys) \<and> chain L (us @ [p]) \<and>
    lnext L p = Some q \<and> lprev L q = Some p \<and> chain L (q # vs)"
proof -
  have "h # (xs @ ys) @ [h] = us @ p # q # vs" using assms by (metis append_Cons append_assoc append_Nil)
  then show ?thesis unfolding ring_def by (simp only: chain_append)
qed

text \<open>The members on the two sides of a gap are different.\<close>

lemma gap_distinct:
  assumes "h # xs = us @ [p]" "ys @ [h] = q # vs" "distinct (h # xs @ ys)"
  shows "p \<notin> set us" "p \<notin> set (butlast (q # vs))" "q \<notin> set (tl (us @ [p]))" "q \<notin> set vs"
    and "set (us @ [p]) = set (h # xs)" "set (q # vs) = set (h # ys)"
    and "set (tl (us @ [p])) \<subseteq> set xs" "set (butlast (q # vs)) = set ys"
proof -
  show sets: "set (us @ [p]) = set (h # xs)" "set (q # vs) = set (h # ys)"
    using assms(1,2) by (metis, metis append.right_neutral append_Cons list.set(1) rotate1.simps(2) set_rotate1)
  show tl: "set (tl (us @ [p])) \<subseteq> set xs" "set (butlast (q # vs)) = set ys"
    using assms(1,2) by (metis list.sel(3) order_refl, metis butlast_snoc)
  have "distinct (us @ [p])" using assms(1,3) by (metis append_Cons distinct_append)
  then show "p \<notin> set us" by simp
  have "p \<in> set (h # xs)" using sets by auto
  then show "p \<notin> set (butlast (q # vs))" using assms(3) tl by auto
  have "distinct (ys @ [h])" using assms(3) by simp
  then show "q \<notin> set vs" using assms(2) by simp
  have "q \<in> set (h # ys)" using sets by auto
  then show "q \<notin> set (tl (us @ [p]))" using assms(3) tl(1) by auto
qed

text \<open>Linking a new node into a gap, and taking a node out.\<close>

lemma ring_insert:
  assumes ring: "ring L h (xs @ ys)" and new: "n \<notin> set (h # xs @ ys)"
  obtains L' where "list_append (hd (ys @ [h])) n L = Some L'" "ring L' h (xs @ n # ys)"
    and "\<And>x. x \<notin> insert n (set (h # xs @ ys)) \<Longrightarrow> lnext L' x = lnext L x \<and> lprev L' x = lprev L x"
proof -
  obtain us vs p q where gap: "h # xs = us @ [p]" "ys @ [h] = q # vs" and q: "q = hd (ys @ [h])"
    by (rule gap_split)
  from ring have d: "distinct (h # xs @ ys)" by (simp add: ring_def)
  note g = gap_distinct [OF gap d]
  from ring have c: "chain L (us @ [p])" "lnext L p = Some q" "lprev L q = Some p" "chain L (q # vs)"
    by (simp_all add: ring_gap [OF gap])
  have n: "n \<noteq> p" "n \<noteq> q" "n \<notin> set (us @ [p])" "n \<notin> set (q # vs)" "n \<notin> set (tl (us @ [p]))"
    using new g(5-7) by auto
  define L' where "L' = set_prev q n (set_next p n (set_next n q (L\<lparr>lprev := (lprev L)(n := Some p)\<rparr>)))"
  have app: "list_append q n L = Some L'"
    using c(3) n by (simp add: list_append_def L'_def)
  have nxt: "lnext L' = (lnext L)(n := Some q, p := Some n)" and prv: "lprev L' = (lprev L)(n := Some p, q := Some n)"
    by (simp_all add: L'_def)
  have left: "chain L' (us @ [p])"
    using c(1) g(1,3) n(3,5) by (intro chain_cong [of _ L' L]) (auto simp: nxt prv)
  have right: "chain L' (q # vs)"
    using c(4) g(2,4) n(4) by (intro chain_cong [of _ L' L]) (auto simp: nxt prv dest: in_set_butlastD split: if_splits)
  have gap': "(n # ys) @ [h] = n # (q # vs)" using gap(2) by simp
  have "ring L' h (xs @ n # ys)"
    unfolding ring_gap [OF gap(1) gap'] using d new left right n by (auto simp: nxt prv)
  moreover have "lnext L' x = lnext L x \<and> lprev L' x = lprev L x" if "x \<notin> insert n (set (h # xs @ ys))" for x
  proof -
    have "p \<in> set (h # xs)" "q \<in> set (h # ys)" using g(5,6) by auto
    with that show ?thesis by (auto simp: nxt prv)
  qed
  ultimately show thesis using that app q by blast
qed

lemma ring_remove:
  assumes ring: "ring L h (xs @ x # ys)"
  obtains n p where "lnext L x = Some n" "lprev L x = Some p"
    and "ring (set_next p n (set_prev n p L)) h (xs @ ys)" "p \<in> set (h # xs)" "n \<in> set (h # ys)"
proof -
  obtain us vs p q where gap: "h # xs = us @ [p]" "ys @ [h] = q # vs" by (rule gap_split)
  from ring have d: "distinct (h # xs @ x # ys)" by (simp add: ring_def)
  then have d': "distinct (h # xs @ ys)" by simp
  note g = gap_distinct [OF gap d']
  have gap': "(x # ys) @ [h] = x # (q # vs)" using gap(2) by simp
  from ring have c: "chain L (us @ [p])" "lnext L p = Some x" "lprev L x = Some p"
    "lnext L x = Some q" "lprev L q = Some x" "chain L (q # vs)"
    by (simp_all add: ring_gap [OF gap(1) gap'])
  define L' where "L' = set_next p q (set_prev q p L)"
  have nxt: "lnext L' = (lnext L)(p := Some q)" and prv: "lprev L' = (lprev L)(q := Some p)"
    by (simp_all add: L'_def)
  have left: "chain L' (us @ [p])"
    using c(1) g(1,3) by (intro chain_cong [of _ L' L]) (auto simp: nxt prv dest: list.set_sel)
  have right: "chain L' (q # vs)"
    using c(6) g(2,4) by (intro chain_cong [of _ L' L]) (auto simp: nxt prv split: if_splits)
  have "ring L' h (xs @ ys)"
    unfolding ring_gap [OF gap] using d' left right by (simp add: nxt prv)
  moreover have "p \<in> set (h # xs)" "q \<in> set (h # ys)" using g(5,6) by auto
  ultimately show thesis using that c(3,4) by (simp add: L'_def)
qed

lemma ring_cong:
  assumes "ring L h xs" "\<And>x. x \<in> set (h # xs) \<Longrightarrow> lnext L' x = lnext L x \<and> lprev L' x = lprev L x"
  shows "ring L' h xs"
  using assms unfolding ring_def
  by (auto intro!: chain_cong [of _ L' L] dest: in_set_butlastD simp: butlast_append split: if_splits)

lemma ring_empty: "ring L h [] \<longleftrightarrow> lnext L h = Some h \<and> lprev L h = Some h"
  by (simp add: ring_def)

lemma ring_init: "ring (list_init h L) h []"
  by (simp add: ring_empty list_init_def)

lemma ring_first: "ring L h xs \<Longrightarrow> list_first h L = Some (hd (xs @ [h]))"
  by (cases xs) (simp_all add: ring_def list_first_def)

lemma ring_next: "ring L h (xs @ x # ys) \<Longrightarrow> list_next x L = Some (hd (ys @ [h]))"
  by (cases ys) (auto simp: ring_def list_next_def chain_append [where xs = "h # xs", simplified])

lemma ring_isempty: "ring L h xs \<Longrightarrow> list_isempty h L \<longleftrightarrow> xs = []"
  by (cases xs) (auto simp: ring_def list_isempty_def)

section \<open>Families of disjoint rings\<close>

definition rings :: "'l links \<Rightarrow> 'l set \<Rightarrow> ('l \<Rightarrow> 'l list) \<Rightarrow> bool" where
  "rings L H R \<longleftrightarrow> (\<forall>h \<in> H. ring L h (R h)) \<and>
     (\<forall>h \<in> H. \<forall>k \<in> H. h \<noteq> k \<longrightarrow> set (h # R h) \<inter> set (k # R k) = {})"

definition members :: "'l set \<Rightarrow> ('l \<Rightarrow> 'l list) \<Rightarrow> 'l set" where
  "members H R = (\<Union>h \<in> H. set (h # R h))"

lemma ringsD: "rings L H R \<Longrightarrow> h \<in> H \<Longrightarrow> ring L h (R h)"
  by (simp add: rings_def)

lemma rings_disjoint: "rings L H R \<Longrightarrow> h \<in> H \<Longrightarrow> k \<in> H \<Longrightarrow> h \<noteq> k \<Longrightarrow> set (h # R h) \<inter> set (k # R k) = {}"
  by (simp add: rings_def)

lemma rings_subset: "rings L H R \<Longrightarrow> H' \<subseteq> H \<Longrightarrow> rings L H' R"
  unfolding rings_def by blast

text \<open>Replacing one ring of the family by another that gained nodes from outside the family only.\<close>

lemma rings_update:
  assumes R: "rings L H R" and h: "h \<in> H" and ring: "ring L' h xs"
    and new: "set xs \<subseteq> set (R h) \<union> N" "N \<inter> members H R = {}"
    and frame: "\<And>x. x \<notin> set (h # R h) \<union> N \<Longrightarrow> lnext L' x = lnext L x \<and> lprev L' x = lprev L x"
  shows "rings L' H (R(h := xs))"
  unfolding rings_def
proof (intro conjI ballI impI)
  have disj: "set (k # R k) \<inter> (set (h # R h) \<union> N) = {}" if "k \<in> H" "k \<noteq> h" for k
    using rings_disjoint [OF R that(1) h that(2)] new(2) that(1) by (auto simp: members_def)
  show "ring L' k ((R(h := xs)) k)" if "k \<in> H" for k
  proof (cases "k = h")
    case False
    with disj [OF that] frame have "ring L' k (R k)" by (intro ring_cong [OF ringsD [OF R that]]) blast
    with False show ?thesis by simp
  qed (simp add: ring)
  show "set (k # (R(h := xs)) k) \<inter> set (l # (R(h := xs)) l) = {}"
    if kl: "k \<in> H" "l \<in> H" "k \<noteq> l" for k l
  proof -
    have xs: "set (h # xs) \<subseteq> set (h # R h) \<union> N" using new(1) by auto
    consider "k = h" "l \<noteq> h" | "l = h" "k \<noteq> h" | "k \<noteq> h" "l \<noteq> h" using kl(3) by blast
    then show ?thesis
    proof cases
      case 1
      with disj [OF kl(2)] xs show ?thesis by fastforce
    next
      case 2
      with disj [OF kl(1)] xs show ?thesis by fastforce
    next
      case 3
      with rings_disjoint [OF R kl] show ?thesis by simp
    qed
  qed
qed

lemma rings_insert:
  assumes R: "rings L H R" and h: "h \<in> H" "R h = xs @ ys" and new: "n \<notin> members H R"
  obtains L' where "list_append (hd (ys @ [h])) n L = Some L'" "rings L' H (R(h := xs @ n # ys))"
proof -
  have "ring L h (xs @ ys)" "n \<notin> set (h # xs @ ys)"
    using ringsD [OF R h(1)] new h by (auto simp: members_def)
  then obtain L' where L': "list_append (hd (ys @ [h])) n L = Some L'" "ring L' h (xs @ n # ys)"
    "\<And>x. x \<notin> insert n (set (h # xs @ ys)) \<Longrightarrow> lnext L' x = lnext L x \<and> lprev L' x = lprev L x"
    by (rule ring_insert) blast
  have "rings L' H (R(h := xs @ n # ys))"
    by (rule rings_update [OF R h(1) L'(2), of "{n}"]) (use new h(2) L'(3) in auto)
  with L'(1) show thesis by (rule that)
qed

lemma rings_append:
  assumes "rings L H R" "h \<in> H" "n \<notin> members H R"
  obtains L' where "list_append h n L = Some L'" "rings L' H (R(h := R h @ [n]))"
  using rings_insert [OF assms(1,2), of "R h" "[]" n] assms(3) by auto

lemma rings_unlink:
  assumes R: "rings L H R" and h: "h \<in> H" "R h = xs @ x # ys"
  obtains L' where "list_unlink x L = Some L'" "rings L' H (R(h := xs @ ys))"
    and "x \<notin> members H (R(h := xs @ ys))"
proof -
  have ring: "ring L h (xs @ x # ys)" using ringsD [OF R h(1)] h(2) by simp
  then obtain n p where np: "lnext L x = Some n" "lprev L x = Some p"
    "ring (set_next p n (set_prev n p L)) h (xs @ ys)" "p \<in> set (h # xs)" "n \<in> set (h # ys)"
    by (rule ring_remove)
  have "rings (set_next p n (set_prev n p L)) H (R(h := xs @ ys))"
    by (rule rings_update [OF R h(1) np(3), of "{}"]) (use np(4,5) h(2) in auto)
  moreover have "x \<notin> members H (R(h := xs @ ys))"
  proof
    assume "x \<in> members H (R(h := xs @ ys))"
    then obtain k where k: "k \<in> H" "x \<in> set (k # (R(h := xs @ ys)) k)" by (auto simp: members_def)
    have "k = h" using rings_disjoint [OF R k(1) h(1)] k(2) h(2) by (cases "k = h") auto
    with k(2) ring show False by (auto simp: ring_def)
  qed
  ultimately show thesis using that np(1,2) by (simp add: list_unlink_def)
qed

lemma rings_loose:
  assumes R: "rings L H R" and x: "x \<notin> members H R"
  shows "rings (list_init x L) (insert x H) (R(x := []))"
proof -
  have same: "ring (list_init x L) h (R h)" if "h \<in> H" for h
    using x that by (intro ring_cong [OF ringsD [OF R that]]) (auto simp: list_init_def members_def)
  have "x \<notin> H" using x by (auto simp: members_def)
  then show ?thesis using R x same ring_init [of x L]
    by (auto simp: rings_def members_def)
qed

text \<open>Unlinking with \<open>list_unlink_ip\<close>: the node becomes a ring of its own, and doing it again
  changes nothing.\<close>

lemma unlink_ip_split: "list_unlink_ip x L = map_option (list_init x) (list_unlink x L)"
  by (cases "lnext L x"; cases "lprev L x")
     (auto simp: list_unlink_ip_def list_unlink_def list_init_def link_writes)

lemma rings_unlink_ip:
  assumes R: "rings L H R" and h: "h \<in> H" "R h = xs @ x # ys"
  obtains L' where "list_unlink_ip x L = Some L'" "rings L' (insert x H) (R(h := xs @ ys, x := []))"
proof -
  from rings_unlink [OF R h] obtain L1 where L1: "list_unlink x L = Some L1" "rings L1 H (R(h := xs @ ys))"
    "x \<notin> members H (R(h := xs @ ys))" .
  from rings_loose [OF L1(2,3)] show thesis
    by (intro that [of "list_init x L1"]) (simp_all add: unlink_ip_split L1(1))
qed

lemma rings_unlink_ip_again:
  assumes "rings L H R" "x \<in> H" "R x = []"
  shows "list_unlink_ip x L = Some L"
proof -
  have "lnext L x = Some x" "lprev L x = Some x" using ringsD [OF assms(1,2)] assms(3) by (simp_all add: ring_empty)
  moreover from this have "(lnext L)(x := Some x) = lnext L" "(lprev L)(x := Some x) = lprev L"
    by (auto simp: fun_eq_iff)
  ultimately show ?thesis by (simp add: list_unlink_ip_def link_writes)
qed

end
