(* ===== verification/Timespec.thy ===== *)
theory Timespec
  imports Prelude
begin

text \<open>
  The time arithmetic of \<open>src/osal/linux/os_timer.c\<close>.  \<open>time_t\<close> and \<open>long\<close> have 32 bits on the
  target, so every stored result is wrapped to that width; the lemmas give the ranges in which nothing
  wraps and relate the operations to the time in nanoseconds.
\<close>

record timespec =
  tv_sec :: int
  tv_nsec :: int

record itimerspec =
  it_interval :: timespec
  it_value :: timespec

definition zero_timespec :: timespec where
  "zero_timespec = \<lparr>tv_sec = 0, tv_nsec = 0\<rparr>"

definition zero_itimerspec :: itimerspec where
  "zero_itimerspec = \<lparr>it_interval = zero_timespec, it_value = zero_timespec\<rparr>"

definition ms2ts :: "int \<Rightarrow> timespec" where
  "ms2ts ms = \<lparr>tv_sec = ms sdiv 1000, tv_nsec = (ms smod 1000) * 1000000\<rparr>"

definition timespec_compare :: "timespec \<Rightarrow> timespec \<Rightarrow> int" where
  "timespec_compare left right =
     (if tv_sec left < tv_sec right then -1
      else if tv_sec left > tv_sec right then 1
      else if tv_nsec left < tv_nsec right then -1
      else if tv_nsec left > tv_nsec right then 1
      else 0)"

definition timespec_add :: "timespec \<Rightarrow> timespec \<Rightarrow> timespec" where
  "timespec_add left right =
     (let sec = wrap32 (tv_sec left + tv_sec right); nsec = wrap32 (tv_nsec left + tv_nsec right)
      in if nsec \<ge> 1000000000 then \<lparr>tv_sec = wrap32 (sec + 1), tv_nsec = nsec - 1000000000\<rparr>
         else \<lparr>tv_sec = sec, tv_nsec = nsec\<rparr>)"

definition timespec_sub :: "timespec \<Rightarrow> timespec \<Rightarrow> timespec" where
  "timespec_sub left right =
     (let sec = wrap32 (tv_sec left - tv_sec right); nsec = wrap32 (tv_nsec left - tv_nsec right)
      in if nsec < 0 then \<lparr>tv_sec = wrap32 (sec - 1), tv_nsec = wrap32 (nsec + 1000000000)\<rparr>
         else \<lparr>tv_sec = sec, tv_nsec = nsec\<rparr>)"

section \<open>Meaning\<close>

definition ts_ok :: "timespec \<Rightarrow> bool" where
  "ts_ok t \<longleftrightarrow> 0 \<le> tv_nsec t \<and> tv_nsec t < 1000000000"

definition nanos :: "timespec \<Rightarrow> int" where
  "nanos t = tv_sec t * 1000000000 + tv_nsec t"

text \<open>The times the timer module works with: a point in time is in the 32-bit range, a period is at most
  the largest number of milliseconds an \<open>int\<close> holds.\<close>

definition time_ok :: "timespec \<Rightarrow> bool" where
  "time_ok t \<longleftrightarrow> ts_ok t \<and> - (2 ^ 31) \<le> tv_sec t"

definition interval_ok :: "timespec \<Rightarrow> bool" where
  "interval_ok t \<longleftrightarrow> ts_ok t \<and> 0 \<le> tv_sec t \<and> tv_sec t \<le> 2147483"

lemma compare_nanos:
  assumes "ts_ok a" "ts_ok b"
  shows "timespec_compare a b < 0 \<longleftrightarrow> nanos a < nanos b"
    and "timespec_compare a b = 0 \<longleftrightarrow> a = b"
    and "timespec_compare a b > 0 \<longleftrightarrow> nanos a > nanos b"
  using assms by (auto simp: timespec_compare_def nanos_def ts_ok_def)

lemma nanos_inject: "ts_ok a \<Longrightarrow> ts_ok b \<Longrightarrow> nanos a = nanos b \<longleftrightarrow> a = b"
  using compare_nanos(2) [of a b] compare_nanos(1,3) [of a b] by fastforce

lemma timespec_add_ok:
  assumes "ts_ok a" "ts_ok b"
  shows "ts_ok (timespec_add a b)"
  using assms by (auto simp: timespec_add_def ts_ok_def Let_def)

lemma nanos_add:
  assumes "ts_ok a" "ts_ok b" "- (2 ^ 31) \<le> tv_sec a + tv_sec b" "tv_sec a + tv_sec b < 2 ^ 31 - 1"
  shows "nanos (timespec_add a b) = nanos a + nanos b"
  using assms by (simp add: timespec_add_def ts_ok_def nanos_def Let_def)

lemma timespec_sub_ok:
  assumes "ts_ok a" "ts_ok b"
  shows "ts_ok (timespec_sub a b)"
  using assms by (auto simp: timespec_sub_def ts_ok_def Let_def)

lemma nanos_sub:
  assumes "ts_ok a" "ts_ok b" "- (2 ^ 31) < tv_sec a - tv_sec b" "tv_sec a - tv_sec b < 2 ^ 31"
  shows "nanos (timespec_sub a b) = nanos a - nanos b"
  using assms by (simp add: timespec_sub_def ts_ok_def nanos_def Let_def)

lemma ms2ts_ok:
  assumes "0 \<le> ms" "ms < 2 ^ 31"
  shows "ts_ok (ms2ts ms)" "nanos (ms2ts ms) = ms * 1000000" "0 \<le> tv_sec (ms2ts ms)"
    "tv_sec (ms2ts ms) \<le> 2147483"
proof -
  have "ms sdiv 1000 = ms div 1000" "ms smod 1000 = ms mod 1000"
    using assms by (simp_all add: sdiv_nonneg smod_nonneg)
  moreover have "ms div 1000 * 1000000000 + ms mod 1000 * 1000000 = ms * 1000000" by presburger
  ultimately show "ts_ok (ms2ts ms)" "nanos (ms2ts ms) = ms * 1000000" "0 \<le> tv_sec (ms2ts ms)"
    "tv_sec (ms2ts ms) \<le> 2147483"
    using assms by (auto simp: ms2ts_def ts_ok_def nanos_def)
qed

lemma time_ok_add: "ts_ok a \<Longrightarrow> ts_ok b \<Longrightarrow> time_ok (timespec_add a b)"
  using timespec_add_ok [of a b] wrap32_range(1)
  by (simp add: time_ok_def timespec_add_def Let_def)

lemma interval_ok_ms2ts: "0 \<le> ms \<Longrightarrow> ms < 2 ^ 31 \<Longrightarrow> interval_ok (ms2ts ms)"
  using ms2ts_ok [of ms] by (simp add: interval_ok_def)

lemma interval_ok_zero [simp]: "interval_ok zero_timespec" "time_ok zero_timespec" "nanos zero_timespec = 0"
  by (simp_all add: interval_ok_def time_ok_def ts_ok_def zero_timespec_def nanos_def)

lemma interval_pos:
  "interval_ok t \<Longrightarrow> 0 < nanos t \<longleftrightarrow> tv_sec t \<noteq> 0 \<or> tv_nsec t \<noteq> 0"
  by (auto simp: interval_ok_def ts_ok_def nanos_def)

text \<open>C33: the time arithmetic is exact.  On normalised times whose sum and difference fit the 32-bit seconds,
  comparison orders by the time in nanoseconds, addition and subtraction add and subtract it, and the
  results are normalised; a non-negative number of milliseconds becomes exactly that time.\<close>

theorem timespec_arithmetic:
  assumes "ts_ok a" "ts_ok b" "0 \<le> tv_sec a" "0 \<le> tv_sec b" "tv_sec a + tv_sec b < 2 ^ 31 - 1"
    "0 \<le> ms" "ms < 2 ^ 31"
  shows "(timespec_compare a b < 0 \<longleftrightarrow> nanos a < nanos b) \<and> (timespec_compare a b = 0 \<longleftrightarrow> a = b) \<and>
    ts_ok (timespec_add a b) \<and> nanos (timespec_add a b) = nanos a + nanos b \<and>
    ts_ok (timespec_sub a b) \<and> nanos (timespec_sub a b) = nanos a - nanos b \<and>
    timespec_sub (timespec_add a b) b = a \<and> nanos (ms2ts ms) = ms * 1000000"
proof -
  note add = timespec_add_ok [OF assms(1,2)] nanos_add [OF assms(1,2)]
  have "nanos (timespec_add a b) = nanos a + nanos b" using add(2) assms by simp
  moreover have "tv_sec (timespec_add a b) - tv_sec b \<le> tv_sec a + 1" "tv_sec a \<le> tv_sec (timespec_add a b) - tv_sec b"
    using assms by (auto simp: timespec_add_def ts_ok_def Let_def)
  moreover from this have "nanos (timespec_sub (timespec_add a b) b) = nanos (timespec_add a b) - nanos b"
    using assms add(1) by (intro nanos_sub) auto
  ultimately have "timespec_sub (timespec_add a b) b = a"
    using nanos_inject [OF timespec_sub_ok [OF add(1) assms(2)] assms(1)] by simp
  with add assms compare_nanos [OF assms(1,2)] timespec_sub_ok [OF assms(1,2)] nanos_sub [OF assms(1,2)]
    ms2ts_ok(2) [OF assms(6,7)] show ?thesis by auto
qed

theorem timespec_arithmetic_witness:
  "timespec_compare (ms2ts 1500) (ms2ts 2750) = -1 \<and>
   timespec_add (ms2ts 1500) (ms2ts 2750) = \<lparr>tv_sec = 4, tv_nsec = 250000000\<rparr> \<and>
   timespec_sub (timespec_add (ms2ts 1500) (ms2ts 2750)) (ms2ts 2750) = ms2ts 1500"
proof -
  have ms: "ms2ts 1500 = \<lparr>tv_sec = 1, tv_nsec = 500000000\<rparr>" "ms2ts 2750 = \<lparr>tv_sec = 2, tv_nsec = 750000000\<rparr>"
    by code_simp+
  show ?thesis
    using timespec_arithmetic [of "ms2ts 1500" "ms2ts 2750" 1500]
    by (simp add: ms ts_ok_def timespec_compare_def) (simp add: timespec_add_def)
qed

end
