(* ===== verification/OsTimer.thy ===== *)
theory OsTimer
  imports ListLinks Timespec
begin

text \<open>
  The software timers of \<open>src/osal/linux/os_timer.c\<close>: a static array of timers, a pool of service
  threads, each with a queue of armed timers in expiry order, and the operations on them.

  The state is that of the file's static variables.  The five kinds of \<open>struct list_links\<close> are the
  constructors of \<open>link\<close>; a pointer to a timer or a thread is its index.  A function of the file is a
  function on the state into \<open>option\<close>, \<open>None\<close> for a failed \<open>assert\<close> or a null pointer followed.
  What a call observes of its environment (the clocks, the calling thread, whether \<open>pthread_create\<close>
  succeeds) is an argument.  Every public function holds \<open>__timer_mutex\<close> while it reads or writes the state,
  so each critical section is one function; \<open>thread_func\<close> and \<open>__timer_delete\<close>, which
  give the mutex up in between, are cut into the sections between the points where they do.
  Leading underscores of C names are dropped.
\<close>

section \<open>Data\<close>

definition THREAD_MAXNODES :: nat where "THREAD_MAXNODES = 16"
definition TIMER_MAX :: nat where "TIMER_MAX = 256"
definition DELAYTIMER_MAX :: int where "DELAYTIMER_MAX = 2147483647"

datatype thread_id = Signal_thread | Pool_thread nat

datatype link =
    Timer_free_list | Thread_free_list | Thread_active_list
  | Timer_links nat | Thread_links nat | Timer_queue thread_id

datatype clockid = CLOCK_REALTIME | CLOCK_MONOTONIC | CLOCK_PROCESS_CPUTIME_ID | CLOCK_THREAD_CPUTIME_ID

datatype errno = OK | EINVAL | EAGAIN | ENOMEM | ENOTSUP

record pthread_attr =
  schedpolicy :: int
  sched_priority :: int
  detached :: bool

datatype sigev_notify = SIGEV_SIGNAL | SIGEV_NONE | SIGEV_THREAD | SIGEV_other int

text \<open>\<open>sigev_notify_attributes\<close> points to nothing, to an object of the caller or into a timer.\<close>

datatype attr_ref = Attr_null | Attr_caller pthread_attr | Attr_timer nat

record sigevent =
  sigev_notify :: sigev_notify
  sigev_signo :: int
  sigev_notify_function :: nat
  sival_ptr :: nat
  sigev_notify_attributes :: attr_ref

datatype inuse_flag = TIMER_FREE | TIMER_INUSE | TIMER_DELETED

record thread_node =
  th_attr :: pthread_attr
  th_id :: nat
  exists :: bool
  current_timer :: "nat option"
  captured :: nat
  clock_id :: clockid

record timer_node =
  event :: sigevent
  clock :: clockid
  type :: "32 word"
  millisec :: int
  tvalue :: itimerspec
  expirytime :: timespec
  tattr :: pthread_attr
  abstime :: bool
  armed :: bool
  inuse :: inuse_flag
  thread :: "thread_id option"
  creator_pid :: int
  refcount :: int
  overrun_count :: int

record timer_sys =
  tlinks :: "link links"
  threads :: "thread_id \<Rightarrow> thread_node"
  timers :: "nat \<Rightarrow> timer_node"
  init_once :: bool
  timer_init_failed :: int
  errno :: errno

text \<open>What a call sees of the world.\<close>

record env =
  clock_gettime :: "clockid \<Rightarrow> timespec"
  pthread_create :: "nat option"
  pthread_self :: nat
  getpid :: int

definition on_links :: "(link links \<Rightarrow> link links option) \<Rightarrow> timer_sys \<Rightarrow> timer_sys option" where
  "on_links f st = map_option (\<lambda>L. st\<lparr>tlinks := L\<rparr>) (f (tlinks st))"

definition upd_timer :: "nat \<Rightarrow> (timer_node \<Rightarrow> timer_node) \<Rightarrow> timer_sys \<Rightarrow> timer_sys" where
  "upd_timer i f st = st\<lparr>timers := (timers st)(i := f (timers st i))\<rparr>"

definition upd_thread :: "thread_id \<Rightarrow> (thread_node \<Rightarrow> thread_node) \<Rightarrow> timer_sys \<Rightarrow> timer_sys" where
  "upd_thread th f st = st\<lparr>threads := (threads st)(th := f (threads st th))\<rparr>"

definition set_errno :: "errno \<Rightarrow> timer_sys \<Rightarrow> timer_sys" where
  "set_errno e st = st\<lparr>errno := e\<rparr>"

text \<open>The containers of embedded links; a list head is not embedded in one.\<close>

fun thread_links2ptr :: "link \<Rightarrow> thread_id option" where
  "thread_links2ptr (Thread_links i) = Some (Pool_thread i)"
| "thread_links2ptr _ = None"

fun timer_links2ptr :: "link \<Rightarrow> nat option" where
  "timer_links2ptr (Timer_links i) = Some i"
| "timer_links2ptr _ = None"

text \<open>The links of a thread.  Those of the signal thread are static and never initialised.\<close>

fun thread_links :: "thread_id \<Rightarrow> link option" where
  "thread_links (Pool_thread i) = Some (Thread_links i)"
| "thread_links Signal_thread = None"

section \<open>Thread attributes\<close>

definition SCHED_RR :: int where "SCHED_RR = 2"

definition pthread_attr_init :: pthread_attr where
  "pthread_attr_init = \<lparr>schedpolicy = 0, sched_priority = 0, detached = False\<rparr>"

definition pthread_attr_setdetachstate :: "pthread_attr \<Rightarrow> pthread_attr" where
  "pthread_attr_setdetachstate a = a\<lparr>detached := True\<rparr>"

definition pthread_attr_setschedpolicy :: "int \<Rightarrow> pthread_attr \<Rightarrow> pthread_attr" where
  "pthread_attr_setschedpolicy p a = (if p \<in> {0, 1, 2} then a\<lparr>schedpolicy := p\<rparr> else a)"

text \<open>A priority outside the range of the policy is refused and the attributes keep the old one.\<close>

definition pthread_attr_setschedparam :: "int \<Rightarrow> pthread_attr \<Rightarrow> pthread_attr" where
  "pthread_attr_setschedparam prio a =
     (if schedpolicy a = 0 \<and> prio = 0 \<or> schedpolicy a \<noteq> 0 \<and> 1 \<le> prio \<and> prio \<le> 99
      then a\<lparr>sched_priority := prio\<rparr> else a)"

definition thread_attr_compare :: "pthread_attr \<Rightarrow> pthread_attr \<Rightarrow> bool" where
  "thread_attr_compare left right \<longleftrightarrow>
     schedpolicy left = schedpolicy right \<and> sched_priority left = sched_priority right"

section \<open>Initialisation\<close>

definition thread_init :: "env \<Rightarrow> thread_id \<Rightarrow> pthread_attr option \<Rightarrow> clockid \<Rightarrow> timer_sys \<Rightarrow> timer_sys" where
  "thread_init env th attr clk st =
     (let a = (case attr of Some a \<Rightarrow> a | None \<Rightarrow> pthread_attr_setdetachstate pthread_attr_init);
          st = upd_thread th (\<lambda>t. t\<lparr>th_attr := a, exists := False\<rparr>) st;
          st = st\<lparr>tlinks := list_init (Timer_queue th) (tlinks st)\<rparr>
      in upd_thread th (\<lambda>t. t\<lparr>current_timer := None, captured := pthread_self env, clock_id := clk\<rparr>) st)"

fun init_timers :: "nat list \<Rightarrow> timer_sys \<Rightarrow> timer_sys option" where
  "init_timers [] st = Some st"
| "init_timers (i # is) st = do {
     st \<leftarrow> on_links (list_append Timer_free_list (Timer_links i)) st;
     init_timers is (upd_timer i (\<lambda>t. t\<lparr>inuse := TIMER_FREE\<rparr>) st) }"

fun init_threads :: "nat list \<Rightarrow> timer_sys \<Rightarrow> timer_sys option" where
  "init_threads [] st = Some st"
| "init_threads (i # is) st = do {
     st \<leftarrow> on_links (list_append Thread_free_list (Thread_links i)) st;
     init_threads is st }"

definition init_module :: "env \<Rightarrow> timer_sys \<Rightarrow> timer_sys option" where
  "init_module env st = do {
     let st = st\<lparr>tlinks := list_init Thread_active_list (list_init Thread_free_list
                              (list_init Timer_free_list (tlinks st)))\<rparr>;
     st \<leftarrow> init_timers [0..<TIMER_MAX] st;
     st \<leftarrow> init_threads [0..<THREAD_MAXNODES] st;
     Some (thread_init env Signal_thread None CLOCK_REALTIME st) }"

definition reinit_after_fork :: "env \<Rightarrow> timer_sys \<Rightarrow> timer_sys option" where
  "reinit_after_fork env st = init_module env st"

text \<open>\<open>pthread_once (&__timer_init_once_control, __timer_init_once)\<close>.\<close>

definition timer_init_once :: "env \<Rightarrow> timer_sys \<Rightarrow> timer_sys option" where
  "timer_init_once env st = (if init_once st then Some st else init_module env (st\<lparr>init_once := True\<rparr>))"

section \<open>Threads\<close>

definition thread_deinit :: "thread_id \<Rightarrow> timer_sys \<Rightarrow> timer_sys option" where
  "thread_deinit th st = (if list_isempty (Timer_queue th) (tlinks st) then Some st else None)"

definition timer_thread_alloc :: "env \<Rightarrow> pthread_attr \<Rightarrow> clockid \<Rightarrow> timer_sys \<Rightarrow>
    (thread_id option \<times> timer_sys) option" where
  "timer_thread_alloc env desired_attr clk st = do {
     node \<leftarrow> list_first Thread_free_list (tlinks st);
     if node \<noteq> list_null Thread_free_list then do {
       th \<leftarrow> thread_links2ptr node;
       st \<leftarrow> on_links (list_unlink node) st;
       let st = thread_init env th (Some desired_attr) clk st;
       st \<leftarrow> on_links (list_append Thread_active_list node) st;
       Some (Some th, st) }
     else Some (None, st) }"

definition timer_thread_dealloc :: "thread_id \<Rightarrow> timer_sys \<Rightarrow> timer_sys option" where
  "timer_thread_dealloc th st = do {
     st \<leftarrow> thread_deinit th st;
     l \<leftarrow> thread_links th;
     st \<leftarrow> on_links (list_unlink l) st;
     on_links (list_append Thread_free_list l) st }"

definition timer_thread_start :: "env \<Rightarrow> thread_id \<Rightarrow> timer_sys \<Rightarrow> (int \<times> timer_sys) option" where
  "timer_thread_start env th st =
     (if exists (threads st th) then None
      else case pthread_create env of
          Some tid \<Rightarrow> Some (1, upd_thread th (\<lambda>t. t\<lparr>exists := True, th_id := tid\<rparr>) st)
        | None \<Rightarrow> Some (-1, upd_thread th (\<lambda>t. t\<lparr>exists := False\<rparr>) st))"

definition thread_cleanup :: "env \<Rightarrow> thread_id \<Rightarrow> timer_sys \<Rightarrow> timer_sys option" where
  "thread_cleanup env th st =
     (if th = Signal_thread then None else do {
        let st = upd_thread th (\<lambda>t. t\<lparr>exists := False, current_timer := None\<rparr>) st;
        if list_isempty (Timer_queue th) (tlinks st) then timer_thread_dealloc th st
        else do {
          (_, st) \<leftarrow> timer_thread_start env th st;
          Some st } })"

partial_function (option) find_matching_loop :: "pthread_attr \<Rightarrow> clockid \<Rightarrow> link \<Rightarrow> timer_sys \<Rightarrow>
    thread_id option option" where
  "find_matching_loop desired_attr clk iter st =
     (if iter \<noteq> list_null Thread_active_list then do {
        candidate \<leftarrow> thread_links2ptr iter;
        if thread_attr_compare desired_attr (th_attr (threads st candidate))
           \<and> clk = clock_id (threads st candidate)
        then Some (Some candidate)
        else do {
          iter \<leftarrow> list_next iter (tlinks st);
          find_matching_loop desired_attr clk iter st } }
      else Some None)"

definition timer_thread_find_matching :: "pthread_attr \<Rightarrow> clockid \<Rightarrow> timer_sys \<Rightarrow> thread_id option option" where
  "timer_thread_find_matching desired_attr clk st = do {
     iter \<leftarrow> list_first Thread_active_list (tlinks st);
     find_matching_loop desired_attr clk iter st }"

section \<open>Timer structures\<close>

definition timer_alloc :: "timer_sys \<Rightarrow> (nat option \<times> timer_sys) option" where
  "timer_alloc st = do {
     node \<leftarrow> list_first Timer_free_list (tlinks st);
     if node \<noteq> list_null Timer_free_list then do {
       i \<leftarrow> timer_links2ptr node;
       st \<leftarrow> on_links (list_unlink_ip node) st;
       Some (Some i, upd_timer i (\<lambda>t. t\<lparr>inuse := TIMER_INUSE, refcount := 1\<rparr>) st) }
     else Some (None, st) }"

definition timer_dealloc :: "nat \<Rightarrow> timer_sys \<Rightarrow> timer_sys option" where
  "timer_dealloc i st =
     (if refcount (timers st i) \<noteq> 0 then None else do {
        st \<leftarrow> on_links (list_unlink_ip (Timer_links i)) st;
        let st = upd_timer i (\<lambda>t. t\<lparr>thread := None, inuse := TIMER_FREE\<rparr>) st;
        on_links (list_append Timer_free_list (Timer_links i)) st })"

definition timer_valid :: "nat option \<Rightarrow> timer_sys \<Rightarrow> bool" where
  "timer_valid p st \<longleftrightarrow> (case p of None \<Rightarrow> False | Some i \<Rightarrow> inuse (timers st i) = TIMER_INUSE)"

definition timer_addref :: "nat \<Rightarrow> timer_sys \<Rightarrow> timer_sys" where
  "timer_addref i = upd_timer i (\<lambda>t. t\<lparr>refcount := refcount t + 1\<rparr>)"

definition timer_delref :: "nat \<Rightarrow> timer_sys \<Rightarrow> timer_sys option" where
  "timer_delref i st =
     (let st = upd_timer i (\<lambda>t. t\<lparr>refcount := refcount t - 1\<rparr>) st
      in if refcount (timers st i) = 0 then timer_dealloc i st else Some st)"

section \<open>The timer queue of a thread\<close>

partial_function (option) queue_position :: "link \<Rightarrow> timespec \<Rightarrow> link \<Rightarrow> bool \<Rightarrow> timer_sys \<Rightarrow> (link \<times> bool) option" where
  "queue_position queue expiry iter athead st =
     (if iter \<noteq> list_null queue then do {
        i \<leftarrow> timer_links2ptr iter;
        if timespec_compare expiry (expirytime (timers st i)) < 0 then Some (iter, athead)
        else do {
          iter \<leftarrow> list_next iter (tlinks st);
          queue_position queue expiry iter False st } }
      else Some (iter, athead))"

definition timer_thread_queue_timer :: "thread_id \<Rightarrow> nat \<Rightarrow> timer_sys \<Rightarrow> (bool \<times> timer_sys) option" where
  "timer_thread_queue_timer th ins st = do {
     iter \<leftarrow> list_first (Timer_queue th) (tlinks st);
     (iter, athead) \<leftarrow> queue_position (Timer_queue th) (expirytime (timers st ins)) iter True st;
     st \<leftarrow> on_links (list_insbefore iter (Timer_links ins)) st;
     Some (athead, st) }"

section \<open>Creating, deleting and setting timers\<close>

text \<open>The code behind the label \<open>unlock_bail\<close> of \<open>__timer_create\<close>.\<close>

definition timer_create_bail :: "thread_id option \<Rightarrow> nat option \<Rightarrow> timer_sys \<Rightarrow> timer_sys option" where
  "timer_create_bail th newtimer st = do {
     st \<leftarrow> (case th of None \<Rightarrow> Some st | Some th \<Rightarrow> timer_thread_dealloc th st);
     (case newtimer of
        None \<Rightarrow> Some st
      | Some i \<Rightarrow> do {
          st \<leftarrow> timer_delref i st;
          timer_dealloc i st }) }"

text \<open>The switch of \<open>__timer_create\<close>: the serving thread, and the error number when there is none to use.\<close>

definition timer_create_thread :: "env \<Rightarrow> clockid \<Rightarrow> attr_ref \<Rightarrow> nat \<Rightarrow> timer_sys \<Rightarrow>
    (errno option \<times> thread_id option \<times> timer_sys) option" where
  "timer_create_thread env clk evp_attributes i st =
     (case sigev_notify (event (timers st i)) of
        SIGEV_other _ \<Rightarrow> Some (Some EINVAL, None, st)
      | SIGEV_THREAD \<Rightarrow> do {
          a \<leftarrow> (case evp_attributes of
              Attr_null \<Rightarrow> Some pthread_attr_init
            | Attr_caller a \<Rightarrow> Some a
            | Attr_timer j \<Rightarrow> Some (tattr (timers st j)));
          let a = pthread_attr_setdetachstate a;
          let st = upd_timer i (\<lambda>t. t\<lparr>tattr := a\<rparr>) st;
          th \<leftarrow> timer_thread_find_matching a clk st;
          (th, st) \<leftarrow> (if th = None then timer_thread_alloc env a clk st else Some (th, st));
          (case th of
             None \<Rightarrow> Some (Some EAGAIN, None, st)
           | Some th \<Rightarrow>
               if exists (threads st th) then Some (None, Some th, st)
               else do {
                 (r, st) \<leftarrow> timer_thread_start env th st;
                 Some (if r < 0 then Some EAGAIN else None, Some th, st) }) }
      | _ \<Rightarrow>
          if exists (threads st Signal_thread) then Some (None, Some Signal_thread, st)
          else do {
            (r, st) \<leftarrow> timer_thread_start env Signal_thread st;
            Some (if r < 0 then Some EAGAIN else None, Some Signal_thread, st) })"

definition timer_create :: "env \<Rightarrow> clockid \<Rightarrow> sigevent option \<Rightarrow> timer_sys \<Rightarrow>
    (int \<times> nat option \<times> timer_sys) option" where
  "timer_create env clk evp st =
     (if clk = CLOCK_PROCESS_CPUTIME_ID \<or> clk = CLOCK_THREAD_CPUTIME_ID then Some (-1, None, set_errno ENOTSUP st)
      else do {
        st \<leftarrow> timer_init_once env st;
        if timer_init_failed st \<noteq> 0 then Some (-1, None, set_errno ENOMEM st) else do {
          (newtimer, st) \<leftarrow> timer_alloc st;
          (case newtimer of
             None \<Rightarrow> do {
               st \<leftarrow> timer_create_bail None None (set_errno EAGAIN st);
               Some (-1, None, st) }
           | Some i \<Rightarrow> do {
               let ev = (case evp of Some e \<Rightarrow> e
                 | None \<Rightarrow> \<lparr>sigev_notify = SIGEV_SIGNAL, sigev_signo = 14, sigev_notify_function = 0,
                            sival_ptr = i, sigev_notify_attributes = Attr_null\<rparr>);
               let st = upd_timer i (\<lambda>t. t\<lparr>event := ev\<lparr>sigev_notify_attributes := Attr_timer i\<rparr>,
                                           creator_pid := getpid env\<rparr>) st;
               (err, th, st) \<leftarrow> timer_create_thread env clk (sigev_notify_attributes ev) i st;
               (case err of
                  Some e \<Rightarrow> do {
                    st \<leftarrow> timer_create_bail th (Some i) (set_errno e st);
                    Some (-1, None, st) }
                | None \<Rightarrow> Some (0, Some i,
                    upd_timer i (\<lambda>t. t\<lparr>clock := clk, abstime := False, armed := False, thread := th\<rparr>) st)) }) } })"

text \<open>Deleting: the section that ends the deletion, the loop that waits for a running handler, and
  the entry.  \<open>Waits th\<close> is a return to \<open>pthread_cond_wait\<close> on the condition of \<open>th\<close>.\<close>

datatype delete_result = Returns int | Waits thread_id

definition timer_delete_finish :: "nat \<Rightarrow> timer_sys \<Rightarrow> (delete_result \<times> timer_sys) option" where
  "timer_delete_finish i st = do {
     let st = upd_timer i (\<lambda>t. t\<lparr>inuse := TIMER_DELETED\<rparr>) st;
     st \<leftarrow> on_links (list_unlink_ip (Timer_links i)) st;
     st \<leftarrow> timer_delref i st;
     Some (Returns 0, st) }"

definition timer_delete_wait :: "env \<Rightarrow> thread_id \<Rightarrow> nat \<Rightarrow> timer_sys \<Rightarrow> (delete_result \<times> timer_sys) option" where
  "timer_delete_wait env th i st =
     (if current_timer (threads st th) = Some i \<and> th_id (threads st th) \<noteq> pthread_self env
      then Some (Waits th, st) else timer_delete_finish i st)"

definition timer_delete :: "env \<Rightarrow> nat option \<Rightarrow> timer_sys \<Rightarrow> (delete_result \<times> timer_sys) option" where
  "timer_delete env timerid st =
     (if \<not> timer_valid timerid st then Some (Returns (-1), set_errno EINVAL st)
      else do {
        i \<leftarrow> timerid;
        (case thread (timers st i) of
           Some th \<Rightarrow> if armed (timers st i) then timer_delete_wait env th i st else timer_delete_finish i st
         | None \<Rightarrow> timer_delete_finish i st) })"

definition TIMER_ABSTIME :: "32 word" where "TIMER_ABSTIME = 1"
definition TIMER_ONESHOT :: "32 word" where "TIMER_ONESHOT = 2"
definition TIMER_INTERVAL :: "32 word" where "TIMER_INTERVAL = 4"
definition TIMER_STOPPED :: "32 word" where "TIMER_STOPPED = 8"

text \<open>The old value \<open>__timer_settime\<close> reports when it is asked for one.  With an absolute time the clock is read
  late, and the reference taken then is never given back.\<close>

definition timer_old_value :: "env \<Rightarrow> bool \<Rightarrow> nat \<Rightarrow> timer_sys \<Rightarrow> itimerspec \<times> timer_sys" where
  "timer_old_value env have_now i st =
     (let t = timers st i in
      if armed t then
        (\<lparr>it_interval = it_interval (tvalue t),
          it_value = timespec_sub (expirytime t) (clock_gettime env (clock t))\<rparr>,
         if have_now then st else timer_addref i st)
      else (\<lparr>it_interval = it_interval (tvalue t), it_value = zero_timespec\<rparr>, st))"

text \<open>The result has the value for \<open>ovalue\<close>, if it is written, and the thread that is to be woken up.\<close>

definition timer_settime :: "env \<Rightarrow> nat option \<Rightarrow> 32 word \<Rightarrow> itimerspec \<Rightarrow> bool \<Rightarrow> timer_sys \<Rightarrow>
    (int \<times> itimerspec option \<times> thread_id option \<times> timer_sys) option" where
  "timer_settime env timerid flags val want_old st =
     (case timerid of
        None \<Rightarrow> Some (-1, None, None, set_errno EINVAL st)
      | Some i \<Rightarrow>
          if tv_nsec (it_interval val) < 0 \<or> tv_nsec (it_interval val) \<ge> 1000000000
             \<or> tv_nsec (it_value val) < 0 \<or> tv_nsec (it_value val) \<ge> 1000000000
          then Some (-1, None, None, set_errno EINVAL st)
          else do {
            let have_now = (and flags TIMER_ABSTIME = 0);
            let now = clock_gettime env (clock (timers st i));
            let st = timer_addref i st;
            if \<not> timer_valid (Some i) st then do {
              st \<leftarrow> timer_delref i (set_errno EINVAL st);
              Some (-1, None, None, st) }
            else do {
              let (old, st) = (if want_old then map_prod Some (\<lambda>s. s) (timer_old_value env have_now i st)
                               else (None, st));
              let st = upd_timer i (\<lambda>t. t\<lparr>tvalue := val\<rparr>) st;
              st \<leftarrow> on_links (list_unlink_ip (Timer_links i)) st;
              let st = upd_timer i (\<lambda>t. t\<lparr>armed := False\<rparr>) st;
              let th = thread (timers st i);
              (need_wakeup, st) \<leftarrow>
                (if tv_sec (it_value val) \<noteq> 0 \<or> tv_nsec (it_value val) \<noteq> 0 then do {
                   let st = upd_timer i (\<lambda>t. t\<lparr>expirytime :=
                     (if and flags TIMER_ABSTIME \<noteq> 0 then it_value val else timespec_add now (it_value val))\<rparr>) st;
                   (w, st) \<leftarrow> (case th of
                       Some th \<Rightarrow> timer_thread_queue_timer th i st
                     | None \<Rightarrow> Some (False, st));
                   Some (w, upd_timer i (\<lambda>t. t\<lparr>armed := True\<rparr>) st) }
                 else Some (False, st));
              st \<leftarrow> timer_delref i st;
              Some (0, old, if need_wakeup then th else None, st) } })"

section \<open>The service thread\<close>

text \<open>What a section of \<open>thread_func\<close> ends with: the mutex is released to run the handler of a
  timer (the time the loop works with is kept), or to sleep until a point of real time or a
  broadcast.\<close>

datatype thread_out = Fire timespec nat "(nat \<times> nat) option" | Sleep "timespec option"

partial_function (option) catch_up :: "timespec \<Rightarrow> timespec \<Rightarrow> timespec \<Rightarrow> int \<Rightarrow> (timespec \<times> int) option" where
  "catch_up now interval expiry overrun =
     (if timespec_compare expiry now < 0 then
        catch_up now interval (timespec_add expiry interval)
          (if overrun < DELAYTIMER_MAX then overrun + 1 else overrun)
      else Some (expiry, overrun))"

definition thread_expire_timer :: "thread_id \<Rightarrow> nat \<Rightarrow> timer_sys \<Rightarrow> (nat \<times> nat) option \<times> timer_sys" where
  "thread_expire_timer th i st =
     (let e = event (timers st i)
      in (if sigev_notify e = SIGEV_THREAD then Some (sigev_notify_function e, sival_ptr e) else None,
          upd_thread th (\<lambda>t. t\<lparr>current_timer := Some i\<rparr>) st))"

definition thread_sleep :: "env \<Rightarrow> nat option \<Rightarrow> timer_sys \<Rightarrow> thread_out" where
  "thread_sleep env tmr st = Sleep (case tmr of
     None \<Rightarrow> None
   | Some i \<Rightarrow>
       (let t = timers st i
        in if clock t = CLOCK_MONOTONIC
           then Some (timespec_add (clock_gettime env CLOCK_REALTIME)
                  (timespec_sub (expirytime t) (clock_gettime env CLOCK_MONOTONIC)))
           else Some (expirytime t)))"

definition thread_expire :: "env \<Rightarrow> thread_id \<Rightarrow> timespec \<Rightarrow> nat \<Rightarrow> timer_sys \<Rightarrow> (thread_out \<times> timer_sys) option" where
  "thread_expire env th now i st =
     (if timespec_compare now (expirytime (timers st i)) < 0 then Some (thread_sleep env (Some i) st, st)
      else do {
        st \<leftarrow> on_links (list_unlink_ip (Timer_links i)) st;
        let iv = it_interval (tvalue (timers st i));
        st \<leftarrow> (if tv_sec iv \<noteq> 0 \<or> tv_nsec iv \<noteq> 0 then do {
                (ex, ov) \<leftarrow> catch_up now iv (timespec_add (expirytime (timers st i)) iv) 0;
                let st = upd_timer i (\<lambda>t. t\<lparr>overrun_count := ov, expirytime := ex\<rparr>) st;
                (_, st) \<leftarrow> timer_thread_queue_timer th i st;
                Some st }
              else Some st);
        let (call, st) = thread_expire_timer th i st;
        Some (Fire now i call, st) })"

definition thread_round :: "env \<Rightarrow> thread_id \<Rightarrow> timer_sys \<Rightarrow> (thread_out \<times> timer_sys) option" where
  "thread_round env th st = do {
     first \<leftarrow> list_first (Timer_queue th) (tlinks st);
     if first \<noteq> list_null (Timer_queue th) then do {
       i \<leftarrow> timer_links2ptr first;
       thread_expire env th (clock_gettime env (clock (timers st i))) i st }
     else Some (thread_sleep env None st, st) }"

definition thread_after_handler :: "env \<Rightarrow> thread_id \<Rightarrow> timespec \<Rightarrow> timer_sys \<Rightarrow> (thread_out \<times> timer_sys) option" where
  "thread_after_handler env th now st = do {
     let st = upd_thread th (\<lambda>t. t\<lparr>current_timer := None\<rparr>) st;
     first \<leftarrow> list_first (Timer_queue th) (tlinks st);
     if first = list_null (Timer_queue th) then Some (thread_sleep env None st, st)
     else do {
       i \<leftarrow> timer_links2ptr first;
       thread_expire env th now i st } }"

section \<open>The public functions\<close>

definition os_timer_add :: "env \<Rightarrow> int \<Rightarrow> int \<Rightarrow> 32 word \<Rightarrow> nat option \<Rightarrow> nat \<Rightarrow> bool \<Rightarrow> timer_sys \<Rightarrow>
    (int \<times> nat option \<times> thread_id option \<times> timer_sys) option" where
  "os_timer_add env prio ms flag handler arg timerid_given st =
     (if ms \<le> 0 \<or> handler = None \<or> \<not> timerid_given then Some (-1, None, None, st)
      else do {
        let a = pthread_attr_setschedparam prio (pthread_attr_setschedpolicy SCHED_RR pthread_attr_init);
        f \<leftarrow> handler;
        let sev = \<lparr>sigev_notify = SIGEV_THREAD, sigev_signo = 0, sigev_notify_function = f, sival_ptr = arg,
                    sigev_notify_attributes = Attr_caller a\<rparr>;
        (r, tid, st) \<leftarrow> timer_create env CLOCK_MONOTONIC (Some sev) st;
        if r \<noteq> 0 then Some (-1, None, None, st)
        else if \<not> timer_valid tid st then Some (-1, None, None, st)
        else do {
          i \<leftarrow> tid;
          let st = upd_timer i (\<lambda>t. t\<lparr>type := (if and flag TIMER_ONESHOT \<noteq> 0 then TIMER_ONESHOT else TIMER_INTERVAL),
                                      millisec := ms\<rparr>) st;
          let v = (if and flag TIMER_STOPPED \<noteq> 0 then zero_timespec else ms2ts ms);
          let iv = (if and flag TIMER_ONESHOT \<noteq> 0 then zero_timespec else v);
          (r, _, wake, st) \<leftarrow> timer_settime env tid flag \<lparr>it_interval = iv, it_value = v\<rparr> False st;
          if r \<noteq> 0 then Some (-1, None, wake, st) else Some (0, tid, wake, st) } })"

definition os_timer_del :: "env \<Rightarrow> nat option \<Rightarrow> timer_sys \<Rightarrow> (delete_result \<times> timer_sys) option" where
  "os_timer_del env timerid st = timer_delete env timerid st"

definition os_timer_start :: "env \<Rightarrow> nat option \<Rightarrow> timer_sys \<Rightarrow> (int \<times> thread_id option \<times> timer_sys) option" where
  "os_timer_start env timerid st =
     (if \<not> timer_valid timerid st then Some (-1, None, st)
      else do {
        i \<leftarrow> timerid;
        let v = ms2ts (millisec (timers st i));
        let iv = (if type (timers st i) = TIMER_ONESHOT then zero_timespec else v);
        (r, _, wake, st) \<leftarrow> timer_settime env timerid 0 \<lparr>it_interval = iv, it_value = v\<rparr> False st;
        Some (r, wake, st) })"

definition os_timer_stop :: "env \<Rightarrow> nat option \<Rightarrow> timer_sys \<Rightarrow> (int \<times> thread_id option \<times> timer_sys) option" where
  "os_timer_stop env timerid st = do {
     (r, _, wake, st) \<leftarrow> timer_settime env timerid 0 zero_itimerspec False st;
     Some (r, wake, st) }"

definition os_timer_reset :: "env \<Rightarrow> nat option \<Rightarrow> timer_sys \<Rightarrow> (int \<times> thread_id option \<times> timer_sys) option" where
  "os_timer_reset env timerid st = os_timer_start env timerid st"

definition os_timer_settime :: "nat option \<Rightarrow> int \<Rightarrow> timer_sys \<Rightarrow> (int \<times> timer_sys) option" where
  "os_timer_settime timerid ms st =
     (if ms \<le> 0 then Some (-1, st)
      else if \<not> timer_valid timerid st then Some (-1, st)
      else do {
        i \<leftarrow> timerid;
        Some (0, upd_timer i (\<lambda>t. t\<lparr>millisec := ms\<rparr>) st) })"

end
