(* ===== verification/RingStore.thy ===== *)
theory RingStore
  imports ListLinks
begin

text \<open>
  The interface between a store of circular lists and its clients.  It is provided twice: by the lists of
  \<open>src/osal/linux/os_timer.c\<close>, here, and by those of \<open>src/include/list.h\<close>, in \<open>ListHead\<close>.
\<close>

section \<open>The interface of a store of rings\<close>

text \<open>What a client relies on of its lists: appending or inserting a node that is in no list, taking
  a node out, and making a node the head of an empty ring.\<close>

locale ring_store =
  fixes rep :: "'s \<Rightarrow> 'l set \<Rightarrow> ('l \<Rightarrow> 'l list) \<Rightarrow> bool"
    and ins :: "'l \<Rightarrow> 'l \<Rightarrow> 's \<Rightarrow> 's option"
    and unlink :: "'l \<Rightarrow> 's \<Rightarrow> 's option"
    and init :: "'l \<Rightarrow> 's \<Rightarrow> 's"
  assumes rep_subset: "rep L H R \<Longrightarrow> H' \<subseteq> H \<Longrightarrow> rep L H' R"
    and rep_cong: "rep L H R \<Longrightarrow> (\<And>h. h \<in> H \<Longrightarrow> R' h = R h) \<Longrightarrow> rep L H R'"
    and ins_rep: "rep L H R \<Longrightarrow> h \<in> H \<Longrightarrow> R h = xs @ ys \<Longrightarrow> n \<notin> members H R \<Longrightarrow>
      \<exists>L'. ins (hd (ys @ [h])) n L = Some L' \<and> rep L' H (R(h := xs @ n # ys))"
    and unlink_rep: "rep L H R \<Longrightarrow> h \<in> H \<Longrightarrow> R h = xs @ x # ys \<Longrightarrow>
      \<exists>L'. unlink x L = Some L' \<and> rep L' H (R(h := xs @ ys)) \<and> x \<notin> members H (R(h := xs @ ys))"
    and init_rep: "rep L H R \<Longrightarrow> x \<notin> members H R \<Longrightarrow> rep (init x L) (insert x H) (R(x := []))"
    and rep_apart: "rep L H R \<Longrightarrow> h \<in> H \<Longrightarrow> k \<in> H \<Longrightarrow> h \<noteq> k \<Longrightarrow> set (h # R h) \<inter> set (k # R k) = {}"
begin

text \<open>A node that is a ring of its own goes into another ring.\<close>

lemma link_loose:
  assumes "rep L H R" "h \<in> H" "h \<noteq> x" "R h = xs @ ys" "x \<in> H" "R x = []"
  shows "\<exists>L'. ins (hd (ys @ [h])) x L = Some L' \<and> rep L' (H - {x}) (R(h := xs @ x # ys))"
proof (rule ins_rep)
  show "rep L (H - {x}) R" using assms(1) by (rule rep_subset) blast
  have "x \<notin> set (k # R k)" if "k \<in> H - {x}" for k
    using rep_apart [OF assms(1), of k x] that assms(5) by auto
  then show "x \<notin> members (H - {x}) R" by (auto simp: members_def)
qed (use assms in auto)

lemma unlink_loose:
  assumes "rep L H R" "h \<in> H" "R h = xs @ x # ys"
  shows "\<exists>L'. unlink x L = Some L' \<and> rep (init x L') (insert x H) (R(h := xs @ ys, x := []))"
  using unlink_rep [OF assms] init_rep by blast

text \<open>A node moves from one ring to the end of another.\<close>

lemma move:
  assumes "rep L H R" "h \<in> H" "R h = xs @ x # ys" "k \<in> H" "k \<noteq> h"
  shows "\<exists>L1 L2. unlink x L = Some L1 \<and> ins k x L1 = Some L2 \<and> rep L2 H (R(h := xs @ ys, k := R k @ [x]))"
proof -
  from unlink_rep [OF assms(1-3)] obtain L1 where L1: "unlink x L = Some L1" "rep L1 H (R(h := xs @ ys))"
    "x \<notin> members H (R(h := xs @ ys))" by blast
  from ins_rep [OF L1(2) assms(4) _ L1(3), of "R k" "[]"] assms(5) L1(1) show ?thesis by auto
qed

end

interpretation ll: ring_store rings list_append list_unlink list_init
proof (unfold_locales, goal_cases)
  case (1 L H R H')
  then show ?case by (rule rings_subset)
next
  case (2 L H R R')
  then show ?case by (simp add: rings_def)
next
  case (3 L H R h xs ys n)
  then show ?case by (metis rings_insert)
next
  case (4 L H R h xs x ys)
  then show ?case by (metis rings_unlink)
next
  case (5 L H R x)
  then show ?case by (rule rings_loose)
next
  case (6 L H R h k)
  then show ?case by (rule rings_disjoint)
qed

end
