(* ===== verification/OsTimerLinks.thy ===== *)
theory OsTimerLinks
  imports OsTimer RingStore
begin

text \<open>
  The lists of the timer module.  Its link store abstracts to four things (\<open>tabs\<close>): the sequence of
  free timers, the queue of every active thread, and the sequences of free and active threads; a
  timer in none of them is linked to itself.  The lemmas say what every list operation the module performs
  does to that abstraction; they are all obtained from the ring lemmas through the interface \<open>ring_store\<close>.
\<close>

section \<open>The abstraction\<close>

record tabs =
  fr :: "nat list"
  qu :: "thread_id \<Rightarrow> nat list"
  tf :: "nat list"
  ta :: "nat list"

fun ring_of :: "tabs \<Rightarrow> link \<Rightarrow> link list" where
  "ring_of A Timer_free_list = map Timer_links (fr A)"
| "ring_of A Thread_free_list = map Thread_links (tf A)"
| "ring_of A Thread_active_list = map Thread_links (ta A)"
| "ring_of A (Timer_queue th) = map Timer_links (qu A th)"
| "ring_of A (Timer_links i) = []"
| "ring_of A (Thread_links i) = []"

definition active :: "tabs \<Rightarrow> thread_id set" where
  "active A = insert Signal_thread (Pool_thread ` set (ta A))"

definition loose :: "tabs \<Rightarrow> nat set" where
  "loose A = {i. i < TIMER_MAX \<and> i \<notin> set (fr A) \<and> (\<forall>th. i \<notin> set (qu A th))}"

definition heads :: "tabs \<Rightarrow> link set" where
  "heads A = {Timer_free_list, Thread_free_list, Thread_active_list} \<union> Timer_queue ` active A \<union>
     Timer_links ` loose A"

definition links_ok :: "link links \<Rightarrow> tabs \<Rightarrow> bool" where
  "links_ok L A \<longleftrightarrow> rings L (heads A) (ring_of A) \<and>
     (\<forall>i \<in> set (fr A). i < TIMER_MAX) \<and> (\<forall>th. \<forall>i \<in> set (qu A th). i < TIMER_MAX) \<and>
     (\<forall>th. th \<notin> active A \<longrightarrow> qu A th = []) \<and> set (tf A) \<union> set (ta A) = {..<THREAD_MAXNODES}"

lemma head_in [simp]:
  "Timer_free_list \<in> heads A" "Thread_free_list \<in> heads A" "Thread_active_list \<in> heads A"
  "Timer_queue th \<in> heads A \<longleftrightarrow> th \<in> active A" "Timer_links i \<in> heads A \<longleftrightarrow> i \<in> loose A"
  "Thread_links t \<notin> heads A"
  by (auto simp: heads_def)

lemma links_okD:
  assumes "links_ok L A"
  shows "rings L (heads A) (ring_of A)" "\<And>i. i \<in> set (fr A) \<Longrightarrow> i < TIMER_MAX"
    "\<And>th i. i \<in> set (qu A th) \<Longrightarrow> i < TIMER_MAX" "\<And>th. th \<notin> active A \<Longrightarrow> qu A th = []"
    "set (tf A) \<union> set (ta A) = {..<THREAD_MAXNODES}"
  using assms unfolding links_ok_def by auto

lemma links_ok_distinct:
  assumes "links_ok L A"
  shows "distinct (fr A)" "distinct (qu A th)" "distinct (tf A)" "distinct (ta A)"
proof -
  note R = links_okD(1) [OF assms]
  have "ring L Timer_free_list (ring_of A Timer_free_list)" "ring L Thread_free_list (ring_of A Thread_free_list)"
    "ring L Thread_active_list (ring_of A Thread_active_list)" by (rule ringsD [OF R], simp)+
  then show "distinct (fr A)" "distinct (tf A)" "distinct (ta A)" by (simp_all add: ring_def distinct_map)
  show "distinct (qu A th)"
  proof (cases "th \<in> active A")
    case True
    then have "ring L (Timer_queue th) (ring_of A (Timer_queue th))" by (intro ringsD [OF R]) simp
    then show ?thesis by (simp add: ring_def distinct_map)
  qed (simp add: links_okD(4) [OF assms])
qed

lemma links_ok_apart:
  assumes "links_ok L A"
  shows "set (fr A) \<inter> set (qu A th) = {}" "th \<noteq> th' \<Longrightarrow> set (qu A th) \<inter> set (qu A th') = {}"
    "set (tf A) \<inter> set (ta A) = {}"
proof -
  note apart = rings_disjoint [OF links_okD(1) [OF assms]] and out = links_okD(4) [OF assms]
  show "set (fr A) \<inter> set (qu A th) = {}"
    using apart [of Timer_free_list "Timer_queue th"] out [of th] by (cases "th \<in> active A") auto
  show "th \<noteq> th' \<Longrightarrow> set (qu A th) \<inter> set (qu A th') = {}"
    using apart [of "Timer_queue th" "Timer_queue th'"] out [of th] out [of th']
    by (cases "th \<in> active A"; cases "th' \<in> active A") auto
  show "set (tf A) \<inter> set (ta A) = {}"
    using apart [of Thread_free_list Thread_active_list] by auto
qed

section \<open>What the list operations do\<close>

text \<open>A timer is taken out of whatever list it is in.\<close>

definition drop_timer :: "nat \<Rightarrow> tabs \<Rightarrow> tabs" where
  "drop_timer i A = A\<lparr>fr := remove1 i (fr A), qu := (\<lambda>th. remove1 i (qu A th))\<rparr>"

lemma drop_timer_simps [simp]:
  "fr (drop_timer i A) = remove1 i (fr A)" "qu (drop_timer i A) th = remove1 i (qu A th)"
  "tf (drop_timer i A) = tf A" "ta (drop_timer i A) = ta A" "active (drop_timer i A) = active A"
  by (simp_all add: drop_timer_def active_def)

lemma drop_loose: "i \<in> loose A \<Longrightarrow> drop_timer i A = A"
  by (simp add: drop_timer_def loose_def remove1_idem)

lemma loose_drop:
  assumes "links_ok L A" "i < TIMER_MAX"
  shows "loose (drop_timer i A) = insert i (loose A)"
proof -
  have "set (remove1 i (fr A)) = set (fr A) - {i}" "set (remove1 i (qu A th)) = set (qu A th) - {i}" for th
    using links_ok_distinct [OF assms(1)] by (simp_all add: set_remove1_eq)
  then show ?thesis using assms(2) by (auto simp: loose_def)
qed

lemma remove1_middle: "distinct (xs @ x # ys) \<Longrightarrow> remove1 x (xs @ x # ys) = xs @ ys"
  by (simp add: remove1_append)

text \<open>Taking a timer out of the ring it is in.\<close>

lemma links_drop_ring:
  assumes ok: "links_ok L A" and i: "i < TIMER_MAX" and h: "h \<in> heads A" "ring_of A h = us @ Timer_links i # vs"
    and R: "\<And>k. k \<in> insert (Timer_links i) (heads A) \<Longrightarrow> ring_of (drop_timer i A) k = ((ring_of A)(h := us @ vs, Timer_links i := [])) k"
  shows "\<exists>L'. list_unlink_ip (Timer_links i) L = Some L' \<and> links_ok L' (drop_timer i A)"
proof -
  note d = links_okD [OF ok]
  have heads: "heads (drop_timer i A) = insert (Timer_links i) (heads A)"
    by (auto simp: heads_def loose_drop [OF ok i])
  from ll.unlink_loose [OF d(1) h] obtain L1 where L1: "list_unlink (Timer_links i) L = Some L1"
    "rings (list_init (Timer_links i) L1) (insert (Timer_links i) (heads A)) ((ring_of A)(h := us @ vs, Timer_links i := []))" by blast
  have "links_ok (list_init (Timer_links i) L1) (drop_timer i A)"
    using ll.rep_cong [OF L1(2) R] d(2-5)
    by (auto simp: links_ok_def heads dest: notin_set_remove1 set_remove1_subset [THEN subsetD])
  with L1(1) show ?thesis by (simp add: unlink_ip_split)
qed

lemma links_drop:
  assumes ok: "links_ok L A" and i: "i < TIMER_MAX"
  obtains L' where "list_unlink_ip (Timer_links i) L = Some L'" "links_ok L' (drop_timer i A)"
proof -
  note d = links_okD [OF ok] and dist = links_ok_distinct [OF ok] and apart = links_ok_apart [OF ok]
  note in_ring = links_drop_ring [OF ok i]
  consider (free) "i \<in> set (fr A)" | (queued) th where "i \<in> set (qu A th)" | (loose) "i \<in> loose A"
    using i by (auto simp: loose_def)
  then have "\<exists>L'. list_unlink_ip (Timer_links i) L = Some L' \<and> links_ok L' (drop_timer i A)"
  proof cases
    case free
    then obtain xs ys where xs: "fr A = xs @ i # ys" by (auto simp: in_set_conv_decomp)
    have "remove1 i (qu A th) = qu A th" for th using free apart(1) [of th] by (intro remove1_idem) blast
    then show ?thesis using dist(1)
      by (intro in_ring [of Timer_free_list "map Timer_links xs" "map Timer_links ys"])
         (auto simp: xs remove1_append heads_def)
  next
    case (queued th)
    then obtain xs ys where xs: "qu A th = xs @ i # ys" by (auto simp: in_set_conv_decomp)
    have "th \<in> active A" using d(4) [of th] queued by (cases "th \<in> active A") auto
    moreover have "remove1 i (fr A) = fr A" using queued apart(1) [of th] by (intro remove1_idem) blast
    moreover have "remove1 i (qu A th') = qu A th'" if "th' \<noteq> th" for th'
      using queued apart(2) [OF that] by (intro remove1_idem) blast
    ultimately show ?thesis using dist(2) [of th]
      by (intro in_ring [of "Timer_queue th" "map Timer_links xs" "map Timer_links ys"])
         (auto simp: xs remove1_append heads_def)
  next
    case loose
    then have "list_unlink_ip (Timer_links i) L = Some L"
      by (intro rings_unlink_ip_again [OF d(1)]) simp_all
    then show ?thesis using ok by (simp add: drop_loose [OF loose])
  qed
  then show thesis using that by blast
qed

text \<open>A loose timer goes to the end of the free list, or into the queue of an active thread.\<close>

lemma links_free:
  assumes ok: "links_ok L A" and i: "i \<in> loose A"
  obtains L' where "list_append Timer_free_list (Timer_links i) L = Some L'" "links_ok L' (A\<lparr>fr := fr A @ [i]\<rparr>)"
proof -
  note d = links_okD [OF ok]
  let ?A = "A\<lparr>fr := fr A @ [i]\<rparr>"
  have heads: "heads ?A = heads A - {Timer_links i}" by (auto simp: heads_def loose_def active_def)
  from ll.link_loose [OF d(1), of Timer_free_list "Timer_links i" "map Timer_links (fr A)" "[]"] i
  obtain L' where L': "list_append Timer_free_list (Timer_links i) L = Some L'"
    "rings L' (heads A - {Timer_links i}) ((ring_of A)(Timer_free_list := map Timer_links (fr A) @ [Timer_links i]))"
    by auto
  have "rings L' (heads ?A) (ring_of ?A)"
    unfolding heads by (rule ll.rep_cong [OF L'(2)]) (auto simp: heads_def)
  then show thesis using L'(1) i d(2-5)
    by (intro that) (auto simp: links_ok_def active_def loose_def)
qed

lemma loose_enqueue:
  assumes "set zs = insert i (set (qu A th))"
  shows "loose (A\<lparr>qu := (qu A)(th := zs)\<rparr>) = loose A - {i}"
proof -
  have "(\<forall>t. j \<notin> set (((qu A)(th := zs)) t)) \<longleftrightarrow> j \<noteq> i \<and> (\<forall>t. j \<notin> set (qu A t))" for j
    using assms by (metis fun_upd_apply insert_iff)
  then show ?thesis by (auto simp: loose_def)
qed

lemma links_enqueue:
  assumes ok: "links_ok L A" and i: "i \<in> loose A" and th: "th \<in> active A" and q: "qu A th = xs @ ys"
  obtains L' where "list_append (hd (map Timer_links ys @ [Timer_queue th])) (Timer_links i) L = Some L'"
    and "links_ok L' (A\<lparr>qu := (qu A)(th := xs @ i # ys)\<rparr>)"
proof -
  note d = links_okD [OF ok]
  let ?A = "A\<lparr>qu := (qu A)(th := xs @ i # ys)\<rparr>"
  have act: "active ?A = active A" by (simp add: active_def)
  have "loose ?A = loose A - {i}" by (rule loose_enqueue) (simp add: q)
  then have heads: "heads ?A = heads A - {Timer_links i}" by (auto simp: heads_def act)
  from ll.link_loose [OF d(1), of "Timer_queue th" "Timer_links i" "map Timer_links xs" "map Timer_links ys"] i th q
  obtain L' where L': "list_append (hd (map Timer_links ys @ [Timer_queue th])) (Timer_links i) L = Some L'"
    "rings L' (heads A - {Timer_links i})
      ((ring_of A)(Timer_queue th := map Timer_links xs @ Timer_links i # map Timer_links ys))"
    by auto
  have "rings L' (heads ?A) (ring_of ?A)"
    unfolding heads by (rule ll.rep_cong [OF L'(2)]) (auto simp: heads_def split: if_splits)
  moreover have "j < TIMER_MAX" if "j \<in> set (qu ?A th')" for j th'
  proof (cases "th' = th")
    case True
    with that have "j = i \<or> j \<in> set (qu A th)" unfolding q by auto
    with i d(3) show ?thesis by (auto simp: loose_def)
  next
    case False
    with that d(3) show ?thesis by simp
  qed
  ultimately have "links_ok L' ?A" unfolding links_ok_def act using th d(2,4,5) by auto
  with L'(1) show thesis by (rule that)
qed

text \<open>A free thread becomes active with an empty queue, and an active one with an empty queue
  becomes free.\<close>

lemma links_thread_alloc:
  assumes ok: "links_ok L A" and t: "tf A = t # rest"
  obtains L1 L2 where "list_unlink (Thread_links t) L = Some L1"
    and "list_append Thread_active_list (Thread_links t) (list_init (Timer_queue (Pool_thread t)) L1) = Some L2"
    and "links_ok L2 (A\<lparr>tf := rest, ta := ta A @ [t]\<rparr>)"
proof -
  note d = links_okD [OF ok]
  let ?A = "A\<lparr>tf := rest, ta := ta A @ [t]\<rparr>" and ?q = "Timer_queue (Pool_thread t)"
  let ?R = "(ring_of A)(Thread_free_list := map Thread_links rest)"
  from ll.unlink_rep [OF d(1), of Thread_free_list "[]" "Thread_links t" "map Thread_links rest"] t
  obtain L1 where L1: "list_unlink (Thread_links t) L = Some L1" "rings L1 (heads A) ?R"
    "Thread_links t \<notin> members (heads A) ?R" by auto
  have new: "Pool_thread t \<notin> active A" using links_ok_apart(3) [OF ok] t by (auto simp: active_def)
  have "?q \<notin> set (ring_of A h)" "?q \<notin> set (map Thread_links rest)" for h by (cases h) auto
  then have "?q \<notin> members (heads A) ?R" using new by (auto simp: members_def)
  from ll.init_rep [OF L1(2) this]
  have L1': "rings (list_init ?q L1) (insert ?q (heads A)) (?R(?q := []))" .
  have "Thread_links t \<notin> members (insert ?q (heads A)) (?R(?q := []))"
    using L1(3) new by (auto simp: members_def)
  from ll.ins_rep [OF L1' _ _ this, of Thread_active_list "map Thread_links (ta A)" "[]"]
  obtain L2 where L2: "list_append Thread_active_list (Thread_links t) (list_init ?q L1) = Some L2"
    "rings L2 (insert ?q (heads A)) (?R(?q := [], Thread_active_list := map Thread_links (ta A) @ [Thread_links t]))"
    by auto
  have heads: "heads ?A = insert ?q (heads A)" by (auto simp: heads_def active_def loose_def)
  have "qu A (Pool_thread t) = []" by (rule d(4) [OF new])
  then have "rings L2 (heads ?A) (ring_of ?A)"
    unfolding heads by (intro ll.rep_cong [OF L2(2)]) (auto simp: heads_def)
  moreover have "set (tf ?A) \<union> set (ta ?A) = {..<THREAD_MAXNODES}" using d(5) t by auto
  ultimately have "links_ok L2 ?A" using d(2-4) by (auto simp: links_ok_def active_def)
  with L1(1) L2(1) show thesis by (rule that)
qed

lemma links_thread_dealloc:
  assumes ok: "links_ok L A" and t: "ta A = xs @ t # ys" and q: "qu A (Pool_thread t) = []"
  obtains L1 L2 where "list_unlink (Thread_links t) L = Some L1"
    and "list_append Thread_free_list (Thread_links t) L1 = Some L2"
    and "links_ok L2 (A\<lparr>ta := xs @ ys, tf := tf A @ [t]\<rparr>)"
proof -
  note d = links_okD [OF ok]
  let ?A = "A\<lparr>ta := xs @ ys, tf := tf A @ [t]\<rparr>"
  from ll.move [OF d(1), of Thread_active_list "map Thread_links xs" "Thread_links t" "map Thread_links ys" Thread_free_list] t
  obtain L1 L2 where L: "list_unlink (Thread_links t) L = Some L1" "list_append Thread_free_list (Thread_links t) L1 = Some L2"
    "rings L2 (heads A) ((ring_of A)(Thread_active_list := map Thread_links xs @ map Thread_links ys,
       Thread_free_list := map Thread_links (tf A) @ [Thread_links t]))" by auto
  have sub: "heads ?A \<subseteq> heads A" by (auto simp: heads_def active_def loose_def t)
  have "rings L2 (heads ?A) (ring_of ?A)"
    by (rule ll.rep_cong [OF ll.rep_subset [OF L(3) sub]]) (auto simp: heads_def)
  moreover have "qu A th = []" if "th \<notin> active ?A" for th
    using that d(4) [of th] q t by (auto simp: active_def)
  moreover have "set (tf ?A) \<union> set (ta ?A) = {..<THREAD_MAXNODES}" using d(5) t by auto
  ultimately have "links_ok L2 ?A" using d(2,3) by (auto simp: links_ok_def)
  with L(1,2) show thesis by (rule that)
qed

text \<open>The initial lists.\<close>

lemma rings_snoc: "(R(h := R h @ [x]))(h := (R(h := R h @ [x])) h @ ys) = R(h := R h @ x # ys)"
  by (simp add: fun_eq_iff)

lemma links_init_timers:
  assumes "rings L H R" "Timer_free_list \<in> H" "\<And>i. i \<in> set is \<Longrightarrow> Timer_links i \<notin> members H R" "distinct is"
  obtains L' where "\<And>st. tlinks st = L \<Longrightarrow> \<exists>T. init_timers is st = Some (st\<lparr>tlinks := L', timers := T\<rparr>) \<and>
      (\<forall>i. T i = (if i \<in> set is then (timers st i)\<lparr>inuse := TIMER_FREE\<rparr> else timers st i))"
    and "rings L' H (R(Timer_free_list := R Timer_free_list @ map Timer_links is))"
  using assms
proof (induction "is" arbitrary: L R thesis)
  case Nil
  have "\<exists>T. init_timers [] st = Some (st\<lparr>tlinks := L, timers := T\<rparr>) \<and> (\<forall>i. T i = timers st i)"
    if "tlinks st = L" for st :: timer_sys
    using that by (intro exI [of _ "timers st"]) simp
  with Nil.prems(2) show ?case by (intro Nil.prems(1) [of L]) auto
next
  case (Cons i "is")
  from rings_append [OF Cons.prems(2,3), of "Timer_links i"] Cons.prems(4)
  obtain L1 where L1: "list_append Timer_free_list (Timer_links i) L = Some L1"
    "rings L1 H (R(Timer_free_list := R Timer_free_list @ [Timer_links i]))" by auto
  have out: "Timer_links j \<notin> members H (R(Timer_free_list := R Timer_free_list @ [Timer_links i]))" if "j \<in> set is" for j
    using that Cons.prems(4) [of j] Cons.prems(5) by (auto simp: members_def split: if_splits)
  obtain L2 where L2: "\<And>st. tlinks st = L1 \<Longrightarrow> \<exists>T. init_timers is st = Some (st\<lparr>tlinks := L2, timers := T\<rparr>) \<and>
      (\<forall>i. T i = (if i \<in> set is then (timers st i)\<lparr>inuse := TIMER_FREE\<rparr> else timers st i))"
    "rings L2 H (R(Timer_free_list := R Timer_free_list @ map Timer_links (i # is)))"
    using Cons.IH [OF _ L1(2) Cons.prems(3) out] Cons.prems(5)
    unfolding rings_snoc distinct.simps list.map by blast
  show ?case
  proof (rule Cons.prems(1) [OF _ L2(2)])
    fix st :: timer_sys assume st: "tlinks st = L"
    let ?st = "upd_timer i (\<lambda>t. t\<lparr>inuse := TIMER_FREE\<rparr>) (st\<lparr>tlinks := L1\<rparr>)"
    have "tlinks ?st = L1" by (simp add: upd_timer_def)
    from L2(1) [OF this] obtain T where T: "init_timers is ?st = Some (?st\<lparr>tlinks := L2, timers := T\<rparr>)"
      "\<forall>j. T j = (if j \<in> set is then (timers ?st j)\<lparr>inuse := TIMER_FREE\<rparr> else timers ?st j)" by blast
    then show "\<exists>T. init_timers (i # is) st = Some (st\<lparr>tlinks := L2, timers := T\<rparr>) \<and>
      (\<forall>j. T j = (if j \<in> set (i # is) then (timers st j)\<lparr>inuse := TIMER_FREE\<rparr> else timers st j))"
      by (intro exI [of _ T]) (auto simp: on_links_def st L1(1) upd_timer_def)
  qed
qed

lemma links_init_threads:
  assumes "rings L H R" "Thread_free_list \<in> H" "\<And>i. i \<in> set is \<Longrightarrow> Thread_links i \<notin> members H R" "distinct is"
  obtains L' where "\<And>st. tlinks st = L \<Longrightarrow> init_threads is st = Some (st\<lparr>tlinks := L'\<rparr>)"
    and "rings L' H (R(Thread_free_list := R Thread_free_list @ map Thread_links is))"
  using assms
proof (induction "is" arbitrary: L R thesis)
  case Nil
  show ?case by (rule Nil.prems(1) [of L]) (use Nil.prems(2) in auto)
next
  case (Cons i "is")
  from rings_append [OF Cons.prems(2,3), of "Thread_links i"] Cons.prems(4)
  obtain L1 where L1: "list_append Thread_free_list (Thread_links i) L = Some L1"
    "rings L1 H (R(Thread_free_list := R Thread_free_list @ [Thread_links i]))" by auto
  have out: "Thread_links j \<notin> members H (R(Thread_free_list := R Thread_free_list @ [Thread_links i]))" if "j \<in> set is" for j
    using that Cons.prems(4) [of j] Cons.prems(5) by (auto simp: members_def split: if_splits)
  obtain L2 where "\<And>st. tlinks st = L1 \<Longrightarrow> init_threads is st = Some (st\<lparr>tlinks := L2\<rparr>)"
    "rings L2 H (R(Thread_free_list := R Thread_free_list @ map Thread_links (i # is)))"
    using Cons.IH [OF _ L1(2) Cons.prems(3) out] Cons.prems(5)
    unfolding rings_snoc distinct.simps list.map by blast
  note L2 = this
  show ?case by (rule Cons.prems(1) [OF _ L2(2)]) (simp add: on_links_def L1(1) L2(1))
qed

end
