(* ===== verification/OsTimerInv.thy ===== *)
theory OsTimerInv
  imports OsTimerLinks
begin

text \<open>
  The invariant of the timer module and what the internal functions do under it.  It is stated over
  the abstraction of the lists and allows for timers (\<open>X\<close>) and threads (\<open>Y\<close>) that a function
  has taken in hand and not put back yet; between two calls both sets are empty.
\<close>

section \<open>The invariant\<close>

definition live :: "timer_sys \<Rightarrow> tabs \<Rightarrow> nat \<Rightarrow> bool" where
  "live st A i \<longleftrightarrow> inuse (timers st i) = TIMER_INUSE \<and> refcount (timers st i) = 1 \<and>
     (\<exists>th \<in> active A. thread (timers st i) = Some th \<and> clock (timers st i) = clock_id (threads st th))"

definition free_ok :: "timer_sys \<Rightarrow> nat \<Rightarrow> bool" where
  "free_ok st i \<longleftrightarrow> inuse (timers st i) = TIMER_FREE \<and> refcount (timers st i) = 0"

definition queued_ok :: "timer_sys \<Rightarrow> thread_id \<Rightarrow> nat \<Rightarrow> bool" where
  "queued_ok st th i \<longleftrightarrow> thread (timers st i) = Some th \<and> armed (timers st i) \<and>
     time_ok (expirytime (timers st i)) \<and> interval_ok (it_interval (tvalue (timers st i)))"

definition expiry :: "timer_sys \<Rightarrow> nat \<Rightarrow> int" where
  "expiry st i = nanos (expirytime (timers st i))"

definition thread_key :: "timer_sys \<Rightarrow> nat \<Rightarrow> int \<times> int \<times> clockid" where
  "thread_key st t = (let n = threads st (Pool_thread t)
     in (schedpolicy (th_attr n), sched_priority (th_attr n), clock_id n))"

definition tinv :: "nat set \<Rightarrow> nat set \<Rightarrow> timer_sys \<Rightarrow> tabs \<Rightarrow> bool" where
  "tinv X Y st A \<longleftrightarrow> links_ok (tlinks st) A \<and> init_once st \<and> timer_init_failed st = 0 \<and>
     (\<forall>i < TIMER_MAX. i \<in> X \<longrightarrow> i \<in> loose A) \<and>
     (\<forall>i \<in> set (fr A). free_ok st i) \<and>
     (\<forall>i < TIMER_MAX. i \<notin> set (fr A) \<longrightarrow> i \<notin> X \<longrightarrow> live st A i) \<and>
     (\<forall>th. \<forall>i \<in> set (qu A th). queued_ok st th i) \<and>
     (\<forall>th. sorted (map (expiry st) (qu A th))) \<and>
     (\<forall>t \<in> set (ta A) - Y. exists (threads st (Pool_thread t))) \<and>
     inj_on (thread_key st) (set (ta A))"

lemma tinvD:
  assumes "tinv X Y st A"
  shows "links_ok (tlinks st) A" "init_once st" "timer_init_failed st = 0"
    "\<And>i. i < TIMER_MAX \<Longrightarrow> i \<in> X \<Longrightarrow> i \<in> loose A" "\<And>i. i \<in> set (fr A) \<Longrightarrow> free_ok st i"
    "\<And>i. i < TIMER_MAX \<Longrightarrow> i \<notin> set (fr A) \<Longrightarrow> i \<notin> X \<Longrightarrow> live st A i"
    "\<And>th i. i \<in> set (qu A th) \<Longrightarrow> queued_ok st th i" "\<And>th. sorted (map (expiry st) (qu A th))"
    "\<And>t. t \<in> set (ta A) \<Longrightarrow> t \<notin> Y \<Longrightarrow> exists (threads st (Pool_thread t))"
    "inj_on (thread_key st) (set (ta A))"
  using assms unfolding tinv_def by auto

lemma tinvI:
  assumes "links_ok (tlinks st) A" "init_once st" "timer_init_failed st = 0"
    "\<And>i. i < TIMER_MAX \<Longrightarrow> i \<in> X \<Longrightarrow> i \<in> loose A" "\<And>i. i \<in> set (fr A) \<Longrightarrow> free_ok st i"
    "\<And>i. i < TIMER_MAX \<Longrightarrow> i \<notin> set (fr A) \<Longrightarrow> i \<notin> X \<Longrightarrow> live st A i"
    "\<And>th i. i \<in> set (qu A th) \<Longrightarrow> queued_ok st th i" "\<And>th. sorted (map (expiry st) (qu A th))"
    "\<And>t. t \<in> set (ta A) \<Longrightarrow> t \<notin> Y \<Longrightarrow> exists (threads st (Pool_thread t))"
    "inj_on (thread_key st) (set (ta A))"
  shows "tinv X Y st A"
  using assms unfolding tinv_def by blast

text \<open>Only these parts of the state matter.\<close>

lemma tinv_cong:
  assumes "tinv X Y st A" "links_ok (tlinks st') A" "timers st' = timers st" "threads st' = threads st"
    "init_once st' = init_once st" "timer_init_failed st' = timer_init_failed st"
  shows "tinv X Y st' A"
  using assms unfolding tinv_def live_def free_ok_def queued_ok_def expiry_def thread_key_def by simp

lemma tinv_errno [simp]: "tinv X Y (set_errno e st) A \<longleftrightarrow> tinv X Y st A"
  unfolding tinv_def live_def free_ok_def queued_ok_def expiry_def thread_key_def by (simp add: set_errno_def)

lemma upd_timer_simps [simp]:
  "tlinks (upd_timer i f st) = tlinks st" "threads (upd_timer i f st) = threads st"
  "init_once (upd_timer i f st) = init_once st" "timer_init_failed (upd_timer i f st) = timer_init_failed st"
  "timers (upd_timer i f st) = (timers st)(i := f (timers st i))" "errno (upd_timer i f st) = errno st"
  by (simp_all add: upd_timer_def)

lemma upd_thread_simps [simp]:
  "tlinks (upd_thread th g st) = tlinks st" "timers (upd_thread th g st) = timers st"
  "init_once (upd_thread th g st) = init_once st" "timer_init_failed (upd_thread th g st) = timer_init_failed st"
  "threads (upd_thread th g st) = (threads st)(th := g (threads st th))" "errno (upd_thread th g st) = errno st"
  by (simp_all add: upd_thread_def)

lemma set_errno_simps [simp]:
  "tlinks (set_errno e st) = tlinks st" "timers (set_errno e st) = timers st" "threads (set_errno e st) = threads st"
  "init_once (set_errno e st) = init_once st" "timer_init_failed (set_errno e st) = timer_init_failed st"
  "errno (set_errno e st) = e"
  by (simp_all add: set_errno_def)

lemma live_cong:
  "live st A i \<Longrightarrow> timers st' i = timers st i \<Longrightarrow> active A \<subseteq> active A' \<Longrightarrow>
   (\<And>th. th \<in> active A \<Longrightarrow> clock_id (threads st' th) = clock_id (threads st th)) \<Longrightarrow> live st' A' i"
  unfolding live_def by auto

section \<open>Taking a timer in hand and putting it back\<close>

lemma in_hand_out:
  assumes "tinv X Y st A" "i < TIMER_MAX" "i \<in> X"
  shows "i \<notin> set (fr A)" "i \<notin> set (qu A th)"
  using tinvD(4) [OF assms] by (auto simp: loose_def)

lemma tinv_upd_timer:
  assumes "tinv X Y st A" "i < TIMER_MAX" "i \<in> X"
  shows "tinv X Y (upd_timer i f st) A"
proof -
  note d = tinvD [OF assms(1)] and out = in_hand_out [OF assms]
  have same: "timers (upd_timer i f st) j = timers st j" if "j \<noteq> i" for j using that by simp
  have q: "j \<noteq> i" if "j \<in> set (qu A th)" for j th using that out by auto
  have "map (expiry (upd_timer i f st)) (qu A th) = map (expiry st) (qu A th)" for th
    using q by (auto simp: expiry_def)
  moreover have "live (upd_timer i f st) A j" if "live st A j" "j \<noteq> i" for j
    using that(1) by (rule live_cong) (use that(2) in auto)
  moreover have "thread_key (upd_timer i f st) = thread_key st"
    by (simp add: thread_key_def fun_eq_iff Let_def)
  moreover note * = calculation
  ultimately show ?thesis
  proof (intro tinvI)
    show "live (upd_timer i f st) A j" if "j < TIMER_MAX" "j \<notin> set (fr A)" "j \<notin> X" for j
      using *(2) [OF d(6) [OF that]] that(3) assms(3) by blast
    show "sorted (map (expiry (upd_timer i f st)) (qu A th))" for th
      unfolding *(1) by (rule d(8))
    show "free_ok (upd_timer i f st) j" if "j \<in> set (fr A)" for j
      using d(5) [OF that] out(1) that by (auto simp: free_ok_def)
    show "queued_ok (upd_timer i f st) th j" if "j \<in> set (qu A th)" for th j
      using d(7) [OF that] q [OF that] by (simp add: queued_ok_def)
  qed (use d assms(3) in auto)
qed

lemma tinv_take:
  assumes inv: "tinv X Y st A" and i: "i < TIMER_MAX"
  obtains L where "on_links (list_unlink_ip (Timer_links i)) st = Some (st\<lparr>tlinks := L\<rparr>)"
    and "tinv (insert i X) Y (st\<lparr>tlinks := L\<rparr>) (drop_timer i A)"
proof -
  note d = tinvD [OF inv]
  obtain L where L: "list_unlink_ip (Timer_links i) (tlinks st) = Some L" "links_ok L (drop_timer i A)"
    by (rule links_drop [OF d(1) i])
  have sub: "j \<in> set xs" if "j \<in> set (remove1 i xs)" for j xs using that set_remove1_subset by fast
  have "tinv (insert i X) Y (st\<lparr>tlinks := L\<rparr>) (drop_timer i A)"
  proof (rule tinvI)
    show "j \<in> loose (drop_timer i A)" if "j < TIMER_MAX" "j \<in> insert i X" for j
      using that d(4) loose_drop [OF d(1) i] by auto
    show "live (st\<lparr>tlinks := L\<rparr>) (drop_timer i A) j"
      if "j < TIMER_MAX" "j \<notin> set (fr (drop_timer i A))" "j \<notin> insert i X" for j
    proof (rule live_cong [of st A])
      show "live st A j" using that d(6) by (auto simp: in_set_remove1)
    qed simp_all
    show "sorted (map (expiry (st\<lparr>tlinks := L\<rparr>)) (qu (drop_timer i A) th))" for th
    proof -
      have "expiry (st\<lparr>tlinks := L\<rparr>) = expiry st" by (simp add: expiry_def fun_eq_iff)
      then show ?thesis using d(8) [of th] by (simp add: sorted_map_remove1)
    qed
    show "inj_on (thread_key (st\<lparr>tlinks := L\<rparr>)) (set (ta (drop_timer i A)))"
      using d(10) by (simp add: thread_key_def [abs_def])
    show "free_ok (st\<lparr>tlinks := L\<rparr>) j" if "j \<in> set (fr (drop_timer i A))" for j
      using d(5) [OF sub, of j] that by (simp add: free_ok_def)
    show "queued_ok (st\<lparr>tlinks := L\<rparr>) th j" if "j \<in> set (qu (drop_timer i A) th)" for th j
      using d(7) [OF sub, of j th] that by (simp add: queued_ok_def)
  qed (use L(2) d(2,3,9) in auto)
  with L(1) show thesis by (intro that) (simp_all add: on_links_def)
qed

lemma tinv_free:
  assumes inv: "tinv X Y st A" and i: "i < TIMER_MAX" "i \<in> X" and free: "free_ok st i"
  obtains L where "on_links (list_append Timer_free_list (Timer_links i)) st = Some (st\<lparr>tlinks := L\<rparr>)"
    and "tinv (X - {i}) Y (st\<lparr>tlinks := L\<rparr>) (A\<lparr>fr := fr A @ [i]\<rparr>)"
proof -
  note d = tinvD [OF inv]
  obtain L where L: "list_append Timer_free_list (Timer_links i) (tlinks st) = Some L"
    "links_ok L (A\<lparr>fr := fr A @ [i]\<rparr>)" by (rule links_free [OF d(1) d(4) [OF i]])
  have "tinv (X - {i}) Y (st\<lparr>tlinks := L\<rparr>) (A\<lparr>fr := fr A @ [i]\<rparr>)"
  proof (rule tinvI)
    show "live (st\<lparr>tlinks := L\<rparr>) (A\<lparr>fr := fr A @ [i]\<rparr>) j"
      if "j < TIMER_MAX" "j \<notin> set (fr (A\<lparr>fr := fr A @ [i]\<rparr>))" "j \<notin> X - {i}" for j
      by (rule live_cong [of st A]) (use that d(6) in \<open>auto simp: active_def\<close>)
    show "sorted (map (expiry (st\<lparr>tlinks := L\<rparr>)) (qu (A\<lparr>fr := fr A @ [i]\<rparr>) th))" for th
      using d(8) [of th] by (simp add: expiry_def [abs_def])
    show "inj_on (thread_key (st\<lparr>tlinks := L\<rparr>)) (set (ta (A\<lparr>fr := fr A @ [i]\<rparr>)))"
      using d(10) by (simp add: thread_key_def [abs_def])
    show "free_ok (st\<lparr>tlinks := L\<rparr>) j" if "j \<in> set (fr (A\<lparr>fr := fr A @ [i]\<rparr>))" for j
      using d(5) [of j] that free by (auto simp: free_ok_def)
    show "queued_ok (st\<lparr>tlinks := L\<rparr>) th j" if "j \<in> set (qu (A\<lparr>fr := fr A @ [i]\<rparr>) th)" for th j
      using d(7) [of j th] that by (simp add: queued_ok_def)
  qed (use L(2) d(2-4,9) in \<open>auto simp: loose_def\<close>)
  with L(1) show thesis by (intro that) (simp_all add: on_links_def)
qed

lemma tinv_keep:
  assumes inv: "tinv X Y st A" and i: "live st A i"
  shows "tinv (X - {i}) Y st A"
proof -
  note d = tinvD [OF inv]
  have "live st A j" if "j < TIMER_MAX" "j \<notin> set (fr A)" "j \<notin> X - {i}" for j
    using that d(6) i by (cases "j = i") auto
  with d show ?thesis by (intro tinvI) auto
qed

section \<open>Allocating and releasing timers\<close>

lemma first_free:
  assumes "links_ok L A"
  shows "list_first Timer_free_list L = Some (case fr A of [] \<Rightarrow> Timer_free_list | i # _ \<Rightarrow> Timer_links i)"
  using ring_first [OF ringsD [OF links_okD(1) [OF assms], of Timer_free_list]] by (cases "fr A") simp_all

lemma alloc_none: "tinv X Y st A \<Longrightarrow> fr A = [] \<Longrightarrow> timer_alloc st = Some (None, st)"
  using first_free [OF tinvD(1), of X Y st A] by (simp add: timer_alloc_def list_null_def)

lemma alloc_some:
  assumes inv: "tinv X Y st A" and i: "fr A = i # rest"
  obtains st' where "timer_alloc st = Some (Some i, st')" "tinv (insert i X) Y st' (A\<lparr>fr := rest\<rparr>)"
    and "i < TIMER_MAX" "i \<notin> X" "timers st' = (timers st)(i := (timers st i)\<lparr>inuse := TIMER_INUSE, refcount := 1\<rparr>)"
    and "threads st' = threads st"
proof -
  note d = tinvD [OF inv]
  have lt: "i < TIMER_MAX" using links_okD(2) [OF d(1), of i] i by simp
  from tinv_take [OF inv lt] obtain L where
    L: "on_links (list_unlink_ip (Timer_links i)) st = Some (st\<lparr>tlinks := L\<rparr>)"
      "tinv (insert i X) Y (st\<lparr>tlinks := L\<rparr>) (drop_timer i A)" .
  have "i \<notin> set (qu A th)" for th using links_ok_apart(1) [OF d(1), of th] i by auto
  then have "drop_timer i A = A\<lparr>fr := rest\<rparr>" by (simp add: drop_timer_def i remove1_idem)
  moreover have "i \<notin> X" using d(4) [OF lt] i by (auto simp: loose_def)
  ultimately show thesis
    using L(1) tinv_upd_timer [OF L(2) lt] first_free [OF d(1)] i lt
    by (intro that [of "upd_timer i (\<lambda>t. t\<lparr>inuse := TIMER_INUSE, refcount := 1\<rparr>) (st\<lparr>tlinks := L\<rparr>)"])
       (simp_all add: timer_alloc_def list_null_def)
qed

text \<open>Returning a timer to the free list; it may be there already.\<close>

definition freed :: "nat \<Rightarrow> tabs \<Rightarrow> tabs" where
  "freed i A = (drop_timer i A)\<lparr>fr := remove1 i (fr A) @ [i]\<rparr>"

lemma freed_simps [simp]:
  "fr (freed i A) = remove1 i (fr A) @ [i]" "qu (freed i A) th = remove1 i (qu A th)"
  "tf (freed i A) = tf A" "ta (freed i A) = ta A" "active (freed i A) = active A"
  by (simp_all add: freed_def active_def)

lemma dealloc_ok:
  assumes inv: "tinv X Y st A" and i: "i < TIMER_MAX" and ref: "refcount (timers st i) = 0"
  obtains st' where "timer_dealloc i st = Some st'" "tinv (X - {i}) Y st' (freed i A)"
    and "timers st' = (timers st)(i := (timers st i)\<lparr>thread := None, inuse := TIMER_FREE\<rparr>)"
    and "threads st' = threads st"
proof -
  from tinv_take [OF inv i] obtain L where
    L: "on_links (list_unlink_ip (Timer_links i)) st = Some (st\<lparr>tlinks := L\<rparr>)"
      "tinv (insert i X) Y (st\<lparr>tlinks := L\<rparr>) (drop_timer i A)" .
  define st1 where "st1 = upd_timer i (\<lambda>t. t\<lparr>thread := None, inuse := TIMER_FREE\<rparr>) (st\<lparr>tlinks := L\<rparr>)"
  have inv1: "tinv (insert i X) Y st1 (drop_timer i A)" unfolding st1_def by (rule tinv_upd_timer [OF L(2) i]) simp
  have "free_ok st1 i" using ref by (simp add: free_ok_def st1_def)
  from tinv_free [OF inv1 i _ this] obtain L2 where
    L2: "on_links (list_append Timer_free_list (Timer_links i)) st1 = Some (st1\<lparr>tlinks := L2\<rparr>)"
      "tinv (insert i X - {i}) Y (st1\<lparr>tlinks := L2\<rparr>) (drop_timer i A\<lparr>fr := fr (drop_timer i A) @ [i]\<rparr>)" by auto
  have "timers st1 = (timers st)(i := (timers st i)\<lparr>thread := None, inuse := TIMER_FREE\<rparr>)" "threads st1 = threads st"
    by (simp_all add: st1_def)
  with L(1) L2 ref show thesis
    by (intro that [of "st1\<lparr>tlinks := L2\<rparr>"]) (simp_all add: timer_dealloc_def st1_def [symmetric] freed_def)
qed

section \<open>The timer queue\<close>

text \<open>A timer goes behind all timers that do not expire later.\<close>

definition enqueue :: "timer_sys \<Rightarrow> nat \<Rightarrow> nat list \<Rightarrow> nat list" where
  "enqueue st i q = takeWhile (\<lambda>j. expiry st j \<le> expiry st i) q @ i # dropWhile (\<lambda>j. expiry st j \<le> expiry st i) q"

lemma set_enqueue [simp]: "set (enqueue st i q) = insert i (set q)"
  unfolding enqueue_def by (metis Un_insert_right list.simps(15) set_append takeWhile_dropWhile_id)

lemma sorted_insert_mid:
  fixes x :: "'a :: linorder"
  assumes "sorted (xs @ ys)" "\<forall>a \<in> set xs. a \<le> x" "\<forall>b \<in> set ys. x \<le> b"
  shows "sorted (xs @ x # ys)"
  using assms by (simp add: sorted_append)

lemma sorted_enqueue:
  assumes "sorted (map (expiry st) q)"
  shows "sorted (map (expiry st) (enqueue st i q))"
proof -
  define P where "P = (\<lambda>j. expiry st j \<le> expiry st i)"
  define xs where "xs = takeWhile P q"
  define ys where "ys = dropWhile P q"
  have srt: "sorted (map (expiry st) xs @ map (expiry st) ys)"
    using assms unfolding xs_def ys_def by (simp flip: map_append)
  have "expiry st i \<le> expiry st j" if j: "j \<in> set ys" for j
  proof -
    obtain k ks where k: "ys = k # ks" using j by (cases ys) auto
    then have "\<not> P k" using hd_dropWhile [of P q] by (simp add: ys_def)
    moreover have "expiry st k \<le> expiry st j" using srt k j by (auto simp: sorted_append)
    ultimately show ?thesis by (simp add: P_def)
  qed
  moreover have "expiry st j \<le> expiry st i" if "j \<in> set xs" for j
    using set_takeWhileD [of j P q] that by (simp add: xs_def P_def)
  ultimately have "sorted (map (expiry st) xs @ expiry st i # map (expiry st) ys)"
    by (intro sorted_insert_mid [OF srt]) simp_all
  then show ?thesis by (simp add: enqueue_def xs_def ys_def P_def)
qed

text \<open>The loop that looks for the position.\<close>

lemma queue_position_ok:
  assumes "ring (tlinks st) (Timer_queue th) (map Timer_links (pre @ suf))"
    and "\<And>j. j \<in> set suf \<Longrightarrow> ts_ok (expirytime (timers st j))" and "ts_ok e"
  defines "P \<equiv> \<lambda>j. expiry st j \<le> nanos e"
  shows "queue_position (Timer_queue th) e (hd (map Timer_links suf @ [Timer_queue th])) b st =
    Some (hd (map Timer_links (dropWhile P suf) @ [Timer_queue th]), b \<and> takeWhile P suf = [])"
  using assms(1,2)
proof (induction suf arbitrary: pre b)
  case Nil
  then show ?case by (simp add: queue_position.simps list_null_def)
next
  case (Cons j suf)
  have cmp: "timespec_compare e (expirytime (timers st j)) < 0 \<longleftrightarrow> \<not> P j"
    using compare_nanos(1) [OF assms(3) Cons.prems(2)] by (simp add: P_def expiry_def not_le)
  have nxt: "list_next (Timer_links j) (tlinks st) = Some (hd (map Timer_links suf @ [Timer_queue th]))"
    using ring_next [of "tlinks st" "Timer_queue th" "map Timer_links pre" "Timer_links j" "map Timer_links suf"]
      Cons.prems(1) by simp
  have "queue_position (Timer_queue th) e (hd (map Timer_links suf @ [Timer_queue th])) False st =
    Some (hd (map Timer_links (dropWhile P suf) @ [Timer_queue th]), False)"
    using Cons.IH [of "pre @ [j]" False] Cons.prems by simp
  then show ?case by (simp add: queue_position.simps [of _ _ "Timer_links j"] list_null_def cmp nxt)
qed

lemma queue_ring: "links_ok L A \<Longrightarrow> th \<in> active A \<Longrightarrow> ring L (Timer_queue th) (map Timer_links (qu A th))"
  using ringsD [OF links_okD(1), of L A "Timer_queue th"] by simp

lemma first_queued: "links_ok L A \<Longrightarrow> th \<in> active A \<Longrightarrow>
    list_first (Timer_queue th) L = Some (case qu A th of [] \<Rightarrow> Timer_queue th | i # _ \<Rightarrow> Timer_links i)"
  using ring_first [OF queue_ring] by (auto split: list.splits)

lemma queue_timer_ok:
  assumes inv: "tinv X Y st A" and i: "i < TIMER_MAX" "i \<in> X" and th: "th \<in> active A"
    and e: "ts_ok (expirytime (timers st i))"
  obtains L where "timer_thread_queue_timer th i st =
      Some (hd (enqueue st i (qu A th)) = i, st\<lparr>tlinks := L\<rparr>)"
    and "links_ok L (A\<lparr>qu := (qu A)(th := enqueue st i (qu A th))\<rparr>)"
proof -
  note d = tinvD [OF inv]
  let ?P = "\<lambda>j. expiry st j \<le> nanos (expirytime (timers st i))"
  define xs where "xs = takeWhile ?P (qu A th)"
  define ys where "ys = dropWhile ?P (qu A th)"
  have enq: "enqueue st i (qu A th) = xs @ i # ys" by (simp add: enqueue_def xs_def ys_def expiry_def)
  have ring: "ring (tlinks st) (Timer_queue th) (map Timer_links ([] @ qu A th))"
    using queue_ring [OF d(1) th] by simp
  have pos: "queue_position (Timer_queue th) (expirytime (timers st i)) (hd (map Timer_links (qu A th) @ [Timer_queue th])) True st =
      Some (hd (map Timer_links ys @ [Timer_queue th]), xs = [])"
    using queue_position_ok [OF ring _ e, of True] d(7) by (simp add: queued_ok_def time_ok_def xs_def ys_def)
  have "qu A th = xs @ ys" by (simp add: xs_def ys_def)
  then obtain L where L: "list_append (hd (map Timer_links ys @ [Timer_queue th])) (Timer_links i) (tlinks st) = Some L"
    "links_ok L (A\<lparr>qu := (qu A)(th := xs @ i # ys)\<rparr>)"
    by (rule links_enqueue [OF d(1) d(4) [OF i] th])
  have head: "xs = [] \<longleftrightarrow> hd (enqueue st i (qu A th)) = i"
  proof (cases xs)
    case (Cons x xs')
    then have "x \<in> set (qu A th)" unfolding xs_def by (metis list.set_intros(1) set_takeWhileD)
    then show ?thesis using in_hand_out(2) [OF inv i, of th] by (auto simp: enq Cons)
  qed (simp add: enq)
  show thesis
    using pos L ring_first [OF ring] head
    by (intro that [of L]) (simp_all add: timer_thread_queue_timer_def list_insbefore_def on_links_def enq)
qed

text \<open>The invariant once the timer is in the queue and its fields are filled in.\<close>

lemma tinv_queued:
  assumes inv: "tinv X Y st A" and i: "i < TIMER_MAX" "i \<in> X" and th: "th \<in> active A"
    and L: "links_ok L (A\<lparr>qu := (qu A)(th := enqueue st i (qu A th))\<rparr>)"
    and st': "tlinks st' = L" "threads st' = threads st" "init_once st' = init_once st"
      "timer_init_failed st' = timer_init_failed st" "\<And>j. j \<noteq> i \<Longrightarrow> timers st' j = timers st j"
      "expirytime (timers st' i) = expirytime (timers st i)"
    and ok: "live st' A i" "queued_ok st' th i"
  shows "tinv (X - {i}) Y st' (A\<lparr>qu := (qu A)(th := enqueue st i (qu A th))\<rparr>)" (is "tinv _ _ _ ?A")
proof -
  note d = tinvD [OF inv] and out = in_hand_out [OF inv i]
  have act: "active ?A = active A" by (simp add: active_def)
  have ex: "expiry st' = expiry st" using st'(5,6) by (auto simp: expiry_def fun_eq_iff) (metis)
  have key: "thread_key st' = thread_key st" by (simp add: thread_key_def st'(2) fun_eq_iff)
  show ?thesis
  proof (rule tinvI)
    show "j \<in> loose ?A" if "j < TIMER_MAX" "j \<in> X - {i}" for j
      using that d(4) [of j] loose_enqueue [of "enqueue st i (qu A th)" i A th] by simp
    show "free_ok st' j" if "j \<in> set (fr ?A)" for j
      using d(5) [of j] that out(1) st'(5) [of j] by (cases "j = i") (auto simp: free_ok_def)
    show "live st' ?A j" if j: "j < TIMER_MAX" "j \<notin> set (fr ?A)" "j \<notin> X - {i}" for j
    proof (cases "j = i")
      case True
      with ok(1) show ?thesis by (auto simp: live_def act)
    next
      case False
      with j d(6) [of j] have "live st A j" by simp
      then show ?thesis by (rule live_cong) (use False st' act in auto)
    qed
    show "queued_ok st' th' j" if "j \<in> set (qu ?A th')" for th' j
    proof (cases "j = i")
      case True
      with that out(2) have "th' = th" by (cases "th' = th") auto
      with True ok(2) show ?thesis by simp
    next
      case False
      with that have "j \<in> set (qu A th')" by (cases "th' = th") auto
      with d(7) st'(5) [OF False] show ?thesis by (simp add: queued_ok_def)
    qed
    show "sorted (map (expiry st') (qu ?A th'))" for th'
      using d(8) sorted_enqueue [OF d(8) [of th]] by (simp add: ex)
  qed (use L st' d(2,3,9,10) key in auto)
qed

section \<open>Service threads\<close>

definition attr_key :: "pthread_attr \<Rightarrow> clockid \<Rightarrow> int \<times> int \<times> clockid" where
  "attr_key a clk = (schedpolicy a, sched_priority a, clk)"

lemma find_matching_loop_ok:
  assumes "ring (tlinks st) Thread_active_list (map Thread_links (pre @ suf))"
  shows "find_matching_loop a clk (hd (map Thread_links suf @ [Thread_active_list])) st =
    Some (map_option Pool_thread (find (\<lambda>t. thread_key st t = attr_key a clk) suf))"
  using assms
proof (induction suf arbitrary: pre)
  case Nil
  then show ?case by (simp add: find_matching_loop.simps list_null_def)
next
  case (Cons t suf)
  have nxt: "list_next (Thread_links t) (tlinks st) = Some (hd (map Thread_links suf @ [Thread_active_list]))"
    using ring_next [of "tlinks st" Thread_active_list "map Thread_links pre" "Thread_links t" "map Thread_links suf"]
      Cons.prems by simp
  have "thread_key st t = attr_key a clk \<longleftrightarrow>
      thread_attr_compare a (th_attr (threads st (Pool_thread t))) \<and> clk = clock_id (threads st (Pool_thread t))"
    by (auto simp: thread_key_def attr_key_def thread_attr_compare_def Let_def)
  then show ?case using Cons.IH [of "pre @ [t]"] Cons.prems
    by (simp add: find_matching_loop.simps [of _ _ "Thread_links t"] list_null_def nxt)
qed

lemma find_matching_ok:
  assumes "tinv X Y st A"
  shows "timer_thread_find_matching a clk st =
    Some (map_option Pool_thread (find (\<lambda>t. thread_key st t = attr_key a clk) (ta A)))"
proof -
  have "ring (tlinks st) Thread_active_list (map Thread_links ([] @ ta A))"
    using ringsD [OF links_okD(1) [OF tinvD(1) [OF assms]], of Thread_active_list] by simp
  from find_matching_loop_ok [OF this] ring_first [OF this] show ?thesis
    by (simp add: timer_thread_find_matching_def)
qed

lemma first_free_thread: "links_ok L A \<Longrightarrow>
    list_first Thread_free_list L = Some (case tf A of [] \<Rightarrow> Thread_free_list | t # _ \<Rightarrow> Thread_links t)"
  using ring_first [OF ringsD [OF links_okD(1)], of L A Thread_free_list] by (auto split: list.splits)

lemma thread_alloc_none: "tinv X Y st A \<Longrightarrow> tf A = [] \<Longrightarrow> timer_thread_alloc env a clk st = Some (None, st)"
  using first_free_thread [OF tinvD(1), of X Y st A] by (simp add: timer_thread_alloc_def list_null_def)

text \<open>A thread with a new key joins the active ones.\<close>

lemma keys_inj_new:
  assumes "inj_on (thread_key st) T" "t \<notin> T" "k \<notin> thread_key st ` T" "thread_key st' t = k"
    and "\<And>th. th \<noteq> Pool_thread t \<Longrightarrow> threads st' th = threads st th"
  shows "inj_on (thread_key st') (insert t T)"
proof -
  have old: "thread_key st' u = thread_key st u" if "u \<in> T" for u
    using assms(5) [of "Pool_thread u"] that assms(2) by (cases "u = t") (simp_all add: thread_key_def)
  then have "inj_on (thread_key st') T" using assms(1) inj_on_cong [of T "thread_key st'" "thread_key st"] by blast
  moreover have "thread_key st' ` T = thread_key st ` T" using old by (rule image_cong [OF refl])
  ultimately show ?thesis using assms(2-4) by simp
qed

lemma thread_alloc_some:
  assumes inv: "tinv X Y st A" and t: "tf A = t # rest" and key: "attr_key a clk \<notin> thread_key st ` set (ta A)"
  obtains st' where "timer_thread_alloc env a clk st = Some (Some (Pool_thread t), st')"
    and "tinv X (insert t Y) st' (A\<lparr>tf := rest, ta := ta A @ [t]\<rparr>)" "timers st' = timers st"
    and "\<not> exists (threads st' (Pool_thread t))" "clock_id (threads st' (Pool_thread t)) = clk"
    and "thread_key st' t = attr_key a clk"
    and "\<And>th. th \<noteq> Pool_thread t \<Longrightarrow> threads st' th = threads st th"
proof -
  note d = tinvD [OF inv]
  let ?A = "A\<lparr>tf := rest, ta := ta A @ [t]\<rparr>"
  obtain L1 L2 where L: "list_unlink (Thread_links t) (tlinks st) = Some L1"
    "list_append Thread_active_list (Thread_links t) (list_init (Timer_queue (Pool_thread t)) L1) = Some L2"
    "links_ok L2 ?A" by (rule links_thread_alloc [OF d(1) t])
  define st' where "st' = (thread_init env (Pool_thread t) (Some a) clk (st\<lparr>tlinks := L1\<rparr>))\<lparr>tlinks := L2\<rparr>"
  have alloc: "timer_thread_alloc env a clk st = Some (Some (Pool_thread t), st')"
    using first_free_thread [OF d(1)] t L(1,2)
    by (simp add: timer_thread_alloc_def list_null_def on_links_def st'_def thread_init_def Let_def)
  have st': "timers st' = timers st" "init_once st' = init_once st" "timer_init_failed st' = timer_init_failed st"
    "tlinks st' = L2" "\<And>th. th \<noteq> Pool_thread t \<Longrightarrow> threads st' th = threads st th"
    "\<not> exists (threads st' (Pool_thread t))" "clock_id (threads st' (Pool_thread t)) = clk"
    "thread_key st' t = attr_key a clk"
    by (simp_all add: st'_def thread_init_def Let_def thread_key_def attr_key_def)
  have new: "t \<notin> set (ta A)" using links_ok_apart(3) [OF d(1)] t by auto
  have inj: "inj_on (thread_key st') (set (ta ?A))"
    using keys_inj_new [OF d(10) new key st'(8)] st'(5) by simp
  have act: "active A \<subseteq> active ?A" by (auto simp: active_def)
  have same: "threads st' th = threads st th" if "th \<in> active A" for th
    using that new by (intro st'(5)) (auto simp: active_def)
  have "tinv X (insert t Y) st' ?A"
  proof (rule tinvI)
    show "live st' ?A j" if "j < TIMER_MAX" "j \<notin> set (fr ?A)" "j \<notin> X" for j
      by (rule live_cong [OF d(6)]) (use that st'(1) same act in auto)
    show "exists (threads st' (Pool_thread u))" if "u \<in> set (ta ?A)" "u \<notin> insert t Y" for u
      using that d(9) [of u] st'(5) [of "Pool_thread u"] by auto
    show "sorted (map (expiry st') (qu ?A th))" for th
      using d(8) [of th] st'(1) by (simp add: expiry_def [abs_def])
  qed (use L(3) d(2-5,7) st'(1-4) inj in \<open>auto simp: loose_def free_ok_def queued_ok_def\<close>)
  then show thesis by (rule that [OF alloc _ st'(1,6,7,8,5)])
qed

lemma thread_start_ok:
  assumes inv: "tinv X Y st A" and "\<not> exists (threads st (Pool_thread t))" and env: "pthread_create env = Some n"
  obtains st' where "timer_thread_start env (Pool_thread t) st = Some (1, st')" "tinv X (Y - {t}) st' A"
    and "timers st' = timers st" "clock_id (threads st' (Pool_thread t)) = clock_id (threads st (Pool_thread t))"
    and "thread_key st' = thread_key st"
proof -
  note d = tinvD [OF inv]
  define st' where "st' = upd_thread (Pool_thread t) (\<lambda>x. x\<lparr>exists := True, th_id := n\<rparr>) st"
  have key: "thread_key st' = thread_key st" by (auto simp: thread_key_def st'_def fun_eq_iff Let_def)
  have "tinv X (Y - {t}) st' A"
  proof (rule tinvI)
    show "live st' A j" if "j < TIMER_MAX" "j \<notin> set (fr A)" "j \<notin> X" for j
      by (rule live_cong [OF d(6) [OF that]]) (simp_all add: st'_def)
    show "sorted (map (expiry st') (qu A th))" for th using d(8) [of th] by (simp add: expiry_def [abs_def] st'_def)
    show "exists (threads st' (Pool_thread u))" if "u \<in> set (ta A)" "u \<notin> Y - {t}" for u
      using that d(9) [of u] by (auto simp: st'_def)
  qed (use d(1-5,7,10) key in \<open>auto simp: st'_def free_ok_def queued_ok_def\<close>)
  with assms(2) env key show thesis by (intro that [of st']) (simp_all add: timer_thread_start_def st'_def)
qed

lemma thread_dealloc_ok:
  assumes inv: "tinv X Y st A" and t: "t \<in> set (ta A)" and q: "qu A (Pool_thread t) = []"
    and unused: "\<And>i. i < TIMER_MAX \<Longrightarrow> i \<notin> set (fr A) \<Longrightarrow> i \<notin> X \<Longrightarrow> thread (timers st i) \<noteq> Some (Pool_thread t)"
  obtains L where "timer_thread_dealloc (Pool_thread t) st = Some (st\<lparr>tlinks := L\<rparr>)"
    and "tinv X (Y - {t}) (st\<lparr>tlinks := L\<rparr>) (A\<lparr>ta := remove1 t (ta A), tf := tf A @ [t]\<rparr>)"
proof -
  note d = tinvD [OF inv] and dist = links_ok_distinct(4) [OF tinvD(1) [OF inv]]
  from t obtain xs ys where xs: "ta A = xs @ t # ys" by (auto simp: in_set_conv_decomp)
  have rem: "remove1 t (ta A) = xs @ ys" using dist by (simp add: xs remove1_append)
  let ?A = "A\<lparr>ta := xs @ ys, tf := tf A @ [t]\<rparr>"
  obtain L1 L where L: "list_unlink (Thread_links t) (tlinks st) = Some L1"
    "list_append Thread_free_list (Thread_links t) L1 = Some L" "links_ok L ?A"
    by (rule links_thread_dealloc [OF d(1) xs q])
  have act: "Pool_thread t \<in> active A" using t by (auto simp: active_def)
  then have empty: "list_isempty (Timer_queue (Pool_thread t)) (tlinks st)"
    using ring_isempty [OF queue_ring [OF d(1)]] q by simp
  have ta: "set (ta ?A) = set (ta A) - {t}" using dist by (auto simp: xs)
  have "tinv X (Y - {t}) (st\<lparr>tlinks := L\<rparr>) ?A"
  proof (rule tinvI)
    show "live (st\<lparr>tlinks := L\<rparr>) ?A j" if "j < TIMER_MAX" "j \<notin> set (fr ?A)" "j \<notin> X" for j
      using d(6) [of j] unused [of j] that by (auto simp: live_def active_def xs)
    show "sorted (map (expiry (st\<lparr>tlinks := L\<rparr>)) (qu ?A th))" for th
      using d(8) [of th] by (simp add: expiry_def [abs_def])
    show "inj_on (thread_key (st\<lparr>tlinks := L\<rparr>)) (set (ta ?A))"
      using inj_on_subset [OF d(10), of "set (ta A) - {t}"] ta by (simp add: thread_key_def [abs_def] Diff_subset)
    show "exists (threads (st\<lparr>tlinks := L\<rparr>) (Pool_thread u))" if "u \<in> set (ta ?A)" "u \<notin> Y - {t}" for u
      using that d(9) [of u] ta by auto
  qed (use L(3) d(2-5,7) in \<open>auto simp: loose_def free_ok_def queued_ok_def\<close>)
  moreover have "timer_thread_dealloc (Pool_thread t) st = Some (st\<lparr>tlinks := L\<rparr>)"
    using empty L(1,2) by (simp add: timer_thread_dealloc_def thread_deinit_def on_links_def)
  ultimately show thesis by (intro that) (simp_all add: rem)
qed

end
