(* ===== verification/OsTimerOps.thy ===== *)
theory OsTimerOps
  imports OsTimerInv
begin

text \<open>
  What the functions of the timer module do under its invariant: they return, keep the invariant and
  have the stated effect on every branch.
\<close>

lemma on_links_upd: "on_links f (upd_timer i g st) = map_option (upd_timer i g) (on_links f st)"
  by (cases "f (tlinks st)") (simp_all add: on_links_def upd_timer_def)

lemma upd_upd: "upd_timer i f (upd_timer i g st) = upd_timer i (\<lambda>t. f (g t)) st"
  by (simp add: upd_timer_def)

section \<open>Catching up with the clock\<close>

lemma catch_up_ok:
  assumes "time_ok e" "interval_ok iv" "0 < nanos iv" "ts_ok now" "tv_sec now < 2 ^ 31 - 2147485"
    "0 \<le> ov" "ov \<le> DELAYTIMER_MAX"
  shows "\<exists>k e'. catch_up now iv e ov = Some (e', min (ov + int k) DELAYTIMER_MAX) \<and> time_ok e' \<and>
    nanos e' = nanos e + int k * nanos iv \<and> nanos now \<le> nanos e' \<and>
    (k = 0 \<or> nanos e' < nanos now + nanos iv)"
  using assms(1,6,7)
proof (induction "nat (nanos now - nanos e)" arbitrary: e ov rule: less_induct)
  case less
  have ts: "ts_ok e" "ts_ok iv" using less.prems(1) assms(2) by (simp_all add: time_ok_def interval_ok_def)
  note cmp = compare_nanos(1) [OF ts(1) assms(4)]
  show ?case
  proof (cases "nanos e < nanos now")
    case False
    with less.prems cmp show ?thesis
      by (intro exI [of _ 0] exI [of _ e]) (simp add: catch_up.simps [of _ _ e])
  next
    case True
    let ?e = "timespec_add e iv" and ?ov = "if ov < DELAYTIMER_MAX then ov + 1 else ov"
    have sec: "tv_sec e \<le> tv_sec now"
      using True ts(1) assms(4) unfolding nanos_def ts_ok_def by linarith
    have add: "nanos ?e = nanos e + nanos iv"
      using sec less.prems(1) assms(2,5) by (intro nanos_add ts) (auto simp: time_ok_def interval_ok_def)
    have "nat (nanos now - nanos ?e) < nat (nanos now - nanos e)" using True assms(3) add by simp
    moreover have "0 \<le> ?ov" "?ov \<le> DELAYTIMER_MAX" using less.prems(2,3) by auto
    ultimately obtain k e' where
      IH: "catch_up now iv ?e ?ov = Some (e', min (?ov + int k) DELAYTIMER_MAX)" "time_ok e'"
        "nanos e' = nanos ?e + int k * nanos iv" "nanos now \<le> nanos e'"
        "k = 0 \<or> nanos e' < nanos now + nanos iv"
      using less.hyps [OF _ time_ok_add [OF ts], of ?ov] by blast
    have "min (?ov + int k) DELAYTIMER_MAX = min (ov + int (Suc k)) DELAYTIMER_MAX"
      using less.prems(3) by auto
    moreover have "nanos e' < nanos now + nanos iv" using IH(3,5) True add by auto
    moreover have "nanos e' = nanos e + int (Suc k) * nanos iv" using IH(3) add by (simp add: algebra_simps)
    ultimately show ?thesis using IH True cmp
      by (intro exI [of _ "Suc k"] exI [of _ e']) (simp add: catch_up.simps [of _ _ e])
  qed
qed

lemma delaytimer_nonneg: "0 \<le> DELAYTIMER_MAX"
  by (simp add: DELAYTIMER_MAX_def)

section \<open>Deleting\<close>

lemma freed_drop: "links_ok L A \<Longrightarrow> freed i (drop_timer i A) = freed i A"
  using links_ok_distinct [of L A]
  by (simp add: freed_def drop_timer_def distinct_remove1_removeAll remove1_idem)

lemma delete_finish_ok:
  assumes inv: "tinv {} {} st A" and i: "i < TIMER_MAX" "i \<notin> set (fr A)"
  obtains st' where "timer_delete_finish i st = Some (Returns 0, st')" "tinv {} {} st' (freed i A)"
    and "timers st' = (timers st)(i := (timers st i)\<lparr>refcount := 0, thread := None, inuse := TIMER_FREE\<rparr>)"
    and "threads st' = threads st"
proof -
  note d = tinvD [OF inv]
  have live: "live st A i" using d(6) i by simp
  from tinv_take [OF inv i(1)] obtain L where
    L: "on_links (list_unlink_ip (Timer_links i)) st = Some (st\<lparr>tlinks := L\<rparr>)"
      "tinv {i} {} (st\<lparr>tlinks := L\<rparr>) (drop_timer i A)" .
  define st1 where "st1 = upd_timer i (\<lambda>t. t\<lparr>inuse := TIMER_DELETED, refcount := refcount t - 1\<rparr>) (st\<lparr>tlinks := L\<rparr>)"
  have inv1: "tinv {i} {} st1 (drop_timer i A)" unfolding st1_def by (rule tinv_upd_timer [OF L(2) i(1)]) simp
  have ref: "refcount (timers st1 i) = 0" using live by (simp add: st1_def live_def)
  obtain st' where st': "timer_dealloc i st1 = Some st'" "tinv ({i} - {i}) {} st' (freed i (drop_timer i A))"
    "timers st' = (timers st1)(i := (timers st1 i)\<lparr>thread := None, inuse := TIMER_FREE\<rparr>)" "threads st' = threads st1"
    by (rule dealloc_ok [OF inv1 i(1) ref])
  have "timer_delete_finish i st = Some (Returns 0, st')"
    using L(1) st'(1) ref by (simp add: timer_delete_finish_def timer_delref_def on_links_upd upd_upd Let_def st1_def)
  moreover have "timers st' = (timers st)(i := (timers st i)\<lparr>refcount := 0, thread := None, inuse := TIMER_FREE\<rparr>)"
    using live by (simp add: st'(3) st1_def live_def)
  ultimately show thesis using st'(2,4) freed_drop [OF d(1)]
    by (intro that [of st']) (simp_all add: st1_def)
qed

lemma valid_iff:
  assumes "tinv {} {} st A" "i < TIMER_MAX"
  shows "timer_valid (Some i) st \<longleftrightarrow> i \<notin> set (fr A)"
  using tinvD(5,6) [OF assms(1), of i] assms(2) by (auto simp: timer_valid_def live_def free_ok_def)

lemma live_thread:
  assumes "tinv {} {} st A" "i < TIMER_MAX" "i \<notin> set (fr A)"
  obtains th where "th \<in> active A" "thread (timers st i) = Some th" "clock (timers st i) = clock_id (threads st th)"
    "inuse (timers st i) = TIMER_INUSE" "refcount (timers st i) = 1"
  using tinvD(6) [OF assms(1-3)] by (auto simp: live_def)

section \<open>Setting and stopping\<close>

definition value_ok :: "itimerspec \<Rightarrow> bool" where
  "value_ok v \<longleftrightarrow> interval_ok (it_interval v) \<and> time_ok (it_value v)"

definition stops :: "itimerspec \<Rightarrow> bool" where
  "stops v \<longleftrightarrow> tv_sec (it_value v) = 0 \<and> tv_nsec (it_value v) = 0"

definition new_expiry :: "env \<Rightarrow> 32 word \<Rightarrow> itimerspec \<Rightarrow> timer_node \<Rightarrow> timespec" where
  "new_expiry env flags v t = (if and flags TIMER_ABSTIME \<noteq> 0 then it_value v
     else timespec_add (clock_gettime env (clock t)) (it_value v))"

lemma value_okD:
  "value_ok v \<Longrightarrow> \<not> (tv_nsec (it_interval v) < 0 \<or> tv_nsec (it_interval v) \<ge> 1000000000
     \<or> tv_nsec (it_value v) < 0 \<or> tv_nsec (it_value v) \<ge> 1000000000)"
  by (auto simp: value_ok_def interval_ok_def time_ok_def ts_ok_def)

lemma settime_stop:
  assumes inv: "tinv {} {} st A" and i: "i < TIMER_MAX" "i \<notin> set (fr A)" and v: "value_ok v" "stops v"
  obtains st' where "timer_settime env (Some i) flags v False st = Some (0, None, None, st')"
    and "tinv {} {} st' (drop_timer i A)" "threads st' = threads st"
    and "timers st' = (timers st)(i := (timers st i)\<lparr>tvalue := v, armed := False\<rparr>)"
proof -
  obtain th where th: "th \<in> active A" "thread (timers st i) = Some th" "clock (timers st i) = clock_id (threads st th)"
    "inuse (timers st i) = TIMER_INUSE" "refcount (timers st i) = 1" by (rule live_thread [OF inv i])
  from tinv_take [OF inv i(1)] obtain L where
    L: "on_links (list_unlink_ip (Timer_links i)) st = Some (st\<lparr>tlinks := L\<rparr>)"
      "tinv {i} {} (st\<lparr>tlinks := L\<rparr>) (drop_timer i A)" .
  define st' where "st' = upd_timer i (\<lambda>t. t\<lparr>tvalue := v, armed := False\<rparr>) (st\<lparr>tlinks := L\<rparr>)"
  have "timer_settime env (Some i) flags v False st = Some (0, None, None, st')"
    using L(1) th v(2) value_okD [OF v(1)] by (simp add: timer_settime_def Let_def timer_addref_def timer_delref_def
        timer_valid_def stops_def on_links_upd upd_upd st'_def)
  moreover have "tinv ({i} - {i}) {} st' (drop_timer i A)"
  proof (rule tinv_keep)
    show "tinv {i} {} st' (drop_timer i A)" unfolding st'_def by (rule tinv_upd_timer [OF L(2) i(1)]) simp
    show "live st' (drop_timer i A) i" using th by (auto simp: live_def st'_def)
  qed
  ultimately show thesis by (intro that [of st']) (simp_all add: st'_def)
qed

definition queued_at :: "timer_sys \<Rightarrow> thread_id \<Rightarrow> nat \<Rightarrow> tabs \<Rightarrow> tabs" where
  "queued_at st th i A = A\<lparr>qu := (qu A)(th := enqueue st i (qu A th))\<rparr>"

lemma queued_at_simps [simp]:
  "fr (queued_at st th i A) = fr A" "ta (queued_at st th i A) = ta A" "tf (queued_at st th i A) = tf A"
  "active (queued_at st th i A) = active A"
  "qu (queued_at st th i A) th' = (if th' = th then enqueue st i (qu A th) else qu A th')"
  by (simp_all add: queued_at_def active_def)

lemma enqueue_cong: "expiry st = expiry st' \<Longrightarrow> enqueue st = enqueue st'"
  by (simp add: enqueue_def fun_eq_iff)

lemma settime_arm:
  assumes inv: "tinv {} {} st A" and i: "i < TIMER_MAX" "i \<notin> set (fr A)" and v: "value_ok v" "\<not> stops v"
    and now: "ts_ok (clock_gettime env (clock (timers st i)))"
    and th: "thread (timers st i) = Some th"
  obtains st' where "timer_settime env (Some i) flags v False st =
      Some (0, None, if hd (enqueue st' i (remove1 i (qu A th))) = i then Some th else None, st')"
    and "tinv {} {} st' (queued_at st' th i (drop_timer i A))" "threads st' = threads st"
    and "timers st' = (timers st)(i := (timers st i)\<lparr>tvalue := v, expirytime := new_expiry env flags v (timers st i), armed := True\<rparr>)"
proof -
  have live: "th \<in> active A" "clock (timers st i) = clock_id (threads st th)" "inuse (timers st i) = TIMER_INUSE"
    "refcount (timers st i) = 1" using live_thread [OF inv i] th by auto
  from tinv_take [OF inv i(1)] obtain L where
    L: "on_links (list_unlink_ip (Timer_links i)) st = Some (st\<lparr>tlinks := L\<rparr>)"
      "tinv {i} {} (st\<lparr>tlinks := L\<rparr>) (drop_timer i A)" .
  let ?e = "new_expiry env flags v (timers st i)"
  have e: "time_ok ?e" using v(1) now time_ok_add [of "clock_gettime env (clock (timers st i))" "it_value v"]
    by (auto simp: new_expiry_def value_ok_def time_ok_def)
  define st1 where "st1 = upd_timer i (\<lambda>t. t\<lparr>refcount := refcount t + 1, tvalue := v, armed := False, expirytime := ?e\<rparr>) (st\<lparr>tlinks := L\<rparr>)"
  have inv1: "tinv {i} {} st1 (drop_timer i A)" unfolding st1_def by (rule tinv_upd_timer [OF L(2) i(1)]) simp
  have t1: "timers st1 i = (timers st i)\<lparr>refcount := refcount (timers st i) + 1, tvalue := v, armed := False, expirytime := ?e\<rparr>"
    by (simp add: st1_def)
  have th': "th \<in> active (drop_timer i A)" using live(1) by simp
  obtain L2 where L2: "timer_thread_queue_timer th i st1 =
      Some (hd (enqueue st1 i (qu (drop_timer i A) th)) = i, st1\<lparr>tlinks := L2\<rparr>)"
    "links_ok L2 (drop_timer i A\<lparr>qu := (qu (drop_timer i A))(th := enqueue st1 i (qu (drop_timer i A) th))\<rparr>)"
    by (rule queue_timer_ok [OF inv1 i(1) _ th']) (use e t1 in \<open>simp_all add: time_ok_def\<close>)
  define st' where "st' = upd_timer i (\<lambda>t. t\<lparr>armed := True, refcount := refcount t - 1\<rparr>) (st1\<lparr>tlinks := L2\<rparr>)"
  have ex: "enqueue st' = enqueue st1" by (rule enqueue_cong) (simp add: expiry_def fun_eq_iff st'_def)
  have t': "timers st' = (timers st)(i := (timers st i)\<lparr>tvalue := v, expirytime := ?e, armed := True\<rparr>)"
    by (simp add: st'_def st1_def)
  define b where "b \<longleftrightarrow> hd (enqueue st1 i (remove1 i (qu A th))) = i"
  have queue: "timer_thread_queue_timer th i st1 = Some (b, st1\<lparr>tlinks := L2\<rparr>)" using L2(1) by (simp add: b_def)
  have "timer_settime env (Some i) flags v False st = Some (0, None, if b then Some th else None, st')"
    using L(1) queue live th v(2) value_okD [OF v(1)]
    by (cases "and flags TIMER_ABSTIME = 0")
       (simp_all add: timer_settime_def Let_def timer_addref_def timer_delref_def timer_valid_def
        stops_def on_links_upd upd_upd new_expiry_def st'_def st1_def)
  then have "timer_settime env (Some i) flags v False st =
      Some (0, None, if hd (enqueue st' i (remove1 i (qu A th))) = i then Some th else None, st')"
    by (simp only: b_def ex)
  moreover have "tinv ({i} - {i}) {} st' (queued_at st1 th i (drop_timer i A))"
    unfolding queued_at_def
  proof (rule tinv_queued [OF inv1 i(1) _ th' L2(2)])
    show "live st' (drop_timer i A) i" using live th by (auto simp: live_def t') (simp add: st'_def st1_def)
    show "queued_ok st' th i" using th e v(1) by (simp add: queued_ok_def t' value_ok_def)
  qed (simp_all add: st'_def)
  ultimately show thesis using t' by (intro that [of st']) (simp_all add: queued_at_def ex, simp add: st'_def st1_def)
qed

section \<open>Creating\<close>

text \<open>The event of a timer served by a thread, as all callers pass it.\<close>

definition thread_event :: "sigevent \<Rightarrow> pthread_attr \<Rightarrow> bool" where
  "thread_event ev a \<longleftrightarrow> sigev_notify ev = SIGEV_THREAD \<and> sigev_notify_attributes ev = Attr_caller a"

definition wall_clock :: "clockid \<Rightarrow> bool" where
  "wall_clock clk \<longleftrightarrow> clk = CLOCK_REALTIME \<or> clk = CLOCK_MONOTONIC"

lemma attr_key_detach [simp]: "attr_key (pthread_attr_setdetachstate a) clk = attr_key a clk"
  by (simp add: attr_key_def pthread_attr_setdetachstate_def)

lemma init_once_done: "tinv X Y st A \<Longrightarrow> timer_init_once env st = Some st"
  by (simp add: timer_init_once_def tinvD(2))

lemma create_no_timer:
  assumes inv: "tinv {} {} st A" and clk: "wall_clock clk" and none: "fr A = []"
  shows "timer_create env clk evp st = Some (-1, None, set_errno EAGAIN st)"
  using clk alloc_none [OF inv none] tinvD(3) [OF inv]
  by (auto simp: timer_create_def wall_clock_def init_once_done [OF inv] timer_create_bail_def)

text \<open>The part of \<open>__timer_create\<close> between the allocation of the timer and the search for a thread.\<close>

definition choose_thread :: "env \<Rightarrow> pthread_attr \<Rightarrow> clockid \<Rightarrow> timer_sys \<Rightarrow>
    (errno option \<times> thread_id option \<times> timer_sys) option" where
  "choose_thread env a clk st = do {
     th \<leftarrow> timer_thread_find_matching a clk st;
     (th, st) \<leftarrow> (if th = None then timer_thread_alloc env a clk st else Some (th, st));
     (case th of
        None \<Rightarrow> Some (Some EAGAIN, None, st)
      | Some th \<Rightarrow>
          if exists (threads st th) then Some (None, Some th, st)
          else do {
            (r, st) \<leftarrow> timer_thread_start env th st;
            Some (if r < 0 then Some EAGAIN else None, Some th, st) }) }"

lemma create_begin:
  assumes inv: "tinv {} {} st A" and clk: "wall_clock clk" and i: "fr A = i # rest" and ev: "thread_event ev a"
  obtains st1 where "tinv {i} {} st1 (A\<lparr>fr := rest\<rparr>)" "i < TIMER_MAX" "threads st1 = threads st"
    and "timers st1 = (timers st)(i := (timers st i)\<lparr>inuse := TIMER_INUSE, refcount := 1,
           event := ev\<lparr>sigev_notify_attributes := Attr_timer i\<rparr>, creator_pid := getpid env,
           tattr := pthread_attr_setdetachstate a\<rparr>)"
    and "timer_create env clk (Some ev) st = do {
           (err, th, st) \<leftarrow> choose_thread env (pthread_attr_setdetachstate a) clk st1;
           (case err of
              Some e \<Rightarrow> do {
                st \<leftarrow> timer_create_bail th (Some i) (set_errno e st);
                Some (-1, None, st) }
            | None \<Rightarrow> Some (0, Some i,
                upd_timer i (\<lambda>t. t\<lparr>clock := clk, abstime := False, armed := False, thread := th\<rparr>) st)) }"
proof -
  from alloc_some [OF inv i] obtain st0 where
    st0: "timer_alloc st = Some (Some i, st0)" "tinv {i} {} st0 (A\<lparr>fr := rest\<rparr>)" "i < TIMER_MAX"
      "timers st0 = (timers st)(i := (timers st i)\<lparr>inuse := TIMER_INUSE, refcount := 1\<rparr>)" "threads st0 = threads st" .
  define st1 where "st1 = upd_timer i (\<lambda>t. t\<lparr>event := ev\<lparr>sigev_notify_attributes := Attr_timer i\<rparr>,
    creator_pid := getpid env, tattr := pthread_attr_setdetachstate a\<rparr>) st0"
  define st2 where "st2 = upd_timer i (\<lambda>t. t\<lparr>event := ev\<lparr>sigev_notify_attributes := Attr_timer i\<rparr>,
    creator_pid := getpid env\<rparr>) st0"
  have thr: "timer_create_thread env clk (Attr_caller a) i st2 = choose_thread env (pthread_attr_setdetachstate a) clk st1"
    using ev by (simp add: timer_create_thread_def choose_thread_def st1_def st2_def upd_upd thread_event_def Let_def)
  have "tinv {i} {} st1 (A\<lparr>fr := rest\<rparr>)" unfolding st1_def by (rule tinv_upd_timer [OF st0(2,3)]) simp
  moreover have "timer_create env clk (Some ev) st = do {
           (err, th, st) \<leftarrow> timer_create_thread env clk (Attr_caller a) i st2;
           (case err of
              Some e \<Rightarrow> do {
                st \<leftarrow> timer_create_bail th (Some i) (set_errno e st);
                Some (-1, None, st) }
            | None \<Rightarrow> Some (0, Some i,
                upd_timer i (\<lambda>t. t\<lparr>clock := clk, abstime := False, armed := False, thread := th\<rparr>) st)) }"
    using st0(1) clk ev tinvD(3) [OF inv]
    by (auto simp: timer_create_def wall_clock_def thread_event_def init_once_done [OF inv] st2_def)
  ultimately show thesis using st0(3-5) thr by (intro that [of st1]) (simp_all add: st1_def)
qed

text \<open>The new timer when a thread is there to serve it.\<close>

lemma tinv_created:
  assumes inv: "tinv {i} {} st A" and i: "i < TIMER_MAX" and th: "th \<in> active A" "clock_id (threads st th) = clk"
    and t: "inuse (timers st i) = TIMER_INUSE" "refcount (timers st i) = 1"
  shows "tinv {} {} (upd_timer i (\<lambda>t. t\<lparr>clock := clk, abstime := False, armed := False, thread := Some th\<rparr>) st) A"
    (is "tinv _ _ ?st _")
proof -
  have "tinv {i} {} ?st A" by (rule tinv_upd_timer [OF inv i]) simp
  moreover have "live ?st A i" using th t by (auto simp: live_def)
  ultimately have "tinv ({i} - {i}) {} ?st A" by (rule tinv_keep)
  then show ?thesis by simp
qed

text \<open>Giving up: the timer goes back to the free list.\<close>

lemma create_bail_ok:
  assumes inv: "tinv {i} {} st A" and i: "i < TIMER_MAX" and ref: "refcount (timers st i) = 1"
  obtains st' where "timer_create_bail None (Some i) st = Some st'" "tinv {} {} st' (A\<lparr>fr := fr A @ [i]\<rparr>)"
    and "threads st' = threads st" "\<And>j. j \<noteq> i \<Longrightarrow> timers st' j = timers st j"
proof -
  let ?st = "upd_timer i (\<lambda>t. t\<lparr>refcount := refcount t - 1\<rparr>) st"
  have inv1: "tinv {i} {} ?st A" by (rule tinv_upd_timer [OF inv i]) simp
  have ref1: "refcount (timers ?st i) = 0" using ref by simp
  obtain st1 where st1: "timer_dealloc i ?st = Some st1" "tinv ({i} - {i}) {} st1 (freed i A)"
    "timers st1 = (timers ?st)(i := (timers ?st i)\<lparr>thread := None, inuse := TIMER_FREE\<rparr>)" "threads st1 = threads ?st"
    by (rule dealloc_ok [OF inv1 i ref1])
  have inv2: "tinv {} {} st1 (freed i A)" using st1(2) by simp
  have ref2: "refcount (timers st1 i) = 0" using ref st1(3) by simp
  obtain st2 where st2: "timer_dealloc i st1 = Some st2" "tinv ({} - {i}) {} st2 (freed i (freed i A))"
    "timers st2 = (timers st1)(i := (timers st1 i)\<lparr>thread := None, inuse := TIMER_FREE\<rparr>)" "threads st2 = threads st1"
    by (rule dealloc_ok [OF inv2 i ref2])
  have "drop_timer i A = A" by (rule drop_loose [OF tinvD(4) [OF inv i]]) simp
  moreover have "i \<notin> set (fr A)" by (rule in_hand_out(1) [OF inv i]) simp
  ultimately have fr: "freed i A = A\<lparr>fr := fr A @ [i]\<rparr>" "freed i (freed i A) = A\<lparr>fr := fr A @ [i]\<rparr>"
    using in_hand_out(2) [OF inv i]
    by (simp_all add: freed_def drop_timer_def remove1_idem remove1_append)
  show thesis using st1 st2 ref fr
    by (intro that [of st2]) (simp_all add: timer_create_bail_def timer_delref_def Let_def)
qed

text \<open>The thread that serves the new timer: one with the same scheduling and clock if there is one, else the
  first free one.\<close>

definition serving :: "timer_sys \<Rightarrow> tabs \<Rightarrow> pthread_attr \<Rightarrow> clockid \<Rightarrow> nat option" where
  "serving st A a clk = (case find (\<lambda>t. thread_key st t = attr_key a clk) (ta A) of
     Some t \<Rightarrow> Some t
   | None \<Rightarrow> (case tf A of [] \<Rightarrow> None | t # _ \<Rightarrow> Some t))"

definition can_serve :: "env \<Rightarrow> timer_sys \<Rightarrow> tabs \<Rightarrow> pthread_attr \<Rightarrow> clockid \<Rightarrow> bool" where
  "can_serve env st A a clk \<longleftrightarrow> attr_key a clk \<in> thread_key st ` set (ta A) \<or>
     tf A \<noteq> [] \<and> pthread_create env \<noteq> None"

lemma choose_ok:
  assumes inv: "tinv X {} st A" and can: "can_serve env st A a clk"
  obtains t st' A' where "choose_thread env a clk st = Some (None, Some (Pool_thread t), st')"
    and "tinv X {} st' A'" "timers st' = timers st" "t \<in> set (ta A')" "fr A' = fr A" "qu A' = qu A"
    and "set (ta A) \<subseteq> set (ta A')" "clock_id (threads st' (Pool_thread t)) = clk"
    and "serving st A a clk = Some t" "thread_key st' t = attr_key a clk"
proof (cases "find (\<lambda>t. thread_key st t = attr_key a clk) (ta A)")
  case (Some t)
  then have t: "t \<in> set (ta A)" "thread_key st t = attr_key a clk" by (auto simp: find_Some_iff)
  have "clock_id (threads st (Pool_thread t)) = clk" using t(2) by (simp add: thread_key_def attr_key_def Let_def)
  then show thesis using tinvD(9) [OF inv t(1)] inv t Some
    by (intro that [of t st A]) (simp_all add: choose_thread_def find_matching_ok [OF inv] serving_def)
next
  case None
  then have new: "attr_key a clk \<notin> thread_key st ` set (ta A)" by (auto simp: find_None_iff)
  with can obtain t rest n where t: "tf A = t # rest" and n: "pthread_create env = Some n"
    by (auto simp: can_serve_def neq_Nil_conv)
  obtain st1 where st1: "timer_thread_alloc env a clk st = Some (Some (Pool_thread t), st1)"
    "tinv X (insert t {}) st1 (A\<lparr>tf := rest, ta := ta A @ [t]\<rparr>)" "timers st1 = timers st"
    "\<not> exists (threads st1 (Pool_thread t))" "clock_id (threads st1 (Pool_thread t)) = clk"
    "thread_key st1 t = attr_key a clk"
    by (rule thread_alloc_some [OF inv t new])
  obtain st2 where st2: "timer_thread_start env (Pool_thread t) st1 = Some (1, st2)"
    "tinv X (insert t {} - {t}) st2 (A\<lparr>tf := rest, ta := ta A @ [t]\<rparr>)" "timers st2 = timers st1"
    "clock_id (threads st2 (Pool_thread t)) = clock_id (threads st1 (Pool_thread t))" "thread_key st2 = thread_key st1"
    by (rule thread_start_ok [OF st1(2,4) n])
  then show thesis using st1 None t
    by (intro that [of t st2 "A\<lparr>tf := rest, ta := ta A @ [t]\<rparr>"])
       (auto simp: choose_thread_def find_matching_ok [OF inv] serving_def)
qed

text \<open>No thread: either none is free, or the new one cannot be started and is given back.\<close>

lemma choose_fail:
  assumes inv: "tinv {i} {} st A" and fail: "\<not> can_serve env st A a clk"
  obtains th st1 st2 A' where "choose_thread env a clk st = Some (Some EAGAIN, th, st1)"
    and "timer_create_bail th (Some i) (set_errno EAGAIN st1) = timer_create_bail None (Some i) st2"
    and "tinv {i} {} st2 A'" "timers st2 = timers st" "errno st2 = EAGAIN"
    and "fr A' = fr A" "qu A' = qu A" "ta A' = ta A" "set (tf A') = set (tf A)"
proof (cases "tf A")
  case Nil
  have "attr_key a clk \<notin> thread_key st ` set (ta A)" using fail by (simp add: can_serve_def)
  then have none: "find (\<lambda>t. thread_key st t = attr_key a clk) (ta A) = None" by (auto simp: find_None_iff image_iff)
  then show thesis using inv thread_alloc_none [OF inv Nil]
    by (intro that [of None st "set_errno EAGAIN st" A])
       (simp_all add: choose_thread_def find_matching_ok [OF inv])
next
  case (Cons t rest)
  have new: "attr_key a clk \<notin> thread_key st ` set (ta A)" and env: "pthread_create env = None"
    using fail Cons by (auto simp: can_serve_def)
  then have none: "find (\<lambda>t. thread_key st t = attr_key a clk) (ta A) = None" by (auto simp: find_None_iff image_iff)
  let ?A = "A\<lparr>tf := rest, ta := ta A @ [t]\<rparr>"
  obtain st1 where st1: "timer_thread_alloc env a clk st = Some (Some (Pool_thread t), st1)"
    "tinv {i} {t} st1 ?A" "timers st1 = timers st" "\<not> exists (threads st1 (Pool_thread t))"
    by (rule thread_alloc_some [OF inv Cons new])
  let ?st = "upd_thread (Pool_thread t) (\<lambda>x. x\<lparr>exists := False\<rparr>) st1"
  have "(threads st1 (Pool_thread t))\<lparr>exists := False\<rparr> = threads st1 (Pool_thread t)"
    using st1(4) by (cases "threads st1 (Pool_thread t)") simp
  then have same: "?st = st1" by (simp add: upd_thread_def)
  have fresh: "t \<notin> set (ta A)" using links_ok_apart(3) [OF tinvD(1) [OF inv]] Cons by auto
  then have out: "Pool_thread t \<notin> active A" by (auto simp: active_def)
  have inv1: "tinv {i} {t} (set_errno EAGAIN st1) ?A" using st1(2) by simp
  have q: "qu ?A (Pool_thread t) = []" using links_okD(4) [OF tinvD(1) [OF inv] out] by simp
  have unused: "thread (timers (set_errno EAGAIN st1) j) \<noteq> Some (Pool_thread t)"
    if "j < TIMER_MAX" "j \<notin> set (fr ?A)" "j \<notin> {i}" for j
    using tinvD(6) [OF inv, of j] that out st1(3) by (auto simp: live_def)
  obtain L where L: "timer_thread_dealloc (Pool_thread t) (set_errno EAGAIN st1) = Some ((set_errno EAGAIN st1)\<lparr>tlinks := L\<rparr>)"
    "tinv {i} ({t} - {t}) ((set_errno EAGAIN st1)\<lparr>tlinks := L\<rparr>) (?A\<lparr>ta := remove1 t (ta ?A), tf := tf ?A @ [t]\<rparr>)"
    by (rule thread_dealloc_ok [OF inv1 _ q unused]) simp_all
  have rem: "remove1 t (ta ?A) = ta A" using fresh by (simp add: remove1_append)
  show thesis using st1 L none env same rem
    by (intro that [of "Some (Pool_thread t)" st1 "(set_errno EAGAIN st1)\<lparr>tlinks := L\<rparr>" "?A\<lparr>ta := ta A, tf := rest @ [t]\<rparr>"])
       (simp_all add: choose_thread_def find_matching_ok [OF inv] timer_thread_start_def timer_create_bail_def Cons)
qed

lemma can_serve_cong:
  assumes "threads st1 = threads st" "ta A1 = ta A" "tf A1 = tf A" "attr_key a1 clk = attr_key a clk"
  shows "can_serve env st1 A1 a1 clk = can_serve env st A a clk" "serving st1 A1 a1 clk = serving st A a clk"
proof -
  have "thread_key st1 = thread_key st" using assms(1) by (simp add: thread_key_def fun_eq_iff)
  then show "can_serve env st1 A1 a1 clk = can_serve env st A a clk" "serving st1 A1 a1 clk = serving st A a clk"
    using assms(2-4) by (simp_all only: can_serve_def serving_def)
qed

lemma create_ok:
  assumes inv: "tinv {} {} st A" and clk: "wall_clock clk" and i: "fr A = i # rest" and ev: "thread_event ev a"
    and can: "can_serve env st A a clk"
  obtains st' A' t where "timer_create env clk (Some ev) st = Some (0, Some i, st')" "tinv {} {} st' A'"
    and "fr A' = rest" "qu A' = qu A" "i < TIMER_MAX" "t \<in> set (ta A')" "serving st A a clk = Some t"
    and "timers st' = (timers st)(i := (timers st i)\<lparr>inuse := TIMER_INUSE, refcount := 1,
           event := ev\<lparr>sigev_notify_attributes := Attr_timer i\<rparr>, creator_pid := getpid env,
           tattr := pthread_attr_setdetachstate a, clock := clk, abstime := False, armed := False,
           thread := Some (Pool_thread t)\<rparr>)"
    and "thread_key st' t = attr_key a clk" "set (ta A) \<subseteq> set (ta A')"
proof -
  let ?a = "pthread_attr_setdetachstate a"
  obtain st1 where st1: "tinv {i} {} st1 (A\<lparr>fr := rest\<rparr>)" "i < TIMER_MAX" "threads st1 = threads st"
    "timers st1 = (timers st)(i := (timers st i)\<lparr>inuse := TIMER_INUSE, refcount := 1,
           event := ev\<lparr>sigev_notify_attributes := Attr_timer i\<rparr>, creator_pid := getpid env, tattr := ?a\<rparr>)"
    and create: "timer_create env clk (Some ev) st = do {
           (err, th, st) \<leftarrow> choose_thread env ?a clk st1;
           (case err of
              Some e \<Rightarrow> do {
                st \<leftarrow> timer_create_bail th (Some i) (set_errno e st);
                Some (-1, None, st) }
            | None \<Rightarrow> Some (0, Some i,
                upd_timer i (\<lambda>t. t\<lparr>clock := clk, abstime := False, armed := False, thread := th\<rparr>) st)) }"
    by (rule create_begin [OF inv clk i ev])
  have same: "can_serve env st1 (A\<lparr>fr := rest\<rparr>) ?a clk" "serving st1 (A\<lparr>fr := rest\<rparr>) ?a clk = serving st A a clk"
    using can can_serve_cong(1) [OF st1(3), of "A\<lparr>fr := rest\<rparr>" A ?a clk a env]
      can_serve_cong(2) [OF st1(3), of "A\<lparr>fr := rest\<rparr>" A ?a clk a] by simp_all
  obtain t st2 A' where st2: "choose_thread env ?a clk st1 = Some (None, Some (Pool_thread t), st2)"
    "tinv {i} {} st2 A'" "timers st2 = timers st1" "t \<in> set (ta A')" "fr A' = fr (A\<lparr>fr := rest\<rparr>)"
    "qu A' = qu (A\<lparr>fr := rest\<rparr>)" "clock_id (threads st2 (Pool_thread t)) = clk"
    "serving st1 (A\<lparr>fr := rest\<rparr>) ?a clk = Some t" "thread_key st2 t = attr_key ?a clk" "set (ta (A\<lparr>fr := rest\<rparr>)) \<subseteq> set (ta A')"
    by (rule choose_ok [OF st1(1) same(1)])
  let ?st = "upd_timer i (\<lambda>u. u\<lparr>clock := clk, abstime := False, armed := False, thread := Some (Pool_thread t)\<rparr>) st2"
  have "tinv {} {} ?st A'"
    by (rule tinv_created [OF st2(2) st1(2) _ st2(7)]) (use st2(3,4) st1(4) in \<open>simp_all add: active_def\<close>)
  moreover have "timer_create env clk (Some ev) st = Some (0, Some i, ?st)" by (simp add: create st2(1))
  moreover have "thread_key ?st t = attr_key a clk" using st2(9) by (simp add: thread_key_def)
  ultimately show thesis using st2 st1(2,4) same(2) by (intro that [of ?st A' t]) simp_all
qed

lemma create_fail:
  assumes inv: "tinv {} {} st A" and clk: "wall_clock clk" and i: "fr A = i # rest" and ev: "thread_event ev a"
    and fail: "\<not> can_serve env st A a clk"
  obtains st' A' where "timer_create env clk (Some ev) st = Some (-1, None, st')" "tinv {} {} st' A'"
    and "fr A' = rest @ [i]" "qu A' = qu A" "ta A' = ta A" "set (tf A') = set (tf A)"
    and "\<And>j. j \<noteq> i \<Longrightarrow> timers st' j = timers st j"
proof -
  let ?a = "pthread_attr_setdetachstate a"
  obtain st1 where st1: "tinv {i} {} st1 (A\<lparr>fr := rest\<rparr>)" "i < TIMER_MAX" "threads st1 = threads st"
    "timers st1 = (timers st)(i := (timers st i)\<lparr>inuse := TIMER_INUSE, refcount := 1,
           event := ev\<lparr>sigev_notify_attributes := Attr_timer i\<rparr>, creator_pid := getpid env, tattr := ?a\<rparr>)"
    and create: "timer_create env clk (Some ev) st = do {
           (err, th, st) \<leftarrow> choose_thread env ?a clk st1;
           (case err of
              Some e \<Rightarrow> do {
                st \<leftarrow> timer_create_bail th (Some i) (set_errno e st);
                Some (-1, None, st) }
            | None \<Rightarrow> Some (0, Some i,
                upd_timer i (\<lambda>t. t\<lparr>clock := clk, abstime := False, armed := False, thread := th\<rparr>) st)) }"
    by (rule create_begin [OF inv clk i ev])
  have "\<not> can_serve env st1 (A\<lparr>fr := rest\<rparr>) ?a clk"
    using fail can_serve_cong(1) [OF st1(3), of "A\<lparr>fr := rest\<rparr>" A ?a clk a env] by simp
  then obtain th st2 st3 A' where c: "choose_thread env ?a clk st1 = Some (Some EAGAIN, th, st2)"
    "timer_create_bail th (Some i) (set_errno EAGAIN st2) = timer_create_bail None (Some i) st3"
    "tinv {i} {} st3 A'" "timers st3 = timers st1" "fr A' = fr (A\<lparr>fr := rest\<rparr>)" "qu A' = qu (A\<lparr>fr := rest\<rparr>)"
    "ta A' = ta (A\<lparr>fr := rest\<rparr>)" "set (tf A') = set (tf (A\<lparr>fr := rest\<rparr>))"
    by (rule choose_fail [OF st1(1)])
  have "refcount (timers st3 i) = 1" by (simp add: c(4) st1(4))
  from create_bail_ok [OF c(3) st1(2) this] obtain st4 where
    st4: "timer_create_bail None (Some i) st3 = Some st4" "tinv {} {} st4 (A'\<lparr>fr := fr A' @ [i]\<rparr>)"
      "\<And>j. j \<noteq> i \<Longrightarrow> timers st4 j = timers st3 j" by blast
  have "timer_create env clk (Some ev) st = Some (-1, None, st4)" by (simp add: create c(1,2) st4(1))
  then show thesis using st4 c(4-8) st1(4) by (intro that [of st4 "A'\<lparr>fr := fr A' @ [i]\<rparr>"]) simp_all
qed

section \<open>The service thread\<close>

lemma tinv_upd_thread:
  assumes inv: "tinv X Y st A" and g: "\<And>n. th_attr (g n) = th_attr n" "\<And>n. exists (g n) = exists n"
    "\<And>n. clock_id (g n) = clock_id n"
  shows "tinv X Y (upd_thread th g st) A"
proof -
  note d = tinvD [OF inv]
  have "thread_key (upd_thread th g st) = thread_key st" by (auto simp: thread_key_def fun_eq_iff Let_def g)
  moreover have "live (upd_thread th g st) A j" if "live st A j" for j
    using that by (rule live_cong) (auto simp: g)
  moreover have "expiry (upd_thread th g st) = expiry st" by (simp add: expiry_def fun_eq_iff)
  ultimately show ?thesis using d
    by (intro tinvI) (auto simp: free_ok_def queued_ok_def g)
qed

definition fires :: "thread_id \<Rightarrow> nat \<Rightarrow> timer_sys \<Rightarrow> (nat \<times> nat) option" where
  "fires th i st = fst (thread_expire_timer th i st)"

lemma due_iff:
  assumes inv: "tinv {} {} st A" and q: "i \<in> set (qu A th)" and now: "ts_ok now"
  shows "timespec_compare now (expirytime (timers st i)) < 0 \<longleftrightarrow> nanos now < expiry st i"
  using compare_nanos(1) [OF now, of "expirytime (timers st i)"] tinvD(7) [OF inv q]
  by (simp add: queued_ok_def time_ok_def expiry_def)

lemma expire_oneshot:
  assumes inv: "tinv {} {} st A" and q: "qu A th = i # rest" and now: "ts_ok now" "expiry st i \<le> nanos now"
    and iv: "nanos (it_interval (tvalue (timers st i))) = 0"
  obtains st' where "thread_expire env th now i st = Some (Fire now i (fires th i st), st')"
    and "tinv {} {} st' (drop_timer i A)" "timers st' = timers st"
    and "threads st' = (threads st)(th := (threads st th)\<lparr>current_timer := Some i\<rparr>)"
proof -
  have i: "i < TIMER_MAX" "i \<notin> set (fr A)"
    using links_okD(3) [OF tinvD(1) [OF inv], of i th] links_ok_apart(1) [OF tinvD(1) [OF inv], of th] q by auto
  have qok: "queued_ok st th i" using tinvD(7) [OF inv, of i th] q by simp
  then have zero: "tv_sec (it_interval (tvalue (timers st i))) = 0" "tv_nsec (it_interval (tvalue (timers st i))) = 0"
    using iv interval_pos [of "it_interval (tvalue (timers st i))"] by (auto simp: queued_ok_def)
  from tinv_take [OF inv i(1)] obtain L where
    L: "on_links (list_unlink_ip (Timer_links i)) st = Some (st\<lparr>tlinks := L\<rparr>)"
      "tinv {i} {} (st\<lparr>tlinks := L\<rparr>) (drop_timer i A)" .
  have "live (st\<lparr>tlinks := L\<rparr>) (drop_timer i A) i" by (rule live_cong [OF tinvD(6) [OF inv i]]) simp_all
  from tinv_keep [OF L(2) this] have inv1: "tinv {} {} (st\<lparr>tlinks := L\<rparr>) (drop_timer i A)" by simp
  have "\<not> timespec_compare now (expirytime (timers st i)) < 0" using due_iff [OF inv _ now(1), of i th] q now(2) by simp
  then show thesis
    using L(1) zero tinv_upd_thread [OF inv1, of "\<lambda>t. t\<lparr>current_timer := Some i\<rparr>" th]
    by (intro that [of "upd_thread th (\<lambda>t. t\<lparr>current_timer := Some i\<rparr>) (st\<lparr>tlinks := L\<rparr>)"])
       (simp_all add: thread_expire_def thread_expire_timer_def fires_def Let_def)
qed

text \<open>The next expiry of a periodic timer: the first multiple of its period that is not in the past.\<close>

lemma next_expiry:
  assumes q: "queued_ok st th i" and now: "ts_ok now" "expiry st i \<le> nanos now" and sec: "tv_sec now < 2 ^ 31 - 2147485"
    and iv: "0 < nanos (it_interval (tvalue (timers st i)))"
  obtains k e' where "catch_up now (it_interval (tvalue (timers st i))) (timespec_add (expirytime (timers st i)) (it_interval (tvalue (timers st i)))) 0 =
      Some (e', min (int k) DELAYTIMER_MAX)" "time_ok e'"
    and "nanos e' = expiry st i + int (Suc k) * nanos (it_interval (tvalue (timers st i)))" "nanos now \<le> nanos e'"
    and "k = 0 \<or> nanos e' < nanos now + nanos (it_interval (tvalue (timers st i)))"
proof -
  let ?iv = "it_interval (tvalue (timers st i))" and ?e = "expirytime (timers st i)"
  from q have ok: "time_ok ?e" "interval_ok ?iv" "ts_ok ?e" "ts_ok ?iv" by (simp_all add: queued_ok_def time_ok_def interval_ok_def)
  have "tv_sec ?e \<le> tv_sec now" using now ok(3) unfolding expiry_def nanos_def ts_ok_def by linarith
  then have add: "nanos (timespec_add ?e ?iv) = expiry st i + nanos ?iv"
    unfolding expiry_def using ok sec by (intro nanos_add) (auto simp: time_ok_def interval_ok_def)
  from catch_up_ok [OF time_ok_add [OF ok(3,4)] ok(2) iv now(1) sec order_refl delaytimer_nonneg] obtain k e' where
    "catch_up now ?iv (timespec_add ?e ?iv) 0 = Some (e', min (int k) DELAYTIMER_MAX)" "time_ok e'"
    "nanos e' = nanos (timespec_add ?e ?iv) + int k * nanos ?iv" "nanos now \<le> nanos e'" "k = 0 \<or> nanos e' < nanos now + nanos ?iv"
    unfolding add_0 by blast
  then show thesis by (intro that [of e' k]) (auto simp: add algebra_simps)
qed

lemma expire_periodic:
  assumes inv: "tinv {} {} st A" and q: "qu A th = i # rest" and now: "ts_ok now" "expiry st i \<le> nanos now"
    and sec: "tv_sec now < 2 ^ 31 - 2147485"
    and iv: "0 < nanos (it_interval (tvalue (timers st i)))"
  obtains st' k where "thread_expire env th now i st = Some (Fire now i (fires th i st), st')"
    and "tinv {} {} st' (queued_at st' th i (drop_timer i A))"
    and "threads st' = (threads st)(th := (threads st th)\<lparr>current_timer := Some i\<rparr>)"
    and "timers st' = (timers st)(i := (timers st i)\<lparr>overrun_count := min (int k) DELAYTIMER_MAX,
           expirytime := expirytime (timers st' i)\<rparr>)"
    and "expiry st' i = expiry st i + int (Suc k) * nanos (it_interval (tvalue (timers st i)))"
    and "nanos now \<le> expiry st' i" "k = 0 \<or> expiry st' i < nanos now + nanos (it_interval (tvalue (timers st i)))"
proof -
  let ?iv = "it_interval (tvalue (timers st i))" and ?e = "expirytime (timers st i)"
  have i: "i < TIMER_MAX" "i \<notin> set (fr A)"
    using links_okD(3) [OF tinvD(1) [OF inv], of i th] links_ok_apart(1) [OF tinvD(1) [OF inv], of th] q by auto
  have qok: "queued_ok st th i" using tinvD(7) [OF inv, of i th] q by simp
  then have ok: "time_ok ?e" "interval_ok ?iv" "ts_ok ?e" "ts_ok ?iv" "thread (timers st i) = Some th" "armed (timers st i)"
    by (simp_all add: queued_ok_def time_ok_def interval_ok_def)
  have th: "th \<in> active A" using links_okD(4) [OF tinvD(1) [OF inv], of th] q by (cases "th \<in> active A") auto
  obtain k e' where k: "catch_up now ?iv (timespec_add ?e ?iv) 0 = Some (e', min (int k) DELAYTIMER_MAX)" "time_ok e'"
    "nanos e' = expiry st i + int (Suc k) * nanos ?iv" "nanos now \<le> nanos e'" "k = 0 \<or> nanos e' < nanos now + nanos ?iv"
    by (rule next_expiry [OF qok now sec iv])
  from tinv_take [OF inv i(1)] obtain L where
    L: "on_links (list_unlink_ip (Timer_links i)) st = Some (st\<lparr>tlinks := L\<rparr>)"
      "tinv {i} {} (st\<lparr>tlinks := L\<rparr>) (drop_timer i A)" .
  define st1 where "st1 = upd_timer i (\<lambda>t. t\<lparr>overrun_count := min (int k) DELAYTIMER_MAX, expirytime := e'\<rparr>) (st\<lparr>tlinks := L\<rparr>)"
  have inv1: "tinv {i} {} st1 (drop_timer i A)" unfolding st1_def by (rule tinv_upd_timer [OF L(2) i(1)]) simp
  have th': "th \<in> active (drop_timer i A)" using th by simp
  obtain L2 where L2: "timer_thread_queue_timer th i st1 =
      Some (hd (enqueue st1 i (qu (drop_timer i A) th)) = i, st1\<lparr>tlinks := L2\<rparr>)"
    "links_ok L2 (drop_timer i A\<lparr>qu := (qu (drop_timer i A))(th := enqueue st1 i (qu (drop_timer i A) th))\<rparr>)"
    by (rule queue_timer_ok [OF inv1 i(1) _ th']) (use k(2) in \<open>simp_all add: st1_def time_ok_def\<close>)
  have "tinv ({i} - {i}) {} (st1\<lparr>tlinks := L2\<rparr>) (queued_at st1 th i (drop_timer i A))"
    unfolding queued_at_def
  proof (rule tinv_queued [OF inv1 i(1) _ th' L2(2)])
    show "live (st1\<lparr>tlinks := L2\<rparr>) (drop_timer i A) i"
      using tinvD(6) [OF inv i] by (auto simp: live_def st1_def)
    show "queued_ok (st1\<lparr>tlinks := L2\<rparr>) th i" using ok k(2) by (simp add: queued_ok_def st1_def)
  qed simp_all
  then have inv2: "tinv {} {} (st1\<lparr>tlinks := L2\<rparr>) (queued_at st1 th i (drop_timer i A))" by simp
  define st' where "st' = upd_thread th (\<lambda>t. t\<lparr>current_timer := Some i\<rparr>) (st1\<lparr>tlinks := L2\<rparr>)"
  have inv3: "tinv {} {} st' (queued_at st1 th i (drop_timer i A))"
    unfolding st'_def by (rule tinv_upd_thread [OF inv2]) simp_all
  have ex: "queued_at st' = queued_at st1"
    using enqueue_cong [of st' st1] by (simp add: queued_at_def [abs_def] st'_def expiry_def [abs_def])
  have nz: "tv_sec ?iv \<noteq> 0 \<or> tv_nsec ?iv \<noteq> 0" using iv interval_pos [OF ok(2)] by simp
  have "\<not> timespec_compare now ?e < 0" using due_iff [OF inv _ now(1), of i th] q now(2) by simp
  then have "thread_expire env th now i st = Some (Fire now i (fires th i st), st')"
    using L(1) L2(1) k(1) nz
    by (simp add: thread_expire_def thread_expire_timer_def fires_def Let_def st'_def st1_def)
  moreover have "expiry st' i = nanos e'" by (simp add: expiry_def st'_def st1_def)
  ultimately show thesis using inv3 ex k(3-5)
    by (intro that [of st' k]) (auto simp: algebra_simps, simp_all add: st'_def st1_def)
qed

end
