(* ===== verification/OsTimerApi.thy ===== *)
theory OsTimerApi
  imports OsTimerOps
begin

text \<open>
  The public interface of the timer module: initialisation establishes the invariant, every public function
  returns in every state that satisfies it, keeps it, and has the effect its caller relies on.
\<close>

section \<open>Initialisation\<close>

definition empty_tabs :: tabs where
  "empty_tabs = \<lparr>fr = [0..<TIMER_MAX], qu = (\<lambda>_. []), tf = [0..<THREAD_MAXNODES], ta = []\<rparr>"

lemma empty_tabs_simps [simp]:
  "fr empty_tabs = [0..<TIMER_MAX]" "qu empty_tabs th = []" "tf empty_tabs = [0..<THREAD_MAXNODES]" "ta empty_tabs = []"
  "active empty_tabs = {Signal_thread}" "loose empty_tabs = {}"
  by (auto simp: empty_tabs_def active_def loose_def)

lemma heads_empty: "heads empty_tabs =
    {Timer_queue Signal_thread, Timer_free_list, Thread_free_list, Thread_active_list}"
  by (auto simp: heads_def)

lemma rings_initial:
  "rings (list_init Thread_active_list (list_init Thread_free_list (list_init Timer_free_list L)))
     {Timer_free_list, Thread_free_list, Thread_active_list} (\<lambda>_. [])"
  by (auto simp: rings_def ring_empty list_init_def)

lemma init_module_ok:
  assumes "\<And>i. i < TIMER_MAX \<Longrightarrow> refcount (timers st i) = 0" "timer_init_failed st = 0" "init_once st"
  obtains st' where "init_module env st = Some st'" "tinv {} {} st' empty_tabs"
    and "\<And>i. i < TIMER_MAX \<Longrightarrow> timers st' i = (timers st i)\<lparr>inuse := TIMER_FREE\<rparr>"
proof -
  let ?H = "{Timer_free_list, Thread_free_list, Thread_active_list}"
  define L0 where "L0 = list_init Thread_active_list (list_init Thread_free_list (list_init Timer_free_list (tlinks st)))"
  define R1 where "R1 = (\<lambda>_ :: link. [] :: link list)(Timer_free_list := map Timer_links [0..<TIMER_MAX])"
  have R0: "rings L0 ?H (\<lambda>_. [])" unfolding L0_def by (rule rings_initial)
  obtain L1 where L1: "\<And>st. tlinks st = L0 \<Longrightarrow> \<exists>T. init_timers [0..<TIMER_MAX] st = Some (st\<lparr>tlinks := L1, timers := T\<rparr>) \<and>
      (\<forall>i. T i = (if i \<in> set [0..<TIMER_MAX] then (timers st i)\<lparr>inuse := TIMER_FREE\<rparr> else timers st i))"
    "rings L1 ?H R1"
    unfolding R1_def
    by (rule links_init_timers [OF R0, of "[0..<TIMER_MAX]"])
       (simp, simp add: members_def, simp, unfold append_Nil, blast)
  obtain L2 where L2: "\<And>st. tlinks st = L1 \<Longrightarrow> init_threads [0..<THREAD_MAXNODES] st = Some (st\<lparr>tlinks := L2\<rparr>)"
    "rings L2 ?H (R1(Thread_free_list := R1 Thread_free_list @ map Thread_links [0..<THREAD_MAXNODES]))"
    by (rule links_init_threads [OF L1(2), of "[0..<THREAD_MAXNODES]"])
       (simp, auto simp: members_def R1_def split: if_splits)
  let ?R2 = "R1(Thread_free_list := R1 Thread_free_list @ map Thread_links [0..<THREAD_MAXNODES])"
  have "Timer_queue Signal_thread \<notin> members ?H ?R2" by (auto simp: members_def R1_def)
  from rings_loose [OF L2(2) this]
  have R3: "rings (list_init (Timer_queue Signal_thread) L2) (heads empty_tabs) (ring_of empty_tabs)"
    unfolding heads_empty by (rule ll.rep_cong) (auto simp: R1_def)
  obtain T where T: "init_timers [0..<TIMER_MAX] (st\<lparr>tlinks := L0\<rparr>) = Some (st\<lparr>tlinks := L1, timers := T\<rparr>)"
    "\<And>i. i < TIMER_MAX \<Longrightarrow> T i = (timers st i)\<lparr>inuse := TIMER_FREE\<rparr>"
    using L1(1) [of "st\<lparr>tlinks := L0\<rparr>"] by auto
  define st' where "st' = thread_init env Signal_thread None CLOCK_REALTIME (st\<lparr>timers := T, tlinks := L2\<rparr>)"
  have st': "tlinks st' = list_init (Timer_queue Signal_thread) L2" "timers st' = T" "init_once st'" "timer_init_failed st' = 0"
    using assms(2,3) by (simp_all add: st'_def thread_init_def Let_def)
  have "links_ok (tlinks st') empty_tabs" unfolding links_ok_def st'(1) using R3 by auto
  then have "tinv {} {} st' empty_tabs"
    by (rule tinvI) (use st' T(2) assms(1) in \<open>auto simp: free_ok_def\<close>)
  moreover have "init_module env st = Some st'"
    using T(1) L2(1) [of "st\<lparr>tlinks := L1, timers := T\<rparr>"] by (simp add: init_module_def L0_def [symmetric] st'_def)
  ultimately show thesis using T(2) st'(2) by (intro that [of st']) simp_all
qed

text \<open>The state of the program when it starts: all static variables are zero.\<close>

definition zero_timer :: timer_node where
  "zero_timer = \<lparr>event = \<lparr>sigev_notify = SIGEV_SIGNAL, sigev_signo = 0, sigev_notify_function = 0, sival_ptr = 0,
       sigev_notify_attributes = Attr_null\<rparr>, clock = CLOCK_REALTIME, type = 0, millisec = 0, tvalue = zero_itimerspec,
     expirytime = zero_timespec, tattr = pthread_attr_init, abstime = False, armed = False, inuse = TIMER_FREE,
     thread = None, creator_pid = 0, refcount = 0, overrun_count = 0\<rparr>"

definition zero_thread :: thread_node where
  "zero_thread = \<lparr>th_attr = pthread_attr_init, th_id = 0, exists = False, current_timer = None, captured = 0,
     clock_id = CLOCK_REALTIME\<rparr>"

definition timer_static :: timer_sys where
  "timer_static = \<lparr>tlinks = \<lparr>lnext = (\<lambda>_. None), lprev = (\<lambda>_. None)\<rparr>, threads = (\<lambda>_. zero_thread),
     timers = (\<lambda>_. zero_timer), init_once = False, timer_init_failed = 0, errno = OK\<rparr>"

lemma init_static:
  obtains st where "timer_init_once env timer_static = Some st" "tinv {} {} st empty_tabs"
proof -
  obtain st where "init_module env (timer_static\<lparr>init_once := True\<rparr>) = Some st" "tinv {} {} st empty_tabs"
    by (rule init_module_ok [of "timer_static\<lparr>init_once := True\<rparr>" env]) (auto simp: timer_static_def zero_timer_def)
  then show thesis by (intro that [of st]) (simp_all add: timer_init_once_def timer_static_def)
qed

section \<open>Fields the invariant does not speak about\<close>

lemma tinv_upd_other:
  assumes inv: "tinv X Y st A" and f: "\<And>t. inuse (f t) = inuse t" "\<And>t. refcount (f t) = refcount t"
    "\<And>t. thread (f t) = thread t" "\<And>t. clock (f t) = clock t" "\<And>t. armed (f t) = armed t"
    "\<And>t. expirytime (f t) = expirytime t" "\<And>t. tvalue (f t) = tvalue t"
  shows "tinv X Y (upd_timer i f st) A"
proof -
  note d = tinvD [OF inv]
  have "thread_key (upd_timer i f st) = thread_key st" by (simp add: thread_key_def fun_eq_iff)
  moreover have "live (upd_timer i f st) A j" if "live st A j" for j using that by (auto simp: live_def f)
  moreover have "expiry (upd_timer i f st) = expiry st" by (simp add: expiry_def fun_eq_iff f)
  ultimately show ?thesis using d
    by (intro tinvI) (auto simp: free_ok_def queued_ok_def f)
qed

section \<open>Starting a timer\<close>

definition timer_attr :: "int \<Rightarrow> pthread_attr" where
  "timer_attr prio = pthread_attr_setschedparam prio (pthread_attr_setschedpolicy SCHED_RR pthread_attr_init)"

text \<open>The timer \<open>i\<close> runs: it is in the queue of its thread with the given time and period, and
  nothing else has changed in the queues.\<close>

definition running :: "nat \<Rightarrow> timespec \<Rightarrow> timespec \<Rightarrow> timer_sys \<Rightarrow> tabs \<Rightarrow> tabs \<Rightarrow> bool" where
  "running i e iv st A A' \<longleftrightarrow> (\<exists>th. thread (timers st i) = Some th \<and> i \<in> set (qu A' th)) \<and>
     expirytime (timers st i) = e \<and> it_interval (tvalue (timers st i)) = iv \<and> armed (timers st i) \<and>
     (\<forall>th. remove1 i (qu A' th) = remove1 i (qu A th))"

definition stopped :: "nat \<Rightarrow> timer_sys \<Rightarrow> tabs \<Rightarrow> tabs \<Rightarrow> bool" where
  "stopped i st A A' \<longleftrightarrow> \<not> armed (timers st i) \<and> (\<forall>th. qu A' th = remove1 i (qu A th)) \<and>
     (\<forall>th. i \<notin> set (qu A' th))"

lemma remove1_enqueue: "i \<notin> set q \<Longrightarrow> remove1 i (enqueue st i q) = q"
proof -
  assume "i \<notin> set q"
  then have "i \<notin> set (takeWhile P q)" for P using set_takeWhileD by fast
  then show ?thesis by (simp add: enqueue_def remove1_append)
qed

lemma running_arm:
  assumes "links_ok L A" "thread (timers st i) = Some th" "expirytime (timers st i) = e"
    "it_interval (tvalue (timers st i)) = iv" "armed (timers st i)"
  shows "running i e iv st A (queued_at st th i (drop_timer i A))"
proof -
  have "i \<notin> set (remove1 i (qu A th'))" for th' using links_ok_distinct(2) [OF assms(1), of th'] by simp
  then show ?thesis using assms(2-5) by (auto simp: running_def remove1_enqueue remove1_idem)
qed

lemma start_ok:
  assumes inv: "tinv {} {} st A" and i: "i < TIMER_MAX" "i \<notin> set (fr A)" and v: "value_ok v" "\<not> stops v"
    and now: "ts_ok (clock_gettime env (clock (timers st i)))"
  obtains wake st' A' where "timer_settime env (Some i) flags v False st = Some (0, None, wake, st')"
    and "tinv {} {} st' A'" "fr A' = fr A" "ta A' = ta A" "threads st' = threads st"
    and "running i (new_expiry env flags v (timers st i)) (it_interval v) st' A A'"
    and "timers st' = (timers st)(i := (timers st i)\<lparr>tvalue := v, expirytime := new_expiry env flags v (timers st i), armed := True\<rparr>)"
    and "\<And>th. wake = Some th \<longleftrightarrow> thread (timers st i) = Some th \<and> hd (qu A' th) = i"
proof -
  obtain th where th: "th \<in> active A" "thread (timers st i) = Some th" by (rule live_thread [OF inv i])
  obtain st' where st': "timer_settime env (Some i) flags v False st =
      Some (0, None, if hd (enqueue st' i (remove1 i (qu A th))) = i then Some th else None, st')"
    "tinv {} {} st' (queued_at st' th i (drop_timer i A))" "threads st' = threads st"
    "timers st' = (timers st)(i := (timers st i)\<lparr>tvalue := v, expirytime := new_expiry env flags v (timers st i), armed := True\<rparr>)"
    by (rule settime_arm [OF inv i v now th(2)])
  let ?A = "queued_at st' th i (drop_timer i A)"
  have "running i (new_expiry env flags v (timers st i)) (it_interval v) st' A ?A"
    by (rule running_arm [OF tinvD(1) [OF inv]]) (use th st'(4) in simp_all)
  moreover have "i \<notin> set (fr A)" by (rule i)
  ultimately show thesis using st' th(2) by (intro that [OF st'(1,2)]) (auto simp: remove1_idem)
qed

lemma stop_ok:
  assumes inv: "tinv {} {} st A" and i: "i < TIMER_MAX" "i \<notin> set (fr A)" and v: "value_ok v" "stops v"
  obtains st' where "timer_settime env (Some i) flags v False st = Some (0, None, None, st')"
    and "tinv {} {} st' (drop_timer i A)" "fr (drop_timer i A) = fr A" "threads st' = threads st"
    and "stopped i st' A (drop_timer i A)"
    and "timers st' = (timers st)(i := (timers st i)\<lparr>tvalue := v, armed := False\<rparr>)"
proof -
  obtain st' where st': "timer_settime env (Some i) flags v False st = Some (0, None, None, st')"
    "tinv {} {} st' (drop_timer i A)" "threads st' = threads st"
    "timers st' = (timers st)(i := (timers st i)\<lparr>tvalue := v, armed := False\<rparr>)"
    by (rule settime_stop [OF inv i v])
  have "i \<notin> set (remove1 i (qu A th'))" for th'
    using links_ok_distinct(2) [OF tinvD(1) [OF inv], of th'] by simp
  then show thesis using st' i(2) by (intro that [OF st'(1,2)]) (auto simp: stopped_def remove1_idem)
qed

section \<open>The invariant of the public interface\<close>

definition public_timer :: "timer_node \<Rightarrow> bool" where
  "public_timer t \<longleftrightarrow> 0 < millisec t \<and> millisec t < 2 ^ 31 \<and> (type t = TIMER_ONESHOT \<or> type t = TIMER_INTERVAL) \<and>
     clock t = CLOCK_MONOTONIC \<and> sigev_notify (event t) = SIGEV_THREAD"

definition api_inv :: "timer_sys \<Rightarrow> tabs \<Rightarrow> bool" where
  "api_inv st A \<longleftrightarrow> tinv {} {} st A \<and> (\<forall>i < TIMER_MAX. i \<notin> set (fr A) \<longrightarrow> public_timer (timers st i))"

lemma api_invD:
  "api_inv st A \<Longrightarrow> tinv {} {} st A" "api_inv st A \<Longrightarrow> i < TIMER_MAX \<Longrightarrow> i \<notin> set (fr A) \<Longrightarrow> public_timer (timers st i)"
  by (simp_all add: api_inv_def)

lemma api_inv_static: "\<exists>st. timer_init_once env timer_static = Some st \<and> api_inv st empty_tabs"
  by (rule init_static [of env]) (auto simp: api_inv_def)

text \<open>The environment gives normalised times before the year 2034 of a machine that is up for less than three
  years, so that no sum of times the module forms wraps.\<close>

definition env_ok :: "env \<Rightarrow> bool" where
  "env_ok env \<longleftrightarrow> ts_ok (clock_gettime env CLOCK_MONOTONIC) \<and> ts_ok (clock_gettime env CLOCK_REALTIME) \<and>
     0 \<le> tv_sec (clock_gettime env CLOCK_MONOTONIC) \<and> tv_sec (clock_gettime env CLOCK_MONOTONIC) < 100000000 \<and>
     0 \<le> tv_sec (clock_gettime env CLOCK_REALTIME) \<and> tv_sec (clock_gettime env CLOCK_REALTIME) < 2040000000"

definition monotonic :: "env \<Rightarrow> int" where
  "monotonic env = nanos (clock_gettime env CLOCK_MONOTONIC)"

lemma nanos_new_expiry:
  assumes "env_ok env" "clock t = CLOCK_MONOTONIC" "0 < ms" "ms < 2 ^ 31" "and flags TIMER_ABSTIME = 0"
  shows "nanos (new_expiry env flags \<lparr>it_interval = iv, it_value = ms2ts ms\<rparr> t) = monotonic env + ms * 1000000"
  using assms ms2ts_ok [of ms]
  by (simp add: new_expiry_def env_ok_def monotonic_def nanos_add)

lemma settime_free:
  assumes inv: "tinv {} {} st A" and i: "i \<in> set (fr A)" and v: "value_ok v"
  obtains st' where "timer_settime env (Some i) flags v False st = Some (-1, None, None, st')"
    and "tinv {} {} st' (freed i A)" "set (fr (freed i A)) = set (fr A)" "threads st' = threads st"
    and "timers st' = (timers st)(i := (timers st i)\<lparr>thread := None, inuse := TIMER_FREE\<rparr>)"
proof -
  have lt: "i < TIMER_MAX" by (rule links_okD(2) [OF tinvD(1) [OF inv] i])
  have free: "inuse (timers st i) = TIMER_FREE" "refcount (timers st i) = 0"
    using tinvD(5) [OF inv i] by (simp_all add: free_ok_def)
  have "tinv {} {} (set_errno EINVAL st) A" "refcount (timers (set_errno EINVAL st) i) = 0" using inv free by simp_all
  from dealloc_ok [OF this(1) lt this(2)] obtain st' where
    st': "timer_dealloc i (set_errno EINVAL st) = Some st'" "tinv ({} - {i}) {} st' (freed i A)"
      "timers st' = (timers (set_errno EINVAL st))(i := (timers (set_errno EINVAL st) i)\<lparr>thread := None, inuse := TIMER_FREE\<rparr>)"
      "threads st' = threads (set_errno EINVAL st)" .
  have "upd_timer i (\<lambda>t. t\<lparr>refcount := refcount t - 1\<rparr>) (set_errno EINVAL (timer_addref i st)) = set_errno EINVAL st"
    by (simp add: timer_addref_def upd_timer_def set_errno_def)
  then have "timer_settime env (Some i) flags v False st = Some (-1, None, None, st')"
    using st'(1) free value_okD [OF v]
    by (simp add: timer_settime_def Let_def timer_valid_def timer_addref_def timer_delref_def)
  moreover have "set (fr (freed i A)) = set (fr A)"
    using i links_ok_distinct(1) [OF tinvD(1) [OF inv]] by auto
  ultimately show thesis using st'(2-4) by (intro that [of st']) simp_all
qed

lemma api_inv_step:
  assumes "api_inv st A" "tinv {} {} st' A'" "set (fr A') = set (fr A)"
    and "\<And>j. j < TIMER_MAX \<Longrightarrow> j \<notin> set (fr A) \<Longrightarrow> public_timer (timers st j) \<Longrightarrow> public_timer (timers st' j)"
  shows "api_inv st' A'"
  using assms by (simp add: api_inv_def)

lemma value_ok_ms:
  assumes "0 < ms" "ms < 2 ^ 31" "iv = zero_timespec \<or> iv = ms2ts ms"
  shows "value_ok \<lparr>it_interval = iv, it_value = ms2ts ms\<rparr>" "\<not> stops \<lparr>it_interval = iv, it_value = ms2ts ms\<rparr>"
proof -
  have "nanos (ms2ts ms) \<noteq> 0" "interval_ok (ms2ts ms)"
    using assms(1,2) ms2ts_ok(2) [of ms] interval_ok_ms2ts [of ms] by auto
  then show "value_ok \<lparr>it_interval = iv, it_value = ms2ts ms\<rparr>" "\<not> stops \<lparr>it_interval = iv, it_value = ms2ts ms\<rparr>"
    using assms(3) by (auto simp: value_ok_def time_ok_def interval_ok_def stops_def nanos_def ts_ok_def zero_timespec_def)
qed

lemma value_ok_zero: "value_ok \<lparr>it_interval = zero_timespec, it_value = zero_timespec\<rparr>"
    "stops \<lparr>it_interval = iv, it_value = zero_timespec\<rparr>"
  by (simp_all add: value_ok_def stops_def) (simp_all add: zero_timespec_def)

section \<open>Adding a timer\<close>

definition add_event :: "int \<Rightarrow> nat \<Rightarrow> nat \<Rightarrow> sigevent" where
  "add_event prio f arg = \<lparr>sigev_notify = SIGEV_THREAD, sigev_signo = 0, sigev_notify_function = f, sival_ptr = arg,
     sigev_notify_attributes = Attr_caller (timer_attr prio)\<rparr>"

lemma add_event_ok [simp]: "thread_event (add_event prio f arg) (timer_attr prio)"
  by (simp add: thread_event_def add_event_def)

lemma wall_clock_monotonic: "wall_clock CLOCK_MONOTONIC"
  by (simp add: wall_clock_def)

text \<open>The value the call sets the timer to.\<close>

definition add_value :: "int \<Rightarrow> 32 word \<Rightarrow> itimerspec" where
  "add_value ms flag = (let v = (if and flag TIMER_STOPPED \<noteq> 0 then zero_timespec else ms2ts ms)
     in \<lparr>it_interval = (if and flag TIMER_ONESHOT \<noteq> 0 then zero_timespec else v), it_value = v\<rparr>)"

lemma add_value_ok:
  assumes "0 < ms" "ms < 2 ^ 31"
  shows "value_ok (add_value ms flag)" "stops (add_value ms flag) \<longleftrightarrow> and flag TIMER_STOPPED \<noteq> 0"
proof -
  have iv: "(if and flag TIMER_ONESHOT \<noteq> 0 then zero_timespec else ms2ts ms) = zero_timespec \<or>
      (if and flag TIMER_ONESHOT \<noteq> 0 then zero_timespec else ms2ts ms) = ms2ts ms" by simp
  show "value_ok (add_value ms flag)" "stops (add_value ms flag) \<longleftrightarrow> and flag TIMER_STOPPED \<noteq> 0"
    using value_ok_ms [OF assms iv] value_ok_zero by (auto simp: add_value_def Let_def)
qed

lemma add_unfold:
  assumes "0 < ms" "timer_create env CLOCK_MONOTONIC (Some (add_event prio f arg)) st = Some (r, tid, st1)"
  shows "r \<noteq> 0 \<Longrightarrow> os_timer_add env prio ms flag (Some f) arg True st = Some (-1, None, None, st1)"
    and "r = 0 \<Longrightarrow> tid = Some i \<Longrightarrow> timer_valid (Some i) st1 \<Longrightarrow>
      timer_settime env (Some i) flag (add_value ms flag) False (upd_timer i (\<lambda>t. t\<lparr>type :=
        (if and flag TIMER_ONESHOT \<noteq> 0 then TIMER_ONESHOT else TIMER_INTERVAL), millisec := ms\<rparr>) st1) = Some (0, old, wake, st2) \<Longrightarrow>
      os_timer_add env prio ms flag (Some f) arg True st = Some (0, Some i, wake, st2)"
  using assms by (simp_all add: os_timer_add_def add_event_def timer_attr_def add_value_def Let_def del: if_split)

lemma add_full:
  assumes inv: "api_inv st A" and ms: "0 < ms"
    and fail: "fr A = [] \<or> \<not> can_serve env st A (timer_attr prio) CLOCK_MONOTONIC"
  obtains st' A' where "os_timer_add env prio ms flag (Some f) arg True st = Some (-1, None, None, st')"
    and "api_inv st' A'" "set (fr A') = set (fr A)" "qu A' = qu A" "ta A' = ta A"
    and "\<And>j. j < TIMER_MAX \<Longrightarrow> j \<notin> set (fr A) \<Longrightarrow> timers st' j = timers st j"
proof (cases "fr A")
  case Nil
  have create: "timer_create env CLOCK_MONOTONIC (Some (add_event prio f arg)) st = Some (-1, None, set_errno EAGAIN st)"
    by (rule create_no_timer [OF api_invD(1) [OF inv] _ Nil]) (simp add: wall_clock_def)
  show thesis using add_unfold(1) [OF ms create] inv
    by (intro that [of "set_errno EAGAIN st" A]) (simp_all add: api_inv_def)
next
  case (Cons i rest)
  note t = api_invD(1) [OF inv]
  have fail: "\<not> can_serve env st A (timer_attr prio) CLOCK_MONOTONIC" using fail Cons by simp
  obtain st' A' where c: "timer_create env CLOCK_MONOTONIC (Some (add_event prio f arg)) st = Some (-1, None, st')"
    "tinv {} {} st' A'" "fr A' = rest @ [i]" "qu A' = qu A" "\<And>j. j \<noteq> i \<Longrightarrow> timers st' j = timers st j" "ta A' = ta A"
    by (rule create_fail [OF t wall_clock_monotonic Cons add_event_ok [of prio f arg] fail]) blast
  have same: "timers st' j = timers st j" if "j \<notin> set (fr A)" for j using that c(5) Cons by auto
  have set: "set (fr A') = set (fr A)" using c(3) Cons by auto
  have "api_inv st' A'" by (rule api_inv_step [OF inv c(2) set]) (simp add: same)
  then show thesis using add_unfold(1) [OF ms c(1)] set c(4,6) same by (intro that [of st' A']) simp_all
qed

text \<open>The second half of \<open>os_timer_add\<close>: the new timer, which is in no queue, is set.\<close>

lemma add_set_new:
  assumes inv: "tinv {} {} st A" and i: "i < TIMER_MAX" and out: "i \<notin> set (fr A)" and loose: "drop_timer i A = A" and env: "env_ok env"
    and ms: "0 < ms" "ms < 2 ^ 31" and clk: "clock (timers st i) = CLOCK_MONOTONIC"
  obtains wake st' A' v' e' b where "timer_settime env (Some i) flag (add_value ms flag) False st = Some (0, None, wake, st')"
    and "tinv {} {} st' A'" "fr A' = fr A" "ta A' = ta A" "threads st' = threads st"
    and "timers st' = (timers st)(i := (timers st i)\<lparr>tvalue := v', expirytime := e', armed := b\<rparr>)"
    and "if and flag TIMER_STOPPED \<noteq> 0 then stopped i st' A A'
      else running i (expirytime (timers st' i)) (if and flag TIMER_ONESHOT \<noteq> 0 then zero_timespec else ms2ts ms) st' A A' \<and>
        (and flag TIMER_ABSTIME = 0 \<longrightarrow> expiry st' i = monotonic env + ms * 1000000)"
proof (cases "and flag TIMER_STOPPED \<noteq> 0")
  case True
  note v = add_value_ok [OF ms, of flag]
  obtain st' where s: "timer_settime env (Some i) flag (add_value ms flag) False st = Some (0, None, None, st')"
    "tinv {} {} st' (drop_timer i A)" "stopped i st' A (drop_timer i A)" "threads st' = threads st"
    "timers st' = (timers st)(i := (timers st i)\<lparr>tvalue := add_value ms flag, armed := False\<rparr>)"
    using stop_ok [OF inv i out v(1), of env flag] v(2) True by blast
  with True show thesis unfolding loose
    by (intro that [of None st' A False "expirytime (timers st i)" "add_value ms flag"]) simp_all
next
  case False
  note v = add_value_ok [OF ms, of flag]
  have now: "ts_ok (clock_gettime env (clock (timers st i)))" using env by (simp add: clk env_ok_def)
  obtain wake st' A' where s: "timer_settime env (Some i) flag (add_value ms flag) False st = Some (0, None, wake, st')"
    "tinv {} {} st' A'" "fr A' = fr A" "ta A' = ta A" "threads st' = threads st"
    "running i (new_expiry env flag (add_value ms flag) (timers st i)) (it_interval (add_value ms flag)) st' A A'"
    "timers st' = (timers st)(i := (timers st i)\<lparr>tvalue := add_value ms flag,
       expirytime := new_expiry env flag (add_value ms flag) (timers st i), armed := True\<rparr>)"
    by (rule start_ok [OF inv i out v(1) _ now, where flags = flag]) (use v(2) False in auto)
  have val: "add_value ms flag = \<lparr>it_interval = (if and flag TIMER_ONESHOT \<noteq> 0 then zero_timespec else ms2ts ms),
      it_value = ms2ts ms\<rparr>" using False by (simp add: add_value_def Let_def)
  have "and flag TIMER_ABSTIME = 0 \<longrightarrow> expiry st' i = monotonic env + ms * 1000000"
    using nanos_new_expiry [OF env _ ms, of "timers st i" flag] s(7) by (simp add: expiry_def val clk)
  with s False show thesis by (intro that [OF s(1-5,7)]) (auto simp: val)
qed

lemma add_ok:
  assumes inv: "api_inv st A" and env: "env_ok env" and ms: "0 < ms" "ms < 2 ^ 31" and i: "fr A = i # rest"
    and can: "can_serve env st A (timer_attr prio) CLOCK_MONOTONIC"
  obtains wake st' A' t where "os_timer_add env prio ms flag (Some f) arg True st = Some (0, Some i, wake, st')"
    and "api_inv st' A'" "fr A' = rest" "thread (timers st' i) = Some (Pool_thread t)" "t \<in> set (ta A')"
    and "serving st A (timer_attr prio) CLOCK_MONOTONIC = Some t" "millisec (timers st' i) = ms"
    and "type (timers st' i) = (if and flag TIMER_ONESHOT \<noteq> 0 then TIMER_ONESHOT else TIMER_INTERVAL)"
    and "sigev_notify_function (event (timers st' i)) = f" "sival_ptr (event (timers st' i)) = arg"
    and "\<And>j. j \<noteq> i \<Longrightarrow> timers st' j = timers st j"
    and "if and flag TIMER_STOPPED \<noteq> 0 then stopped i st' A A'
      else running i (expirytime (timers st' i)) (if and flag TIMER_ONESHOT \<noteq> 0 then zero_timespec else ms2ts ms) st' A A' \<and>
        (and flag TIMER_ABSTIME = 0 \<longrightarrow> expiry st' i = monotonic env + ms * 1000000)"
    and "thread_key st' t = attr_key (timer_attr prio) CLOCK_MONOTONIC" "set (ta A) \<subseteq> set (ta A')"
proof -
  note t = api_invD(1) [OF inv]
  let ?ty = "if and flag TIMER_ONESHOT \<noteq> 0 then TIMER_ONESHOT else TIMER_INTERVAL"
  obtain st1 A1 u where c: "timer_create env CLOCK_MONOTONIC (Some (add_event prio f arg)) st = Some (0, Some i, st1)"
    "tinv {} {} st1 A1" "fr A1 = rest" "qu A1 = qu A" "i < TIMER_MAX" "u \<in> set (ta A1)"
    "serving st A (timer_attr prio) CLOCK_MONOTONIC = Some u"
    "timers st1 = (timers st)(i := (timers st i)\<lparr>inuse := TIMER_INUSE, refcount := 1,
           event := (add_event prio f arg)\<lparr>sigev_notify_attributes := Attr_timer i\<rparr>, creator_pid := getpid env,
           tattr := pthread_attr_setdetachstate (timer_attr prio), clock := CLOCK_MONOTONIC, abstime := False,
           armed := False, thread := Some (Pool_thread u)\<rparr>)"
    "thread_key st1 u = attr_key (timer_attr prio) CLOCK_MONOTONIC" "set (ta A) \<subseteq> set (ta A1)"
    by (rule create_ok [OF t wall_clock_monotonic i add_event_ok [of prio f arg] can])
  have out: "i \<notin> set (fr A1)" using links_ok_distinct(1) [OF tinvD(1) [OF t]] i c(3) by simp
  define st2 where "st2 = upd_timer i (\<lambda>t. t\<lparr>type := ?ty, millisec := ms\<rparr>) st1"
  have inv2: "tinv {} {} st2 A1" unfolding st2_def by (rule tinv_upd_other [OF c(2)]) simp_all
  have t2: "timers st2 i = (timers st1 i)\<lparr>type := ?ty, millisec := ms\<rparr>" "\<And>j. j \<noteq> i \<Longrightarrow> timers st2 j = timers st j"
    by (simp_all add: st2_def c(8))
  have valid: "timer_valid (Some i) st1" by (simp add: timer_valid_def c(8))
  have loose: "drop_timer i A1 = A1"
  proof (rule drop_loose)
    have "i \<notin> set (qu A th)" for th using links_ok_apart(1) [OF tinvD(1) [OF t], of th] i by auto
    then show "i \<in> loose A1" using c(4,5) out by (simp add: loose_def)
  qed
  have clk: "clock (timers st2 i) = CLOCK_MONOTONIC" by (simp add: t2(1) c(8))
  obtain wake st' A' v' e' b where
    st': "timer_settime env (Some i) flag (add_value ms flag) False st2 = Some (0, None, wake, st')"
      "tinv {} {} st' A'" "fr A' = fr A1" "ta A' = ta A1" "threads st' = threads st2"
      "timers st' = (timers st2)(i := (timers st2 i)\<lparr>tvalue := v', expirytime := e', armed := b\<rparr>)"
    and final: "if and flag TIMER_STOPPED \<noteq> 0 then stopped i st' A1 A'
       else running i (expirytime (timers st' i)) (if and flag TIMER_ONESHOT \<noteq> 0 then zero_timespec else ms2ts ms) st' A1 A' \<and>
        (and flag TIMER_ABSTIME = 0 \<longrightarrow> expiry st' i = monotonic env + ms * 1000000)"
    by (rule add_set_new [OF inv2 c(5) out loose env ms clk, of flag])
  note st' = st'(1,2) st'(3) [unfolded c(3)] st'(4-6)
  have same_q: "stopped i s A1 B \<longleftrightarrow> stopped i s A B" "running i e iv s A1 B \<longleftrightarrow> running i e iv s A B" for s B e iv
    by (simp_all add: stopped_def running_def c(4))
  have same: "timers st' j = timers st j" if "j \<noteq> i" for j using that t2(2) st'(6) by simp
  have fields: "thread (timers st' i) = Some (Pool_thread u)" "millisec (timers st' i) = ms" "type (timers st' i) = ?ty"
    "sigev_notify_function (event (timers st' i)) = f" "sival_ptr (event (timers st' i)) = arg"
    "public_timer (timers st' i)"
    using ms by (simp_all add: st'(6) t2(1) c(8) add_event_def public_timer_def)
  have "public_timer (timers st' j)" if "j < TIMER_MAX" "j \<notin> set (fr A')" for j
    using that fields(6) same [of j] api_invD(2) [OF inv, of j] i st'(3) by (cases "j = i") auto
  then have inv': "api_inv st' A'" using st'(2) by (simp add: api_inv_def)
  have call: "os_timer_add env prio ms flag (Some f) arg True st = Some (0, Some i, wake, st')"
    by (rule add_unfold(2) [OF ms(1) c(1) refl refl valid]) (use st'(1) in \<open>simp add: st2_def\<close>)
  have u: "u \<in> set (ta A')" using c(6) st'(4) by simp
  have "thread_key st' u = attr_key (timer_attr prio) CLOCK_MONOTONIC" "set (ta A) \<subseteq> set (ta A')"
    using c(9,10) st'(4,5) by (simp_all add: thread_key_def st2_def)
  with that [OF call inv' st'(3) fields(1) u c(7) fields(2,3,4,5) same final [unfolded same_q]] show thesis by blast
qed

section \<open>Properties of the public functions\<close>

lemma start_total:
  assumes inv: "api_inv st A" and env: "env_ok env" and i: "i < TIMER_MAX"
  shows "if i \<notin> set (fr A)
    then \<exists>wake st' A' ex. os_timer_start env (Some i) st = Some (0, wake, st') \<and> api_inv st' A' \<and> fr A' = fr A \<and> ta A' = ta A \<and>
      nanos ex = monotonic env + millisec (timers st i) * 1000000 \<and>
      running i ex (if type (timers st i) = TIMER_ONESHOT then zero_timespec else ms2ts (millisec (timers st i))) st' A A' \<and>
      (\<forall>j. j \<noteq> i \<longrightarrow> timers st' j = timers st j) \<and>
      (\<forall>th. wake = Some th \<longleftrightarrow> thread (timers st i) = Some th \<and> hd (qu A' th) = i)
    else os_timer_start env (Some i) st = Some (-1, None, st)"
proof (cases "i \<in> set (fr A)")
  case True
  then show ?thesis using valid_iff [OF api_invD(1) [OF inv] i] by (simp add: os_timer_start_def)
next
  case False
  note t = api_invD(1) [OF inv] and pub = api_invD(2) [OF inv i False]
  let ?ms = "millisec (timers st i)"
  let ?v = "\<lparr>it_interval = (if type (timers st i) = TIMER_ONESHOT then zero_timespec else ms2ts ?ms), it_value = ms2ts ?ms\<rparr>"
  have ms: "0 < ?ms" "?ms < 2 ^ 31" "clock (timers st i) = CLOCK_MONOTONIC" using pub by (simp_all add: public_timer_def)
  then have v: "value_ok ?v" "\<not> stops ?v" using value_ok_ms [of ?ms] by auto
  have now: "ts_ok (clock_gettime env (clock (timers st i)))" using env ms(3) by (simp add: env_ok_def)
  obtain wake st' A' where s: "timer_settime env (Some i) 0 ?v False st = Some (0, None, wake, st')"
    "tinv {} {} st' A'" "fr A' = fr A" "ta A' = ta A" "running i (new_expiry env 0 ?v (timers st i)) (it_interval ?v) st' A A'"
    "timers st' = (timers st)(i := (timers st i)\<lparr>tvalue := ?v, expirytime := new_expiry env 0 ?v (timers st i), armed := True\<rparr>)"
    "\<And>th. wake = Some th \<longleftrightarrow> thread (timers st i) = Some th \<and> hd (qu A' th) = i"
    by (rule start_ok [OF t i False v now, where flags = 0]) blast
  have call: "os_timer_start env (Some i) st = Some (0, wake, st')"
    using s(1) valid_iff [OF t i] False by (simp add: os_timer_start_def Let_def)
  have "api_inv st' A'" by (rule api_inv_step [OF inv s(2)]) (auto simp: s(3,6) public_timer_def)
  moreover have "nanos (new_expiry env 0 ?v (timers st i)) = monotonic env + ?ms * 1000000"
    by (rule nanos_new_expiry [OF env ms(3,1,2)]) simp
  ultimately show ?thesis using False call s(3-7)
    by (intro if_P [THEN iffD2] exI [of _ wake] exI [of _ st'] exI [of _ A'] exI [of _ "new_expiry env 0 ?v (timers st i)"]) auto
qed

text \<open>C6: \<open>os_timer_start\<close> on a timer in use returns 0 and puts it into the queue of its
  thread, in expiry order, to expire the configured number of milliseconds from now and, unless it is a one-shot
  timer, again after every such period; all other timers keep their place.  The thread is woken up exactly
  when the timer becomes the first of its queue.  On an id that is not in use it returns -1 and nothing changes.\<close>

theorem os_timer_start_spec:
  assumes "api_inv st A" and "env_ok env" and "i < TIMER_MAX"
  shows "if i \<notin> set (fr A)
    then \<exists>wake st' A' ex. os_timer_start env (Some i) st = Some (0, wake, st') \<and> api_inv st' A' \<and> fr A' = fr A \<and> ta A' = ta A \<and>
      nanos ex = monotonic env + millisec (timers st i) * 1000000 \<and>
      running i ex (if type (timers st i) = TIMER_ONESHOT then zero_timespec else ms2ts (millisec (timers st i))) st' A A' \<and>
      (\<forall>j. j \<noteq> i \<longrightarrow> timers st' j = timers st j) \<and>
      (\<forall>th. wake = Some th \<longleftrightarrow> thread (timers st i) = Some th \<and> hd (qu A' th) = i)
    else os_timer_start env (Some i) st = Some (-1, None, st)"
  using assms by (rule start_total)

lemma add_total:
  assumes inv: "api_inv st A" and env: "env_ok env" and ms: "ms < 2 ^ 31"
  shows "\<exists>r tid wake st' A'. os_timer_add env prio ms flag handler arg given st = Some (r, tid, wake, st') \<and> api_inv st' A' \<and> set (ta A) \<subseteq> set (ta A') \<and>
    (if ms \<le> 0 \<or> handler = None \<or> \<not> given then r = -1 \<and> tid = None \<and> st' = st
     else if fr A = [] \<or> \<not> can_serve env st A (timer_attr prio) CLOCK_MONOTONIC
     then r = -1 \<and> tid = None \<and> set (fr A') = set (fr A) \<and> qu A' = qu A \<and>
       (\<forall>j < TIMER_MAX. j \<notin> set (fr A) \<longrightarrow> timers st' j = timers st j)
     else \<exists>i t. r = 0 \<and> tid = Some i \<and> fr A = i # fr A' \<and>
       serving st A (timer_attr prio) CLOCK_MONOTONIC = Some t \<and> thread (timers st' i) = Some (Pool_thread t) \<and>
       sigev_notify_function (event (timers st' i)) = the handler \<and> sival_ptr (event (timers st' i)) = arg \<and>
       (\<forall>j. j \<noteq> i \<longrightarrow> timers st' j = timers st j) \<and>
       (if and flag TIMER_STOPPED \<noteq> 0 then stopped i st' A A'
        else running i (expirytime (timers st' i)) (if and flag TIMER_ONESHOT \<noteq> 0 then zero_timespec else ms2ts ms) st' A A' \<and>
          (and flag TIMER_ABSTIME = 0 \<longrightarrow> expiry st' i = monotonic env + ms * 1000000)))"
proof -
  consider (bad) "ms \<le> 0 \<or> handler = None \<or> \<not> given"
    | (full) f where "0 < ms" "handler = Some f" "given" "fr A = [] \<or> \<not> can_serve env st A (timer_attr prio) CLOCK_MONOTONIC"
    | (ok) f i rest where "0 < ms" "handler = Some f" "given" "fr A = i # rest" "can_serve env st A (timer_attr prio) CLOCK_MONOTONIC"
    by (cases handler; cases "fr A"; force)
  then show ?thesis
  proof cases
    case bad
    then show ?thesis using inv by (auto simp: os_timer_add_def)
  next
    case full
    obtain st' A' where "os_timer_add env prio ms flag (Some f) arg True st = Some (-1, None, None, st')"
      "api_inv st' A'" "set (fr A') = set (fr A)" "qu A' = qu A" "ta A' = ta A"
      "\<And>j. j < TIMER_MAX \<Longrightarrow> j \<notin> set (fr A) \<Longrightarrow> timers st' j = timers st j"
      by (rule add_full [OF inv full(1,4)]) blast
    then show ?thesis using full by (intro exI [of _ "-1"] exI [of _ None] exI [of _ st'] exI [of _ A']) auto
  next
    case ok
    obtain wake st' A' t where a: "os_timer_add env prio ms flag (Some f) arg True st = Some (0, Some i, wake, st')"
      "api_inv st' A'" "fr A' = rest" "thread (timers st' i) = Some (Pool_thread t)"
      "serving st A (timer_attr prio) CLOCK_MONOTONIC = Some t"
      "sigev_notify_function (event (timers st' i)) = f" "sival_ptr (event (timers st' i)) = arg"
      "\<And>j. j \<noteq> i \<Longrightarrow> timers st' j = timers st j"
      "if and flag TIMER_STOPPED \<noteq> 0 then stopped i st' A A'
        else running i (expirytime (timers st' i)) (if and flag TIMER_ONESHOT \<noteq> 0 then zero_timespec else ms2ts ms) st' A A' \<and>
          (and flag TIMER_ABSTIME = 0 \<longrightarrow> expiry st' i = monotonic env + ms * 1000000)"
      "set (ta A) \<subseteq> set (ta A')"
      by (rule add_ok [OF inv env ok(1) ms ok(4,5), where flag = flag and f = f and arg = arg]) blast
    show ?thesis
      by (rule exI [of _ 0], rule exI [of _ "Some i"], rule exI [of _ wake], rule exI [of _ st'], rule exI [of _ A'])
         (use a ok in simp)
  qed
qed

text \<open>C5: \<open>os_timer_add\<close> returns in every state.  With an invalid argument it returns -1 and
  changes nothing; when no timer structure is free, or no thread with the wanted scheduling exists and none can be started,
  it returns -1 and gives back all it took.  Otherwise it returns 0 and the first free timer, which from then
  on is served by the thread of its priority, calls the handler with the argument, and is stopped or runs as the flags say.  Every
  other timer is as before.\<close>

theorem os_timer_add_spec:
  assumes "api_inv st A" and "env_ok env" and "ms < 2 ^ 31"
  shows "\<exists>r tid wake st' A'. os_timer_add env prio ms flag handler arg given st = Some (r, tid, wake, st') \<and> api_inv st' A' \<and> set (ta A) \<subseteq> set (ta A') \<and>
    (if ms \<le> 0 \<or> handler = None \<or> \<not> given then r = -1 \<and> tid = None \<and> st' = st
     else if fr A = [] \<or> \<not> can_serve env st A (timer_attr prio) CLOCK_MONOTONIC
     then r = -1 \<and> tid = None \<and> set (fr A') = set (fr A) \<and> qu A' = qu A \<and>
       (\<forall>j < TIMER_MAX. j \<notin> set (fr A) \<longrightarrow> timers st' j = timers st j)
     else \<exists>i t. r = 0 \<and> tid = Some i \<and> fr A = i # fr A' \<and>
       serving st A (timer_attr prio) CLOCK_MONOTONIC = Some t \<and> thread (timers st' i) = Some (Pool_thread t) \<and>
       sigev_notify_function (event (timers st' i)) = the handler \<and> sival_ptr (event (timers st' i)) = arg \<and>
       (\<forall>j. j \<noteq> i \<longrightarrow> timers st' j = timers st j) \<and>
       (if and flag TIMER_STOPPED \<noteq> 0 then stopped i st' A A'
        else running i (expirytime (timers st' i)) (if and flag TIMER_ONESHOT \<noteq> 0 then zero_timespec else ms2ts ms) st' A A' \<and>
          (and flag TIMER_ABSTIME = 0 \<longrightarrow> expiry st' i = monotonic env + ms * 1000000)))"
  using assms by (rule add_total)

text \<open>A system with one stopped periodic timer of 50 ms, for the concrete instances below.\<close>

definition env0 :: env where
  "env0 = \<lparr>clock_gettime = (\<lambda>_. \<lparr>tv_sec = 7, tv_nsec = 0\<rparr>), pthread_create = Some 99, pthread_self = 1, getpid = 2\<rparr>"

lemma env0_ok [simp]: "env_ok env0"
  by (simp add: env_ok_def env0_def ts_ok_def)

lemma can_serve_empty: "can_serve env0 st empty_tabs a clk"
  by (simp add: can_serve_def env0_def THREAD_MAXNODES_def)

lemma fr_empty_tabs: "fr empty_tabs = 0 # [1..<256]"
  by (simp add: TIMER_MAX_def upt_rec)

lemma one_timer:
  obtains st A where "api_inv st A" "fr A = [1..<256]" "millisec (timers st 0) = 50" "type (timers st 0) = TIMER_INTERVAL"
    and "\<not> armed (timers st 0)"
proof -
  obtain st where st: "api_inv st empty_tabs" using api_inv_static by blast
  obtain wake st' A' t where "os_timer_add env0 10 50 (or TIMER_INTERVAL TIMER_STOPPED) (Some 3) 4 True st = Some (0, Some 0, wake, st')"
    "api_inv st' A'" "fr A' = [1..<256]" "millisec (timers st' 0) = 50"
    "type (timers st' 0) = (if and (or TIMER_INTERVAL TIMER_STOPPED) TIMER_ONESHOT \<noteq> 0 then TIMER_ONESHOT else TIMER_INTERVAL)"
    "stopped 0 st' empty_tabs A'"
    by (rule add_ok [OF st env0_ok _ _ fr_empty_tabs can_serve_empty,
          of 50 10 "or TIMER_INTERVAL TIMER_STOPPED" 3 4]) (simp, simp, simp add: TIMER_STOPPED_def TIMER_INTERVAL_def)
  then show thesis
    by (intro that [of st' A']) (simp_all add: TIMER_INTERVAL_def TIMER_STOPPED_def TIMER_ONESHOT_def stopped_def)
qed

theorem os_timer_add_spec_witness:
  "\<exists>st st' A'. api_inv st empty_tabs \<and>
     (\<exists>wake. os_timer_add env0 10 50 TIMER_INTERVAL (Some 3) 4 True st = Some (0, Some 0, wake, st')) \<and>
     api_inv st' A' \<and> expiry st' 0 = 7050000000"
proof -
  obtain st where st: "api_inv st empty_tabs" using api_inv_static by blast
  have "fr empty_tabs \<noteq> []" "0 # tl (fr empty_tabs) = fr empty_tabs" unfolding fr_empty_tabs by simp_all
  with os_timer_add_spec [OF st env0_ok, of 50 10 TIMER_INTERVAL "Some 3" 4 True] can_serve_empty [of st]
  obtain wake st' A' where "os_timer_add env0 10 50 TIMER_INTERVAL (Some 3) 4 True st = Some (0, Some 0, wake, st')"
    "api_inv st' A'" "expiry st' 0 = monotonic env0 + 50 * 1000000"
    by (auto simp: TIMER_INTERVAL_def TIMER_STOPPED_def TIMER_ABSTIME_def)
  with st show ?thesis by (auto simp: monotonic_def env0_def nanos_def)
qed

theorem os_timer_start_spec_witness:
  "\<exists>st A wake st' A' ex. api_inv st A \<and> 0 \<notin> set (fr A) \<and> os_timer_start env0 (Some 0) st = Some (0, wake, st') \<and>
     nanos ex = 7050000000 \<and> running 0 ex (ms2ts 50) st' A A'"
proof -
  obtain st A where st: "api_inv st A" "fr A = [1..<256]" "millisec (timers st 0) = 50" "type (timers st 0) = TIMER_INTERVAL"
    by (rule one_timer)
  have "0 \<notin> set (fr A)" "TIMER_INTERVAL \<noteq> TIMER_ONESHOT" "0 < TIMER_MAX"
    by (simp_all add: st(2) TIMER_INTERVAL_def TIMER_ONESHOT_def TIMER_MAX_def)
  with os_timer_start_spec [OF st(1) env0_ok, of 0] st obtain wake st' A' ex where
    "os_timer_start env0 (Some 0) st = Some (0, wake, st')" "nanos ex = monotonic env0 + 50 * 1000000"
    "running 0 ex (ms2ts 50) st' A A'" by auto
  moreover have "monotonic env0 + 50 * 1000000 = 7050000000" by (simp add: monotonic_def env0_def nanos_def)
  ultimately show ?thesis using st(1) \<open>0 \<notin> set (fr A)\<close> by metis
qed

lemma stop_total:
  assumes inv: "api_inv st A" and i: "i < TIMER_MAX"
  shows "\<exists>r st' A'. os_timer_stop env (Some i) st = Some (r, None, st') \<and> api_inv st' A' \<and> set (fr A') = set (fr A) \<and> ta A' = ta A \<and>
    (\<forall>j. j \<noteq> i \<longrightarrow> timers st' j = timers st j) \<and>
    (if i \<in> set (fr A) then r = -1 \<and> qu A' = qu A else r = 0 \<and> stopped i st' A A')"
proof (cases "i \<in> set (fr A)")
  case True
  note t = api_invD(1) [OF inv]
  obtain st' where s: "timer_settime env (Some i) 0 zero_itimerspec False st = Some (-1, None, None, st')"
    "tinv {} {} st' (freed i A)" "set (fr (freed i A)) = set (fr A)"
    "timers st' = (timers st)(i := (timers st i)\<lparr>thread := None, inuse := TIMER_FREE\<rparr>)"
    by (rule settime_free [OF t True, of zero_itimerspec env 0]) (simp_all add: zero_itimerspec_def value_ok_zero)
  have "api_inv st' (freed i A)" by (rule api_inv_step [OF inv s(2,3)]) (use True s(4) in auto)
  moreover have "qu (freed i A) = qu A"
  proof
    fix th
    have "i \<notin> set (qu A th)" using True links_ok_apart(1) [OF tinvD(1) [OF t], of th] by auto
    then show "qu (freed i A) th = qu A th" by (simp add: remove1_idem)
  qed
  ultimately show ?thesis using s True
    by (intro exI [of _ "-1"] exI [of _ st'] exI [of _ "freed i A"]) (simp add: os_timer_stop_def)
next
  case False
  note t = api_invD(1) [OF inv]
  obtain st' where s: "timer_settime env (Some i) 0 zero_itimerspec False st = Some (0, None, None, st')"
    "tinv {} {} st' (drop_timer i A)" "fr (drop_timer i A) = fr A" "stopped i st' A (drop_timer i A)"
    "timers st' = (timers st)(i := (timers st i)\<lparr>tvalue := zero_itimerspec, armed := False\<rparr>)"
    by (rule stop_ok [OF t i False, of zero_itimerspec env 0]) (simp_all add: zero_itimerspec_def value_ok_zero)
  have "api_inv st' (drop_timer i A)" by (rule api_inv_step [OF inv s(2)]) (use s(3,5) in \<open>auto simp: public_timer_def\<close>)
  with s False show ?thesis
    by (intro exI [of _ 0] exI [of _ st'] exI [of _ "drop_timer i A"]) (simp add: os_timer_stop_def)
qed

text \<open>C12: \<open>os_timer_stop\<close> on a timer in use returns 0, takes it out of its queue and disarms it, whether it ran or
  not; on an id that is not in use it returns -1 and leaves all timers in use and all queues as they are.\<close>

theorem os_timer_stop_spec:
  assumes "api_inv st A" and "i < TIMER_MAX"
  shows "\<exists>r st' A'. os_timer_stop env (Some i) st = Some (r, None, st') \<and> api_inv st' A' \<and> set (fr A') = set (fr A) \<and> ta A' = ta A \<and>
    (\<forall>j. j \<noteq> i \<longrightarrow> timers st' j = timers st j) \<and>
    (if i \<in> set (fr A) then r = -1 \<and> qu A' = qu A else r = 0 \<and> stopped i st' A A')"
  using assms by (rule stop_total)

theorem os_timer_stop_spec_witness:
  "\<exists>st A st' A'. api_inv st A \<and> 0 \<notin> set (fr A) \<and> os_timer_stop env0 (Some 0) st = Some (0, None, st') \<and> stopped 0 st' A A'"
proof -
  obtain st A where st: "api_inv st A" "fr A = [1..<256]" by (rule one_timer)
  have "0 \<notin> set (fr A)" "0 < TIMER_MAX" by (simp_all add: st(2) TIMER_MAX_def)
  with os_timer_stop_spec [OF st(1), of 0 env0] st(1) show ?thesis by auto
qed

lemma del_total:
  assumes inv: "api_inv st A" and i: "i < TIMER_MAX"
  shows "if i \<in> set (fr A) then os_timer_del env (Some i) st = Some (Returns (-1), set_errno EINVAL st)
    else \<exists>th \<in> active A. thread (timers st i) = Some th \<and>
      (if armed (timers st i) \<and> current_timer (threads st th) = Some i \<and> th_id (threads st th) \<noteq> pthread_self env
       then os_timer_del env (Some i) st = Some (Waits th, st)
       else \<exists>st'. os_timer_del env (Some i) st = Some (Returns 0, st') \<and> api_inv st' (freed i A) \<and>
         fr (freed i A) = fr A @ [i] \<and> ta (freed i A) = ta A \<and> (\<forall>th. i \<notin> set (qu (freed i A) th)) \<and>
         refcount (timers st' i) = 0 \<and> (\<forall>j. j \<noteq> i \<longrightarrow> timers st' j = timers st j))"
proof (cases "i \<in> set (fr A)")
  case True
  then show ?thesis using valid_iff [OF api_invD(1) [OF inv] i] by (simp add: os_timer_del_def timer_delete_def)
next
  case False
  note t = api_invD(1) [OF inv]
  have valid: "timer_valid (Some i) st" using valid_iff [OF t i] False by simp
  obtain th where th: "th \<in> active A" "thread (timers st i) = Some th" by (rule live_thread [OF t i False])
  obtain st' where fin: "timer_delete_finish i st = Some (Returns 0, st')" "tinv {} {} st' (freed i A)"
    "timers st' = (timers st)(i := (timers st i)\<lparr>refcount := 0, thread := None, inuse := TIMER_FREE\<rparr>)"
    by (rule delete_finish_ok [OF t i False])
  have fr: "fr (freed i A) = fr A @ [i]" using False by (simp add: remove1_idem)
  have out: "i \<notin> set (qu (freed i A) th)" for th using links_ok_distinct(2) [OF tinvD(1) [OF t], of th] by simp
  have "public_timer (timers st' j)" if "j < TIMER_MAX" "j \<notin> set (fr (freed i A))" for j
    using that api_invD(2) [OF inv, of j] fin(3) fr by auto
  then have "api_inv st' (freed i A)" using fin(2) by (simp add: api_inv_def)
  with False th valid fin(1,3) fr out show ?thesis
    by (auto simp: os_timer_del_def timer_delete_def timer_delete_wait_def intro!: bexI [of _ th])
qed

text \<open>C11: deleting.  \<open>os_timer_del\<close> on an id that is not in use returns -1 and changes only \<open>errno\<close>.  On a timer in use
  it waits exactly when the timer is armed, its handler is being run and the caller is not the thread that
  runs it; otherwise it returns 0 with the timer out of every queue, at the end of the free list, with no
  reference left, and all other timers untouched.\<close>

theorem os_timer_del_spec:
  assumes "api_inv st A" and "i < TIMER_MAX"
  shows "if i \<in> set (fr A) then os_timer_del env (Some i) st = Some (Returns (-1), set_errno EINVAL st)
    else \<exists>th \<in> active A. thread (timers st i) = Some th \<and>
      (if armed (timers st i) \<and> current_timer (threads st th) = Some i \<and> th_id (threads st th) \<noteq> pthread_self env
       then os_timer_del env (Some i) st = Some (Waits th, st)
       else \<exists>st'. os_timer_del env (Some i) st = Some (Returns 0, st') \<and> api_inv st' (freed i A) \<and>
         fr (freed i A) = fr A @ [i] \<and> ta (freed i A) = ta A \<and> (\<forall>th. i \<notin> set (qu (freed i A) th)) \<and>
         refcount (timers st' i) = 0 \<and> (\<forall>j. j \<noteq> i \<longrightarrow> timers st' j = timers st j))"
  using assms by (rule del_total)

theorem os_timer_del_spec_witness:
  "\<exists>st A st'. api_inv st A \<and> fr A = [1..<256] \<and> os_timer_del env0 (Some 0) st = Some (Returns 0, st') \<and>
     api_inv st' (freed 0 A) \<and> fr (freed 0 A) = [1..<256] @ [0]"
proof -
  obtain st A where st: "api_inv st A" "fr A = [1..<256]" "\<not> armed (timers st 0)" by (rule one_timer)
  have "0 \<notin> set (fr A)" "0 < TIMER_MAX" by (simp_all add: st(2) TIMER_MAX_def)
  with os_timer_del_spec [OF st(1), of 0 env0] st(3) obtain st' where
    "os_timer_del env0 (Some 0) st = Some (Returns 0, st')" "api_inv st' (freed 0 A)" "fr (freed 0 A) = fr A @ [0]"
    by auto
  with st(1,2) show ?thesis by metis
qed

section \<open>Firing\<close>

lemma queued_in_use:
  assumes "tinv {} {} st A" "i \<in> set (qu A th)"
  shows "i < TIMER_MAX" "i \<notin> set (fr A)" "th \<in> active A"
proof -
  note l = tinvD(1) [OF assms(1)]
  show "i < TIMER_MAX" by (rule links_okD(3) [OF l assms(2)])
  show "i \<notin> set (fr A)" using links_ok_apart(1) [OF l, of th] assms(2) by blast
  show "th \<in> active A" using links_okD(4) [OF l, of th] assms(2) by (cases "th \<in> active A") simp_all
qed

text \<open>What one expiry does, in terms of the time the loop works with.\<close>

definition fired :: "timespec \<Rightarrow> thread_id \<Rightarrow> nat \<Rightarrow> timer_sys \<Rightarrow> tabs \<Rightarrow> timer_sys \<Rightarrow> tabs \<Rightarrow> bool" where
  "fired now th i st A st' A' \<longleftrightarrow> fr A' = fr A \<and> ta A' = ta A \<and> (\<forall>j. j \<noteq> i \<longrightarrow> timers st' j = timers st j) \<and>
     threads st' = (threads st)(th := (threads st th)\<lparr>current_timer := Some i\<rparr>) \<and>
     (\<forall>th'. remove1 i (qu A' th') = remove1 i (qu A th')) \<and>
     (let iv = nanos (it_interval (tvalue (timers st i))) in
      if iv = 0 then timers st' i = timers st i \<and> i \<notin> set (qu A' th)
      else i \<in> set (qu A' th) \<and>
        (\<exists>k. expiry st' i = expiry st i + int (Suc k) * iv \<and> overrun_count (timers st' i) = min (int k) DELAYTIMER_MAX \<and>
           nanos now \<le> expiry st' i \<and> (\<forall>m < k. expiry st i + int (Suc m) * iv < nanos now)))"

lemma expire_spec_oneshot:
  assumes inv: "api_inv st A" and q: "qu A th = i # rest" and now: "ts_ok now" "expiry st i \<le> nanos now"
    and once: "nanos (it_interval (tvalue (timers st i))) = 0" and free: "i \<notin> set (fr A)"
  obtains st' A' where "thread_expire env th now i st = Some (Fire now i (fires th i st), st')" "api_inv st' A'" "fired now th i st A st' A'"
proof -
  note t = api_invD(1) [OF inv]
  have fr: "remove1 i (fr A) = fr A" using free by (rule remove1_idem)
  obtain st' where s: "thread_expire env th now i st = Some (Fire now i (fires th i st), st')"
    "tinv {} {} st' (drop_timer i A)" "timers st' = timers st"
    "threads st' = (threads st)(th := (threads st th)\<lparr>current_timer := Some i\<rparr>)"
    by (rule expire_oneshot [OF t q now once])
  have "api_inv st' (drop_timer i A)" by (rule api_inv_step [OF inv s(2)]) (simp_all add: fr s(3))
  moreover have "fired now th i st A st' (drop_timer i A)"
    using s(3,4) once links_ok_distinct(2) [OF tinvD(1) [OF t]] by (simp add: fired_def fr remove1_idem)
  ultimately show thesis using s(1) by (intro that)
qed

lemma expire_spec_periodic:
  assumes inv: "api_inv st A" and q: "qu A th = i # rest" and now: "ts_ok now" "expiry st i \<le> nanos now"
    and sec: "tv_sec now < 2 ^ 31 - 2147485" and period: "0 < nanos (it_interval (tvalue (timers st i)))" and free: "i \<notin> set (fr A)"
  obtains st' A' where "thread_expire env th now i st = Some (Fire now i (fires th i st), st')" "api_inv st' A'" "fired now th i st A st' A'"
proof -
  note t = api_invD(1) [OF inv]
  have out: "i \<notin> set (remove1 i (qu A th'))" for th' using links_ok_distinct(2) [OF tinvD(1) [OF t], of th'] by simp
  have fr: "remove1 i (fr A) = fr A" using free by (rule remove1_idem)
  obtain st' k where s: "thread_expire env th now i st = Some (Fire now i (fires th i st), st')"
    "tinv {} {} st' (queued_at st' th i (drop_timer i A))"
    "threads st' = (threads st)(th := (threads st th)\<lparr>current_timer := Some i\<rparr>)"
    "timers st' = (timers st)(i := (timers st i)\<lparr>overrun_count := min (int k) DELAYTIMER_MAX, expirytime := expirytime (timers st' i)\<rparr>)"
    "expiry st' i = expiry st i + int (Suc k) * nanos (it_interval (tvalue (timers st i)))"
    "nanos now \<le> expiry st' i" "k = 0 \<or> expiry st' i < nanos now + nanos (it_interval (tvalue (timers st i)))"
    by (rule expire_periodic [OF t q now sec period])
  have oc: "overrun_count (timers st' i) = min (int k) DELAYTIMER_MAX" by (subst s(4)) simp
  have same: "timers st' j = timers st j" if "j \<noteq> i" for j using that by (subst s(4)) simp
  have "public_timer (timers st' i) \<longleftrightarrow> public_timer (timers st i)" by (subst s(4)) (simp add: public_timer_def)
  with same have "public_timer (timers st' j)" if "public_timer (timers st j)" for j using that by (cases "j = i") auto
  then have "api_inv st' (queued_at st' th i (drop_timer i A))" by (intro api_inv_step [OF inv s(2)]) (simp_all add: fr)
  moreover have least: "expiry st i + int (Suc m) * nanos (it_interval (tvalue (timers st i))) < nanos now" if "m < k" for m
  proof -
    have "int (Suc m) * nanos (it_interval (tvalue (timers st i))) \<le> int k * nanos (it_interval (tvalue (timers st i)))"
      using that period by (intro mult_right_mono) auto
    then show ?thesis using s(5,7) that by (auto simp: algebra_simps)
  qed
  have "fired now th i st A st' (queued_at st' th i (drop_timer i A))"
    unfolding fired_def Let_def using s(3,5,6) oc same period out least
    by (auto simp: fr remove1_enqueue remove1_idem)
  with calculation show thesis using s(1) by (intro that)
qed

lemma expire_spec:
  assumes inv: "api_inv st A" and q: "qu A th = i # rest" and now: "ts_ok now" "expiry st i \<le> nanos now"
    and sec: "tv_sec now < 2 ^ 31 - 2147485"
  obtains st' A' where "thread_expire env th now i st =
      Some (Fire now i (Some (sigev_notify_function (event (timers st i)), sival_ptr (event (timers st i)))), st')"
    and "api_inv st' A'" "fired now th i st A st' A'"
proof -
  note t = api_invD(1) [OF inv]
  have i: "i < TIMER_MAX" "i \<notin> set (fr A)" "th \<in> active A" by (rule queued_in_use [OF t, of i th], simp add: q)+
  have "public_timer (timers st i)" by (rule api_invD(2) [OF inv i(1,2)])
  then have call: "fires th i st = Some (sigev_notify_function (event (timers st i)), sival_ptr (event (timers st i)))"
    by (simp add: fires_def thread_expire_timer_def public_timer_def Let_def)
  have "0 \<le> nanos (it_interval (tvalue (timers st i)))"
    using tinvD(7) [OF t, of i th] q by (auto simp: queued_ok_def interval_ok_def ts_ok_def nanos_def)
  then consider (once) "nanos (it_interval (tvalue (timers st i))) = 0" | (period) "0 < nanos (it_interval (tvalue (timers st i)))"
    by linarith
  then show thesis
  proof cases
    case once
    from expire_spec_oneshot [OF inv q now once i(2)] call show thesis by (metis that)
  next
    case period
    from expire_spec_periodic [OF inv q now sec period i(2)] call show thesis by (metis that)
  qed
qed

lemma round_total:
  assumes inv: "api_inv st A" and env: "env_ok env" and th: "th \<in> active A"
  shows "case qu A th of
      [] \<Rightarrow> thread_round env th st = Some (Sleep None, st)
    | i # rest \<Rightarrow> (\<forall>j \<in> set (qu A th). expiry st i \<le> expiry st j) \<and>
        (if monotonic env < expiry st i then \<exists>d. thread_round env th st = Some (Sleep (Some d), st)
         else \<exists>st' A'. thread_round env th st = Some (Fire (clock_gettime env CLOCK_MONOTONIC) i
             (Some (sigev_notify_function (event (timers st i)), sival_ptr (event (timers st i)))), st') \<and>
           api_inv st' A' \<and> fired (clock_gettime env CLOCK_MONOTONIC) th i st A st' A')"
proof (cases "qu A th")
  case Nil
  then show ?thesis using first_queued [OF tinvD(1) [OF api_invD(1) [OF inv]] th]
    by (simp add: thread_round_def list_null_def thread_sleep_def)
next
  case (Cons i rest)
  note t = api_invD(1) [OF inv]
  have i: "i < TIMER_MAX" "i \<notin> set (fr A)" by (rule queued_in_use [OF t, of i th], simp add: Cons)+
  have clk: "clock (timers st i) = CLOCK_MONOTONIC" using api_invD(2) [OF inv i] by (simp add: public_timer_def)
  let ?now = "clock_gettime env CLOCK_MONOTONIC"
  have now: "ts_ok ?now" "tv_sec ?now < 2 ^ 31 - 2147485" using env by (simp_all add: env_ok_def)
  have round: "thread_round env th st = thread_expire env th ?now i st"
    using first_queued [OF tinvD(1) [OF t] th] by (simp add: thread_round_def Cons list_null_def clk)
  have first: "\<forall>j \<in> set (qu A th). expiry st i \<le> expiry st j" using tinvD(8) [OF t, of th] Cons by auto
  show ?thesis
  proof (cases "monotonic env < expiry st i")
    case True
    then have "thread_round env th st = Some (thread_sleep env (Some i) st, st)"
      using due_iff [OF t _ now(1), of i th] Cons by (simp add: round thread_expire_def monotonic_def)
    with True first show ?thesis by (auto simp: Cons thread_sleep_def Let_def)
  next
    case False
    then have "expiry st i \<le> nanos ?now" by (simp add: monotonic_def)
    from expire_spec [OF inv Cons now(1) this now(2)] obtain st' A' where
      "thread_expire env th ?now i st =
        Some (Fire ?now i (Some (sigev_notify_function (event (timers st i)), sival_ptr (event (timers st i)))), st')"
      "api_inv st' A'" "fired ?now th i st A st' A'" .
    with False first round show ?thesis by (auto simp: Cons)
  qed
qed

text \<open>C3: the service thread.  When it looks at its queue it sleeps without a deadline if the queue is empty, sleeps
  if the first timer is not due, and otherwise fires the first timer, which is one with the earliest expiry of the
  queue: it calls that timer's handler with its argument.  A one-shot timer leaves the queue; a periodic
  one is queued again, in order, at its next expiry that is not before now, and its overrun
  count is the number of periods skipped.  No other timer changes.\<close>

theorem thread_round_spec:
  assumes inv: "api_inv st A" and env: "env_ok env" and th: "th \<in> active A"
  shows "case qu A th of
      [] \<Rightarrow> thread_round env th st = Some (Sleep None, st)
    | i # rest \<Rightarrow> (\<forall>j \<in> set (qu A th). expiry st i \<le> expiry st j) \<and>
        (if monotonic env < expiry st i then \<exists>d. thread_round env th st = Some (Sleep (Some d), st)
         else \<exists>st' A'. thread_round env th st = Some (Fire (clock_gettime env CLOCK_MONOTONIC) i
             (Some (sigev_notify_function (event (timers st i)), sival_ptr (event (timers st i)))), st') \<and>
           api_inv st' A' \<and> fired (clock_gettime env CLOCK_MONOTONIC) th i st A st' A')"
  using assms by (rule round_total)

lemma one_running:
  obtains st A th where "api_inv st A" "th \<in> active A" "qu A th = [0]" "expiry st 0 = 7050000000"
    "nanos (it_interval (tvalue (timers st 0))) = 50000000"
proof -
  obtain st where st: "api_inv st empty_tabs" using api_inv_static by blast
  obtain wake st' A' t where a: "api_inv st' A'" "thread (timers st' 0) = Some (Pool_thread t)"
    "running 0 (expirytime (timers st' 0)) (ms2ts 50) st' empty_tabs A'" "expiry st' 0 = monotonic env0 + 50 * 1000000"
    by (rule add_ok [OF st env0_ok _ _ fr_empty_tabs can_serve_empty, of 50 10 TIMER_INTERVAL 3 4])
       (simp, simp, simp add: TIMER_STOPPED_def TIMER_INTERVAL_def TIMER_ONESHOT_def TIMER_ABSTIME_def)
  let ?th = "Pool_thread t"
  have "0 \<in> set (qu A' ?th)" "remove1 0 (qu A' ?th) = []" using a(2,3) by (auto simp: running_def)
  then have q: "qu A' ?th = [0]" by (cases "qu A' ?th") (auto split: if_splits)
  have "nanos (it_interval (tvalue (timers st' 0))) = 50000000" using a(3) ms2ts_ok(2) [of 50] by (simp add: running_def)
  moreover have "expiry st' 0 = 7050000000" using a(4) by (simp add: monotonic_def env0_def nanos_def)
  ultimately show thesis using a(1) q queued_in_use(3) [OF api_invD(1) [OF a(1)], of 0 ?th]
    by (intro that [of st' A' ?th]) simp_all
qed

definition env1 :: env where
  "env1 = env0\<lparr>clock_gettime := (\<lambda>_. \<lparr>tv_sec = 8, tv_nsec = 0\<rparr>)\<rparr>"

theorem thread_round_spec_witness:
  "\<exists>st A th st' A' c. api_inv st A \<and> qu A th = [0] \<and>
     thread_round env1 th st = Some (Fire \<lparr>tv_sec = 8, tv_nsec = 0\<rparr> 0 (Some c), st') \<and> api_inv st' A' \<and>
     expiry st' 0 = 8000000000 \<and> overrun_count (timers st' 0) = 18"
proof -
  obtain st A th where st: "api_inv st A" "th \<in> active A" "qu A th = [0]" "expiry st 0 = 7050000000"
    "nanos (it_interval (tvalue (timers st 0))) = 50000000" by (rule one_running)
  have env: "env_ok env1" "monotonic env1 = 8000000000" "clock_gettime env1 CLOCK_MONOTONIC = \<lparr>tv_sec = 8, tv_nsec = 0\<rparr>"
    by (simp_all add: env_ok_def env1_def env0_def ts_ok_def monotonic_def nanos_def)
  from thread_round_spec [OF st(1) env(1) st(2)] st obtain st' A' c where
    f: "thread_round env1 th st = Some (Fire \<lparr>tv_sec = 8, tv_nsec = 0\<rparr> 0 (Some c), st')" "api_inv st' A'"
      "fired \<lparr>tv_sec = 8, tv_nsec = 0\<rparr> th 0 st A st' A'" by (auto simp: env(2,3))
  then obtain k where k: "expiry st' 0 = 7050000000 + int (Suc k) * 50000000" "overrun_count (timers st' 0) = min (int k) DELAYTIMER_MAX"
    "8000000000 \<le> expiry st' 0" "\<forall>m < k. 7050000000 + int (Suc m) * 50000000 < 8000000000"
    using st(4,5) by (auto simp: fired_def Let_def nanos_def)
  have "\<not> 18 < k" using k(4) by (auto dest: spec [of _ 18])
  moreover have "18 \<le> k" using k(1,3) by simp
  ultimately have "k = 18" by simp
  with k(1,2) have "expiry st' 0 = 8000000000" "overrun_count (timers st' 0) = 18" by (simp_all add: DELAYTIMER_MAX_def)
  with f(1,2) st(1,3) show ?thesis by blast
qed

section \<open>Two deletions of one timer\<close>

text \<open>C39: a deletion that waits for the handler does not check the timer again when it goes on.  If another
  call has deleted the timer in between, the waiting call still returns 0, but it takes the structure out of the free list
  with a reference count of -1 and leaves it marked as deleted: no list holds it any more, so it is lost
  for the rest of the run.\<close>

theorem os_timer_del_twice:
  assumes inv: "api_inv st A" and i: "i \<in> set (fr A)" and go: "current_timer (threads st th) \<noteq> Some i"
  shows "\<exists>st'. timer_delete_wait env th i st = Some (Returns 0, st') \<and> inuse (timers st' i) = TIMER_DELETED \<and>
    refcount (timers st' i) = -1 \<and> links_ok (tlinks st') (drop_timer i A) \<and>
    i \<notin> set (fr (drop_timer i A)) \<and> (\<forall>th. i \<notin> set (qu (drop_timer i A) th))"
proof -
  note t = api_invD(1) [OF inv]
  have lt: "i < TIMER_MAX" by (rule links_okD(2) [OF tinvD(1) [OF t] i])
  from tinv_take [OF t lt] obtain L where
    L: "on_links (list_unlink_ip (Timer_links i)) st = Some (st\<lparr>tlinks := L\<rparr>)"
      "tinv {i} {} (st\<lparr>tlinks := L\<rparr>) (drop_timer i A)" .
  have "refcount (timers st i) = 0" using tinvD(5) [OF t i] by (simp add: free_ok_def)
  moreover have "links_ok L (drop_timer i A)" using tinvD(1) [OF L(2)] by simp
  moreover have "i \<notin> set (fr (drop_timer i A))" "\<And>th. i \<notin> set (qu (drop_timer i A) th)"
    by (rule in_hand_out [OF L(2) lt], simp)+
  ultimately show ?thesis using L(1) go
    by (simp add: timer_delete_wait_def timer_delete_finish_def timer_delref_def on_links_upd upd_upd Let_def)
qed

theorem os_timer_del_twice_witness:
  "\<exists>st st'. api_inv st empty_tabs \<and> timer_delete_wait env0 (Pool_thread 0) 3 (upd_thread (Pool_thread 0) (\<lambda>n. n\<lparr>current_timer := None\<rparr>) st) =
     Some (Returns 0, st') \<and> refcount (timers st' 3) = -1"
proof -
  obtain st where st: "api_inv st empty_tabs" using api_inv_static by blast
  let ?st = "upd_thread (Pool_thread 0) (\<lambda>n. n\<lparr>current_timer := None\<rparr>) st"
  have "tinv {} {} ?st empty_tabs" by (rule tinv_upd_thread [OF api_invD(1) [OF st]]) simp_all
  then have "api_inv ?st empty_tabs" by (simp add: api_inv_def)
  from os_timer_del_twice [OF this, of 3 "Pool_thread 0" env0] st show ?thesis by (auto simp: TIMER_MAX_def)
qed

end
