(* ===== verification/OsTimerRun.thy ===== *)
theory OsTimerRun
  imports OsTimerApi
begin

text \<open>
  The timer module under concurrent use.  Every public function and every section of a service thread that holds \<open>__timer_mutex\<close> is one step; the steps of
  any number of callers and of all service threads interleave freely.  A service thread is either at the start of its loop or in a handler, which runs without the mutex and may itself call the
  public functions; a deletion that found the handler running is waiting.  The steps are those of a client that does not delete
  a timer while another deletion of the same timer is waiting: \<open>os_timer_del_twice\<close> shows what happens otherwise.
\<close>

section \<open>The transition system\<close>

text \<open>\<open>phase th\<close> is \<open>None\<close> for a thread that was never started, \<open>Some None\<close> at the start of the loop, and \<open>Some (Some now)\<close> in a handler, \<open>now\<close> being the time
  the loop works with.\<close>

record timer_run =
  tmod :: timer_sys
  phase :: "thread_id \<Rightarrow> timespec option option"
  waiting :: "(thread_id \<times> nat) list"

definition thread_started :: "nat option \<Rightarrow> timer_sys \<Rightarrow> (thread_id \<Rightarrow> timespec option option) \<Rightarrow> thread_id \<Rightarrow> timespec option option" where
  "thread_started tid st ph = (case tid of
     None \<Rightarrow> ph
   | Some i \<Rightarrow> (case thread (timers st i) of
       None \<Rightarrow> ph
     | Some th \<Rightarrow> if ph th = None then ph(th := Some None) else ph))"

text \<open>The identifiers a caller may pass: a null pointer or the address of a timer structure, in use or not.\<close>

definition id_ok :: "nat option \<Rightarrow> bool" where
  "id_ok tid \<longleftrightarrow> (\<forall>i. tid = Some i \<longrightarrow> i < TIMER_MAX)"

inductive run_step :: "timer_run \<Rightarrow> timer_run \<Rightarrow> bool" where
  add: "env_ok env \<Longrightarrow> ms < 2 ^ 31 \<Longrightarrow> os_timer_add env prio ms flag handler arg given (tmod r) = Some (ret, tid, wake, st) \<Longrightarrow>
    run_step r (r\<lparr>tmod := st, phase := thread_started tid st (phase r)\<rparr>)"
| start: "env_ok env \<Longrightarrow> id_ok tid \<Longrightarrow> os_timer_start env tid (tmod r) = Some (ret, wake, st) \<Longrightarrow> run_step r (r\<lparr>tmod := st\<rparr>)"
| reset: "env_ok env \<Longrightarrow> id_ok tid \<Longrightarrow> os_timer_reset env tid (tmod r) = Some (ret, wake, st) \<Longrightarrow> run_step r (r\<lparr>tmod := st\<rparr>)"
| stop: "id_ok tid \<Longrightarrow> os_timer_stop env tid (tmod r) = Some (ret, wake, st) \<Longrightarrow> run_step r (r\<lparr>tmod := st\<rparr>)"
| settime: "id_ok tid \<Longrightarrow> ms < 2 ^ 31 \<Longrightarrow> os_timer_settime tid ms (tmod r) = Some (ret, st) \<Longrightarrow> run_step r (r\<lparr>tmod := st\<rparr>)"
| delete: "id_ok tid \<Longrightarrow> \<forall>i. tid = Some i \<longrightarrow> i \<notin> snd ` set (waiting r) \<Longrightarrow> os_timer_del env tid (tmod r) = Some (Returns ret, st) \<Longrightarrow>
    run_step r (r\<lparr>tmod := st\<rparr>)"
| delete_waits: "i < TIMER_MAX \<Longrightarrow> i \<notin> snd ` set (waiting r) \<Longrightarrow> os_timer_del env (Some i) (tmod r) = Some (Waits th, st) \<Longrightarrow>
    run_step r (r\<lparr>tmod := st, waiting := (th, i) # waiting r\<rparr>)"
| delete_goes_on: "waiting r = xs @ (th, i) # ys \<Longrightarrow> timer_delete_wait env th i (tmod r) = Some (Returns ret, st) \<Longrightarrow>
    run_step r (r\<lparr>tmod := st, waiting := xs @ ys\<rparr>)"
| fires: "phase r th = Some None \<Longrightarrow> env_ok env \<Longrightarrow> thread_round env th (tmod r) = Some (Fire now i call, st) \<Longrightarrow>
    run_step r (r\<lparr>tmod := st, phase := (phase r)(th := Some (Some now))\<rparr>)"
| fires_next: "phase r th = Some (Some now) \<Longrightarrow> thread_after_handler env th now (tmod r) = Some (Fire now' i call, st) \<Longrightarrow>
    run_step r (r\<lparr>tmod := st, phase := (phase r)(th := Some (Some now'))\<rparr>)"
| handler_done: "phase r th = Some (Some now) \<Longrightarrow> thread_after_handler env th now (tmod r) = Some (Sleep d, st) \<Longrightarrow>
    run_step r (r\<lparr>tmod := st, phase := (phase r)(th := Some None)\<rparr>)"

inductive_cases run_stepE: "run_step r r'"

text \<open>The module as \<open>pthread_once\<close> leaves it, no thread started, nobody waiting.\<close>

definition run_initial :: "timer_run \<Rightarrow> bool" where
  "run_initial r \<longleftrightarrow> (\<exists>env. timer_init_once env timer_static = Some (tmod r)) \<and> phase r = (\<lambda>_. None) \<and> waiting r = []"

section \<open>The invariant\<close>

definition now_ok :: "timespec \<Rightarrow> bool" where
  "now_ok now \<longleftrightarrow> ts_ok now \<and> tv_sec now < 2 ^ 31 - 2147485"

definition run_inv :: "timer_run \<Rightarrow> tabs \<Rightarrow> bool" where
  "run_inv r A \<longleftrightarrow> api_inv (tmod r) A \<and> (\<forall>th. phase r th \<noteq> None \<longrightarrow> th \<in> active A) \<and>
     (\<forall>th now. phase r th = Some (Some now) \<longrightarrow> now_ok now) \<and>
     (\<forall>(th, i) \<in> set (waiting r). i < TIMER_MAX \<and> i \<notin> set (fr A)) \<and> distinct (map snd (waiting r))"

lemma run_invD:
  assumes "run_inv r A"
  shows "api_inv (tmod r) A" "phase r th \<noteq> None \<Longrightarrow> th \<in> active A" "phase r th = Some (Some now) \<Longrightarrow> now_ok now"
    "(th, i) \<in> set (waiting r) \<Longrightarrow> i < TIMER_MAX \<and> i \<notin> set (fr A)" "distinct (map snd (waiting r))"
  using assms by (auto simp: run_inv_def)

lemma active_mono: "set (ta A) \<subseteq> set (ta A') \<Longrightarrow> th \<in> active A \<Longrightarrow> th \<in> active A'"
  by (auto simp: active_def)

text \<open>A step that keeps the timers in use and the threads.\<close>

lemma run_inv_mod:
  assumes "run_inv r A" "api_inv st A'" "set (fr A') \<subseteq> set (fr A)" "set (ta A) \<subseteq> set (ta A')"
  shows "run_inv (r\<lparr>tmod := st\<rparr>) A'"
  using assms active_mono by (fastforce simp: run_inv_def)

lemma run_inv_phase:
  assumes "run_inv r A" "th \<in> active A" "\<And>now. p = Some (Some now) \<Longrightarrow> now_ok now"
  shows "run_inv (r\<lparr>phase := (phase r)(th := p)\<rparr>) A"
  using assms by (auto simp: run_inv_def)

lemma env_now_ok: "env_ok env \<Longrightarrow> now_ok (clock_gettime env CLOCK_MONOTONIC)"
  by (simp add: env_ok_def now_ok_def)

section \<open>The steps of a service thread\<close>

lemma round_step:
  assumes "api_inv st A" "env_ok env" "th \<in> active A"
  shows "\<exists>out st' A'. thread_round env th st = Some (out, st') \<and> api_inv st' A' \<and> fr A' = fr A \<and> ta A' = ta A \<and>
    (\<forall>now i call. out = Fire now i call \<longrightarrow> now_ok now)"
proof (cases "qu A th")
  case Nil
  then show ?thesis using round_total [OF assms] assms(1) by auto
next
  case (Cons i rest)
  show ?thesis
  proof (cases "monotonic env < expiry st i")
    case True
    then show ?thesis using round_total [OF assms] assms(1) Cons by auto
  next
    case False
    with round_total [OF assms] Cons obtain st' A' call where
      "thread_round env th st = Some (Fire (clock_gettime env CLOCK_MONOTONIC) i call, st')" "api_inv st' A'"
      "fired (clock_gettime env CLOCK_MONOTONIC) th i st A st' A'" by auto
    moreover from this(3) have "fr A' = fr A" "ta A' = ta A" by (simp_all add: fired_def)
    ultimately show ?thesis using env_now_ok [OF assms(2)] by blast
  qed
qed

lemma after_handler_step:
  assumes inv: "api_inv st A" and th: "th \<in> active A" and now: "now_ok now"
  shows "\<exists>out st' A'. thread_after_handler env th now st = Some (out, st') \<and> api_inv st' A' \<and> fr A' = fr A \<and> ta A' = ta A \<and>
    (\<forall>now' i call. out = Fire now' i call \<longrightarrow> now_ok now') \<and> (\<forall>d. out = Sleep d \<longrightarrow> current_timer (threads st' th) = None)"
proof -
  define st0 where "st0 = upd_thread th (\<lambda>t. t\<lparr>current_timer := None\<rparr>) st"
  have t0: "tinv {} {} st0 A" unfolding st0_def by (rule tinv_upd_thread [OF api_invD(1) [OF inv]]) simp_all
  then have inv0: "api_inv st0 A" using inv by (simp add: api_inv_def st0_def)
  have cur: "current_timer (threads st0 th) = None" by (simp add: st0_def)
  note first = first_queued [OF tinvD(1) [OF t0] th]
  show ?thesis
  proof (cases "qu A th")
    case Nil
    then have "thread_after_handler env th now st = Some (thread_sleep env None st0, st0)"
      using first by (simp add: thread_after_handler_def st0_def [symmetric] list_null_def)
    with inv0 cur show ?thesis by (intro exI conjI) (auto simp: thread_sleep_def)
  next
    case (Cons i rest)
    then have go: "thread_after_handler env th now st = thread_expire env th now i st0"
      using first by (simp add: thread_after_handler_def st0_def [symmetric] list_null_def)
    show ?thesis
    proof (cases "nanos now < expiry st0 i")
      case True
      then have "thread_expire env th now i st0 = Some (thread_sleep env (Some i) st0, st0)"
        using due_iff [OF t0 _ , of i th now] Cons now by (simp add: thread_expire_def now_ok_def)
      with go inv0 cur show ?thesis by (intro exI conjI) (auto simp: thread_sleep_def Let_def)
    next
      case False
      then have due: "expiry st0 i \<le> nanos now" by simp
      from now have n: "ts_ok now" "tv_sec now < 2 ^ 31 - 2147485" by (simp_all add: now_ok_def)
      from expire_spec [OF inv0 Cons n(1) due n(2)] obtain st' A' where
        "thread_expire env th now i st0 = Some (Fire now i (Some (sigev_notify_function (event (timers st0 i)), sival_ptr (event (timers st0 i)))), st')"
        "api_inv st' A'" "fired now th i st0 A st' A'" by blast
      moreover from this(3) have "fr A' = fr A" "ta A' = ta A" by (simp_all add: fired_def)
      ultimately show ?thesis using go now by auto
    qed
  qed
qed

section \<open>The steps of callers\<close>

lemma api_inv_errno [simp]: "api_inv (set_errno e st) A = api_inv st A"
  by (simp add: api_inv_def)

lemma start_step:
  assumes inv: "api_inv st A" and "env_ok env" "id_ok tid"
  shows "\<exists>ret wake st' A'. os_timer_start env tid st = Some (ret, wake, st') \<and> api_inv st' A' \<and> set (fr A') = set (fr A) \<and> ta A' = ta A"
proof (cases tid)
  case None
  with inv show ?thesis by (auto simp: os_timer_start_def timer_valid_def)
next
  case (Some i)
  with assms(3) have "i < TIMER_MAX" by (simp add: id_ok_def)
  note st = start_total [OF inv assms(2) this]
  show ?thesis
  proof (cases "i \<in> set (fr A)")
    case True
    with st inv Some show ?thesis by auto
  next
    case False
    with st obtain wake st' A' where "os_timer_start env (Some i) st = Some (0, wake, st')" "api_inv st' A'" "fr A' = fr A" "ta A' = ta A" by auto
    with Some show ?thesis by auto
  qed
qed

lemma stop_step:
  assumes inv: "api_inv st A" and "id_ok tid"
  shows "\<exists>ret wake st' A'. os_timer_stop env tid st = Some (ret, wake, st') \<and> api_inv st' A' \<and> set (fr A') = set (fr A) \<and> ta A' = ta A"
proof (cases tid)
  case None
  with inv show ?thesis by (auto simp: os_timer_stop_def timer_settime_def)
next
  case (Some i)
  with assms(2) have "i < TIMER_MAX" by (simp add: id_ok_def)
  from stop_total [OF inv this, of env] show ?thesis using Some by auto
qed

lemma settime_step:
  assumes inv: "api_inv st A" and "ms < 2 ^ 31"
  shows "\<exists>ret st'. os_timer_settime tid ms st = Some (ret, st') \<and> api_inv st' A"
proof (cases "ms \<le> 0 \<or> \<not> timer_valid tid st")
  case True
  then show ?thesis using inv by (auto simp: os_timer_settime_def)
next
  case False
  then obtain i where i: "tid = Some i" by (auto simp: timer_valid_def split: option.splits)
  let ?st = "upd_timer i (\<lambda>t. t\<lparr>millisec := ms\<rparr>) st"
  have "tinv {} {} ?st A" by (rule tinv_upd_other [OF api_invD(1) [OF inv]]) simp_all
  then have "api_inv ?st A" using inv False assms(2) by (auto simp: api_inv_def public_timer_def)
  with False i show ?thesis by (auto simp: os_timer_settime_def)
qed

lemma del_step:
  assumes inv: "api_inv st A" and "id_ok tid"
  shows "(\<exists>st'. os_timer_del env tid st = Some (Returns (-1), st') \<and> api_inv st' A) \<or>
    (\<exists>i. tid = Some i \<and> i < TIMER_MAX \<and> i \<notin> set (fr A) \<and>
       ((\<exists>th. os_timer_del env tid st = Some (Waits th, st)) \<or> (\<exists>st'. os_timer_del env tid st = Some (Returns 0, st') \<and> api_inv st' (freed i A))))"
proof (cases tid)
  case None
  with inv show ?thesis by (auto simp: os_timer_del_def timer_delete_def timer_valid_def)
next
  case (Some i)
  with assms(2) have i: "i < TIMER_MAX" by (simp add: id_ok_def)
  with del_total [OF inv i, of env] inv Some show ?thesis by (cases "i \<in> set (fr A)") (auto split: if_splits)
qed

lemma delete_wait_step:
  assumes inv: "api_inv st A" and i: "i < TIMER_MAX" "i \<notin> set (fr A)"
  shows "if current_timer (threads st th) = Some i \<and> th_id (threads st th) \<noteq> pthread_self env
    then timer_delete_wait env th i st = Some (Waits th, st)
    else \<exists>st'. timer_delete_wait env th i st = Some (Returns 0, st') \<and> api_inv st' (freed i A)"
proof -
  obtain st' where fin: "timer_delete_finish i st = Some (Returns 0, st')" "tinv {} {} st' (freed i A)"
    "timers st' = (timers st)(i := (timers st i)\<lparr>refcount := 0, thread := None, inuse := TIMER_FREE\<rparr>)"
    by (rule delete_finish_ok [OF api_invD(1) [OF inv] i])
  have "fr (freed i A) = fr A @ [i]" using i(2) by (simp add: remove1_idem)
  then have "public_timer (timers st' j)" if "j < TIMER_MAX" "j \<notin> set (fr (freed i A))" for j
    using that api_invD(2) [OF inv, of j] fin(3) by auto
  then have "api_inv st' (freed i A)" using fin(2) by (simp add: api_inv_def)
  with fin(1) show ?thesis by (simp add: timer_delete_wait_def)
qed

section \<open>Safety\<close>

lemma thread_started_inv:
  assumes inv: "run_inv r A" and tid: "\<And>i th. tid = Some i \<Longrightarrow> thread (timers st i) = Some th \<Longrightarrow> th \<in> active A"
  shows "run_inv (r\<lparr>phase := thread_started tid st (phase r)\<rparr>) A"
proof (cases "\<exists>i th. tid = Some i \<and> thread (timers st i) = Some th \<and> phase r th = None")
  case True
  then obtain i th where t: "tid = Some i" "thread (timers st i) = Some th" "phase r th = None" by blast
  with run_inv_phase [OF inv tid [OF t(1,2)], of "Some None"] show ?thesis by (simp add: thread_started_def)
next
  case False
  then have "thread_started tid st (phase r) = phase r" by (auto simp: thread_started_def split: option.splits)
  with inv show ?thesis by simp
qed

lemma add_step:
  assumes inv: "run_inv r A" and env: "env_ok env" and ms: "ms < 2 ^ 31"
    and call: "os_timer_add env prio ms flag handler arg given (tmod r) = Some (ret, tid, wake, st)"
  shows "\<exists>A'. run_inv (r\<lparr>tmod := st, phase := thread_started tid st (phase r)\<rparr>) A'"
proof -
  note api = run_invD(1) [OF inv]
  consider (bad) "ms \<le> 0 \<or> handler = None \<or> \<not> given"
    | (full) f where "0 < ms" "handler = Some f" "given" "fr A = [] \<or> \<not> can_serve env (tmod r) A (timer_attr prio) CLOCK_MONOTONIC"
    | (ok) f i rest where "0 < ms" "handler = Some f" "given" "fr A = i # rest" "can_serve env (tmod r) A (timer_attr prio) CLOCK_MONOTONIC"
    by (cases handler; cases "fr A"; force)
  then have "\<exists>A'. run_inv (r\<lparr>tmod := st\<rparr>) A' \<and> (\<forall>i th. tid = Some i \<longrightarrow> thread (timers st i) = Some th \<longrightarrow> th \<in> active A')"
  proof cases
    case bad
    then have "tid = None" "st = tmod r" using call by (auto simp: os_timer_add_def)
    with inv show ?thesis by auto
  next
    case full
    obtain st' A' where a: "os_timer_add env prio ms flag (Some f) arg True (tmod r) = Some (-1, None, None, st')"
      "api_inv st' A'" "set (fr A') = set (fr A)" "ta A' = ta A"
      by (rule add_full [OF api full(1,4)]) blast
    with call full have "tid = None" "st = st'" by auto
    with run_inv_mod [OF inv a(2)] a(3,4) show ?thesis by auto
  next
    case ok
    obtain wake' st' A' t where a: "os_timer_add env prio ms flag (Some f) arg True (tmod r) = Some (0, Some i, wake', st')"
      "api_inv st' A'" "fr A' = rest" "thread (timers st' i) = Some (Pool_thread t)" "t \<in> set (ta A')" "set (ta A) \<subseteq> set (ta A')"
      by (rule add_ok [OF api env ok(1) ms ok(4,5), where flag = flag and f = f and arg = arg]) blast
    with call ok have "tid = Some i" "st = st'" by auto
    moreover have "run_inv (r\<lparr>tmod := st'\<rparr>) A'" by (rule run_inv_mod [OF inv a(2) _ a(6)]) (use a(3) ok(4) in auto)
    ultimately show ?thesis using a(4,5) by (auto simp: active_def)
  qed
  then obtain A' where A': "run_inv (r\<lparr>tmod := st\<rparr>) A'" "\<And>i th. tid = Some i \<Longrightarrow> thread (timers st i) = Some th \<Longrightarrow> th \<in> active A'" by blast
  have "run_inv (r\<lparr>tmod := st, phase := thread_started tid st (phase (r\<lparr>tmod := st\<rparr>))\<rparr>) A'"
    by (rule thread_started_inv [OF A'(1)]) (rule A'(2))
  then show ?thesis by auto
qed

text \<open>Deleting a timer that nobody is waiting for.\<close>

lemma run_inv_freed:
  assumes inv: "run_inv r A" and st: "api_inv st (freed i A)" and w: "i \<notin> snd ` set (waiting r)"
  shows "run_inv (r\<lparr>tmod := st\<rparr>) (freed i A)"
proof -
  have "j \<noteq> i" if "(th, j) \<in> set (waiting r)" for th j using that w by force
  moreover have "set (fr (freed i A)) \<subseteq> insert i (set (fr A))" by (auto simp: freed_def drop_timer_def dest: notin_set_remove1)
  ultimately show ?thesis using inv st by (auto simp: run_inv_def active_def freed_def drop_timer_def dest: notin_set_remove1)
qed

lemma delete_inv:
  assumes inv: "run_inv r A" and "id_ok tid" "\<forall>i. tid = Some i \<longrightarrow> i \<notin> snd ` set (waiting r)" "os_timer_del env tid (tmod r) = Some (Returns ret, st)"
  shows "\<exists>A'. run_inv (r\<lparr>tmod := st\<rparr>) A'"
  using del_step [OF run_invD(1) [OF inv] assms(2), of env]
proof (elim disjE exE conjE)
  fix st' assume "os_timer_del env tid (tmod r) = Some (Returns (-1), st')" "api_inv st' A"
  with assms(4) run_inv_mod [OF inv, of st A] show ?thesis by auto
next
  fix i st' assume "tid = Some i" "os_timer_del env tid (tmod r) = Some (Returns 0, st')" "api_inv st' (freed i A)"
  with assms(3,4) run_inv_freed [OF inv, of st i] show ?thesis by auto
qed (use assms(4) in auto)

lemma delete_waits_inv:
  assumes inv: "run_inv r A" and i: "i < TIMER_MAX" "i \<notin> snd ` set (waiting r)" and del: "os_timer_del env (Some i) (tmod r) = Some (Waits th, st)"
  shows "run_inv (r\<lparr>tmod := st, waiting := (th, i) # waiting r\<rparr>) A"
proof -
  have "st = tmod r" "i \<notin> set (fr A)" using del_step [OF run_invD(1) [OF inv], of "Some i" env] i(1) del by (auto simp: id_ok_def)
  with inv i show ?thesis by (auto simp: run_inv_def)
qed

lemma delete_goes_on_inv:
  assumes inv: "run_inv r A" and w: "waiting r = xs @ (th, i) # ys" and del: "timer_delete_wait env th i (tmod r) = Some (Returns ret, st)"
  shows "run_inv (r\<lparr>tmod := st, waiting := xs @ ys\<rparr>) (freed i A)"
proof -
  have i: "i < TIMER_MAX" "i \<notin> set (fr A)" using run_invD(4) [OF inv, of th i] w by auto
  have st: "api_inv st (freed i A)" using delete_wait_step [OF run_invD(1) [OF inv] i, of th env] del by (auto split: if_splits)
  have keep: "run_inv (r\<lparr>waiting := xs @ ys\<rparr>) A" using inv w by (auto simp: run_inv_def)
  have out: "i \<notin> snd ` set (waiting (r\<lparr>waiting := xs @ ys\<rparr>))" using run_invD(5) [OF inv] w by auto
  from run_inv_freed [OF keep st out] show ?thesis by (simp add: run_inv_def)
qed

text \<open>A section of a service thread ends in a handler or at the start of the loop.\<close>

lemma thread_section_inv:
  assumes inv: "run_inv r A" and th: "th \<in> active A" and st: "api_inv st A'" "fr A' = fr A" "ta A' = ta A" and p: "\<And>now. p = Some (Some now) \<Longrightarrow> now_ok now"
  shows "run_inv (r\<lparr>tmod := st, phase := (phase r)(th := p)\<rparr>) A'"
proof -
  have "run_inv (r\<lparr>tmod := st\<rparr>) A'" by (rule run_inv_mod [OF inv st(1)]) (simp_all add: st)
  from run_inv_phase [OF this, of th p] th p st(3) show ?thesis by (auto simp: active_def)
qed

lemma fires_inv:
  assumes inv: "run_inv r A" and ph: "phase r th = Some None" and env: "env_ok env" and go: "thread_round env th (tmod r) = Some (Fire now i call, st)"
  shows "\<exists>A'. run_inv (r\<lparr>tmod := st, phase := (phase r)(th := Some (Some now))\<rparr>) A'"
proof -
  have th: "th \<in> active A" using run_invD(2) [OF inv, of th] ph by simp
  from round_step [OF run_invD(1) [OF inv] env th] go obtain A' where "api_inv st A'" "fr A' = fr A" "ta A' = ta A" "now_ok now" by auto
  with thread_section_inv [OF inv th, of st A' "Some (Some now)"] show ?thesis by auto
qed

lemma after_handler_inv:
  assumes inv: "run_inv r A" and ph: "phase r th = Some (Some now)" and go: "thread_after_handler env th now (tmod r) = Some (out, st)"
    and p: "case out of Fire now' i call \<Rightarrow> p = Some (Some now') | Sleep d \<Rightarrow> p = Some None"
  shows "\<exists>A'. run_inv (r\<lparr>tmod := st, phase := (phase r)(th := p)\<rparr>) A'"
proof -
  have th: "th \<in> active A" "now_ok now" using run_invD(2,3) [OF inv, of th] ph by simp_all
  from after_handler_step [OF run_invD(1) [OF inv] th, of env] go obtain A' where
    "api_inv st A'" "fr A' = fr A" "ta A' = ta A" "\<forall>now' i call. out = Fire now' i call \<longrightarrow> now_ok now'" by auto
  with thread_section_inv [OF inv th(1), of st A' p] p show ?thesis by (auto split: thread_out.splits)
qed

lemma run_step_inv:
  assumes "run_step r r'" "run_inv r A"
  shows "\<exists>A'. run_inv r' A'"
proof -
  note inv = assms(2) and api = run_invD(1) [OF assms(2)]
  have keep: "\<exists>A'. run_inv (r\<lparr>tmod := st\<rparr>) A'" if "api_inv st A'" "set (fr A') = set (fr A)" "ta A' = ta A" for st A'
    using run_inv_mod [OF inv that(1)] that(2,3) by auto
  from assms(1) show ?thesis
  proof cases
    case (start env tid ret wake st)
    with start_step [OF api start(2,3)] keep show ?thesis by auto
  next
    case (reset env tid ret wake st)
    with start_step [OF api reset(2,3)] keep show ?thesis by (auto simp: os_timer_reset_def)
  next
    case (stop tid env ret wake st)
    with stop_step [OF api stop(2), of env] keep show ?thesis by auto
  next
    case (settime tid ms ret st)
    with settime_step [OF api settime(3), of tid] keep show ?thesis by auto
  next
    case (add env ms prio flag handler arg given ret tid wake st)
    with add_step [OF inv] show ?thesis by blast
  next
    case (delete tid env ret st)
    with delete_inv [OF inv delete(2-4)] show ?thesis by simp
  next
    case (delete_waits i env th st)
    with delete_waits_inv [OF inv delete_waits(2-4)] show ?thesis by auto
  next
    case (delete_goes_on xs th i ys env ret st)
    with delete_goes_on_inv [OF inv delete_goes_on(2,3)] show ?thesis by auto
  next
    case (fires th env now i call st)
    with fires_inv [OF inv fires(2-4)] show ?thesis by simp
  next
    case (fires_next th now env now' i call st)
    with after_handler_inv [OF inv fires_next(2,3)] show ?thesis by simp
  next
    case (handler_done th now env d st)
    with after_handler_inv [OF inv handler_done(2,3)] show ?thesis by simp
  qed
qed

lemma reachable_inv:
  assumes "run_initial r0" "run_step\<^sup>*\<^sup>* r0 r"
  shows "\<exists>A. run_inv r A"
  using assms(2)
proof induction
  case base
  from assms(1) obtain env where "timer_init_once env timer_static = Some (tmod r0)" by (auto simp: run_initial_def)
  then have "api_inv (tmod r0) empty_tabs" using api_inv_static [of env] by auto
  then show ?case using assms(1) by (auto simp: run_inv_def run_initial_def)
next
  case (step r r')
  then show ?case using run_step_inv by blast
qed



end
