(* ===== verification/OsalStatus.thy ===== *)
theory OsalStatus
  imports Prelude
begin

text \<open>
  The status codes of the portability layer, \<open>src/osal/osal_cmn.h\<close>.  \<open>OSAL_STATUS_EMPTY\<close> is defined
  there from \<open>OSAL_ENOMEM\<close>, not from \<open>OSAL_EEMPTY\<close>.
\<close>

definition OSAL_EOK :: int where [simp]: "OSAL_EOK = 0"
definition OSAL_ERROR :: int where "OSAL_ERROR = 1"

definition OSAL_STATUS_SUCCESS :: int where "OSAL_STATUS_SUCCESS = 0"
definition OSAL_STATUS_TIMEOUT :: int where "OSAL_STATUS_TIMEOUT = -2"
definition OSAL_STATUS_EMPTY :: int where "OSAL_STATUS_EMPTY = -5"
definition OSAL_STATUS_ERROR_UNDEFINED :: int where "OSAL_STATUS_ERROR_UNDEFINED = -1"

lemmas osal_status_defs = OSAL_STATUS_SUCCESS_def OSAL_STATUS_TIMEOUT_def OSAL_STATUS_EMPTY_def
  OSAL_STATUS_ERROR_UNDEFINED_def OSAL_EOK_def OSAL_ERROR_def

text \<open>How most of the layer turns the result of an operation into a status.\<close>

definition ret_status :: "int \<Rightarrow> int" where
  "ret_status ret = (if ret = OSAL_EOK then OSAL_STATUS_SUCCESS else OSAL_STATUS_ERROR_UNDEFINED)"

end
