(* ===== verification/OsalTimer.thy ===== *)
theory OsalTimer
  imports OsTimerApi OsalStatus
begin

text \<open>
  The timer functions of the portability layer, \<open>src/osal/osal_timer.c\<close>.  A handle is a heap block that
  holds the id of a timer; the block is allocated when the timer is created and freed when it is
  deleted.  A result carries the service threads to be woken up.
\<close>

record handle_mem = mem +
  handles :: "addr \<rightharpoonup> nat option"

definition osal_timer_create :: "env \<Rightarrow> nat option \<Rightarrow> nat \<Rightarrow> int \<Rightarrow> 32 word \<Rightarrow> int \<Rightarrow> handle_mem \<Rightarrow> timer_sys \<Rightarrow>
    (ptr \<times> thread_id option \<times> handle_mem \<times> timer_sys) option" where
  "osal_timer_create env handler arg ms flag prio m st = do {
     (ret, timerid, wake, st) \<leftarrow> os_timer_add env prio ms flag handler arg True st;
     if ret \<noteq> 0 then Some (None, wake, m, st)
     else (case malloc 4 m of
         (None, m) \<Rightarrow> None
       | (Some a, m) \<Rightarrow> Some (Some a, wake, m\<lparr>handles := (handles m)(a \<mapsto> timerid)\<rparr>, st)) }"

text \<open>A deletion that has to wait for a handler has not freed the block yet.\<close>

definition osal_timer_delete :: "env \<Rightarrow> ptr \<Rightarrow> handle_mem \<Rightarrow> timer_sys \<Rightarrow>
    (delete_result \<times> handle_mem \<times> timer_sys) option" where
  "osal_timer_delete env timer m st = (case timer of
     None \<Rightarrow> Some (Returns OSAL_STATUS_EMPTY, m, st)
   | Some a \<Rightarrow> do {
       timerid \<leftarrow> handles m a;
       (d, st) \<leftarrow> os_timer_del env timerid st;
       (case d of
          Waits th \<Rightarrow> Some (Waits th, m, st)
        | Returns ret \<Rightarrow> Some (Returns (ret_status ret), m\<lparr>handles := (handles m)(a := None)\<rparr>, st)) })"

definition osal_timer_start :: "env \<Rightarrow> ptr \<Rightarrow> handle_mem \<Rightarrow> timer_sys \<Rightarrow> (int \<times> thread_id option \<times> timer_sys) option" where
  "osal_timer_start env timer m st = (case timer of
     None \<Rightarrow> Some (OSAL_STATUS_EMPTY, None, st)
   | Some a \<Rightarrow> do {
       timerid \<leftarrow> handles m a;
       (ret, wake, st) \<leftarrow> os_timer_start env timerid st;
       Some (ret_status ret, wake, st) })"

definition osal_timer_stop :: "env \<Rightarrow> ptr \<Rightarrow> handle_mem \<Rightarrow> timer_sys \<Rightarrow> (int \<times> thread_id option \<times> timer_sys) option" where
  "osal_timer_stop env timer m st = (case timer of
     None \<Rightarrow> Some (OSAL_STATUS_EMPTY, None, st)
   | Some a \<Rightarrow> do {
       timerid \<leftarrow> handles m a;
       (ret, wake, st) \<leftarrow> os_timer_stop env timerid st;
       Some (ret_status ret, wake, st) })"

definition osal_timer_reset :: "env \<Rightarrow> ptr \<Rightarrow> handle_mem \<Rightarrow> timer_sys \<Rightarrow> (int \<times> thread_id option \<times> timer_sys) option" where
  "osal_timer_reset env timer m st = (case timer of
     None \<Rightarrow> Some (OSAL_STATUS_EMPTY, None, st)
   | Some a \<Rightarrow> do {
       timerid \<leftarrow> handles m a;
       (ret, wake, st) \<leftarrow> os_timer_start env timerid st;
       Some (ret_status ret, wake, st) })"

definition osal_timer_change :: "env \<Rightarrow> ptr \<Rightarrow> int \<Rightarrow> handle_mem \<Rightarrow> timer_sys \<Rightarrow> (int \<times> thread_id option \<times> timer_sys) option" where
  "osal_timer_change env timer ms m st = do {
     a \<leftarrow> timer;
     timerid \<leftarrow> handles m a;
     let ret = 0;
     (r, _, st) \<leftarrow> os_timer_stop env timerid st;
     let ret = or ret r;
     (r, st) \<leftarrow> os_timer_settime timerid ms st;
     let ret = or ret r;
     (r, wake, st) \<leftarrow> os_timer_start env timerid st;
     let ret = or ret r;
     Some (ret_status ret, wake, st) }"

section \<open>Properties\<close>

lemma settime_ms_ok:
  assumes "api_inv st A" "i < TIMER_MAX" "i \<notin> set (fr A)" "0 < ms" "ms < 2 ^ 31"
  shows "os_timer_settime (Some i) ms st = Some (0, upd_timer i (\<lambda>t. t\<lparr>millisec := ms\<rparr>) st)"
    and "api_inv (upd_timer i (\<lambda>t. t\<lparr>millisec := ms\<rparr>) st) A"
proof -
  note t = api_invD(1) [OF assms(1)]
  show "os_timer_settime (Some i) ms st = Some (0, upd_timer i (\<lambda>t. t\<lparr>millisec := ms\<rparr>) st)"
    using valid_iff [OF t assms(2)] assms(3,4) by (simp add: os_timer_settime_def)
  have "tinv {} {} (upd_timer i (\<lambda>t. t\<lparr>millisec := ms\<rparr>) st) A" by (rule tinv_upd_other [OF t]) simp_all
  then show "api_inv (upd_timer i (\<lambda>t. t\<lparr>millisec := ms\<rparr>) st) A"
    by (rule api_inv_step [OF assms(1)]) (use assms(4,5) in \<open>auto simp: public_timer_def\<close>)
qed

lemma stopped_queues: "stopped i st A A' \<Longrightarrow> running i e iv st' A' A'' \<Longrightarrow> running i e iv st' A A''"
  unfolding stopped_def running_def by (metis remove1_idem)

text \<open>Changing the period of a timer through its handle succeeds for a positive number of milliseconds,
  whether the timer runs or not, and leaves it running with the new period, counted from now.  For
  a number that is not positive the call reports an error, but the timer has been restarted with its old
  period.\<close>

lemma osal_timer_change_spec:
  assumes inv: "api_inv st A" and env: "env_ok env" and i: "i < TIMER_MAX" "i \<notin> set (fr A)"
    and h: "handles m a = Some (Some i)" and ms: "ms < 2 ^ 31" and per: "type (timers st i) = TIMER_INTERVAL"
  defines "p \<equiv> if 0 < ms then ms else millisec (timers st i)"
  shows "\<exists>wake st' A' ex. osal_timer_change env (Some a) ms m st =
      Some (if 0 < ms then OSAL_STATUS_SUCCESS else OSAL_STATUS_ERROR_UNDEFINED, wake, st') \<and> api_inv st' A' \<and>
    nanos ex = monotonic env + p * 1000000 \<and> running i ex (ms2ts p) st' A A'"
proof -
  have ne: "TIMER_INTERVAL \<noteq> TIMER_ONESHOT" by (simp add: TIMER_INTERVAL_def TIMER_ONESHOT_def)
  note t = api_invD(1) [OF inv]
  obtain st1 where s1: "timer_settime env (Some i) 0 zero_itimerspec False st = Some (0, None, None, st1)"
    "tinv {} {} st1 (drop_timer i A)" "fr (drop_timer i A) = fr A" "stopped i st1 A (drop_timer i A)"
    "timers st1 = (timers st)(i := (timers st i)\<lparr>tvalue := zero_itimerspec, armed := False\<rparr>)"
    by (rule stop_ok [OF t i, of zero_itimerspec env 0]) (simp_all add: zero_itimerspec_def value_ok_zero)
  have inv1: "api_inv st1 (drop_timer i A)" by (rule api_inv_step [OF inv s1(2)]) (use s1(3,5) in \<open>auto simp: public_timer_def\<close>)
  have i1: "i \<notin> set (fr (drop_timer i A))" using i(2) s1(3) by simp
  define r2 where "r2 = (if 0 < ms then 0 else -1 :: int)"
  obtain st2 where s2: "os_timer_settime (Some i) ms st1 = Some (r2, st2)" "api_inv st2 (drop_timer i A)"
    "millisec (timers st2 i) = p" "type (timers st2 i) = TIMER_INTERVAL"
  proof (cases "0 < ms")
    case True
    from settime_ms_ok [OF inv1 i(1) i1 True ms] show thesis
      using that [of "upd_timer i (\<lambda>t. t\<lparr>millisec := ms\<rparr>) st1"] True per by (simp add: r2_def p_def s1(5))
  next
    case False
    then show thesis using that [of st1] inv1 per by (simp add: os_timer_settime_def r2_def p_def s1(5))
  qed
  from start_total [OF s2(2) env i(1)] i1 s2(3,4) obtain wake st3 A3 ex where
    s3: "os_timer_start env (Some i) st2 = Some (0, wake, st3)" "api_inv st3 A3"
      "nanos ex = monotonic env + p * 1000000" "running i ex (ms2ts p) st3 (drop_timer i A) A3" by (auto simp: ne)
  have "osal_timer_change env (Some a) ms m st = Some (ret_status r2, wake, st3)"
    using h s1(1) s2(1) s3(1) by (simp add: osal_timer_change_def os_timer_stop_def)
  then show ?thesis using s3(2,3) stopped_queues [OF s1(4) s3(4)]
    by (auto simp: ret_status_def r2_def)
qed

lemma osal_timer_change_spec_witness:
  "\<exists>st A m wake st' A' ex. api_inv st A \<and> 0 \<notin> set (fr A) \<and>
     osal_timer_change env0 (Some 8) 2000 m st = Some (OSAL_STATUS_SUCCESS, wake, st') \<and>
     nanos ex = 9000000000 \<and> running 0 ex (ms2ts 2000) st' A A'"
proof -
  obtain st A where st: "api_inv st A" "fr A = [1..<256]" "millisec (timers st 0) = 50" "type (timers st 0) = TIMER_INTERVAL"
    by (rule one_timer)
  have i: "0 \<notin> set (fr A)" "0 < TIMER_MAX" by (simp_all add: st(2) TIMER_MAX_def)
  define m where "m = \<lparr>brk = 9, alloc_fails = (\<lambda>_. False), junk = (\<lambda>_ _. 0), handles = [8 \<mapsto> Some 0]\<rparr>"
  have h: "handles m 8 = Some (Some 0)" by (simp add: m_def)
  have two: "(2000::int) < 2 ^ 31" by simp
  have now: "monotonic env0 + 2000000000 = 9000000000" by (simp add: monotonic_def env0_def nanos_def)
  from osal_timer_change_spec [OF st(1) env0_ok i(2,1) h two st(4)] obtain wake st' A' ex where
    "osal_timer_change env0 (Some 8) 2000 m st = Some (OSAL_STATUS_SUCCESS, wake, st')"
    "nanos ex = 9000000000" "running 0 ex (ms2ts 2000) st' A A'" by (auto simp: now)
  with st(1) i(1) show ?thesis by metis
qed

text \<open>The life of a handle.  With memory left, creating a timer gives a new block that holds the id of a timer in use; as
  long as nobody waits for its handler, deleting through the handle succeeds, frees exactly that block and gives
  the timer back.  When the timer cannot be created the result is \<open>NULL\<close> and no block is allocated.\<close>

lemma osal_timer_create_delete:
  assumes inv: "api_inv st A" and env: "env_ok env" and ms: "0 < ms" "ms < 2 ^ 31" and mem: "no_oom m"
    and new: "handles m (brk m) = None"
  shows "if fr A = [] \<or> \<not> can_serve env st A (timer_attr prio) CLOCK_MONOTONIC
    then \<exists>st' A'. osal_timer_create env (Some f) arg ms flag prio m st = Some (None, None, m, st') \<and>
      api_inv st' A' \<and> set (fr A') = set (fr A)
    else \<exists>i wake m' st' A'. osal_timer_create env (Some f) arg ms flag prio m st = Some (Some (brk m), wake, m', st') \<and>
      handles m' = (handles m)(brk m \<mapsto> Some i) \<and> fr A = i # fr A' \<and> api_inv st' A' \<and>
      ((\<forall>th. current_timer (threads st' th) \<noteq> Some i) \<longrightarrow>
       (\<exists>m'' st''. osal_timer_delete env (Some (brk m)) m' st' = Some (Returns OSAL_STATUS_SUCCESS, m'', st'') \<and>
         handles m'' = handles m \<and> api_inv st'' (freed i A') \<and> set (fr (freed i A')) = set (fr A)))"
proof (cases "fr A = [] \<or> \<not> can_serve env st A (timer_attr prio) CLOCK_MONOTONIC")
  case True
  obtain st' A' where "os_timer_add env prio ms flag (Some f) arg True st = Some (-1, None, None, st')"
    "api_inv st' A'" "set (fr A') = set (fr A)"
    by (rule add_full [OF inv ms(1) True]) blast
  with True show ?thesis by (auto simp: osal_timer_create_def)
next
  case False
  then obtain i rest where i: "fr A = i # rest" and can: "can_serve env st A (timer_attr prio) CLOCK_MONOTONIC"
    by (cases "fr A") auto
  obtain wake st' A' t where a: "os_timer_add env prio ms flag (Some f) arg True st = Some (0, Some i, wake, st')"
    "api_inv st' A'" "fr A' = rest"
    by (rule add_ok [OF inv env ms i can, where flag = flag and f = f and arg = arg]) blast
  let ?m = "m\<lparr>brk := Suc (brk m), handles := (handles m)(brk m \<mapsto> Some i)\<rparr>"
  have create: "osal_timer_create env (Some f) arg ms flag prio m st = Some (Some (brk m), wake, ?m, st')"
    using a(1) malloc_no_oom [OF mem, of 4] by (simp add: osal_timer_create_def)
  have lt: "i < TIMER_MAX" "i \<notin> set (fr A')"
    using links_okD(2) [OF tinvD(1) [OF api_invD(1) [OF inv]], of i]
      links_ok_distinct(1) [OF tinvD(1) [OF api_invD(1) [OF inv]]] i a(3) by auto
  have "\<exists>m'' st''. osal_timer_delete env (Some (brk m)) ?m st' = Some (Returns OSAL_STATUS_SUCCESS, m'', st'') \<and>
      handles m'' = handles m \<and> api_inv st'' (freed i A') \<and> set (fr (freed i A')) = set (fr A)"
    if idle: "\<forall>th. current_timer (threads st' th) \<noteq> Some i"
  proof -
    from del_total [OF a(2) lt(1), of env] lt(2) idle obtain st'' where
      d: "os_timer_del env (Some i) st' = Some (Returns 0, st'')" "api_inv st'' (freed i A')"
        "fr (freed i A') = fr A' @ [i]" by auto
    have "(handles ?m)(brk m := None) = handles m" using new by (auto simp: fun_eq_iff)
    then show ?thesis using d i a(3) by (simp add: osal_timer_delete_def ret_status_def insert_commute)
  qed
  with False create a(2,3) i show ?thesis
    by (intro if_not_P [THEN iffD2] exI [of _ i] exI [of _ wake] exI [of _ ?m] exI [of _ st'] exI [of _ A']) auto
qed

lemma osal_timer_create_delete_witness:
  "\<exists>st m i wake m' st'. api_inv st empty_tabs \<and>
     osal_timer_create env0 (Some 3) 4 50 TIMER_INTERVAL 10 m st = Some (Some 9, wake, m', st') \<and>
     handles m' = (handles m)(9 \<mapsto> Some i)"
proof -
  obtain st where st: "api_inv st empty_tabs" using api_inv_static by blast
  define m where "m = \<lparr>brk = 9, alloc_fails = (\<lambda>_. False), junk = (\<lambda>_ _. 0), handles = Map.empty :: addr \<rightharpoonup> nat option\<rparr>"
  have m: "no_oom m" "handles m (brk m) = None" "brk m = 9" by (simp_all add: m_def no_oom_def)
  have "fr empty_tabs \<noteq> []" unfolding fr_empty_tabs by simp
  with osal_timer_create_delete [OF st env0_ok _ _ m(1,2), of 50 10 3 4 TIMER_INTERVAL] can_serve_empty [of st] m(3) st
  show ?thesis by fastforce
qed

end
