(* ===== verification/ListHead.thy ===== *)
theory ListHead
  imports RingStore
begin

text \<open>
  The circular lists of \<open>src/include/list.h\<close>.  A list entry is a pair of pointers like those of the timer module, so the store of links
  of \<open>ListLinks\<close> is the state; a null pointer followed is a fault.  The iteration macros are loops that collect the entries they visit; they
  may run for ever on a corrupt list, which is the value \<open>None\<close>.
\<close>

section \<open>Operations\<close>

definition INIT_LIST_HEAD :: "'l \<Rightarrow> 'l links \<Rightarrow> 'l links" where
  "INIT_LIST_HEAD p L = set_prev p p (set_next p p L)"

text \<open>The pointers \<open>prev\<close> and \<open>next\<close> may be null.\<close>

definition list_add_between :: "'l \<Rightarrow> 'l option \<Rightarrow> 'l option \<Rightarrow> 'l links \<Rightarrow> 'l links option" where
  "list_add_between new prev next L = do {
     n \<leftarrow> next;
     let L = set_prev n new L;
     let L = set_next new n L;
     let L = L\<lparr>lprev := (lprev L)(new := prev)\<rparr>;
     p \<leftarrow> prev;
     Some (set_next p new L) }"

definition list_add :: "'l \<Rightarrow> 'l \<Rightarrow> 'l links \<Rightarrow> 'l links option" where
  "list_add new head L = list_add_between new (Some head) (lnext L head) L"

definition list_add_tail :: "'l \<Rightarrow> 'l \<Rightarrow> 'l links \<Rightarrow> 'l links option" where
  "list_add_tail new head L = list_add_between new (lprev L head) (Some head) L"

definition list_del_between :: "'l option \<Rightarrow> 'l option \<Rightarrow> 'l links \<Rightarrow> 'l links option" where
  "list_del_between prev next L = do {
     n \<leftarrow> next;
     let L = L\<lparr>lprev := (lprev L)(n := prev)\<rparr>;
     p \<leftarrow> prev;
     Some (set_next p n L) }"

text \<open>The macro \<open>DEBUG\<close> is not defined.\<close>

definition list_del :: "'l \<Rightarrow> 'l links \<Rightarrow> 'l links option" where
  "list_del entry L = list_del_between (lprev L entry) (lnext L entry) L"

definition list_del_init :: "'l \<Rightarrow> 'l links \<Rightarrow> 'l links option" where
  "list_del_init entry L = do {
     L \<leftarrow> list_del_between (lprev L entry) (lnext L entry) L;
     Some (INIT_LIST_HEAD entry L) }"

definition list_replace :: "'l \<Rightarrow> 'l \<Rightarrow> 'l links \<Rightarrow> 'l links option" where
  "list_replace old new L = do {
     let L = L\<lparr>lnext := (lnext L)(new := lnext L old)\<rparr>;
     n \<leftarrow> lnext L new;
     let L = set_prev n new L;
     let L = L\<lparr>lprev := (lprev L)(new := lprev L old)\<rparr>;
     p \<leftarrow> lprev L new;
     Some (set_next p new L) }"

definition list_move :: "'l \<Rightarrow> 'l \<Rightarrow> 'l links \<Rightarrow> 'l links option" where
  "list_move list head L = do {
     L \<leftarrow> list_del_between (lprev L list) (lnext L list) L;
     list_add list head L }"

definition list_move_tail :: "'l \<Rightarrow> 'l \<Rightarrow> 'l links \<Rightarrow> 'l links option" where
  "list_move_tail list head L = do {
     L \<leftarrow> list_del_between (lprev L list) (lnext L list) L;
     list_add_tail list head L }"

definition list_empty :: "'l \<Rightarrow> 'l links \<Rightarrow> bool" where
  "list_empty head L \<longleftrightarrow> lnext L head = Some head"

partial_function (option) for_each_from :: "'l option \<Rightarrow> 'l \<Rightarrow> 'l links \<Rightarrow> 'l list option" where
  "for_each_from pos head L = (case pos of
     None \<Rightarrow> None
   | Some p \<Rightarrow> if p = head then Some []
               else Option.bind (for_each_from (lnext L p) head L) (\<lambda>xs. Some (p # xs)))"

definition list_for_each :: "'l \<Rightarrow> 'l links \<Rightarrow> 'l list option" where
  "list_for_each head L = for_each_from (lnext L head) head L"

partial_function (option) for_each_prev_from :: "'l option \<Rightarrow> 'l \<Rightarrow> 'l links \<Rightarrow> 'l list option" where
  "for_each_prev_from pos head L = (case pos of
     None \<Rightarrow> None
   | Some p \<Rightarrow> if p = head then Some []
               else Option.bind (for_each_prev_from (lprev L p) head L) (\<lambda>xs. Some (p # xs)))"

definition list_for_each_prev :: "'l \<Rightarrow> 'l links \<Rightarrow> 'l list option" where
  "list_for_each_prev head L = for_each_prev_from (lprev L head) head L"

text \<open>The iteration that survives removal: the successor is fetched before the body runs.\<close>

partial_function (option) for_each_safe_from :: "('l \<Rightarrow> 'l links \<Rightarrow> 'l links option) \<Rightarrow> 'l \<Rightarrow> 'l option \<Rightarrow> 'l \<Rightarrow> 'l links \<Rightarrow> ('l list \<times> 'l links) option" where
  "for_each_safe_from body pos n head L =
     (if pos = head then Some ([], L)
      else Option.bind (body pos L) (\<lambda>L. Option.bind n (\<lambda>pos'.
        Option.bind (for_each_safe_from body pos' (lnext L pos') head L) (\<lambda>(xs, L). Some (pos # xs, L)))))"

definition list_for_each_entry_safe :: "('l \<Rightarrow> 'l links \<Rightarrow> 'l links option) \<Rightarrow> 'l \<Rightarrow> 'l links \<Rightarrow> ('l list \<times> 'l links) option" where
  "list_for_each_entry_safe body head L =
     Option.bind (lnext L head) (\<lambda>pos. for_each_safe_from body pos (lnext L pos) head L)"

section \<open>The operations on rings\<close>

text \<open>Up to the order of the writes, these are the operations of the timer module.\<close>

lemma add_tail_append: "n \<noteq> h \<Longrightarrow> list_add_tail n h L = list_append h n L"
  by (cases "lprev L h")
     (auto simp: list_add_tail_def list_add_between_def list_append_def link_writes fun_upd_twist)

lemma del_unlink: "list_del x L = list_unlink x L"
  by (cases "lprev L x"; cases "lnext L x") (simp_all add: list_del_def list_del_between_def list_unlink_def link_writes)

lemma init_init: "INIT_LIST_HEAD = list_init"
  by (simp add: fun_eq_iff INIT_LIST_HEAD_def list_init_def link_writes)

lemma add_is_tail: "lnext L h = Some q \<Longrightarrow> lprev L q = Some h \<Longrightarrow> list_add n h L = list_add_tail n q L"
  by (simp add: list_add_def list_add_tail_def)

lemma ring_ends: "ring L h xs \<Longrightarrow> lnext L h = Some (hd (xs @ [h])) \<and> lprev L (hd (xs @ [h])) = Some h"
  by (cases xs) (simp_all add: ring_def)

interpretation lh: ring_store rings "\<lambda>q n. list_add_tail n q" list_del INIT_LIST_HEAD
proof (unfold_locales, goal_cases)
  case (1 L H R H')
  then show ?case by (rule rings_subset)
next
  case (2 L H R R')
  then show ?case by (rule ll.rep_cong)
next
  case (3 L H R h xs ys n)
  have "hd (ys @ [h]) \<in> set (h # R h)" using 3(3) by (cases ys) auto
  then have "n \<noteq> hd (ys @ [h])" using 3(2,4) by (auto simp: members_def)
  with ll.ins_rep [OF 3] show ?case by (simp add: add_tail_append)
next
  case (4 L H R h xs x ys)
  from ll.unlink_rep [OF this] show ?case by (simp add: del_unlink)
next
  case (5 L H R x)
  from ll.init_rep [OF this] show ?case by (simp add: init_init)
next
  case (6 L H R h k)
  then show ?case by (rule rings_disjoint)
qed

section \<open>The abstract lists\<close>

text \<open>The specification: a set of list heads, each with a sequence of entries.  An entry is in at most one list; an entry
  that is initialised and in none is the head of an empty list.\<close>

type_synonym 'l lists = "'l set \<times> ('l \<Rightarrow> 'l list)"

datatype 'l list_op =
    Add 'l 'l | Add_tail 'l 'l | Del 'l | Del_init 'l | Move 'l 'l | Move_tail 'l 'l | Replace 'l 'l

definition unused :: "'l \<Rightarrow> 'l lists \<Rightarrow> bool" where
  "unused n = (\<lambda>(H, R). n \<notin> members (H - {n}) R \<and> (n \<in> H \<longrightarrow> R n = []))"

definition entry :: "'l \<Rightarrow> 'l lists \<Rightarrow> bool" where
  "entry x = (\<lambda>(H, R). \<exists>h \<in> H. x \<in> set (R h))"

definition without :: "'l \<Rightarrow> ('l \<Rightarrow> 'l list) \<Rightarrow> 'l \<Rightarrow> 'l list" where
  "without x R = (\<lambda>h. removeAll x (R h))"

fun op_ok :: "'l list_op \<Rightarrow> 'l lists \<Rightarrow> bool" where
  "op_ok (Add n h) S \<longleftrightarrow> h \<in> fst S \<and> n \<noteq> h \<and> unused n S"
| "op_ok (Add_tail n h) S \<longleftrightarrow> h \<in> fst S \<and> n \<noteq> h \<and> unused n S"
| "op_ok (Del x) S \<longleftrightarrow> entry x S"
| "op_ok (Del_init x) S \<longleftrightarrow> entry x S"
| "op_ok (Move x h) S \<longleftrightarrow> entry x S \<and> h \<in> fst S"
| "op_ok (Move_tail x h) S \<longleftrightarrow> entry x S \<and> h \<in> fst S"
| "op_ok (Replace old new) S \<longleftrightarrow> (old \<in> fst S \<or> entry old S) \<and> old \<noteq> new \<and> unused new S"

fun abs_op :: "'l list_op \<Rightarrow> 'l lists \<Rightarrow> 'l lists" where
  "abs_op (Add n h) (H, R) = (H - {n}, R(h := n # R h))"
| "abs_op (Add_tail n h) (H, R) = (H - {n}, R(h := R h @ [n]))"
| "abs_op (Del x) (H, R) = (H, without x R)"
| "abs_op (Del_init x) (H, R) = (insert x H, (without x R)(x := []))"
| "abs_op (Move x h) (H, R) = (H, (without x R)(h := x # removeAll x (R h)))"
| "abs_op (Move_tail x h) (H, R) = (H, (without x R)(h := removeAll x (R h) @ [x]))"
| "abs_op (Replace old new) (H, R) =
     (if old \<in> H then (insert new (H - {old}), R(new := R old))
      else (H - {new}, \<lambda>h. map (\<lambda>z. if z = old then new else z) (R h)))"

fun exec_op :: "'l list_op \<Rightarrow> 'l links \<Rightarrow> 'l links option" where
  "exec_op (Add n h) L = list_add n h L"
| "exec_op (Add_tail n h) L = list_add_tail n h L"
| "exec_op (Del x) L = list_del x L"
| "exec_op (Del_init x) L = list_del_init x L"
| "exec_op (Move x h) L = list_move x h L"
| "exec_op (Move_tail x h) L = list_move_tail x h L"
| "exec_op (Replace old new) L = list_replace old new L"

lemma rings_apart_entry:
  assumes "rings L H R" "h \<in> H" "x \<in> set (R h)"
  shows "k \<in> H \<Longrightarrow> k \<noteq> h \<Longrightarrow> x \<notin> set (k # R k)" "x \<notin> H" "distinct (R h)" "x \<noteq> h"
proof -
  show apart: "x \<notin> set (k # R k)" if "k \<in> H" "k \<noteq> h" for k
    using rings_disjoint [OF assms(1) that(1) assms(2) that(2)] assms(3) by auto
  from ringsD [OF assms(1,2)] have d: "distinct (h # R h)" by (simp add: ring_def)
  then show "distinct (R h)" "x \<noteq> h" using assms(3) by auto
  with apart show "x \<notin> H" by auto
qed

lemma removeAll_split: "distinct (xs @ x # ys) \<Longrightarrow> removeAll x (xs @ x # ys) = xs @ ys"
  by (auto simp: removeAll_id)

text \<open>Taking an entry out of its list.\<close>

lemma rings_del:
  assumes "rings L H R" "entry x (H, R)"
  obtains L' where "list_del x L = Some L'" "rings L' H (without x R)" "x \<notin> members H (without x R)"
proof -
  from assms(2) obtain h xs ys where h: "h \<in> H" "R h = xs @ x # ys" by (auto simp: entry_def dest: split_list)
  from h have x: "x \<in> set (R h)" by simp
  note ap = rings_apart_entry [OF assms(1) h(1) x]
  from lh.unlink_rep [OF assms(1) h] obtain L' where L': "list_del x L = Some L'" "rings L' H (R(h := xs @ ys))"
    "x \<notin> members H (R(h := xs @ ys))" by blast
  have same: "without x R k = (R(h := xs @ ys)) k" if "k \<in> H" for k
    using ap(1) [OF that] ap(3) h(2) by (auto simp: without_def removeAll_split removeAll_id simp del: removeAll_append)
  then have "members H (without x R) = members H (R(h := xs @ ys))" by (auto simp: members_def)
  with L'(3) have "x \<notin> members H (without x R)" by simp
  with lh.rep_cong [OF L'(2) same] L'(1) show thesis by (intro that)
qed

text \<open>Linking an entry in at the end and at the front.\<close>

lemma unused_rings: "rings L H R \<Longrightarrow> unused n (H, R) \<Longrightarrow> rings L (H - {n}) R \<and> n \<notin> members (H - {n}) R"
  by (auto simp: unused_def intro: rings_subset)

lemma rings_add_tail:
  assumes "rings L H R" "h \<in> H" "n \<notin> members H R"
  shows "\<exists>L'. list_add_tail n h L = Some L' \<and> rings L' H (R(h := R h @ [n]))"
  using lh.ins_rep [OF assms(1,2) _ assms(3), of "R h" "[]"] by simp

lemma rings_add:
  assumes "rings L H R" "h \<in> H" "n \<notin> members H R"
  shows "\<exists>L'. list_add n h L = Some L' \<and> rings L' H (R(h := n # R h))"
  using lh.ins_rep [OF assms(1,2) _ assms(3), of "[]" "R h"] ring_ends [OF ringsD [OF assms(1,2)]] add_is_tail by fastforce

section \<open>Replacing\<close>

text \<open>Replacing an entry is unlinking it and linking the new one into the gap.\<close>

lemma replace_split:
  assumes "lnext L old = Some n" "lprev L old = Some p" "old \<noteq> n" "old \<noteq> p" "new \<noteq> n" "new \<noteq> p" "old \<noteq> new"
  shows "list_replace old new L = Option.bind (list_del old L) (list_add_tail new n)"
  using assms by (auto simp: list_replace_def list_del_def list_del_between_def list_add_tail_def list_add_between_def link_writes fun_upd_twist)

lemma rings_replace_entry:
  assumes R: "rings L H R" and h: "h \<in> H" "R h = xs @ old # ys" and new: "new \<notin> members H R"
  shows "\<exists>L'. list_replace old new L = Some L' \<and> rings L' H (R(h := xs @ new # ys))"
proof -
  have old: "old \<in> set (R h)" using h(2) by simp
  note ap = rings_apart_entry [OF R h(1) old]
  have ring: "ring L h (xs @ old # ys)" using ringsD [OF R h(1)] h(2) by simp
  from ring_remove [OF ring] obtain n p where np: "lnext L old = Some n" "lprev L old = Some p" "p \<in> set (h # xs)" "n \<in> set (h # ys)" .
  from ring_next [OF ring] np(1) have n: "n = hd (ys @ [h])" by (simp add: list_next_def)
  from ring have d: "distinct (h # xs @ old # ys)" by (simp add: ring_def)
  have neq: "old \<noteq> n" "old \<noteq> p" using d np(3,4) by auto
  have fresh: "new \<noteq> n" "new \<noteq> p" "old \<noteq> new" using new np(3,4) h by (auto simp: members_def)
  from lh.unlink_rep [OF R h] obtain L1 where L1: "list_del old L = Some L1" "rings L1 H (R(h := xs @ ys))" by blast
  have "new \<notin> members H (R(h := xs @ ys))" using new h by (auto simp: members_def split: if_splits)
  from lh.ins_rep [OF L1(2) h(1) _ this, of xs ys] n obtain L2 where "list_add_tail new n L1 = Some L2"
    "rings L2 H (R(h := xs @ new # ys))" by auto
  with L1(1) show ?thesis by (simp add: replace_split [OF np(1,2) neq fresh])
qed

text \<open>A ring can be entered at any of its nodes; this reduces replacing a head to replacing an entry.\<close>

lemma ring_rotate: "ring L h (x # xs) \<longleftrightarrow> ring L x (xs @ [h])"
proof -
  have "chain L ((x # xs) @ h # x # []) \<longleftrightarrow> chain L ((x # xs) @ [h]) \<and> lnext L h = Some x \<and> lprev L x = Some h"
    by (simp only: chain_append) simp
  then show ?thesis by (auto simp: ring_def)
qed

lemma rings_enter:
  assumes R: "rings L H R" and ring: "ring L x zs" and apart: "\<And>k. k \<in> H \<Longrightarrow> set (k # R k) \<inter> set (x # zs) = {}"
  shows "rings L (insert x H) (R(x := zs))"
proof -
  have x: "k \<noteq> x" if "k \<in> H" for k using apart [OF that] by auto
  show ?thesis unfolding rings_def
  proof (intro conjI ballI impI)
    fix k assume k: "k \<in> insert x H"
    show "ring L k ((R(x := zs)) k)" using ring ringsD [OF R] k x by auto
    fix l assume l: "l \<in> insert x H" and "k \<noteq> l"
    then consider "k = x" "l \<in> H" | "l = x" "k \<in> H" | "k \<in> H" "l \<in> H" using k by blast
    then show "set (k # (R(x := zs)) k) \<inter> set (l # (R(x := zs)) l) = {}"
    proof cases
      case 1
      with apart [of l] x [of l] show ?thesis by auto
    next
      case 2
      with apart [of k] x [of k] show ?thesis by auto
    next
      case 3
      with rings_disjoint [OF R, of k l] \<open>k \<noteq> l\<close> x [of k] x [of l] show ?thesis by simp
    qed
  qed
qed

lemma rings_rotate:
  assumes "rings L H R" "h \<in> H" "R h = x # xs"
  shows "rings L (insert x (H - {h})) (R(x := xs @ [h]))"
proof -
  have x: "x \<in> set (R h)" using assms(3) by simp
  note ap = rings_apart_entry [OF assms(1,2) x]
  show ?thesis
  proof (rule rings_enter)
    show "rings L (H - {h}) R" by (rule rings_subset [OF assms(1)]) blast
    show "ring L x (xs @ [h])" using ringsD [OF assms(1,2)] assms(3) by (simp add: ring_rotate)
    show "set (k # R k) \<inter> set (x # xs @ [h]) = {}" if "k \<in> H - {h}" for k
      using rings_disjoint [OF assms(1), of k h] assms(2,3) that by auto
  qed
qed

lemma rings_frame:
  assumes R: "rings L H R" and x: "x \<notin> members H R" and L': "\<And>z. z \<noteq> x \<Longrightarrow> lnext L' z = lnext L z \<and> lprev L' z = lprev L z"
  shows "rings L' H R"
proof -
  have "ring L' h (R h)" if "h \<in> H" for h
  proof (rule ring_cong [OF ringsD [OF R that]])
    fix z assume "z \<in> set (h # R h)"
    then have "z \<noteq> x" using x that by (auto simp: members_def)
    then show "lnext L' z = lnext L z \<and> lprev L' z = lprev L z" by (rule L')
  qed
  with R show ?thesis by (simp add: rings_def)
qed

lemma rings_replace_empty:
  assumes R: "rings L H R" and h: "h \<in> H" and new: "new \<notin> members H R" and Nil: "R h = []"
  shows "\<exists>L'. list_replace h new L = Some L' \<and> rings L' (insert new (H - {h})) (R(new := []))"
proof -
  have nh: "new \<noteq> h" using new h by (auto simp: members_def)
  have e: "lnext L h = Some h" "lprev L h = Some h" using ringsD [OF R h] Nil by (simp_all add: ring_empty)
  have R': "rings (list_init new L) (insert new (H - {h})) (R(new := []))"
  proof (rule rings_loose)
    show "rings L (H - {h}) R" by (rule rings_subset [OF R]) blast
    show "new \<notin> members (H - {h}) R" using new by (auto simp: members_def)
  qed
  have "h \<notin> members (insert new (H - {h})) (R(new := []))"
    using rings_disjoint [OF R _ h] nh by (auto simp: members_def split: if_splits)
  then have "rings (set_prev h new (list_init new L)) (insert new (H - {h})) (R(new := []))"
    by (rule rings_frame [OF R']) auto
  moreover have "list_replace h new L = Some (set_prev h new (list_init new L))"
    using e nh by (auto simp: list_replace_def list_init_def link_writes fun_upd_twist)
  ultimately show ?thesis by simp
qed

lemma rings_replace_nonempty:
  assumes R: "rings L H R" and h: "h \<in> H" and new: "new \<notin> members H R" and Cons: "R h = x # xs"
  shows "\<exists>L'. list_replace h new L = Some L' \<and> rings L' (insert new (H - {h})) (R(new := x # xs))"
proof -
  have x: "x \<in> set (R h)" using Cons by simp
  note ap = rings_apart_entry [OF R h x]
  define H' where "H' = insert x (H - {h})"
  have R': "rings L H' (R(x := xs @ [h]))" unfolding H'_def by (rule rings_rotate [OF R h Cons])
  have "new \<notin> members H' (R(x := xs @ [h]))"
    using new h Cons by (auto simp: members_def H'_def split: if_splits)
  from rings_replace_entry [OF R' _ _ this, of x xs h "[]"] obtain L' where
    L': "list_replace h new L = Some L'" "rings L' H' (R(x := xs @ [new]))" by (auto simp: H'_def)
  have keep: "rings L' (H - {h}) (R(x := xs @ [new]))"
    by (rule rings_subset [OF L'(2)]) (auto simp: H'_def)
  have "rings L' (insert new (H - {h})) (R(new := x # xs))"
  proof (rule rings_enter)
    show "rings L' (H - {h}) R" by (rule lh.rep_cong [OF keep]) (use ap(2) in auto)
    show "ring L' new (x # xs)" using ringsD [OF L'(2), of x] by (simp add: H'_def ring_rotate)
    show "set (k # R k) \<inter> set (new # x # xs) = {}" if "k \<in> H - {h}" for k
    proof -
      have "k \<noteq> x" using that ap(2) by auto
      with rings_disjoint [OF L'(2), of k x] that show ?thesis by (auto simp: H'_def)
    qed
  qed
  with L'(1) show ?thesis by simp
qed

lemma rings_replace_head:
  assumes "rings L H R" "h \<in> H" "new \<notin> members H R"
  shows "\<exists>L'. list_replace h new L = Some L' \<and> rings L' (insert new (H - {h})) (R(new := R h))"
  using rings_replace_empty [OF assms] rings_replace_nonempty [OF assms] by (cases "R h") auto

section \<open>Iterating\<close>

lemma for_each_from_chain:
  "chain L (xs @ [h]) \<Longrightarrow> h \<notin> set xs \<Longrightarrow> for_each_from (Some (hd (xs @ [h]))) h L = Some xs"
proof (induction xs)
  case (Cons x xs)
  then have "lnext L x = Some (hd (xs @ [h]))" "chain L (xs @ [h])" by (cases xs; simp)+
  with Cons show ?case by (subst for_each_from.simps) auto
qed (subst for_each_from.simps, simp)

lemma for_each_ring: "ring L h xs \<Longrightarrow> list_for_each h L = Some xs"
proof -
  assume r: "ring L h xs"
  then have "chain L (xs @ [h])" by (cases xs) (simp_all add: ring_def)
  with r show ?thesis by (simp add: list_for_each_def ring_ends for_each_from_chain ring_def)
qed

lemma for_each_prev_from_chain:
  "chain L (h # xs) \<Longrightarrow> h \<notin> set xs \<Longrightarrow> for_each_prev_from (Some (last (h # xs))) h L = Some (rev xs)"
proof (induction xs rule: rev_induct)
  case (snoc x xs)
  obtain us where us: "h # xs = us @ [last (h # xs)]" by (metis append_butlast_last_id list.distinct(1))
  have "h # xs @ [x] = us @ last (h # xs) # x # []" using us by (metis append_Cons append_Nil append_assoc)
  with snoc.prems(1) chain_append [of L us "last (h # xs)" x "[]"] us
  have "chain L (h # xs)" "lprev L x = Some (last (h # xs))" by metis+
  with snoc show ?case by (subst for_each_prev_from.simps) auto
qed (subst for_each_prev_from.simps, simp)

lemma for_each_prev_ring: "ring L h xs \<Longrightarrow> list_for_each_prev h L = Some (rev xs)"
proof -
  assume r: "ring L h xs"
  obtain us where us: "h # xs = us @ [last (h # xs)]" by (metis append_butlast_last_id list.distinct(1))
  have "h # xs @ [h] = us @ last (h # xs) # h # []" using us by (metis append_Cons append_Nil append_assoc)
  with r chain_append [of L us "last (h # xs)" h "[]"] us
  have "chain L (h # xs)" "lprev L h = Some (last (h # xs))" unfolding ring_def by metis+
  with r show ?thesis by (simp add: list_for_each_prev_def for_each_prev_from_chain ring_def del: last.simps)
qed

text \<open>Deleting every entry while iterating.\<close>

lemma drain_from:
  "ring L h xs \<Longrightarrow> \<exists>L'. for_each_safe_from list_del (hd (xs @ [h])) (lnext L (hd (xs @ [h]))) h L = Some (xs, L') \<and> ring L' h []"
proof (induction xs arbitrary: L)
  case Nil
  then show ?case by (subst for_each_safe_from.simps) simp
next
  case (Cons x xs)
  then have r: "ring L h ([] @ x # xs)" by simp
  from ring_remove [OF r] obtain n p where np: "lnext L x = Some n" "lprev L x = Some p"
    "ring (set_next p n (set_prev n p L)) h ([] @ xs)" .
  have n: "n = hd (xs @ [h])" using ring_next [OF r] np(1) by (simp add: list_next_def)
  have del: "list_del x L = Some (set_next p n (set_prev n p L))" using np(1,2) by (simp add: del_unlink list_unlink_def)
  from Cons.IH [of "set_next p n (set_prev n p L)"] np(3) obtain L' where
    "for_each_safe_from list_del n (lnext (set_next p n (set_prev n p L)) n) h (set_next p n (set_prev n p L)) = Some (xs, L')"
    "ring L' h []" by (auto simp: n)
  moreover have "x \<noteq> h" using r by (auto simp: ring_def)
  ultimately show ?case using del np(1) by (subst for_each_safe_from.simps) simp
qed

section \<open>Refinement\<close>

lemma without_other: "x \<notin> set (R h) \<Longrightarrow> without x R h = R h"
  by (simp add: without_def)

lemma rename_other: "old \<notin> set zs \<Longrightarrow> map (\<lambda>z. if z = old then new else z) zs = zs"
  by (rule map_idI) auto

lemma rings_rename:
  assumes R: "rings L H R" and new: "new \<notin> members H R" and old: "entry old (H, R)"
  shows "\<exists>L'. list_replace old new L = Some L' \<and> rings L' H (\<lambda>h. map (\<lambda>z. if z = old then new else z) (R h))"
proof -
  from old obtain h xs ys where h: "h \<in> H" "R h = xs @ old # ys" by (auto simp: entry_def dest: split_list)
  from rings_replace_entry [OF R h new] obtain L' where L': "list_replace old new L = Some L'" "rings L' H (R(h := xs @ new # ys))" by blast
  have mem: "old \<in> set (R h)" using h by simp
  note ap = rings_apart_entry [OF R h(1) mem]
  have "map (\<lambda>z. if z = old then new else z) (R k) = (R(h := xs @ new # ys)) k" if "k \<in> H" for k
    using ap(1) [OF that] ap(3) h(2) by (cases "k = h") (auto simp: rename_other)
  from lh.rep_cong [OF L'(2) this] L'(1) show ?thesis by blast
qed

lemma exec_op_refines:
  assumes R: "rings L H R" and ok: "op_ok x (H, R)"
  shows "\<exists>L'. exec_op x L = Some L' \<and> (case abs_op x (H, R) of (H', R') \<Rightarrow> rings L' H' R')"
proof (cases x)
  case (Add n h)
  with ok have h: "h \<in> H - {n}" and n: "unused n (H, R)" by auto
  with unused_rings [OF R n] Add rings_add [of L "H - {n}" R h n] show ?thesis by auto
next
  case (Add_tail n h)
  with ok have h: "h \<in> H - {n}" and n: "unused n (H, R)" by auto
  with unused_rings [OF R n] Add_tail rings_add_tail [of L "H - {n}" R h n] show ?thesis by auto
next
  case (Del z)
  with ok show ?thesis by (auto elim: rings_del [OF R])
next
  case (Del_init z)
  from rings_del [OF R, of z] ok Del_init obtain L' where L': "list_del z L = Some L'" "rings L' H (without z R)" "z \<notin> members H (without z R)"
    by auto
  from lh.init_rep [OF L'(2,3)] L'(1) Del_init show ?thesis by (simp add: list_del_init_def list_del_def)
next
  case (Move z h)
  from rings_del [OF R, of z] ok Move obtain L' where L': "list_del z L = Some L'" "rings L' H (without z R)" "z \<notin> members H (without z R)"
    by auto
  from rings_add [OF L'(2) _ L'(3), of h] ok L'(1) Move show ?thesis by (auto simp: list_move_def list_del_def without_def)
next
  case (Move_tail z h)
  from rings_del [OF R, of z] ok Move_tail obtain L' where L': "list_del z L = Some L'" "rings L' H (without z R)" "z \<notin> members H (without z R)"
    by auto
  from rings_add_tail [OF L'(2) _ L'(3), of h] ok L'(1) Move_tail show ?thesis by (auto simp: list_move_tail_def list_del_def without_def)
next
  case (Replace old new)
  with ok have on: "old \<noteq> new" and new: "unused new (H, R)" and old: "old \<in> H \<or> entry old (H, R)" by auto
  have R': "rings L (H - {new}) R" "new \<notin> members (H - {new}) R" using unused_rings [OF R new] by simp_all
  show ?thesis
  proof (cases "old \<in> H")
    case True
    moreover have "insert new (H - {new} - {old}) = insert new (H - {old})" by auto
    ultimately show ?thesis using rings_replace_head [OF R'(1) _ R'(2), of old] on Replace by simp
  next
    case False
    moreover from this old new have "entry old (H - {new}, R)" by (auto simp: entry_def unused_def)
    ultimately show ?thesis using rings_rename [OF R'] Replace by simp
  qed
qed

text \<open>Runs of operations.\<close>

fun run_ops :: "'l list_op list \<Rightarrow> 'l links \<Rightarrow> 'l links option" where
  "run_ops [] L = Some L"
| "run_ops (x # xs) L = Option.bind (exec_op x L) (run_ops xs)"

fun ops_ok :: "'l list_op list \<Rightarrow> 'l lists \<Rightarrow> bool" where
  "ops_ok [] S \<longleftrightarrow> True"
| "ops_ok (x # xs) S \<longleftrightarrow> op_ok x S \<and> ops_ok xs (abs_op x S)"

lemma run_ops_refines:
  "rings L H R \<Longrightarrow> ops_ok ops (H, R) \<Longrightarrow> \<exists>L' H' R'. run_ops ops L = Some L' \<and> fold abs_op ops (H, R) = (H', R') \<and> rings L' H' R'"
proof (induction ops arbitrary: L H R)
  case (Cons x xs)
  obtain H1 R1 where S: "abs_op x (H, R) = (H1, R1)" by fastforce
  from exec_op_refines [OF Cons.prems(1), of x] Cons.prems(2) S obtain L1 where "exec_op x L = Some L1" "rings L1 H1 R1" by auto
  with Cons.IH [of L1 H1 R1] Cons.prems(2) S show ?case by auto
qed simp

text \<open>C7: the lists of \<open>list.h\<close> implement lists.  Any sequence of additions at either end, deletions, moves and replacements that is legal on the abstract lists runs
  without a fault on the pointers and ends in a store that represents the abstract result.  In it, iterating forwards and backwards visits the entries in the list's order and in the
  reverse, the test for emptiness is right, and iterating with the removal of every entry visits all of them and leaves the list empty.\<close>

theorem list_head_refines:
  assumes "rings L H R" "ops_ok ops (H, R)"
  shows "\<exists>L' H' R'. run_ops ops L = Some L' \<and> fold abs_op ops (H, R) = (H', R') \<and> rings L' H' R' \<and>
    (\<forall>h \<in> H'. list_for_each h L' = Some (R' h) \<and> list_for_each_prev h L' = Some (rev (R' h)) \<and>
       (list_empty h L' \<longleftrightarrow> R' h = []) \<and>
       (\<exists>L''. list_for_each_entry_safe list_del h L' = Some (R' h, L'') \<and> list_empty h L''))"
proof -
  from run_ops_refines [OF assms] obtain L' H' R' where r: "run_ops ops L = Some L'" "fold abs_op ops (H, R) = (H', R')" "rings L' H' R'"
    by blast
  have "list_for_each h L' = Some (R' h)" "list_for_each_prev h L' = Some (rev (R' h))" "list_empty h L' \<longleftrightarrow> R' h = []"
    "\<exists>L''. list_for_each_entry_safe list_del h L' = Some (R' h, L'') \<and> list_empty h L''" if "h \<in> H'" for h
  proof -
    note ring = ringsD [OF r(3) that]
    show "list_for_each h L' = Some (R' h)" "list_for_each_prev h L' = Some (rev (R' h))"
      by (rule for_each_ring [OF ring], rule for_each_prev_ring [OF ring])
    show "list_empty h L' \<longleftrightarrow> R' h = []" using ring_isempty [OF ring] by (simp add: list_empty_def list_isempty_def)
    show "\<exists>L''. list_for_each_entry_safe list_del h L' = Some (R' h, L'') \<and> list_empty h L''"
      using drain_from [OF ring] ring_ends [OF ring] by (auto simp: list_for_each_entry_safe_def list_empty_def ring_empty)
  qed
  with r show ?thesis by blast
qed

theorem list_head_refines_witness:
  "\<exists>L'. run_ops [Add_tail 1 0, Add_tail 2 0, Add 3 0, Move_tail 1 9, Replace 2 4] (INIT_LIST_HEAD 9 (INIT_LIST_HEAD (0::nat) \<lparr>lnext = \<lambda>_. None, lprev = \<lambda>_. None\<rparr>)) = Some L' \<and>
     list_for_each 0 L' = Some [3, 4] \<and> list_for_each_prev 0 L' = Some [4, 3] \<and> list_for_each 9 L' = Some [1]"
proof -
  let ?L = "INIT_LIST_HEAD 9 (INIT_LIST_HEAD (0::nat) \<lparr>lnext = \<lambda>_. None, lprev = \<lambda>_. None\<rparr>)"
  let ?ops = "[Add_tail 1 0, Add_tail 2 0, Add 3 0, Move_tail 1 9, Replace 2 4] :: nat list_op list"
  have R: "rings ?L {0, 9} (\<lambda>_. [])" by (auto simp: rings_def ring_empty INIT_LIST_HEAD_def)
  have ok: "ops_ok ?ops ({0, 9}, \<lambda>_. [])" by (auto simp: unused_def entry_def members_def without_def)
  have f: "fold abs_op ?ops ({0, 9}, \<lambda>_. []) = (H', R') \<Longrightarrow> 0 \<in> H' \<and> 9 \<in> H' \<and> R' 0 = [3, 4] \<and> R' 9 = [1]" for H' R'
    by (auto simp: without_def)
  from list_head_refines [OF R ok] obtain L' H' R' where "run_ops ?ops ?L = Some L'" "fold abs_op ?ops ({0, 9}, \<lambda>_. []) = (H', R')"
    "\<forall>h \<in> H'. list_for_each h L' = Some (R' h) \<and> list_for_each_prev h L' = Some (rev (R' h))" by blast
  with f [of H' R'] show ?thesis by auto
qed

end
