(* ===== verification/UboxList.thy ===== *)
theory UboxList
  imports ListHead
begin

text \<open>
  The circular lists of \<open>src/include/libubox/list.h\<close>, which the bus library gives to its clients.  They are those of \<open>src/include/list.h\<close> in another
  hand: a deleted entry is left with null pointers, and whole lists can be spliced into others.
\<close>

section \<open>Operations\<close>

definition INIT_LIST_HEAD_ubox :: "'l \<Rightarrow> 'l links \<Rightarrow> 'l links" where
  "INIT_LIST_HEAD_ubox list L = set_next list list (set_prev list list L)"

definition list_empty_ubox :: "'l \<Rightarrow> 'l links \<Rightarrow> bool" where
  "list_empty_ubox head L \<longleftrightarrow> lnext L head = Some head"

definition list_is_first :: "'l \<Rightarrow> 'l \<Rightarrow> 'l links \<Rightarrow> bool" where
  "list_is_first list head L \<longleftrightarrow> lprev L list = Some head"

definition list_is_last :: "'l \<Rightarrow> 'l \<Rightarrow> 'l links \<Rightarrow> bool" where
  "list_is_last list head L \<longleftrightarrow> lnext L list = Some head"

text \<open>\<open>_list_del\<close>: both pointers of the entry are read again for the second write.\<close>

definition list_del_entry :: "'l \<Rightarrow> 'l links \<Rightarrow> 'l links option" where
  "list_del_entry x L = do {
     n \<leftarrow> lnext L x;
     let L = L\<lparr>lprev := (lprev L)(n := lprev L x)\<rparr>;
     p \<leftarrow> lprev L x;
     Some (L\<lparr>lnext := (lnext L)(p := lnext L x)\<rparr>) }"

definition list_del_ubox :: "'l \<Rightarrow> 'l links \<Rightarrow> 'l links option" where
  "list_del_ubox x L = do {
     L \<leftarrow> list_del_entry x L;
     Some (L\<lparr>lprev := (lprev L)(x := None), lnext := (lnext L)(x := None)\<rparr>) }"

text \<open>\<open>_list_add\<close>.\<close>

definition list_add_entry :: "'l \<Rightarrow> 'l option \<Rightarrow> 'l option \<Rightarrow> 'l links \<Rightarrow> 'l links option" where
  "list_add_entry new prev next L = do {
     n \<leftarrow> next;
     let L = set_prev n new L;
     let L = set_next new n L;
     let L = L\<lparr>lprev := (lprev L)(new := prev)\<rparr>;
     p \<leftarrow> prev;
     Some (set_next p new L) }"

definition list_del_init_ubox :: "'l \<Rightarrow> 'l links \<Rightarrow> 'l links option" where
  "list_del_init_ubox x L = do {
     L \<leftarrow> list_del_entry x L;
     Some (INIT_LIST_HEAD_ubox x L) }"

text \<open>The iteration macros.  The safe ones fetch the neighbour of the entry before the body runs.\<close>

partial_function (option) each_from :: "('l links \<Rightarrow> 'l \<Rightarrow> 'l option) \<Rightarrow> 'l option \<Rightarrow> 'l \<Rightarrow> 'l links \<Rightarrow> 'l list option" where
  "each_from step p head L = (case p of
     None \<Rightarrow> None
   | Some x \<Rightarrow> if x = head then Some [] else Option.bind (each_from step (step L x) head L) (\<lambda>xs. Some (x # xs)))"

definition list_for_each_ubox :: "'l \<Rightarrow> 'l links \<Rightarrow> 'l list option" where
  "list_for_each_ubox head L = each_from lnext (lnext L head) head L"

definition list_for_each_prev_ubox :: "'l \<Rightarrow> 'l links \<Rightarrow> 'l list option" where
  "list_for_each_prev_ubox head L = each_from lprev (lprev L head) head L"

partial_function (option) each_safe_from :: "('l links \<Rightarrow> 'l \<Rightarrow> 'l option) \<Rightarrow> ('l \<Rightarrow> 'l links \<Rightarrow> 'l links option) \<Rightarrow> 'l \<Rightarrow> 'l option \<Rightarrow> 'l \<Rightarrow> 'l links \<Rightarrow>
    ('l list \<times> 'l links) option" where
  "each_safe_from step body p n head L =
     (if p = head then Some ([], L)
      else Option.bind (body p L) (\<lambda>L. Option.bind n (\<lambda>p'.
        Option.bind (each_safe_from step body p' (step L p') head L) (\<lambda>(xs, L). Some (p # xs, L)))))"

definition list_for_each_safe_ubox :: "('l \<Rightarrow> 'l links \<Rightarrow> 'l links option) \<Rightarrow> 'l \<Rightarrow> 'l links \<Rightarrow> ('l list \<times> 'l links) option" where
  "list_for_each_safe_ubox body head L = Option.bind (lnext L head) (\<lambda>p. each_safe_from lnext body p (lnext L p) head L)"

definition list_for_each_prev_safe_ubox :: "('l \<Rightarrow> 'l links \<Rightarrow> 'l links option) \<Rightarrow> 'l \<Rightarrow> 'l links \<Rightarrow> ('l list \<times> 'l links) option" where
  "list_for_each_prev_safe_ubox body head L = Option.bind (lprev L head) (\<lambda>p. each_safe_from lprev body p (lprev L p) head L)"

definition list_add_ubox :: "'l \<Rightarrow> 'l \<Rightarrow> 'l links \<Rightarrow> 'l links option" where
  "list_add_ubox new head L = list_add_entry new (Some head) (lnext L head) L"

definition list_add_tail_ubox :: "'l \<Rightarrow> 'l \<Rightarrow> 'l links \<Rightarrow> 'l links option" where
  "list_add_tail_ubox new head L = list_add_entry new (lprev L head) (Some head) L"

definition list_move_ubox :: "'l \<Rightarrow> 'l \<Rightarrow> 'l links \<Rightarrow> 'l links option" where
  "list_move_ubox list head L = do {
     L \<leftarrow> list_del_entry list L;
     list_add_ubox list head L }"

definition list_move_tail_ubox :: "'l \<Rightarrow> 'l \<Rightarrow> 'l links \<Rightarrow> 'l links option" where
  "list_move_tail_ubox x head L = do {
     L \<leftarrow> list_del_entry x L;
     list_add_tail_ubox x head L }"

text \<open>\<open>_list_splice\<close>.\<close>

definition list_splice_between :: "'l \<Rightarrow> 'l option \<Rightarrow> 'l option \<Rightarrow> 'l links \<Rightarrow> 'l links option" where
  "list_splice_between list prev next L =
     (if list_empty_ubox list L then Some L
      else do {
        let first = lnext L list;
        let last = lprev L list;
        f \<leftarrow> first;
        let L = L\<lparr>lprev := (lprev L)(f := prev)\<rparr>;
        p \<leftarrow> prev;
        let L = set_next p f L;
        l \<leftarrow> last;
        let L = L\<lparr>lnext := (lnext L)(l := next)\<rparr>;
        n \<leftarrow> next;
        Some (set_prev n l L) })"

definition list_splice :: "'l \<Rightarrow> 'l \<Rightarrow> 'l links \<Rightarrow> 'l links option" where
  "list_splice list head L = list_splice_between list (Some head) (lnext L head) L"

definition list_splice_tail :: "'l \<Rightarrow> 'l \<Rightarrow> 'l links \<Rightarrow> 'l links option" where
  "list_splice_tail list head L = list_splice_between list (lprev L head) (Some head) L"

definition list_splice_init :: "'l \<Rightarrow> 'l \<Rightarrow> 'l links \<Rightarrow> 'l links option" where
  "list_splice_init list head L = do {
     L \<leftarrow> list_splice_between list (Some head) (lnext L head) L;
     Some (INIT_LIST_HEAD_ubox list L) }"

definition list_splice_tail_init :: "'l \<Rightarrow> 'l \<Rightarrow> 'l links \<Rightarrow> 'l links option" where
  "list_splice_tail_init list head L = do {
     L \<leftarrow> list_splice_between list (lprev L head) (Some head) L;
     Some (INIT_LIST_HEAD_ubox list L) }"

section \<open>The operations on rings\<close>

text \<open>Most operations are those of \<open>list.h\<close>.\<close>

lemma init_ubox: "INIT_LIST_HEAD_ubox = list_init"
  by (simp add: fun_eq_iff INIT_LIST_HEAD_ubox_def list_init_def)

lemma add_ubox: "list_add_ubox = list_add" "list_add_tail_ubox = list_add_tail"
  by (simp_all add: fun_eq_iff list_add_entry_def list_add_between_def list_add_ubox_def list_add_def list_add_tail_ubox_def list_add_tail_def)

lemma del_entry: "list_del_entry = list_del"
proof (intro ext)
  fix x :: 'a and L
  show "list_del_entry x L = list_del x L"
    by (cases "lnext L x"; cases "lprev L x") (simp_all add: list_del_entry_def list_del_def list_del_between_def link_writes)
qed

lemma move_ubox: "list_move_ubox = list_move" "list_move_tail_ubox = list_move_tail" "list_del_init_ubox = list_del_init"
  by (simp_all add: fun_eq_iff list_move_ubox_def list_move_def list_move_tail_ubox_def list_move_tail_def list_del_init_ubox_def list_del_init_def
      del_entry list_del_def add_ubox init_ubox init_init)

lemmas ubox_is = init_ubox add_ubox del_entry move_ubox

text \<open>Deleting also clears the pointers of the entry, which is in no list any more.\<close>

lemma rings_del_ubox:
  assumes "rings L H R" "entry x (H, R)"
  obtains L' where "list_del_ubox x L = Some L'" "rings L' H (without x R)" "x \<notin> members H (without x R)"
proof -
  from rings_del [OF assms] obtain L1 where L1: "list_del x L = Some L1" "rings L1 H (without x R)" "x \<notin> members H (without x R)" .
  let ?L = "L1\<lparr>lprev := (lprev L1)(x := None), lnext := (lnext L1)(x := None)\<rparr>"
  have "rings ?L H (without x R)" by (rule rings_frame [OF L1(2,3)]) simp
  with L1 show thesis by (intro that [of ?L]) (simp_all add: list_del_ubox_def del_entry)
qed

interpretation ubox: ring_store rings "\<lambda>q n. list_add_tail_ubox n q" list_del_ubox INIT_LIST_HEAD_ubox
proof (unfold_locales, goal_cases)
  case (1 L H R H')
  then show ?case by (rule rings_subset)
next
  case (2 L H R R')
  then show ?case by (rule ll.rep_cong)
next
  case (3 L H R h xs ys n)
  from lh.ins_rep [OF this] show ?case by (simp add: add_ubox)
next
  case (4 L H R h xs x ys)
  from lh.unlink_rep [OF this] obtain L1 where L1: "list_del x L = Some L1" "rings L1 H (R(h := xs @ ys))" "x \<notin> members H (R(h := xs @ ys))" by blast
  have "rings (L1\<lparr>lprev := (lprev L1)(x := None), lnext := (lnext L1)(x := None)\<rparr>) H (R(h := xs @ ys))"
    by (rule rings_frame [OF L1(2,3)]) simp
  with L1 show ?case by (simp add: list_del_ubox_def del_entry)
next
  case (5 L H R x)
  from ll.init_rep [OF this] show ?case by (simp add: init_ubox)
next
  case (6 L H R h k)
  then show ?case by (rule rings_disjoint)
qed

section \<open>Splicing\<close>

lemma ring_segment:
  assumes "ring L l zs" "zs = f # ft" "zs = ei @ [e]"
  shows "lnext L l = Some f" "lprev L l = Some e" "chain L zs"
proof -
  have "chain L (l # f # (ft @ [l]))" using assms(1,2) by (simp add: ring_def)
  moreover have "f # (ft @ [l]) = ei @ e # l # []" using assms(2,3) by (metis append.assoc append_Cons append_Nil)
  ultimately have "lnext L l = Some f" "chain L (ei @ e # l # [])" by (metis chain.simps(1))+
  then show "lnext L l = Some f" "lprev L l = Some e" "chain L zs" using assms(3) by (simp_all add: chain_append)
qed

lemma ring_splice:
  assumes h: "ring L h (xs @ ys)" and l: "ring L l zs" "zs \<noteq> []" and apart: "set (h # xs @ ys) \<inter> set (l # zs) = {}"
  obtains L' where "list_splice_between l (Some (last (h # xs))) (Some (hd (ys @ [h]))) L = Some L'" "ring L' h (xs @ zs @ ys)"
    "\<And>z. z \<notin> set (h # xs @ ys) \<union> set zs \<Longrightarrow> lnext L' z = lnext L z \<and> lprev L' z = lprev L z"
proof -
  obtain us vs p q where gap: "h # xs = us @ [p]" "ys @ [h] = q # vs" and pq: "p = last (h # xs)" "q = hd (ys @ [h])" by (rule gap_split)
  from h have d: "distinct (h # xs @ ys)" by (simp add: ring_def)
  note g = gap_distinct [OF gap d]
  from h have c: "chain L (us @ [p])" "chain L (q # vs)" by (simp_all add: ring_gap [OF gap])
  obtain f ft where f: "zs = f # ft" using l(2) by (cases zs) auto
  obtain ei e where e: "zs = ei @ [e]" using l(2) by (cases zs rule: rev_cases) auto
  note ends = ring_segment [OF l(1) f e]
  have fe: "f \<in> set zs" "e \<in> set zs" using f by simp (simp add: e)
  define L' where "L' = set_prev q e (set_next e q (set_next p f (set_prev f p L)))"
  have nxt: "lnext L' = (lnext L)(p := Some f, e := Some q)" and prv: "lprev L' = (lprev L)(f := Some p, q := Some e)"
    by (simp_all add: L'_def)
  have out: "set (us @ [p]) \<inter> set zs = {}" "set (q # vs) \<inter> set zs = {}" using apart g(5,6) by auto
  have dz: "distinct zs" "l \<notin> set zs" using l(1) by (simp_all add: ring_def)
  have "f \<notin> set (tl (us @ [p]))" using apart g(7) fe(1) by auto
  then have left: "chain L' (us @ [p])" using c(1) g(1,3) out(1) fe by (intro chain_cong [of _ L' L]) (auto simp: nxt prv)
  have right: "chain L' (q # vs)" using c(2) g(2,4) out(2) fe by (intro chain_cong [of _ L' L]) (auto simp: nxt prv split: if_splits dest: in_set_butlastD)
  have mid: "chain L' zs"
  proof (rule chain_cong [OF _ _ ends(3)])
    fix x assume "x \<in> set (butlast zs)"
    then show "lnext L' x = lnext L x" using e dz out(1) by (auto simp: nxt)
  next
    fix x assume "x \<in> set (tl zs)"
    then show "lprev L' x = lprev L x" using f dz out(2) by (auto simp: prv)
  qed
  have eq: "h # (xs @ zs @ ys) @ [h] = us @ p # f # (ft @ q # vs)" "f # ft @ q # vs = ei @ e # q # vs"
    using gap f e by (metis append_Cons append_Nil append_assoc)+
  have ne: "p \<noteq> e" "f \<noteq> q" using out fe by auto
  have "chain L' (f # ft @ q # vs)" unfolding eq(2) chain_append using right mid e by (simp add: nxt prv)
  then have "chain L' (us @ p # f # (ft @ q # vs))" unfolding chain_append using left ne by (simp add: nxt prv)
  then have "ring L' h (xs @ zs @ ys)" using d dz apart by (auto simp: ring_def eq(1) [simplified])
  moreover have "list_splice_between l (Some p) (Some q) L = Some L'"
    using ends f dz by (auto simp: list_splice_between_def list_empty_ubox_def L'_def link_writes)
  moreover have "lnext L' z = lnext L z \<and> lprev L' z = lprev L z" if "z \<notin> set (h # xs @ ys) \<union> set zs" for z
    using that fe g(5,6) by (auto simp: nxt prv)
  ultimately show thesis using that pq by blast
qed

lemma rings_splice:
  assumes R: "rings L H R" and h: "h \<in> H" "R h = xs @ ys" and l: "l \<in> H" "l \<noteq> h" "R l \<noteq> []"
  obtains L' where "list_splice_between l (Some (last (h # xs))) (Some (hd (ys @ [h]))) L = Some L'" "rings L' (H - {l}) (R(h := xs @ R l @ ys))"
    "l \<notin> members (H - {l}) (R(h := xs @ R l @ ys))"
proof -
  have rh: "ring L h (xs @ ys)" and rl: "ring L l (R l)" using ringsD [OF R h(1)] ringsD [OF R l(1)] h(2) by simp_all
  have apart: "set (h # xs @ ys) \<inter> set (l # R l) = {}" using rings_disjoint [OF R h(1) l(1)] l(2) h(2) by simp
  from ring_splice [OF rh rl l(3) apart] obtain L' where L': "list_splice_between l (Some (last (h # xs))) (Some (hd (ys @ [h]))) L = Some L'"
    "ring L' h (xs @ R l @ ys)" "\<And>z. z \<notin> set (h # xs @ ys) \<union> set (R l) \<Longrightarrow> lnext L' z = lnext L z \<and> lprev L' z = lprev L z" by blast
  have R': "rings L (H - {l}) R" by (rule rings_subset [OF R]) blast
  have out: "set (l # R l) \<inter> members (H - {l}) R = {}" using rings_disjoint [OF R _ l(1)] by (fastforce simp: members_def)
  have "rings L' (H - {l}) (R(h := xs @ R l @ ys))"
    by (rule rings_update [OF R' _ L'(2), of "set (R l)"]) (use h l(2) L'(3) out in auto)
  moreover have "l \<notin> members (H - {l}) (R(h := xs @ R l @ ys))"
    using out apart rl h l(2) by (auto simp: members_def ring_def split: if_splits)
  ultimately show thesis using that L'(1) by blast
qed

text \<open>Splicing at the front and at the end, with and without making the other head empty.\<close>

lemma ring_back: "ring L h xs \<Longrightarrow> lprev L h = Some (last (h # xs))"
proof -
  assume r: "ring L h xs"
  obtain us where us: "h # xs = us @ [last (h # xs)]" by (metis append_butlast_last_id list.distinct(1))
  have "h # xs @ [h] = us @ last (h # xs) # h # []" using us by (metis append_Cons append_Nil append_assoc)
  with r chain_append [of L us "last (h # xs)" h "[]"] show ?thesis unfolding ring_def by metis
qed

lemma splice_rings:
  assumes R: "rings L H R" and h: "h \<in> H" "R h = xs @ ys" and l: "l \<in> H" "l \<noteq> h"
  shows "\<exists>L'. list_splice_between l (Some (last (h # xs))) (Some (hd (ys @ [h]))) L = Some L' \<and>
    (if R l = [] then L' = L else rings L' (H - {l}) (R(h := xs @ R l @ ys))) \<and>
    rings (list_init l L') H (R(h := xs @ R l @ ys, l := []))"
proof (cases "R l = []")
  case True
  note r = ringsD [OF R l(1), unfolded True ring_empty]
  have "list_init l L = L" using r by (cases L) (simp add: list_init_def link_writes fun_upd_idem)
  moreover have "rings L H (R(h := xs @ R l @ ys, l := []))" by (rule ll.rep_cong [OF R]) (use True h in auto)
  ultimately show ?thesis using True r by (simp add: list_splice_between_def list_empty_ubox_def)
next
  case False
  from rings_splice [OF R h l False] obtain L' where L': "list_splice_between l (Some (last (h # xs))) (Some (hd (ys @ [h]))) L = Some L'"
    "rings L' (H - {l}) (R(h := xs @ R l @ ys))" "l \<notin> members (H - {l}) (R(h := xs @ R l @ ys))" .
  have "insert l (H - {l}) = H" using l(1) by blast
  with ll.init_rep [OF L'(2,3)] L'(1,2) False show ?thesis by simp
qed

section \<open>Iterating\<close>

text \<open>A path that leads through \<open>xs\<close> to \<open>h\<close>.\<close>

fun path :: "('l links \<Rightarrow> 'l \<Rightarrow> 'l option) \<Rightarrow> 'l links \<Rightarrow> 'l \<Rightarrow> 'l list \<Rightarrow> bool" where
  "path step L h [] \<longleftrightarrow> True"
| "path step L h (x # xs) \<longleftrightarrow> x \<noteq> h \<and> step L x = Some (hd (xs @ [h])) \<and> path step L h xs"

lemma each_path: "path step L h xs \<Longrightarrow> each_from step (Some (hd (xs @ [h]))) h L = Some xs"
  by (induction xs) (subst each_from.simps, simp)+

lemma chain_path: "chain L (xs @ [h]) \<Longrightarrow> h \<notin> set xs \<Longrightarrow> path lnext L h xs"
proof (induction xs)
  case (Cons x xs)
  then have "lnext L x = Some (hd (xs @ [h]))" "chain L (xs @ [h])" by (cases xs; simp)+
  with Cons show ?case by auto
qed simp

lemma chain_path_prev: "chain L (h # xs) \<Longrightarrow> h \<notin> set xs \<Longrightarrow> path lprev L h (rev xs)"
proof (induction xs rule: rev_induct)
  case (snoc x xs)
  obtain us where us: "h # xs = us @ [last (h # xs)]" by (metis append_butlast_last_id list.distinct(1))
  have "h # xs @ [x] = us @ last (h # xs) # x # []" using us by (metis append_Cons append_Nil append_assoc)
  with snoc.prems(1) chain_append [of L us "last (h # xs)" x "[]"] us
  have "chain L (h # xs)" "lprev L x = Some (last (h # xs))" by metis+
  with snoc show ?case by (auto simp: last_rev hd_append hd_rev)
qed simp

lemma ring_paths:
  assumes "ring L h xs"
  shows "path lnext L h xs" "path lprev L h (rev xs)" "lprev L h = Some (hd (rev xs @ [h]))"
proof -
  have c: "chain L (h # xs @ [h])" "h \<notin> set xs" using assms by (auto simp: ring_def)
  from c show "path lnext L h xs" by (intro chain_path) (cases xs; simp)
  have "chain L (h # xs)" using c(1) by (cases xs rule: rev_cases) (use chain_append [of L "h # butlast xs" "last xs" h "[]"] in auto)
  with c(2) show "path lprev L h (rev xs)" by (rule chain_path_prev [rotated])
  show "lprev L h = Some (hd (rev xs @ [h]))" using ring_back [OF assms] by (simp add: hd_append hd_rev)
qed

lemma each_ring: "ring L h xs \<Longrightarrow> list_for_each_ubox h L = Some xs" "ring L h xs \<Longrightarrow> list_for_each_prev_ubox h L = Some (rev xs)"
  using each_path [OF ring_paths(1), of L h xs] each_path [OF ring_paths(2), of L h xs] ring_ends [of L h xs] ring_paths(3) [of L h xs]
  by (auto simp: list_for_each_ubox_def list_for_each_prev_ubox_def)

text \<open>Iterating with the removal of every entry, in either direction.\<close>

lemma each_safe_drain:
  assumes "\<And>L x xs. P L (x # xs) \<Longrightarrow> x \<noteq> h \<and> step L x = Some (hd (xs @ [h])) \<and> (\<exists>L'. list_del_ubox x L = Some L' \<and> P L' xs)"
  shows "P L xs \<Longrightarrow> \<exists>L'. each_safe_from step list_del_ubox (hd (xs @ [h])) (step L (hd (xs @ [h]))) h L = Some (xs, L') \<and> P L' []"
proof (induction xs arbitrary: L)
  case Nil
  then show ?case by (subst each_safe_from.simps) simp
next
  case (Cons x xs)
  from assms [OF Cons.prems] obtain L1 where "x \<noteq> h" "step L x = Some (hd (xs @ [h]))" "list_del_ubox x L = Some L1" "P L1 xs" by blast
  with Cons.IH [of L1] show ?case by (subst each_safe_from.simps) auto
qed

lemma del_ring: "ring L h (xs @ x # ys) \<Longrightarrow> \<exists>L'. list_del_ubox x L = Some L' \<and> ring L' h (xs @ ys)"
  using ubox.unlink_rep [of L "{h}" "\<lambda>_. xs @ x # ys" h xs x ys] by (auto simp: rings_def)

lemma drain_ring:
  assumes "ring L h xs"
  shows "\<exists>L'. list_for_each_safe_ubox list_del_ubox h L = Some (xs, L') \<and> ring L' h []"
    and "\<exists>L'. list_for_each_prev_safe_ubox list_del_ubox h L = Some (rev xs, L') \<and> ring L' h []"
proof -
  have "\<exists>L'. each_safe_from lnext list_del_ubox (hd (xs @ [h])) (lnext L (hd (xs @ [h]))) h L = Some (xs, L') \<and> ring L' h []"
    by (rule each_safe_drain [where P = "\<lambda>L xs. ring L h xs"]) (use assms del_ring [of _ h "[]"] ring_paths(1) in fastforce)+
  then show "\<exists>L'. list_for_each_safe_ubox list_del_ubox h L = Some (xs, L') \<and> ring L' h []"
    using ring_ends [OF assms] by (simp add: list_for_each_safe_ubox_def)
  have "\<exists>L'. each_safe_from lprev list_del_ubox (hd (rev xs @ [h])) (lprev L (hd (rev xs @ [h]))) h L = Some (rev xs, L') \<and> ring L' h (rev [])"
    by (rule each_safe_drain [where P = "\<lambda>L xs. ring L h (rev xs)"]) (use assms del_ring [of _ h _ _ "[]"] ring_paths(2) in fastforce)+
  then show "\<exists>L'. list_for_each_prev_safe_ubox list_del_ubox h L = Some (rev xs, L') \<and> ring L' h []"
    using ring_paths(3) [OF assms] by (simp add: list_for_each_prev_safe_ubox_def)
qed

lemma ring_first_last:
  assumes "ring L h xs" "x \<in> set xs"
  shows "list_is_first x h L \<longleftrightarrow> x = hd xs" "list_is_last x h L \<longleftrightarrow> x = last xs"
proof -
  obtain ys zs where xs: "xs = ys @ x # zs" using assms(2) by (auto dest: split_list)
  with assms(1) have d: "distinct (h # ys @ x # zs)" by (simp add: ring_def)
  have r: "ring L h (ys @ x # zs)" using assms(1) xs by simp
  have "lnext L x = Some (hd (zs @ [h]))" using ring_next [OF r] by (simp add: list_next_def)
  then show "list_is_last x h L \<longleftrightarrow> x = last xs" using d xs by (cases zs) (auto simp: list_is_last_def)
  have "chain L (h # ys @ x # zs @ [h])" using r by (simp add: ring_def)
  then have "lprev L x = Some (last (h # ys))"
    by (cases ys rule: rev_cases) (use chain_append [of L "h # butlast ys" "last ys" x "zs @ [h]"] in auto)
  then show "list_is_first x h L \<longleftrightarrow> x = hd xs" using d xs by (cases ys rule: rev_cases) (auto simp: list_is_first_def hd_append)
qed

section \<open>Refinement\<close>

text \<open>The abstract operations are those on the lists of \<open>list.h\<close>, without replacement, and splicing.  A head whose entries went elsewhere is unusable unless it is initialised.\<close>

datatype 'l ubox_op = Basic "'l list_op" | Splice 'l 'l | Splice_tail 'l 'l | Splice_init 'l 'l | Splice_tail_init 'l 'l

fun splice_ok :: "'l \<Rightarrow> 'l \<Rightarrow> 'l lists \<Rightarrow> bool" where
  "splice_ok l h (H, R) \<longleftrightarrow> l \<in> H \<and> h \<in> H \<and> l \<noteq> h"

fun ubox_ok :: "'l ubox_op \<Rightarrow> 'l lists \<Rightarrow> bool" where
  "ubox_ok (Basic (Replace old new)) S \<longleftrightarrow> False"
| "ubox_ok (Basic x) S \<longleftrightarrow> op_ok x S"
| "ubox_ok (Splice l h) S \<longleftrightarrow> splice_ok l h S"
| "ubox_ok (Splice_tail l h) S \<longleftrightarrow> splice_ok l h S"
| "ubox_ok (Splice_init l h) S \<longleftrightarrow> splice_ok l h S"
| "ubox_ok (Splice_tail_init l h) S \<longleftrightarrow> splice_ok l h S"

fun abs_ubox :: "'l ubox_op \<Rightarrow> 'l lists \<Rightarrow> 'l lists" where
  "abs_ubox (Basic x) S = abs_op x S"
| "abs_ubox (Splice l h) (H, R) = (if R l = [] then (H, R) else (H - {l}, R(h := R l @ R h)))"
| "abs_ubox (Splice_tail l h) (H, R) = (if R l = [] then (H, R) else (H - {l}, R(h := R h @ R l)))"
| "abs_ubox (Splice_init l h) (H, R) = (H, R(h := R l @ R h, l := []))"
| "abs_ubox (Splice_tail_init l h) (H, R) = (H, R(h := R h @ R l, l := []))"

fun exec_ubox :: "'l ubox_op \<Rightarrow> 'l links \<Rightarrow> 'l links option" where
  "exec_ubox (Basic (Add n h)) L = list_add_ubox n h L"
| "exec_ubox (Basic (Add_tail n h)) L = list_add_tail_ubox n h L"
| "exec_ubox (Basic (Del x)) L = list_del_ubox x L"
| "exec_ubox (Basic (Del_init x)) L = list_del_init_ubox x L"
| "exec_ubox (Basic (Move x h)) L = list_move_ubox x h L"
| "exec_ubox (Basic (Move_tail x h)) L = list_move_tail_ubox x h L"
| "exec_ubox (Basic (Replace old new)) L = None"
| "exec_ubox (Splice l h) L = list_splice l h L"
| "exec_ubox (Splice_tail l h) L = list_splice_tail l h L"
| "exec_ubox (Splice_init l h) L = list_splice_init l h L"
| "exec_ubox (Splice_tail_init l h) L = list_splice_tail_init l h L"

lemma basic_refines:
  assumes "rings L H R" "ubox_ok (Basic x) (H, R)"
  shows "\<exists>L'. exec_ubox (Basic x) L = Some L' \<and> (case abs_op x (H, R) of (H', R') \<Rightarrow> rings L' H' R')"
proof (cases "\<exists>z. x = Del z")
  case True
  then obtain z where z: "x = Del z" by blast
  with assms rings_del_ubox [of L H R z] show ?thesis by (simp, metis)
next
  case False
  with assms(2) have "op_ok x (H, R)" "exec_ubox (Basic x) L = exec_op x L" by (cases x; simp add: ubox_is)+
  with exec_op_refines [OF assms(1)] show ?thesis by simp
qed

lemma splice_refines:
  assumes R: "rings L H R" and ok: "splice_ok l h (H, R)"
  shows "\<exists>L'. list_splice l h L = Some L' \<and> (case abs_ubox (Splice l h) (H, R) of (H', R') \<Rightarrow> rings L' H' R')"
    and "\<exists>L'. list_splice_init l h L = Some L' \<and> rings L' H (R(h := R l @ R h, l := []))"
    and "\<exists>L'. list_splice_tail l h L = Some L' \<and> (case abs_ubox (Splice_tail l h) (H, R) of (H', R') \<Rightarrow> rings L' H' R')"
    and "\<exists>L'. list_splice_tail_init l h L = Some L' \<and> rings L' H (R(h := R h @ R l, l := []))"
proof -
  from ok have lh: "h \<in> H" "l \<in> H" "l \<noteq> h" by auto
  note r = ringsD [OF R lh(1)]
  from splice_rings [OF R lh(1) _ lh(2,3), of "[]" "R h"] ring_ends [OF r] obtain L1 where
    "list_splice l h L = Some L1" "if R l = [] then L1 = L else rings L1 (H - {l}) (R(h := R l @ R h))" "rings (list_init l L1) H (R(h := R l @ R h, l := []))"
    by (auto simp: list_splice_def split: if_splits)
  then show "\<exists>L'. list_splice l h L = Some L' \<and> (case abs_ubox (Splice l h) (H, R) of (H', R') \<Rightarrow> rings L' H' R')"
    "\<exists>L'. list_splice_init l h L = Some L' \<and> rings L' H (R(h := R l @ R h, l := []))"
    using R by (auto simp: list_splice_init_def list_splice_def init_ubox)
  from splice_rings [OF R lh(1) _ lh(2,3), of "R h" "[]"] ring_back [OF r] obtain L2 where
    "list_splice_tail l h L = Some L2" "if R l = [] then L2 = L else rings L2 (H - {l}) (R(h := R h @ R l))" "rings (list_init l L2) H (R(h := R h @ R l, l := []))"
    by (auto simp: list_splice_tail_def split: if_splits)
  then show "\<exists>L'. list_splice_tail l h L = Some L' \<and> (case abs_ubox (Splice_tail l h) (H, R) of (H', R') \<Rightarrow> rings L' H' R')"
    "\<exists>L'. list_splice_tail_init l h L = Some L' \<and> rings L' H (R(h := R h @ R l, l := []))"
    using R by (auto simp: list_splice_tail_init_def list_splice_tail_def init_ubox)
qed

lemma exec_ubox_refines:
  assumes "rings L H R" "ubox_ok x (H, R)"
  shows "\<exists>L'. exec_ubox x L = Some L' \<and> (case abs_ubox x (H, R) of (H', R') \<Rightarrow> rings L' H' R')"
proof (cases x)
  case (Basic y)
  with assms show ?thesis using basic_refines [of L H R y] by simp
qed (use assms splice_refines [OF assms(1)] in \<open>auto simp del: splice_ok.simps\<close>)

fun run_ubox :: "'l ubox_op list \<Rightarrow> 'l links \<Rightarrow> 'l links option" where
  "run_ubox [] L = Some L"
| "run_ubox (x # xs) L = Option.bind (exec_ubox x L) (run_ubox xs)"

fun ubox_ops_ok :: "'l ubox_op list \<Rightarrow> 'l lists \<Rightarrow> bool" where
  "ubox_ops_ok [] S \<longleftrightarrow> True"
| "ubox_ops_ok (x # xs) S \<longleftrightarrow> ubox_ok x S \<and> ubox_ops_ok xs (abs_ubox x S)"

lemma run_ubox_refines:
  "rings L H R \<Longrightarrow> ubox_ops_ok ops (H, R) \<Longrightarrow> \<exists>L' H' R'. run_ubox ops L = Some L' \<and> fold abs_ubox ops (H, R) = (H', R') \<and> rings L' H' R'"
proof (induction ops arbitrary: L H R)
  case (Cons x xs)
  obtain H1 R1 where S: "abs_ubox x (H, R) = (H1, R1)" by fastforce
  from exec_ubox_refines [OF Cons.prems(1), of x] Cons.prems(2) S obtain L1 where "exec_ubox x L = Some L1" "rings L1 H1 R1" by auto
  with Cons.IH [of L1 H1 R1] Cons.prems(2) S show ?case by auto
qed simp

text \<open>C16: the lists of the bus library.  Any legal sequence of additions, deletions, moves and splices runs without a fault and represents the result of the same operations on abstract
  sequences; a splice puts all entries of one list, in order, at the front or the end of another.  In the result both directions of iteration visit exactly the entries of a list, the tests for the empty list, the
  first and the last entry are right, and iterating in either direction while deleting every entry visits all of them and empties the list.\<close>

theorem ubox_list_refines:
  assumes "rings L H R" "ubox_ops_ok ops (H, R)"
  shows "\<exists>L' H' R'. run_ubox ops L = Some L' \<and> fold abs_ubox ops (H, R) = (H', R') \<and> rings L' H' R' \<and>
    (\<forall>h \<in> H'. list_for_each_ubox h L' = Some (R' h) \<and> list_for_each_prev_ubox h L' = Some (rev (R' h)) \<and> (list_empty_ubox h L' \<longleftrightarrow> R' h = []) \<and>
       (\<forall>x \<in> set (R' h). (list_is_first x h L' \<longleftrightarrow> x = hd (R' h)) \<and> (list_is_last x h L' \<longleftrightarrow> x = last (R' h))) \<and>
       (\<exists>L''. list_for_each_safe_ubox list_del_ubox h L' = Some (R' h, L'') \<and> ring L'' h []) \<and>
       (\<exists>L''. list_for_each_prev_safe_ubox list_del_ubox h L' = Some (rev (R' h), L'') \<and> ring L'' h []))"
proof -
  from run_ubox_refines [OF assms] obtain L' H' R' where r: "run_ubox ops L = Some L'" "fold abs_ubox ops (H, R) = (H', R')" "rings L' H' R'" by blast
  have "list_empty_ubox h L' \<longleftrightarrow> R' h = []" if "h \<in> H'" for h
    using ring_isempty [OF ringsD [OF r(3) that]] by (simp add: list_empty_ubox_def list_isempty_def)
  with r each_ring [OF ringsD [OF r(3)]] drain_ring [OF ringsD [OF r(3)]] ring_first_last [OF ringsD [OF r(3)]] show ?thesis by blast
qed

theorem ubox_list_refines_witness:
  "\<exists>L'. run_ubox [Basic (Add_tail 1 0), Basic (Add_tail 2 0), Basic (Add 3 9), Splice_tail_init 0 9, Basic (Del 2)]
       (INIT_LIST_HEAD_ubox 9 (INIT_LIST_HEAD_ubox (0::nat) \<lparr>lnext = \<lambda>_. None, lprev = \<lambda>_. None\<rparr>)) = Some L' \<and>
     list_for_each_ubox 9 L' = Some [3, 1] \<and> list_for_each_prev_ubox 9 L' = Some [1, 3] \<and> list_empty_ubox 0 L'"
proof -
  let ?L = "INIT_LIST_HEAD_ubox 9 (INIT_LIST_HEAD_ubox (0::nat) \<lparr>lnext = \<lambda>_. None, lprev = \<lambda>_. None\<rparr>)"
  let ?ops = "[Basic (Add_tail 1 0), Basic (Add_tail 2 0), Basic (Add 3 9), Splice_tail_init 0 9, Basic (Del 2)] :: nat ubox_op list"
  have R: "rings ?L {0, 9} (\<lambda>_. [])" by (auto simp: rings_def ring_empty INIT_LIST_HEAD_ubox_def)
  have ok: "ubox_ops_ok ?ops ({0, 9}, \<lambda>_. [])" by (auto simp: unused_def entry_def members_def without_def)
  have f: "fold abs_ubox ?ops ({0, 9}, \<lambda>_. []) = (H', R') \<Longrightarrow> 0 \<in> H' \<and> 9 \<in> H' \<and> R' 0 = [] \<and> R' 9 = [3, 1]" for H' R'
    by (auto simp: without_def)
  from ubox_list_refines [OF R ok] obtain L' H' R' where "run_ubox ?ops ?L = Some L'" "fold abs_ubox ?ops ({0, 9}, \<lambda>_. []) = (H', R')"
    "\<forall>h \<in> H'. list_for_each_ubox h L' = Some (R' h) \<and> list_for_each_prev_ubox h L' = Some (rev (R' h)) \<and> (list_empty_ubox h L' \<longleftrightarrow> R' h = [])" by blast
  with f [of H' R'] show ?thesis by auto
qed

end
