(* ===== verification/OsCore.thy ===== *)
theory OsCore
  imports Timespec OsalStatus
begin

text \<open>
  The mutexes, semaphores, spin locks, message queues and time functions of
  \<open>src/osal/linux/os_core.c\<close>, over a model of the POSIX objects they use.

  The objects live in memory (mutexes, semaphores) or in the kernel (message queues, by name).  What
  a call observes of the world (the time of day, the calling thread, the answers of the kernel to
  requests that may be refused) is the record \<open>os_env\<close>.  A call that can block has an
  argument with the events it sees while it is blocked, in order: a signal handler ran, the deadline passed,
  or other threads changed the object.  The result of such a call is \<open>None\<close> as long as the events do not
  let it return.
\<close>

section \<open>The objects\<close>

record mutex_obj =
  owner :: "nat option"
  depth :: nat

definition free_mutex :: mutex_obj where
  "free_mutex = \<lparr>owner = None, depth = 0\<rparr>"

record mqueue =
  mq_maxmsg :: nat
  mq_msgsize :: nat
  mq_msgs :: "(nat \<times> byte list) list"

text \<open>\<open>osal_queue_t\<close> of \<open>src/osal/osal_queue.h\<close>, the block behind a queue handle.\<close>

record osal_queue =
  mq_des :: nat
  msg_size :: "32 word"

record os_sys = mem +
  qhandles :: "addr \<rightharpoonup> osal_queue"
  mutexes :: "addr \<rightharpoonup> mutex_obj"
  sems :: "addr \<rightharpoonup> nat"
  mqueues :: "string \<rightharpoonup> mqueue"
  mqds :: "nat \<rightharpoonup> string"

record os_env =
  gettimeofday :: "int \<times> int"
  self :: nat
  mutexattr_init :: int
  mutexattr_setpshared :: int
  mutexattr_settype :: int
  mutex_init :: int
  mq_new_fd :: "nat option"
  mq_limits :: "nat \<times> nat"

datatype ipc_errno = E_none | E_INTR | E_TIMEDOUT | E_INVAL

datatype 'o wait_event = Interrupted | Expired | Changed 'o

section \<open>Mutexes\<close>

definition EPERM :: int where "EPERM = 1"
definition EBUSY :: int where "EBUSY = 16"
definition MUTEX_AGAIN :: int where "MUTEX_AGAIN = 11"

text \<open>The calls of the library on a mutex of type \<open>PTHREAD_MUTEX_RECURSIVE\<close>.\<close>

definition mutex_step :: "nat \<Rightarrow> mutex_obj \<Rightarrow> (int \<times> mutex_obj) option" where
  "mutex_step me mx = (case owner mx of
     None \<Rightarrow> Some (0, \<lparr>owner = Some me, depth = 1\<rparr>)
   | Some t \<Rightarrow> if t \<noteq> me then None
       else if depth mx = 2 ^ 32 - 1 then Some (MUTEX_AGAIN, mx) else Some (0, mx\<lparr>depth := depth mx + 1\<rparr>))"

fun pthread_mutex_lock :: "nat \<Rightarrow> mutex_obj wait_event list \<Rightarrow> mutex_obj \<Rightarrow> int option \<times> mutex_obj" where
  "pthread_mutex_lock me evs mx = (case mutex_step me mx of
     Some (r, mx) \<Rightarrow> (Some r, mx)
   | None \<Rightarrow> (case evs of
       [] \<Rightarrow> (None, mx)
     | Changed mx' # evs \<Rightarrow> pthread_mutex_lock me evs mx'
     | _ # evs \<Rightarrow> pthread_mutex_lock me evs mx))"

definition pthread_mutex_trylock :: "nat \<Rightarrow> mutex_obj \<Rightarrow> int \<times> mutex_obj" where
  "pthread_mutex_trylock me mx = (case mutex_step me mx of Some r \<Rightarrow> r | None \<Rightarrow> (EBUSY, mx))"

definition pthread_mutex_unlock :: "nat \<Rightarrow> mutex_obj \<Rightarrow> int \<times> mutex_obj" where
  "pthread_mutex_unlock me mx =
     (if owner mx \<noteq> Some me then (EPERM, mx)
      else if depth mx \<le> 1 then (0, free_mutex)
      else (0, mx\<lparr>depth := depth mx - 1\<rparr>))"

definition pthread_mutex_destroy :: "mutex_obj \<Rightarrow> int" where
  "pthread_mutex_destroy mx = (if owner mx \<noteq> None then EBUSY else 0)"

definition os_mutex_create :: "os_env \<Rightarrow> ptr \<Rightarrow> os_sys \<Rightarrow> (int \<times> os_sys) option" where
  "os_mutex_create env mutex s = (case mutex of
     None \<Rightarrow> Some (-1, s)
   | Some a \<Rightarrow>
       if mutexattr_init env \<noteq> 0 then Some (-1, s)
       else if mutexattr_setpshared env \<noteq> 0 then Some (mutexattr_setpshared env, s)
       else if mutexattr_settype env \<noteq> 0 then Some (mutexattr_settype env, s)
       else if mutexes s a = None then None
       else if mutex_init env \<noteq> 0 then Some (mutex_init env, s)
       else Some (0, s\<lparr>mutexes := (mutexes s)(a \<mapsto> free_mutex)\<rparr>))"

definition os_mutex_lock :: "os_env \<Rightarrow> ptr \<Rightarrow> mutex_obj wait_event list \<Rightarrow> os_sys \<Rightarrow> (int option \<times> os_sys) option" where
  "os_mutex_lock env mutex evs s = do {
     a \<leftarrow> mutex;
     mx \<leftarrow> mutexes s a;
     let (r, mx) = pthread_mutex_lock (self env) evs mx;
     Some (r, s\<lparr>mutexes := (mutexes s)(a \<mapsto> mx)\<rparr>) }"

definition os_mutex_trylock :: "os_env \<Rightarrow> ptr \<Rightarrow> os_sys \<Rightarrow> (int \<times> os_sys) option" where
  "os_mutex_trylock env mutex s = (case mutex of
     None \<Rightarrow> Some (0, s)
   | Some a \<Rightarrow> do {
       mx \<leftarrow> mutexes s a;
       let (r, mx) = pthread_mutex_trylock (self env) mx;
       Some (r, s\<lparr>mutexes := (mutexes s)(a \<mapsto> mx)\<rparr>) })"

definition os_mutex_unlock :: "os_env \<Rightarrow> ptr \<Rightarrow> os_sys \<Rightarrow> (int \<times> os_sys) option" where
  "os_mutex_unlock env mutex s = do {
     a \<leftarrow> mutex;
     mx \<leftarrow> mutexes s a;
     let (r, mx) = pthread_mutex_unlock (self env) mx;
     Some (r, s\<lparr>mutexes := (mutexes s)(a \<mapsto> mx)\<rparr>) }"

definition os_mutex_destroy :: "ptr \<Rightarrow> os_sys \<Rightarrow> int option" where
  "os_mutex_destroy mutex s = do {
     a \<leftarrow> mutex;
     mx \<leftarrow> mutexes s a;
     Some (pthread_mutex_destroy mx) }"

section \<open>Deadlines\<close>

text \<open>The time of day plus a number of milliseconds, as \<open>os_sem_wait\<close> computes it from an \<open>int\<close> and
  \<open>os_millisec_2_timespec\<close> from a \<open>uint32_t\<close>.\<close>

definition sem_deadline :: "int \<times> int \<Rightarrow> int \<Rightarrow> timespec" where
  "sem_deadline now timeout =
     (let sec = wrap32 (fst now + timeout sdiv 1000); usec = (timeout smod 1000) * 1000 + snd now
      in if usec \<ge> 1000000
         then \<lparr>tv_sec = wrap32 (sec + 1), tv_nsec = usec smod 1000000 * 1000\<rparr>
         else \<lparr>tv_sec = sec, tv_nsec = wrap32 (usec * 1000)\<rparr>)"

definition os_millisec_2_timespec :: "int \<times> int \<Rightarrow> 32 word \<Rightarrow> timespec" where
  "os_millisec_2_timespec now timeout =
     (let sec = wrap32 (fst now + uint (timeout div 1000)); usec = (timeout mod 1000) * 1000 + word_of_int (snd now)
      in if usec \<ge> 1000000
         then \<lparr>tv_sec = wrap32 (sec + 1), tv_nsec = wrap32 (uint (usec mod 1000000) * 1000)\<rparr>
         else \<lparr>tv_sec = sec, tv_nsec = wrap32 (uint usec * 1000)\<rparr>)"

section \<open>Semaphores\<close>

definition SEM_VALUE_MAX :: nat where "SEM_VALUE_MAX = 2147483647"

definition os_sem_init :: "addr \<Rightarrow> 32 word \<Rightarrow> os_sys \<Rightarrow> (int \<times> os_sys) option" where
  "os_sem_init a init_cnt s =
     (if sems s a = None then None
      else if unat init_cnt > SEM_VALUE_MAX then Some (-1, s)
      else Some (0, s\<lparr>sems := (sems s)(a \<mapsto> unat init_cnt)\<rparr>))"

definition os_sem_destroy :: "ptr \<Rightarrow> os_sys \<Rightarrow> int option" where
  "os_sem_destroy sem s = do { a \<leftarrow> sem; _ \<leftarrow> sems s a; Some 0 }"

definition sem_trywait :: "nat \<Rightarrow> int \<times> nat" where
  "sem_trywait v = (if 0 < v then (0, v - 1) else (-1, v))"

fun sem_wait :: "nat wait_event list \<Rightarrow> nat \<Rightarrow> int option \<times> nat" where
  "sem_wait evs v =
     (if 0 < v then (Some 0, v - 1)
      else case evs of
        [] \<Rightarrow> (None, v)
      | Interrupted # evs \<Rightarrow> (Some (-1), v)
      | Expired # evs \<Rightarrow> sem_wait evs v
      | Changed v' # evs \<Rightarrow> sem_wait evs v')"

text \<open>One call of \<open>sem_timedwait\<close>, with the value of \<open>errno\<close> and the events that are left.\<close>

fun sem_timedwait :: "timespec \<Rightarrow> nat wait_event list \<Rightarrow> nat \<Rightarrow> (int \<times> ipc_errno) option \<times> nat \<times> nat wait_event list" where
  "sem_timedwait ts evs v =
     (if 0 < v then (Some (0, E_none), v - 1, evs)
      else if \<not> ts_ok ts then (Some (-1, E_INVAL), v, evs)
      else case evs of
        [] \<Rightarrow> (None, v, [])
      | Interrupted # evs \<Rightarrow> (Some (-1, E_INTR), v, evs)
      | Expired # evs \<Rightarrow> (Some (-1, E_TIMEDOUT), v, evs)
      | Changed v' # evs \<Rightarrow> sem_timedwait ts evs v')"

declare pthread_mutex_lock.simps [simp del] sem_wait.simps [simp del] sem_timedwait.simps [simp del]

lemma sem_timedwait_shorter:
  "(Some (r, E_INTR), v', evs') = sem_timedwait ts evs v \<Longrightarrow> length evs' < length evs"
proof (induction evs arbitrary: v)
  case (Cons e evs)
  then show ?case by (subst (asm) (2) sem_timedwait.simps) (auto split: if_splits wait_event.splits dest: less_SucI)
qed (subst (asm) sem_timedwait.simps, simp split: if_splits)

function sem_timedwait_loop :: "timespec \<Rightarrow> nat wait_event list \<Rightarrow> nat \<Rightarrow> int option \<times> nat" where
  "sem_timedwait_loop ts evs v = (case sem_timedwait ts evs v of
     (None, v, _) \<Rightarrow> (None, v)
   | (Some (r, e), v, evs) \<Rightarrow>
       if r = -1 \<and> e = E_INTR then sem_timedwait_loop ts evs v else (Some r, v))"
  by pat_completeness auto

termination
  by (relation "measure (\<lambda>(ts, evs, v). length evs)") (auto dest: sem_timedwait_shorter)

declare sem_timedwait_loop.simps [simp del]

definition os_sem_wait :: "os_env \<Rightarrow> ptr \<Rightarrow> int \<Rightarrow> nat wait_event list \<Rightarrow> os_sys \<Rightarrow> (int option \<times> os_sys) option" where
  "os_sem_wait env sem timeout evs s = (case sem of
     None \<Rightarrow> Some (Some 0, s)
   | Some a \<Rightarrow> do {
       v \<leftarrow> sems s a;
       let (r, v) = (if timeout = 0 then (case sem_trywait v of (r, v) \<Rightarrow> (Some r, v))
                     else if timeout = -1 then sem_wait evs v
                     else sem_timedwait_loop (sem_deadline (gettimeofday env) timeout) evs v);
       Some (r, s\<lparr>sems := (sems s)(a \<mapsto> v)\<rparr>) })"

definition os_sem_post :: "ptr \<Rightarrow> os_sys \<Rightarrow> (int \<times> os_sys) option" where
  "os_sem_post sem s = (case sem of
     None \<Rightarrow> Some (0, s)
   | Some a \<Rightarrow> do {
       v \<leftarrow> sems s a;
       if v = SEM_VALUE_MAX then Some (-1, s) else Some (0, s\<lparr>sems := (sems s)(a \<mapsto> v + 1)\<rparr>) })"

section \<open>Spin locks\<close>

text \<open>The representation of a spin lock is that of the C library: the values it stores for a free and for a taken lock.  A lock
  is what the pointer leads to, \<open>None\<close> being the null pointer; it waits through the values that other threads give the lock.\<close>

record spin_repr =
  spin_free :: int
  spin_taken :: int

fun pthread_spin_lock :: "spin_repr \<Rightarrow> int list \<Rightarrow> int \<Rightarrow> int option \<times> int" where
  "pthread_spin_lock r [] lock = (if lock = spin_free r then (Some 0, spin_taken r) else (None, lock))"
| "pthread_spin_lock r (v # vs) lock = (if lock = spin_free r then (Some 0, spin_taken r) else pthread_spin_lock r vs v)"

definition pthread_spin_trylock :: "spin_repr \<Rightarrow> int \<Rightarrow> int \<times> int" where
  "pthread_spin_trylock r lock = (if lock = spin_free r then (0, spin_taken r) else (EBUSY, lock))"

definition os_spinlock_init :: "spin_repr \<Rightarrow> int option \<Rightarrow> (int \<times> int) option" where
  "os_spinlock_init r lock = map_option (\<lambda>_. (0, spin_free r)) lock"

definition os_spinlock_lock :: "spin_repr \<Rightarrow> int list \<Rightarrow> int option \<Rightarrow> (int option \<times> int) option" where
  "os_spinlock_lock r vs lock = map_option (pthread_spin_lock r vs) lock"

definition os_spinlock_trylock :: "spin_repr \<Rightarrow> int option \<Rightarrow> int \<times> int option" where
  "os_spinlock_trylock r lock = (case lock of
     None \<Rightarrow> (-1, None)
   | Some v \<Rightarrow> (case pthread_spin_trylock r v of (ret, v) \<Rightarrow> (ret, Some v)))"

definition os_spinlock_unlock :: "spin_repr \<Rightarrow> int option \<Rightarrow> (int \<times> int) option" where
  "os_spinlock_unlock r lock = map_option (\<lambda>_. (0, spin_free r)) lock"

definition os_spinlock_destroy :: "int option \<Rightarrow> (int \<times> int) option" where
  "os_spinlock_destroy lock = map_option (\<lambda>v. (0, v)) lock"

section \<open>Time\<close>

definition os_tick_get :: "int \<Rightarrow> 64 word" where
  "os_tick_get ticks = word_of_int ticks"

text \<open>What \<open>select\<close> is asked to wait for.\<close>

definition usleep_ex :: "32 word \<Rightarrow> int \<times> int" where
  "usleep_ex usecs = (uint (usecs div 1000000), uint (usecs mod 1000000))"

definition os_delay :: "int \<Rightarrow> int \<times> int" where
  "os_delay usec = usleep_ex (word_of_int usec)"

definition os_sleep :: "int \<Rightarrow> int \<times> int" where
  "os_sleep msec =
     (let msec = (if msec \<le> 10 then 1 else msec - 10)
      in usleep_ex (word_of_int (wrap32 (msec * 1000))))"

text \<open>\<open>os_get_reltime\<close>: \<open>None\<close> when the clock cannot be read, where the function ends without a value.\<close>

definition os_get_time :: "int \<times> int \<Rightarrow> int \<Rightarrow> int \<times> int \<times> int" where
  "os_get_time tv res = (res, tv)"

definition os_get_reltime :: "timespec option \<Rightarrow> (int \<times> int \<times> int) option" where
  "os_get_reltime ts = map_option (\<lambda>ts. (0, tv_sec ts, tv_nsec ts sdiv 1000)) ts"

section \<open>Message queues\<close>

definition MQ_NAME_LEN :: nat where "MQ_NAME_LEN = 32"
definition MQ_PRIO_MAX :: nat where "MQ_PRIO_MAX = 32768"

text \<open>\<open>mq_open\<close> with \<open>O_RDWR | O_CREAT\<close>: an existing queue is opened with the attributes it has.\<close>

definition mq_name_ok :: "string \<Rightarrow> bool" where
  "mq_name_ok nm \<longleftrightarrow> 1 < length nm \<and> hd nm = CHR ''/'' \<and> CHR ''/'' \<notin> set (tl nm)"

definition mq_open :: "os_env \<Rightarrow> string \<Rightarrow> int \<Rightarrow> int \<Rightarrow> os_sys \<Rightarrow> nat option \<times> os_sys" where
  "mq_open env nm maxmsg msgsize s = (case mq_new_fd env of
     None \<Rightarrow> (None, s)
   | Some fd \<Rightarrow>
       if \<not> mq_name_ok nm then (None, s)
       else case mqueues s nm of
         Some q \<Rightarrow> (Some fd, s\<lparr>mqds := (mqds s)(fd \<mapsto> nm)\<rparr>)
       | None \<Rightarrow>
           if maxmsg \<le> 0 \<or> msgsize \<le> 0 \<or> maxmsg > int (fst (mq_limits env)) \<or> msgsize > int (snd (mq_limits env))
           then (None, s)
           else (Some fd, s\<lparr>mqueues := (mqueues s)(nm \<mapsto> \<lparr>mq_maxmsg = nat maxmsg, mq_msgsize = nat msgsize, mq_msgs = []\<rparr>),
                            mqds := (mqds s)(fd \<mapsto> nm)\<rparr>))"

text \<open>\<open>snprintf (mq_name, MQ_NAME_LEN, "/%s", queue_name)\<close> keeps one byte for the terminator.\<close>

definition mq_name :: "string \<Rightarrow> string" where
  "mq_name queue_name = take (MQ_NAME_LEN - 1) (CHR ''/'' # queue_name)"

definition os_queue_create :: "os_env \<Rightarrow> string option \<Rightarrow> 32 word \<Rightarrow> 32 word \<Rightarrow> os_sys \<Rightarrow> int \<times> nat option \<times> os_sys" where
  "os_queue_create env queue_name queue_depth data_size s = (case queue_name of
     None \<Rightarrow> (-1, None, s)
   | Some nm \<Rightarrow> (case mq_open env (mq_name nm) (sint queue_depth) (sint data_size) s of
       (None, s) \<Rightarrow> (-1, None, s)
     | (Some fd, s) \<Rightarrow> (0, Some fd, s)))"

definition os_queue_delete :: "nat \<Rightarrow> os_sys \<Rightarrow> int \<times> os_sys" where
  "os_queue_delete fd s = (0, s\<lparr>mqds := (mqds s)(fd := None)\<rparr>)"

text \<open>A queue holds its messages by falling priority, in the order of their arrival within one priority.\<close>

fun mq_insert :: "nat \<times> byte list \<Rightarrow> (nat \<times> byte list) list \<Rightarrow> (nat \<times> byte list) list" where
  "mq_insert x [] = [x]"
| "mq_insert x (y # ys) = (if fst y < fst x then x # y # ys else y # mq_insert x ys)"

definition mq_of :: "nat \<Rightarrow> os_sys \<Rightarrow> (string \<times> mqueue) option" where
  "mq_of fd s = do { nm \<leftarrow> mqds s fd; q \<leftarrow> mqueues s nm; Some (nm, q) }"

text \<open>One attempt to take or to add a message, \<open>None\<close> if the caller has to wait.\<close>

definition mq_take :: "mqueue \<Rightarrow> (byte list \<times> mqueue) option" where
  "mq_take q = (case mq_msgs q of [] \<Rightarrow> None | (p, b) # ms \<Rightarrow> Some (b, q\<lparr>mq_msgs := ms\<rparr>))"

definition mq_add :: "nat \<times> byte list \<Rightarrow> mqueue \<Rightarrow> mqueue option" where
  "mq_add x q = (if mq_maxmsg q \<le> length (mq_msgs q) then None else Some (q\<lparr>mq_msgs := mq_insert x (mq_msgs q)\<rparr>))"

datatype 'a waited = Got 'a | Failed ipc_errno | Still_waiting

text \<open>Waiting for a queue, with or without a deadline; the attempt is made again at every change.\<close>

fun mq_wait :: "timespec option \<Rightarrow> (mqueue \<Rightarrow> ('a \<times> mqueue) option) \<Rightarrow> mqueue wait_event list \<Rightarrow> mqueue \<Rightarrow>
    'a waited \<times> mqueue \<times> mqueue wait_event list" where
  "mq_wait dl f evs q = (case f q of
     Some (x, q) \<Rightarrow> (Got x, q, evs)
   | None \<Rightarrow>
       if \<exists>ts \<in> set_option dl. \<not> ts_ok ts then (Failed E_INVAL, q, evs)
       else case evs of
         [] \<Rightarrow> (Still_waiting, q, [])
       | Interrupted # evs \<Rightarrow> (Failed E_INTR, q, evs)
       | Expired # evs \<Rightarrow> if dl = None then mq_wait dl f evs q else (Failed E_TIMEDOUT, q, evs)
       | Changed q' # evs \<Rightarrow> mq_wait dl f evs q')"

text \<open>\<open>mq_receive\<close> and \<open>mq_timedreceive\<close> into a buffer of the caller: a length or -1, the buffer,
  and the events left.  A message longer than the buffer object is a write outside it.\<close>

definition mq_receive :: "timespec option \<Rightarrow> nat \<Rightarrow> byte list \<Rightarrow> 32 word \<Rightarrow> mqueue wait_event list \<Rightarrow> os_sys \<Rightarrow>
    ((int \<times> ipc_errno) option \<times> byte list \<times> os_sys \<times> mqueue wait_event list) option" where
  "mq_receive dl fd buf msg_len evs s = (case mq_of fd s of
     None \<Rightarrow> Some (Some (-1, E_INVAL), buf, s, evs)
   | Some (nm, q) \<Rightarrow>
       if unat msg_len < mq_msgsize q then Some (Some (-1, E_INVAL), buf, s, evs)
       else (case mq_wait dl mq_take evs q of
           (Still_waiting, q, evs) \<Rightarrow> Some (None, buf, s\<lparr>mqueues := (mqueues s)(nm \<mapsto> q)\<rparr>, evs)
         | (Failed e, q, evs) \<Rightarrow> Some (Some (-1, e), buf, s\<lparr>mqueues := (mqueues s)(nm \<mapsto> q)\<rparr>, evs)
         | (Got b, q, evs) \<Rightarrow> do {
             buf \<leftarrow> write_bytes buf 0 b;
             Some (Some (int (length b), E_none), buf, s\<lparr>mqueues := (mqueues s)(nm \<mapsto> q)\<rparr>, evs) }))"

text \<open>\<open>mq_send\<close> and \<open>mq_timedsend\<close> of the first bytes of an object.\<close>

definition mq_send :: "timespec option \<Rightarrow> nat \<Rightarrow> byte list \<Rightarrow> 32 word \<Rightarrow> 32 word \<Rightarrow> mqueue wait_event list \<Rightarrow> os_sys \<Rightarrow>
    (int option \<times> os_sys) option" where
  "mq_send dl fd data msg_len priority evs s = (case mq_of fd s of
     None \<Rightarrow> Some (Some (-1), s)
   | Some (nm, q) \<Rightarrow>
       if mq_msgsize q < unat msg_len \<or> MQ_PRIO_MAX \<le> unat priority then Some (Some (-1), s)
       else do {
         b \<leftarrow> read_bytes data 0 (unat msg_len);
         (case mq_wait dl (\<lambda>q. map_option (\<lambda>q. (0, q)) (mq_add (unat priority, b) q)) evs q of
            (Still_waiting, q, _) \<Rightarrow> Some (None, s\<lparr>mqueues := (mqueues s)(nm \<mapsto> q)\<rparr>)
          | (Failed _, q, _) \<Rightarrow> Some (Some (-1), s\<lparr>mqueues := (mqueues s)(nm \<mapsto> q)\<rparr>)
          | (Got r, q, _) \<Rightarrow> Some (Some r, s\<lparr>mqueues := (mqueues s)(nm \<mapsto> q)\<rparr>)) })"

text \<open>The result has the return value, the buffer and what is stored into \<open>size_copied\<close>.\<close>

definition os_queue_recv :: "nat \<Rightarrow> byte list option \<Rightarrow> 32 word \<Rightarrow> bool \<Rightarrow> mqueue wait_event list \<Rightarrow> os_sys \<Rightarrow>
    (int option \<times> byte list option \<times> int option \<times> os_sys) option" where
  "os_queue_recv fd data sz size_copied_given evs s = (case data of
     None \<Rightarrow> Some (Some (-1), None, None, s)
   | Some buf \<Rightarrow>
       if \<not> size_copied_given then Some (Some (-1), data, None, s)
       else do {
         (r, buf, s, _) \<leftarrow> mq_receive None fd buf sz evs s;
         (case r of
            None \<Rightarrow> Some (None, Some buf, None, s)
          | Some (len, _) \<Rightarrow>
              if len < 0 then Some (Some (-1), Some buf, None, s)
              else Some (Some 0, Some buf, Some len, s)) })"

definition os_queue_send :: "nat \<Rightarrow> byte list \<Rightarrow> 32 word \<Rightarrow> 32 word \<Rightarrow> mqueue wait_event list \<Rightarrow> os_sys \<Rightarrow>
    (int option \<times> os_sys) option" where
  "os_queue_send fd data sz priority evs s = mq_send None fd data sz priority evs s"

declare mq_wait.simps [simp del]

lemma mq_wait_shorter:
  "mq_wait dl f evs q = (Failed E_INTR, q', evs') \<Longrightarrow> length evs' < length evs"
proof (induction evs arbitrary: q)
  case (Cons e evs)
  then show ?case
    by (subst (asm) (2) mq_wait.simps) (auto split: if_splits wait_event.splits option.splits dest: less_SucI)
qed (subst (asm) mq_wait.simps, simp split: if_splits option.splits prod.splits)

lemma mq_receive_shorter:
  "mq_receive dl fd buf msg_len evs s = Some (Some (r, E_INTR), buf', s', evs') \<Longrightarrow> length evs' < length evs"
  by (auto simp: mq_receive_def bind_eq_Some_conv dest!: mq_wait_shorter
      split: option.splits if_splits prod.splits waited.splits)

function mq_timedreceive_loop :: "timespec \<Rightarrow> nat \<Rightarrow> byte list \<Rightarrow> 32 word \<Rightarrow> mqueue wait_event list \<Rightarrow> os_sys \<Rightarrow>
    (int option \<times> byte list \<times> os_sys) option" where
  "mq_timedreceive_loop ts fd buf msg_len evs s = (case mq_receive (Some ts) fd buf msg_len evs s of
     None \<Rightarrow> None
   | Some (None, buf, s, _) \<Rightarrow> Some (None, buf, s)
   | Some (Some (r, e), buf, s, evs) \<Rightarrow>
       if r < 0 \<and> e = E_INTR then mq_timedreceive_loop ts fd buf msg_len evs s else Some (Some r, buf, s))"
  by pat_completeness auto

termination
  by (relation "measure (\<lambda>(ts, fd, buf, msg_len, evs, s). length evs)") (auto dest: mq_receive_shorter)

declare mq_timedreceive_loop.simps [simp del]

definition os_mq_timedrecv :: "os_env \<Rightarrow> nat \<Rightarrow> byte list option \<Rightarrow> 32 word \<Rightarrow> 32 word \<Rightarrow> mqueue wait_event list \<Rightarrow> os_sys \<Rightarrow>
    (int option \<times> byte list option \<times> os_sys) option" where
  "os_mq_timedrecv env fd data msg_len timeout evs s = (case data of
     None \<Rightarrow> Some (Some (-1), None, s)
   | Some buf \<Rightarrow> do {
       (r, buf, s) \<leftarrow> mq_timedreceive_loop (os_millisec_2_timespec (gettimeofday env) timeout) fd buf msg_len evs s;
       Some (map_option (\<lambda>r. if r < 0 then -1 else r) r, Some buf, s) })"

definition os_mq_timedsend :: "os_env \<Rightarrow> nat \<Rightarrow> byte list option \<Rightarrow> 32 word \<Rightarrow> 32 word \<Rightarrow> 32 word \<Rightarrow>
    mqueue wait_event list \<Rightarrow> os_sys \<Rightarrow> (int option \<times> os_sys) option" where
  "os_mq_timedsend env fd data msg_len priority timeout evs s = (case data of
     None \<Rightarrow> Some (Some (-1), s)
   | Some data \<Rightarrow> do {
       (r, s) \<leftarrow> mq_send (Some (os_millisec_2_timespec (gettimeofday env) timeout)) fd data msg_len priority evs s;
       Some (map_option (\<lambda>r. if r < 0 then -1 else r) r, s) })"

end
