(* ===== verification/Channel.thy ===== *)
theory Channel
  imports OsCore
begin

text \<open>
  The interface of a message queue to its clients: messages with priorities, a capacity, and the order in which they come out.  It is provided by the descriptors of
  \<open>src/osal/linux/os_core.c\<close>, here, and by the handles of \<open>src/osal/osal_queue.c\<close>, in \<open>OsalIpc\<close>.
\<close>

section \<open>The order of messages\<close>

abbreviation by_priority :: "(nat \<times> 'm) list \<Rightarrow> (nat \<times> 'm) list" where
  "by_priority \<equiv> sort_key (\<lambda>m. - int (fst m))"

lemma mq_insert_insort:
  "mq_insert x (insort_key (\<lambda>m. - int (fst m)) y ms) = insort_key (\<lambda>m. - int (fst m)) y (mq_insert x ms)"
  by (induction ms) auto

lemma mq_insert_sort: "mq_insert x (by_priority ms) = by_priority (ms @ [x])"
  by (induction ms) (simp_all add: mq_insert_insort)

section \<open>Sequences of calls\<close>

fun send_seq :: "('m \<Rightarrow> 's \<Rightarrow> 's option) \<Rightarrow> 'm list \<Rightarrow> 's \<Rightarrow> 's option" where
  "send_seq send [] s = Some s"
| "send_seq send (m # ms) s = do { s \<leftarrow> send m s; send_seq send ms s }"

fun recv_seq :: "('s \<Rightarrow> ('b \<times> 's) option) \<Rightarrow> nat \<Rightarrow> 's \<Rightarrow> ('b list \<times> 's) option" where
  "recv_seq recv 0 s = Some ([], s)"
| "recv_seq recv (Suc n) s = do { (b, s) \<leftarrow> recv s; (bs, s) \<leftarrow> recv_seq recv n s; Some (b # bs, s) }"

section \<open>The interface\<close>

text \<open>\<open>state ms\<close> is the state in which the queue holds \<open>ms\<close> and everything else is as it is; \<open>fits\<close> says which messages can be sent and received.\<close>

locale priority_channel =
  fixes state :: "(nat \<times> byte list) list \<Rightarrow> 's"
    and capacity :: nat
    and fits :: "nat \<times> byte list \<Rightarrow> bool"
    and send :: "nat \<times> byte list \<Rightarrow> 's \<Rightarrow> 's option"
    and recv :: "'s \<Rightarrow> (byte list \<times> 's) option"
  assumes send_law: "fits m \<Longrightarrow> length ms < capacity \<Longrightarrow> send m (state ms) = Some (state (mq_insert m ms))"
    and recv_law: "fits (p, b) \<Longrightarrow> recv (state ((p, b) # ms)) = Some (b, state ms)"
begin

lemma send_seq_state:
  "list_all fits ms \<Longrightarrow> length (ms0 @ ms) \<le> capacity \<Longrightarrow> send_seq send ms (state (by_priority ms0)) = Some (state (by_priority (ms0 @ ms)))"
proof (induction ms arbitrary: ms0)
  case (Cons m ms)
  have "send m (state (by_priority ms0)) = Some (state (by_priority (ms0 @ [m])))"
    using send_law [of m "by_priority ms0"] Cons.prems by (simp add: mq_insert_sort)
  with Cons.IH [of "ms0 @ [m]"] Cons.prems show ?case by simp
qed simp

lemma recv_seq_state: "list_all fits ms \<Longrightarrow> recv_seq recv (length ms) (state ms) = Some (map snd ms, state [])"
  by (induction ms) (auto simp: recv_law)

text \<open>What is sent into an empty queue comes out complete, by falling priority and within a priority in the order of sending.\<close>

lemma delivery:
  assumes "length ms \<le> capacity" "list_all fits ms"
  shows "\<exists>s. send_seq send ms (state []) = Some s \<and> recv_seq recv (length ms) s = Some (map snd (by_priority ms), state [])"
proof -
  have "send_seq send ms (state []) = Some (state (by_priority ms))" using send_seq_state [of ms "[]"] assms by simp
  moreover have "recv_seq recv (length (by_priority ms)) (state (by_priority ms)) = Some (map snd (by_priority ms), state [])"
    by (rule recv_seq_state) (use assms(2) in \<open>simp add: list_all_iff\<close>)
  ultimately show ?thesis by simp
qed

end

section \<open>Descriptors\<close>

text \<open>The calls of \<open>os_core.c\<close> on a descriptor \<open>fd\<close> of the queue \<open>nm\<close>, without waiting.\<close>

definition fd_send :: "nat \<Rightarrow> nat \<times> byte list \<Rightarrow> os_sys \<Rightarrow> os_sys option" where
  "fd_send fd m s = do {
     (r, s) \<leftarrow> os_queue_send fd (snd m) (word_of_nat (length (snd m))) (word_of_nat (fst m)) [] s;
     if r = Some 0 then Some s else None }"

definition fd_recv :: "nat \<Rightarrow> byte list \<Rightarrow> 32 word \<Rightarrow> os_sys \<Rightarrow> (byte list \<times> os_sys) option" where
  "fd_recv fd buf sz s = do {
     (r, data, len, s) \<leftarrow> os_queue_recv fd (Some buf) sz True [] s;
     if r = Some 0 then do { d \<leftarrow> data; l \<leftarrow> len; Some (take (nat l) d, s) } else None }"

text \<open>A queue with the given messages, all else being equal.\<close>

definition with_msgs :: "string \<Rightarrow> mqueue \<Rightarrow> os_sys \<Rightarrow> (nat \<times> byte list) list \<Rightarrow> os_sys" where
  "with_msgs nm q s ms = s\<lparr>mqueues := (mqueues s)(nm \<mapsto> q\<lparr>mq_msgs := ms\<rparr>)\<rparr>"

definition msg_ok :: "mqueue \<Rightarrow> nat \<times> byte list \<Rightarrow> bool" where
  "msg_ok q m \<longleftrightarrow> fst m < MQ_PRIO_MAX \<and> length (snd m) \<le> mq_msgsize q"

definition fd_carries :: "nat \<Rightarrow> string \<Rightarrow> mqueue \<Rightarrow> os_sys \<Rightarrow> byte list \<Rightarrow> 32 word \<Rightarrow> nat \<times> byte list \<Rightarrow> bool" where
  "fd_carries fd nm q s buf sz m \<longleftrightarrow> mqds s fd = Some nm \<and> msg_ok q m \<and> length buf = mq_msgsize q \<and> mq_msgsize q \<le> unat sz"

lemma mq_of_with_msgs: "mqds s fd = Some nm \<Longrightarrow> mq_of fd (with_msgs nm q s ms) = Some (nm, q\<lparr>mq_msgs := ms\<rparr>)"
  by (simp add: mq_of_def with_msgs_def)

lemma msg_words:
  assumes "msg_ok q (p, b)" "mq_msgsize q \<le> unat (sz :: 32 word)"
  shows "unat (word_of_nat (length b) :: 32 word) = length b" "unat (word_of_nat p :: 32 word) = p"
proof -
  have "length b < 2 ^ 32" using assms unsigned_less [of sz, where ?'a = nat] by (simp add: msg_ok_def)
  then show "unat (word_of_nat (length b) :: 32 word) = length b" by (simp add: unat_of_nat take_bit_nat_eq_self)
  show "unat (word_of_nat p :: 32 word) = p" using assms(1) by (simp add: msg_ok_def MQ_PRIO_MAX_def unat_of_nat take_bit_nat_eq_self)
qed

lemma mq_send_law:
  assumes "mqds s fd = Some nm" "msg_ok q (p, b)" "mq_msgsize q \<le> unat (sz :: 32 word)" "length ms < mq_maxmsg q"
  shows "mq_send dl fd b (word_of_nat (length b)) (word_of_nat p) evs (with_msgs nm q s ms) = Some (Some 0, with_msgs nm q s (mq_insert (p, b) ms))"
  using assms msg_words [OF assms(2,3)]
  by (simp add: mq_send_def mq_of_with_msgs msg_ok_def read_bytes_def mq_wait.simps mq_add_def) (simp add: with_msgs_def)

lemma mq_receive_law:
  assumes "mqds s fd = Some nm" "mq_msgsize q \<le> unat sz" "length b \<le> length buf"
  shows "mq_receive dl fd buf sz evs (with_msgs nm q s ((p, b) # ms)) = Some (Some (int (length b), E_none), b @ drop (length b) buf, with_msgs nm q s ms, evs)"
  using assms by (simp add: mq_receive_def mq_of_with_msgs mq_wait.simps mq_take_def write_bytes_def) (simp add: with_msgs_def)

interpretation fd_chan: priority_channel "with_msgs nm q s" "mq_maxmsg q" "fd_carries fd nm q s buf sz" "fd_send fd" "fd_recv fd buf sz"
  for nm q s fd buf sz
proof (unfold_locales, goal_cases)
  case (1 m ms)
  with mq_send_law [of s fd nm q "fst m" "snd m" sz ms None "[]"] show ?case by (simp add: fd_carries_def fd_send_def os_queue_send_def)
next
  case (2 p b ms)
  with mq_receive_law [of s fd nm q sz b buf None "[]"] show ?case by (simp add: fd_carries_def msg_ok_def fd_recv_def os_queue_recv_def)
qed

end
