(* ===== verification/OsalIpc.thy ===== *)
theory OsalIpc
  imports Channel
begin

text \<open>
  The mutexes, semaphores, spin locks, message queues and delays of the portability layer:
  \<open>src/osal/osal_mutex.c\<close>, \<open>osal_sem.c\<close>, \<open>osal_spinlock.c\<close>, \<open>osal_queue.c\<close> and
  \<open>osal_cmn.c\<close>.  A handle is a heap block that holds the object, or the descriptor of a queue.
\<close>

section \<open>Mutexes\<close>

definition osal_mutex_create :: "os_env \<Rightarrow> os_sys \<Rightarrow> (ptr \<times> os_sys) option" where
  "osal_mutex_create env s = (case malloc 24 s of
     (None, s) \<Rightarrow> Some (None, s)
   | (Some a, s) \<Rightarrow> do {
       (ret, s) \<leftarrow> os_mutex_create env (Some a) (s\<lparr>mutexes := (mutexes s)(a \<mapsto> free_mutex)\<rparr>);
       if ret \<noteq> 0 then Some (None, s\<lparr>mutexes := (mutexes s)(a := None)\<rparr>) else Some (Some a, s) })"

text \<open>For a null handle the status is computed from a variable that was never set: \<open>uninit\<close>.\<close>

definition osal_mutex_delete :: "int \<Rightarrow> ptr \<Rightarrow> os_sys \<Rightarrow> (int \<times> os_sys) option" where
  "osal_mutex_delete uninit mutex s = (case mutex of
     None \<Rightarrow> Some (ret_status uninit, s)
   | Some a \<Rightarrow> do {
       ret \<leftarrow> os_mutex_destroy mutex s;
       Some (ret_status ret, s\<lparr>mutexes := (mutexes s)(a := None)\<rparr>) })"

definition osal_mutex_lock :: "os_env \<Rightarrow> ptr \<Rightarrow> mutex_obj wait_event list \<Rightarrow> os_sys \<Rightarrow> (int option \<times> os_sys) option" where
  "osal_mutex_lock env mutex evs s =
     (if mutex = None then Some (Some OSAL_STATUS_EMPTY, s)
      else do {
        (ret, s) \<leftarrow> os_mutex_lock env mutex evs s;
        Some (map_option ret_status ret, s) })"

definition osal_mutex_unlock :: "os_env \<Rightarrow> ptr \<Rightarrow> os_sys \<Rightarrow> (int \<times> os_sys) option" where
  "osal_mutex_unlock env mutex s =
     (if mutex = None then Some (OSAL_STATUS_EMPTY, s)
      else do {
        (ret, s) \<leftarrow> os_mutex_unlock env mutex s;
        Some (ret_status ret, s) })"

definition osal_mutex_trylock :: "os_env \<Rightarrow> ptr \<Rightarrow> os_sys \<Rightarrow> (int \<times> os_sys) option" where
  "osal_mutex_trylock env mutex s =
     (if mutex = None then Some (OSAL_STATUS_EMPTY, s)
      else do {
        (ret, s) \<leftarrow> os_mutex_trylock env mutex s;
        Some (ret_status ret, s) })"

section \<open>Semaphores\<close>

definition osal_sem_create :: "32 word \<Rightarrow> os_sys \<Rightarrow> (ptr \<times> os_sys) option" where
  "osal_sem_create count s = (case malloc 16 s of
     (None, s) \<Rightarrow> Some (None, s)
   | (Some a, s) \<Rightarrow> do {
       (ret, s) \<leftarrow> os_sem_init a count (s\<lparr>sems := (sems s)(a \<mapsto> 0)\<rparr>);
       if ret \<noteq> 0 then Some (None, s\<lparr>sems := (sems s)(a := None)\<rparr>) else Some (Some a, s) })"

definition osal_sem_delete :: "ptr \<Rightarrow> os_sys \<Rightarrow> (int \<times> os_sys) option" where
  "osal_sem_delete sem s = do {
     error \<leftarrow> os_sem_destroy sem s;
     a \<leftarrow> sem;
     Some (ret_status error, s\<lparr>sems := (sems s)(a := None)\<rparr>) }"

definition sem_take_status :: "int \<Rightarrow> int" where
  "sem_take_status error =
     (if error = OSAL_EOK then OSAL_STATUS_SUCCESS
      else if error = -1 then OSAL_STATUS_ERROR_UNDEFINED
      else OSAL_STATUS_TIMEOUT)"

definition osal_sem_take :: "os_env \<Rightarrow> ptr \<Rightarrow> int \<Rightarrow> nat wait_event list \<Rightarrow> os_sys \<Rightarrow> (int option \<times> os_sys) option" where
  "osal_sem_take env sem wait_time evs s = do {
     (error, s) \<leftarrow> os_sem_wait env sem wait_time evs s;
     Some (map_option sem_take_status error, s) }"

definition osal_sem_release :: "ptr \<Rightarrow> os_sys \<Rightarrow> (int \<times> os_sys) option" where
  "osal_sem_release sem s = do {
     (error, s) \<leftarrow> os_sem_post sem s;
     Some (ret_status error, s) }"

section \<open>Spin locks\<close>

text \<open>The result and the lock variable after the call.  The results of the calls below are dropped.\<close>

definition osal_spinlock_init :: "spin_repr \<Rightarrow> int option \<Rightarrow> (int \<times> int) option" where
  "osal_spinlock_init r lock = do {
     (_, v) \<leftarrow> os_spinlock_init r lock;
     if v = 0 then Some (OSAL_ERROR, v) else Some (OSAL_EOK, v) }"

definition osal_spin_lock :: "spin_repr \<Rightarrow> int list \<Rightarrow> int option \<Rightarrow> (int option \<times> int) option" where
  "osal_spin_lock r vs lock = do {
     (ret, v) \<leftarrow> os_spinlock_lock r vs lock;
     Some (map_option (\<lambda>_. OSAL_EOK) ret, v) }"

definition osal_spin_unlock :: "spin_repr \<Rightarrow> int option \<Rightarrow> (int \<times> int) option" where
  "osal_spin_unlock r lock = do {
     (_, v) \<leftarrow> os_spinlock_unlock r lock;
     Some (OSAL_EOK, v) }"

definition osal_spinlock_destroy :: "int option \<Rightarrow> (int \<times> int) option" where
  "osal_spinlock_destroy lock = do {
     (_, v) \<leftarrow> os_spinlock_destroy lock;
     Some (OSAL_EOK, v) }"

section \<open>Delays and time\<close>

definition osal_current_time :: "int \<Rightarrow> 64 word" where
  "osal_current_time ticks = os_tick_get ticks"

definition osal_udelay :: "int \<Rightarrow> int \<times> int" where
  "osal_udelay microseconds = os_delay microseconds"

definition osal_mdelay :: "int \<Rightarrow> int \<times> int" where
  "osal_mdelay milliseconds = os_delay (wrap32 (milliseconds * 1000))"

definition osal_sleep :: "int \<Rightarrow> int \<times> int" where
  "osal_sleep milliseconds = os_sleep milliseconds"

section \<open>Message queues\<close>

definition osal_queue_create :: "os_env \<Rightarrow> string option \<Rightarrow> 32 word \<Rightarrow> 32 word \<Rightarrow> os_sys \<Rightarrow> (ptr \<times> os_sys) option" where
  "osal_queue_create env qname max_msgs sz s = (case malloc 8 s of
     (None, s) \<Rightarrow> Some (None, s)
   | (Some a, s) \<Rightarrow> (case os_queue_create env qname max_msgs sz s of
       (ret, mqd, s) \<Rightarrow>
         if ret \<noteq> 0 then Some (None, s)
         else do {
           fd \<leftarrow> mqd;
           Some (Some a, s\<lparr>qhandles := (qhandles s)(a \<mapsto> \<lparr>mq_des = fd, msg_size = sz\<rparr>)\<rparr>) }))"

definition osal_queue_delete :: "ptr \<Rightarrow> os_sys \<Rightarrow> (int \<times> os_sys) option" where
  "osal_queue_delete queue s = (case queue of
     None \<Rightarrow> Some (OSAL_STATUS_EMPTY, s)
   | Some a \<Rightarrow> do {
       q \<leftarrow> qhandles s a;
       let (ret, s) = os_queue_delete (mq_des q) s;
       Some (ret_status ret, s\<lparr>qhandles := (qhandles s)(a := None)\<rparr>) })"

text \<open>The result: the status, the buffer, and what is stored into \<open>*len\<close>.\<close>

definition osal_queue_recv :: "os_env \<Rightarrow> ptr \<Rightarrow> byte list option \<Rightarrow> bool \<Rightarrow> int \<Rightarrow> mqueue wait_event list \<Rightarrow> os_sys \<Rightarrow>
    (int option \<times> byte list option \<times> int option \<times> os_sys) option" where
  "osal_queue_recv env queue data len_given timeout evs s = (case queue of
     None \<Rightarrow> Some (Some OSAL_STATUS_EMPTY, data, None, s)
   | Some a \<Rightarrow> do {
       q \<leftarrow> qhandles s a;
       if timeout = -1 then do {
         (ret, data, len, s) \<leftarrow> os_queue_recv (mq_des q) data (msg_size q) len_given evs s;
         Some (map_option ret_status ret, data, len, s) }
       else do {
         (ret, data, s) \<leftarrow> os_mq_timedrecv env (mq_des q) data (msg_size q) (word_of_int timeout) evs s;
         (case ret of
            None \<Rightarrow> Some (None, data, None, s)
          | Some ret \<Rightarrow>
              if ret > 0 then (if len_given then Some (Some OSAL_STATUS_SUCCESS, data, Some ret, s) else None)
              else Some (Some OSAL_STATUS_TIMEOUT, data, None, s)) } })"

definition osal_queue_send :: "os_env \<Rightarrow> ptr \<Rightarrow> byte list option \<Rightarrow> 32 word \<Rightarrow> 32 word \<Rightarrow> int \<Rightarrow> mqueue wait_event list \<Rightarrow>
    os_sys \<Rightarrow> (int option \<times> os_sys) option" where
  "osal_queue_send env queue data len priority timeout evs s =
     (if queue = None \<or> data = None then Some (Some OSAL_STATUS_EMPTY, s)
      else do {
        a \<leftarrow> queue;
        q \<leftarrow> qhandles s a;
        d \<leftarrow> data;
        (ret, s) \<leftarrow> (if timeout = -1 then os_queue_send (mq_des q) d len priority evs s
                     else os_mq_timedsend env (mq_des q) data len priority (word_of_int timeout) evs s);
        Some (map_option (\<lambda>ret. if ret = OSAL_EOK then OSAL_STATUS_SUCCESS else OSAL_STATUS_TIMEOUT) ret, s) })"


section \<open>Waiting for a semaphore\<close>

text \<open>What a bounded wait promises: signals are invisible, the wait ends when a unit can be taken or the deadline
  passes, and only a successful wait takes a unit.\<close>

fun acquire :: "nat wait_event list \<Rightarrow> nat \<Rightarrow> bool option \<times> nat" where
  "acquire evs (Suc v) = (Some True, v)"
| "acquire [] 0 = (None, 0)"
| "acquire (Interrupted # evs) 0 = acquire evs 0"
| "acquire (Expired # evs) 0 = (Some False, 0)"
| "acquire (Changed v # evs) 0 = acquire evs v"

lemma timedwait_unit: "0 < v \<Longrightarrow> sem_timedwait_loop ts evs v = (Some 0, v - 1)"
  by (subst sem_timedwait_loop.simps) (simp add: sem_timedwait.simps)

lemma timedwait_acquire:
  assumes "ts_ok ts"
  shows "sem_timedwait_loop ts evs v =
    (map_option (\<lambda>ok. if ok then 0 else -1) (fst (acquire evs v)), snd (acquire evs v))"
proof (induction evs v rule: acquire.induct)
  case (1 evs v)
  then show ?case by (simp add: timedwait_unit)
next
  case 2
  then show ?case using assms by (subst sem_timedwait_loop.simps) (simp add: sem_timedwait.simps)
next
  case (3 evs)
  then show ?case using assms by (subst sem_timedwait_loop.simps) (simp add: sem_timedwait.simps)
next
  case (4 evs)
  then show ?case using assms by (subst sem_timedwait_loop.simps) (simp add: sem_timedwait.simps)
next
  case (5 v evs)
  have "sem_timedwait ts (Changed v # evs) 0 = sem_timedwait ts evs v"
    using assms by (subst sem_timedwait.simps) simp
  then have "sem_timedwait_loop ts (Changed v # evs) 0 = sem_timedwait_loop ts evs v"
    by (subst (1 2) sem_timedwait_loop.simps) simp
  with 5 show ?case by simp
qed

lemma deadline_exact:
  assumes "0 \<le> sec" "sec < 2 ^ 31 - 2147485" "0 \<le> usec" "usec < 1000000" "0 \<le> t" "t < 2 ^ 31"
  shows "ts_ok (sem_deadline (sec, usec) t)"
    "nanos (sem_deadline (sec, usec) t) = sec * 1000000000 + usec * 1000 + t * 1000000"
proof -
  have t: "t sdiv 1000 = t div 1000" "t smod 1000 = t mod 1000"
    using assms by (simp_all add: sdiv_nonneg smod_nonneg)
  have r: "0 \<le> t mod 1000" "t mod 1000 < 1000" "t div 1000 \<le> 2147483" "0 \<le> t div 1000" using assms by auto
  have e: "t * 1000000 = t div 1000 * 1000000000 + 1000000 * (t mod 1000)" by presburger
  let ?u = "t mod 1000 * 1000 + usec"
  have u: "1000000 \<le> ?u \<Longrightarrow> ?u smod 1000000 = ?u - 1000000"
  proof -
    assume "1000000 \<le> ?u"
    then have "(?u - 1000000) mod 1000000 = ?u - 1000000" using r assms by (intro mod_pos_pos_trivial) auto
    then show ?thesis using \<open>1000000 \<le> ?u\<close> by (simp add: smod_nonneg del: diff_conv_add_uminus)
  qed
  show "ts_ok (sem_deadline (sec, usec) t)"
    using assms r u by (auto simp: sem_deadline_def t ts_ok_def Let_def)
  show "nanos (sem_deadline (sec, usec) t) = sec * 1000000000 + usec * 1000 + t * 1000000"
    using assms r u by (subst e) (auto simp: sem_deadline_def t nanos_def Let_def)
qed

text \<open>C13: a bounded wait for a semaphore.  The deadline is the time of day plus exactly the given number of milliseconds, normalised.
  However often signal handlers interrupt the wait, it ends exactly when a unit can be taken or the
  deadline passes; it then reports success and has taken one unit, or an error and has taken
  none.  It never reports \<open>OSAL_STATUS_TIMEOUT\<close>: the timeout is reported as an undefined error.\<close>

theorem osal_sem_take_spec:
  assumes "sems s a = Some v" and "gettimeofday env = (sec, usec)" and "0 \<le> sec" "sec < 2 ^ 31 - 2147485" "0 \<le> usec" "usec < 1000000"
    and "0 < t" "t < 2 ^ 31"
  shows "nanos (sem_deadline (gettimeofday env) t) = sec * 1000000000 + usec * 1000 + t * 1000000 \<and>
    osal_sem_take env (Some a) t evs s =
      Some (map_option (\<lambda>ok. if ok then OSAL_STATUS_SUCCESS else OSAL_STATUS_ERROR_UNDEFINED) (fst (acquire evs v)),
            s\<lparr>sems := (sems s)(a \<mapsto> snd (acquire evs v))\<rparr>)"
  using assms deadline_exact [OF assms(3-6), of t]
  by (auto simp: osal_sem_take_def os_sem_wait_def timedwait_acquire sem_take_status_def option.map_comp o_def
      intro!: option.map_cong0)

definition env_t :: os_env where
  "env_t = \<lparr>gettimeofday = (100, 999000), self = 1, mutexattr_init = 0, mutexattr_setpshared = 0, mutexattr_settype = 0,
     mutex_init = 0, mq_new_fd = Some 3, mq_limits = (10, 8192)\<rparr>"

definition sys_t :: os_sys where
  "sys_t = \<lparr>brk = 10, alloc_fails = (\<lambda>_. False), junk = (\<lambda>_ _. 0), qhandles = Map.empty, mutexes = [8 \<mapsto> free_mutex],
     sems = [7 \<mapsto> 0], mqueues = Map.empty, mqds = Map.empty\<rparr>"

theorem osal_sem_take_spec_witness:
  "osal_sem_take env_t (Some 7) 1500 [Interrupted, Changed 0, Interrupted, Changed 2] sys_t =
     Some (Some OSAL_STATUS_SUCCESS, sys_t\<lparr>sems := [7 \<mapsto> 1]\<rparr>) \<and>
   osal_sem_take env_t (Some 7) 1500 [Interrupted, Expired] sys_t = Some (Some OSAL_STATUS_ERROR_UNDEFINED, sys_t) \<and>
   nanos (sem_deadline (gettimeofday env_t) 1500) = 102499000000"
  using osal_sem_take_spec [of sys_t 7 0 env_t 100 999000 1500 "[Interrupted, Changed 0, Interrupted, Changed 2]"]
    osal_sem_take_spec [of sys_t 7 0 env_t 100 999000 1500 "[Interrupted, Expired]"]
  by (simp add: sys_t_def env_t_def numeral_2_eq_2)


section \<open>Mutual exclusion\<close>

text \<open>The calls threads make on one mutex, with the number of times each thread holds it: a successful lock or
  trylock adds one, a successful unlock takes one away.  A call that has to wait makes no step.\<close>

inductive mutex_call :: "addr \<Rightarrow> (nat \<Rightarrow> nat) \<times> os_sys \<Rightarrow> (nat \<Rightarrow> nat) \<times> os_sys \<Rightarrow> bool" for a where
  lock: "osal_mutex_lock env (Some a) [] s = Some (Some r, s') \<Longrightarrow>
    mutex_call a (held, s) (if r = OSAL_STATUS_SUCCESS then held(self env := held (self env) + 1) else held, s')"
| trylock: "osal_mutex_trylock env (Some a) s = Some (r, s') \<Longrightarrow>
    mutex_call a (held, s) (if r = OSAL_STATUS_SUCCESS then held(self env := held (self env) + 1) else held, s')"
| unlock: "osal_mutex_unlock env (Some a) s = Some (r, s') \<Longrightarrow>
    mutex_call a (held, s) (if r = OSAL_STATUS_SUCCESS then held(self env := held (self env) - 1) else held, s')"

inductive_cases mutex_callE: "mutex_call a x y"

definition mutex_inv :: "addr \<Rightarrow> (nat \<Rightarrow> nat) \<times> os_sys \<Rightarrow> bool" where
  "mutex_inv a x \<longleftrightarrow> (case mutexes (snd x) a of
     None \<Rightarrow> False
   | Some mx \<Rightarrow> (case owner mx of
       None \<Rightarrow> fst x = (\<lambda>_. 0)
     | Some t \<Rightarrow> 0 < depth mx \<and> fst x = (\<lambda>_. 0)(t := depth mx)))"

lemma ret_status_iff [simp]: "ret_status r = OSAL_STATUS_SUCCESS \<longleftrightarrow> r = 0"
  by (simp add: ret_status_def osal_status_defs)

lemma mutex_inv_step: "mutex_call a x y \<Longrightarrow> mutex_inv a x \<Longrightarrow> mutex_inv a y"
  by (erule mutex_callE)
    (auto simp: mutex_inv_def osal_mutex_lock_def os_mutex_lock_def pthread_mutex_lock.simps osal_mutex_trylock_def os_mutex_trylock_def
      pthread_mutex_trylock_def osal_mutex_unlock_def os_mutex_unlock_def pthread_mutex_unlock_def mutex_step_def
      MUTEX_AGAIN_def EBUSY_def EPERM_def free_mutex_def
      split: option.splits if_splits)

lemma mutex_inv_reach: "(mutex_call a)\<^sup>*\<^sup>* x y \<Longrightarrow> mutex_inv a x \<Longrightarrow> mutex_inv a y"
  by (induction rule: rtranclp_induct) (blast intro: mutex_inv_step)+


lemma mutex_created: "osal_mutex_create env s0 = Some (Some a, s) \<Longrightarrow> mutex_inv a (\<lambda>_. 0, s)"
  by (auto simp: osal_mutex_create_def os_mutex_create_def mutex_inv_def free_mutex_def bind_eq_Some_conv
      split: option.splits if_splits prod.splits)

lemma upd_same_mutex: "mutexes s a = Some mx \<Longrightarrow> s\<lparr>mutexes := (mutexes s)(a \<mapsto> mx)\<rparr> = s"
  by (simp add: fun_upd_idem)


definition locked_t :: os_sys where
  "locked_t = sys_t\<lparr>brk := 11, mutexes := [8 \<mapsto> free_mutex, 10 \<mapsto> \<lparr>owner = Some 1, depth = 1\<rparr>]\<rparr>"



section \<open>Message queues\<close>

text \<open>An open handle of a queue, whose receive buffers are as large as the queue requires.\<close>

definition qopen :: "addr \<Rightarrow> string \<Rightarrow> mqueue \<Rightarrow> os_sys \<Rightarrow> bool" where
  "qopen a nm q s \<longleftrightarrow> (\<exists>h. qhandles s a = Some h \<and> mqds s (mq_des h) = Some nm \<and> mqueues s nm = Some q \<and>
     mq_msgsize q \<le> unat (msg_size h))"

text \<open>One message through a handle, sent or received without waiting, and whole sequences of them.\<close>

definition send_one :: "os_env \<Rightarrow> addr \<Rightarrow> int \<Rightarrow> nat \<times> byte list \<Rightarrow> os_sys \<Rightarrow> os_sys option" where
  "send_one env a t m s = do {
     (r, s) \<leftarrow> osal_queue_send env (Some a) (Some (snd m)) (word_of_nat (length (snd m))) (word_of_nat (fst m)) t [] s;
     if r = Some OSAL_STATUS_SUCCESS then Some s else None }"

definition recv_one :: "os_env \<Rightarrow> addr \<Rightarrow> int \<Rightarrow> byte list \<Rightarrow> os_sys \<Rightarrow> (byte list \<times> os_sys) option" where
  "recv_one env a t buf s = do {
     (r, data, len, s) \<leftarrow> osal_queue_recv env (Some a) (Some buf) True t [] s;
     if r = Some OSAL_STATUS_SUCCESS then do { d \<leftarrow> data; l \<leftarrow> len; Some (take (nat l) d, s) } else None }"

abbreviation send_all :: "os_env \<Rightarrow> addr \<Rightarrow> int \<Rightarrow> (nat \<times> byte list) list \<Rightarrow> os_sys \<Rightarrow> os_sys option" where
  "send_all env a t \<equiv> send_seq (send_one env a t)"

abbreviation recv_all :: "os_env \<Rightarrow> addr \<Rightarrow> int \<Rightarrow> byte list \<Rightarrow> nat \<Rightarrow> os_sys \<Rightarrow> (byte list list \<times> os_sys) option" where
  "recv_all env a t buf \<equiv> recv_seq (recv_one env a t buf)"

lemma same_queue:
  assumes "qopen a nm q s" "mq_msgs q = ms"
  shows "s\<lparr>mqueues := (mqueues s)(nm \<mapsto> q\<lparr>mq_msgs := ms\<rparr>)\<rparr> = s"
proof -
  have "q\<lparr>mq_msgs := ms\<rparr> = q" using assms(2) by (cases q) simp
  then have "(mqueues s)(nm \<mapsto> q\<lparr>mq_msgs := ms\<rparr>) = mqueues s" using assms(1) by (auto simp: qopen_def fun_upd_idem)
  then show ?thesis by (cases s) simp
qed

text \<open>The messages a handle can carry: those the queue accepts and, for a timed receive, those that are not empty.\<close>

definition carries :: "addr \<Rightarrow> string \<Rightarrow> mqueue \<Rightarrow> os_sys \<Rightarrow> int \<Rightarrow> byte list \<Rightarrow> nat \<times> byte list \<Rightarrow> bool" where
  "carries a nm q s t buf m \<longleftrightarrow> qopen a nm q s \<and> msg_ok q m \<and> length buf = mq_msgsize q \<and> (t = -1 \<or> snd m \<noteq> [])"

text \<open>Handles of the portability layer provide the interface, for blocking and timed calls in any combination.\<close>

interpretation osal_chan: priority_channel "with_msgs nm q s" "mq_maxmsg q" "carries a nm q s t' buf" "send_one env a t" "recv_one env a t' buf"
  for nm q s a t' buf env t
proof (unfold_locales, goal_cases)
  case (1 m ms)
  then obtain h where h: "qhandles (with_msgs nm q s ms) a = Some h" "mqds s (mq_des h) = Some nm" "msg_ok q (fst m, snd m)" "mq_msgsize q \<le> unat (msg_size h)"
    by (auto simp: carries_def qopen_def with_msgs_def)
  from mq_send_law [OF h(2-4) 1(2)] h(1) show ?case
    by (simp add: send_one_def osal_queue_send_def os_queue_send_def os_mq_timedsend_def)
next
  case (2 p b ms)
  then obtain h where h: "qhandles (with_msgs nm q s ((p, b) # ms)) a = Some h" "mqds s (mq_des h) = Some nm" "mq_msgsize q \<le> unat (msg_size h)" "length b \<le> length buf"
      "t' = -1 \<or> b \<noteq> []"
    by (auto simp: carries_def qopen_def with_msgs_def msg_ok_def)
  from mq_receive_law [OF h(2-4)] h(1,5) show ?case
    by (auto simp: recv_one_def osal_queue_recv_def os_queue_recv_def os_mq_timedrecv_def mq_timedreceive_loop.simps ret_status_def)
qed

text \<open>C8: delivery.  Messages sent through a handle of an empty queue that has room for them all arrive complete and
  unchanged: the receiver gets those of higher priority first and those of one priority in the order they were sent, and the
  queue is empty again.  This holds for blocking and for timed calls, except that a timed
  receive cannot be used for empty messages.\<close>

theorem osal_queue_delivery:
  assumes "qopen a nm q s" "mq_msgs q = []" "length ms \<le> mq_maxmsg q" "list_all (msg_ok q) ms"
    and "length buf = mq_msgsize q" and "t' = -1 \<or> (\<forall>m \<in> set ms. snd m \<noteq> [])"
  shows "\<exists>s'. send_all env a t ms s = Some s' \<and> recv_all env a t' buf (length ms) s' = Some (map snd (by_priority ms), s)"
proof -
  have "with_msgs nm q s [] = s" unfolding with_msgs_def by (rule same_queue [OF assms(1,2)])
  moreover have "list_all (carries a nm q s t' buf) ms" using assms by (auto simp: list_all_iff carries_def)
  ultimately show ?thesis using osal_chan.delivery [OF assms(3), of a nm s t' buf env t] by simp
qed

definition queue_t :: os_sys where
  "queue_t = sys_t\<lparr>qhandles := [9 \<mapsto> \<lparr>mq_des = 3, msg_size = 4\<rparr>], mqds := [3 \<mapsto> ''/q''],
     mqueues := [''/q'' \<mapsto> \<lparr>mq_maxmsg = 3, mq_msgsize = 4, mq_msgs = []\<rparr>]\<rparr>"

theorem osal_queue_delivery_witness:
  "\<exists>s. send_all env_t 9 100 [(1, [1, 2]), (5, [3]), (1, [4, 5, 6])] queue_t = Some s \<and>
     recv_all env_t 9 100 [0, 0, 0, 0] (Suc (Suc (Suc 0))) s = Some ([[3], [1, 2], [4, 5, 6]], queue_t)"
  using osal_queue_delivery [of 9 "''/q''" "\<lparr>mq_maxmsg = 3, mq_msgsize = 4, mq_msgs = []\<rparr>" queue_t
      "[(1, [1, 2]), (5, [3]), (1, [4, 5, 6])]" "[0, 0, 0, 0]" 100 env_t 100]
  by (simp add: qopen_def queue_t_def msg_ok_def MQ_PRIO_MAX_def del: send_seq.simps recv_seq.simps)

text \<open>C38: a timed receive that meets an empty message takes it out of the queue but reports a timeout and stores no length, so the
  message is lost; a timed receive on an empty queue whose deadline passes reports the same and
  changes nothing, however often it is interrupted.\<close>

theorem osal_queue_recv_timeout:
  assumes "qopen a nm q s" and "t \<noteq> -1" and "ts_ok (os_millisec_2_timespec (gettimeofday env) (word_of_int t))"
  shows "(mq_msgs q = (p, []) # ms \<longrightarrow>
      osal_queue_recv env (Some a) (Some buf) True t evs s =
        Some (Some OSAL_STATUS_TIMEOUT, Some buf, None, s\<lparr>mqueues := (mqueues s)(nm \<mapsto> q\<lparr>mq_msgs := ms\<rparr>)\<rparr>)) \<and>
    (mq_msgs q = [] \<longrightarrow>
      osal_queue_recv env (Some a) (Some buf) True t (replicate n Interrupted @ [Expired]) s =
        Some (Some OSAL_STATUS_TIMEOUT, Some buf, None, s))"
proof -
  from assms(1) obtain h where h: "qhandles s a = Some h" "mqds s (mq_des h) = Some nm" "mqueues s nm = Some q"
    "mq_msgsize q \<le> unat (msg_size h)" by (auto simp: qopen_def)
  let ?ts = "os_millisec_2_timespec (gettimeofday env) (word_of_int t)"
  have same: "mq_msgs q = [] \<Longrightarrow> s\<lparr>mqueues := (mqueues s)(nm \<mapsto> q)\<rparr> = s"
    using same_queue [OF assms(1)] by (metis mqueue.surjective mqueue.update_convs(3))
  have "mq_timedreceive_loop ?ts (mq_des h) buf (msg_size h) evs s =
      Some (Some 0, buf, s\<lparr>mqueues := (mqueues s)(nm \<mapsto> q\<lparr>mq_msgs := ms\<rparr>)\<rparr>)" if "mq_msgs q = (p, []) # ms"
    using h that by (simp add: mq_timedreceive_loop.simps mq_receive_def mq_of_def mq_wait.simps mq_take_def write_bytes_def)
  moreover have "mq_timedreceive_loop ?ts (mq_des h) buf (msg_size h) (replicate n Interrupted @ [Expired]) s = Some (Some (-1), buf, s)"
    if "mq_msgs q = []"
  proof (induction n)
    case 0
    then show ?case using h that assms(3) same
      by (simp add: mq_timedreceive_loop.simps mq_receive_def mq_of_def mq_wait.simps mq_take_def)
  next
    case (Suc n)
    then show ?case using h that assms(3) same
      by (subst mq_timedreceive_loop.simps) (simp add: mq_receive_def mq_of_def mq_wait.simps mq_take_def)
  qed
  ultimately show ?thesis using assms(2) h(1) by (simp add: osal_queue_recv_def os_mq_timedrecv_def)
qed


theorem osal_queue_recv_timeout_witness:
  "\<exists>s. send_all env_t 9 100 [(1, []), (0, [7])] queue_t = Some s \<and>
     (\<exists>s'. osal_queue_recv env_t (Some 9) (Some [0, 0, 0, 0]) True 100 [] s = Some (Some OSAL_STATUS_TIMEOUT, Some [0, 0, 0, 0], None, s') \<and>
       mq_msgs (the (mqueues s' ''/q'')) = [(0, [7])])"
proof -
  let ?q = "\<lparr>mq_maxmsg = 3, mq_msgsize = 4, mq_msgs = []\<rparr>"
  let ?s = "with_msgs ''/q'' ?q queue_t [(1, []), (0, [7])]"
  have "with_msgs ''/q'' ?q queue_t [] = queue_t" by (simp add: with_msgs_def queue_t_def)
  then have s: "send_all env_t 9 100 [(1, []), (0, [7])] queue_t = Some ?s"
    using osal_chan.send_seq_state [of 9 "''/q''" ?q queue_t "-1" "[0, 0, 0, 0]" "[(1, []), (0, [7])]" "[]" env_t 100]
    by (simp add: carries_def qopen_def queue_t_def msg_ok_def MQ_PRIO_MAX_def del: send_seq.simps)
  have ts: "ts_ok (os_millisec_2_timespec (gettimeofday env_t) (word_of_int 100))"
    by (simp add: os_millisec_2_timespec_def env_t_def ts_ok_def)
  have "qopen 9 ''/q'' (?q\<lparr>mq_msgs := [(1, []), (0, [7])]\<rparr>) ?s" by (simp add: qopen_def queue_t_def with_msgs_def)
  from osal_queue_recv_timeout [OF this, of 100 env_t 1 "[(0, [7])]" "[0, 0, 0, 0]" "[]"] ts s
  show ?thesis by auto
qed

text \<open>The life of a queue.  Deleting a handle closes it, frees it and reports success, but the queue itself stays in the kernel
  with its messages: creating a queue again under a name that agrees in the first 30 characters opens
  the old one, whatever depth and size are asked for.\<close>

lemma osal_queue_persists:
  assumes "qopen a (mq_name n) q s" and "take 30 n' = take 30 n" and "mq_name_ok (mq_name n)" and "no_oom s" and "mq_new_fd env = Some fd"
  shows "\<exists>s1 s2 b. osal_queue_delete (Some a) s = Some (OSAL_STATUS_SUCCESS, s1) \<and> qhandles s1 a = None \<and>
    osal_queue_create env (Some n') dp sz s1 = Some (Some b, s2) \<and> mqueues s2 = mqueues s \<and>
    (mq_msgsize q \<le> unat sz \<longrightarrow> qopen b (mq_name n') q s2)"
proof -
  have nm: "mq_name n' = mq_name n" using assms(2) by (simp add: mq_name_def MQ_NAME_LEN_def)
  from assms(1) obtain h where h: "qhandles s a = Some h" "mqueues s (mq_name n) = Some q" by (auto simp: qopen_def)
  define s1 where "s1 = s\<lparr>mqds := (mqds s)(mq_des h := None), qhandles := (qhandles s)(a := None)\<rparr>"
  have d: "osal_queue_delete (Some a) s = Some (OSAL_STATUS_SUCCESS, s1)"
    by (simp add: osal_queue_delete_def os_queue_delete_def h ret_status_def s1_def)
  have "malloc 8 s1 = (Some (brk s), s1\<lparr>brk := Suc (brk s)\<rparr>)"
    using malloc_no_oom [of s1 8] assms(4) by (simp add: s1_def no_oom_def)
  then have "osal_queue_create env (Some n') dp sz s1 =
    Some (Some (brk s), s1\<lparr>brk := Suc (brk s), mqds := (mqds s1)(fd \<mapsto> mq_name n),
       qhandles := (qhandles s1)(brk s \<mapsto> \<lparr>mq_des = fd, msg_size = sz\<rparr>)\<rparr>)"
    using assms(3,5) h by (simp add: osal_queue_create_def os_queue_create_def mq_open_def nm s1_def)
  with d h show ?thesis by (auto simp: s1_def qopen_def nm)
qed

lemma osal_queue_persists_witness:
  "\<exists>s1 s2 b. osal_queue_delete (Some 9) queue_t = Some (OSAL_STATUS_SUCCESS, s1) \<and>
     osal_queue_create env_t (Some ''q'') 100 8 s1 = Some (Some b, s2) \<and>
     qopen b ''/q'' \<lparr>mq_maxmsg = 3, mq_msgsize = 4, mq_msgs = []\<rparr> s2"
  using osal_queue_persists [of 9 "''q''" "\<lparr>mq_maxmsg = 3, mq_msgsize = 4, mq_msgs = []\<rparr>" queue_t "''q''" env_t 3 100 8]
  by (auto simp: qopen_def queue_t_def mq_name_def mq_name_ok_def MQ_NAME_LEN_def no_oom_def sys_t_def env_t_def)

text \<open>Delays.  \<open>osal_mdelay\<close> and \<open>osal_udelay\<close> ask the kernel to wait for exactly the given time as long as it fits an \<open>int\<close> in
  microseconds.  \<open>osal_sleep\<close> waits 10 milliseconds less than it is told to, and one millisecond for at most 10.\<close>

lemma osal_delay_spec:
  assumes "0 \<le> us" "us < 2 ^ 31" "0 \<le> ms" "ms \<le> 2147483"
  shows "(case osal_udelay us of (sec, usec) \<Rightarrow> sec * 1000000 + usec = us \<and> 0 \<le> usec \<and> usec < 1000000) \<and>
    (case osal_mdelay ms of (sec, usec) \<Rightarrow> sec * 1000000 + usec = ms * 1000 \<and> 0 \<le> usec \<and> usec < 1000000) \<and>
    (case osal_sleep ms of (sec, usec) \<Rightarrow> sec * 1000000 + usec = (if ms \<le> 10 then 1000 else (ms - 10) * 1000))"
proof -
  have u: "case usleep_ex (word_of_int n) of (sec, usec) \<Rightarrow> sec * 1000000 + usec = n \<and> 0 \<le> usec \<and> usec < 1000000"
    if "0 \<le> n" "n < 2 ^ 31" for n
  proof -
    have "uint (word_of_int n :: 32 word) = n" using that by (simp add: unsigned_of_int take_bit_int_eq_self)
    then show ?thesis by (simp add: usleep_ex_def uint_div uint_mod)
  qed
  have "(case os_sleep ms of (sec, usec) \<Rightarrow> sec * 1000000 + usec = (if ms \<le> 10 then 1000 else (ms - 10) * 1000))"
    using u [of 1000] u [of "(ms - 10) * 1000"] assms(3,4) by (auto simp: os_sleep_def)
  moreover note u [OF assms(1,2)] u [of "ms * 1000"]
  ultimately show ?thesis using assms(3,4) by (simp add: osal_udelay_def osal_mdelay_def osal_sleep_def os_delay_def)
qed

lemma osal_delay_spec_witness:
  "osal_udelay 2500000 = (2, 500000) \<and> osal_mdelay 1500 = (1, 500000) \<and> osal_sleep 50 = (0, 40000) \<and> osal_sleep 10 = (0, 1000)"
  using osal_delay_spec [of 2500000 1500] osal_delay_spec [of 0 50] osal_delay_spec [of 0 10]
  by (auto simp: osal_udelay_def osal_mdelay_def osal_sleep_def os_sleep_def os_delay_def usleep_ex_def uint_div uint_mod)

text \<open>Spin locks.  With a C library that stores 0 for a free lock, as that of the target does, initialisation reports an error although the lock is usable: a lock
  that was initialised can be taken at once, is then waited for by everyone else as long as nobody changes it, and is free again when it is released.\<close>

lemma osal_spin_cycle:
  assumes "spin_free r \<noteq> spin_taken r"
  shows "osal_spinlock_init r (Some x) = Some (if spin_free r = 0 then OSAL_ERROR else OSAL_EOK, spin_free r)"
    and "osal_spin_lock r vs (Some (spin_free r)) = Some (Some OSAL_EOK, spin_taken r)"
    and "osal_spin_lock r (replicate n (spin_taken r)) (Some (spin_taken r)) = Some (None, spin_taken r)"
    and "osal_spin_unlock r (Some (spin_taken r)) = Some (OSAL_EOK, spin_free r)"
proof -
  have "pthread_spin_lock r (replicate n (spin_taken r)) (spin_taken r) = (None, spin_taken r)"
    using assms by (induction n) auto
  then show "osal_spin_lock r (replicate n (spin_taken r)) (Some (spin_taken r)) = Some (None, spin_taken r)"
    by (simp add: osal_spin_lock_def os_spinlock_lock_def)
  show "osal_spin_lock r vs (Some (spin_free r)) = Some (Some OSAL_EOK, spin_taken r)"
    by (cases vs) (simp_all add: osal_spin_lock_def os_spinlock_lock_def)
qed (simp_all add: osal_spinlock_init_def os_spinlock_init_def osal_spin_unlock_def os_spinlock_unlock_def)

section \<open>Inline helpers\<close>

text \<open>The helpers of \<open>src/include/cv_osal.h\<close>.  When the clock cannot be read, \<open>os_get_reltime\<close> ends without a value: \<open>stale\<close> is what the caller
  then finds as the result and in the local variable.\<close>

definition osal_delay :: "int \<Rightarrow> int \<times> int" where
  "osal_delay usec = os_delay usec"

definition osal_get_systemtime :: "int \<times> int \<times> int \<Rightarrow> timespec option \<Rightarrow> 32 word" where
  "osal_get_systemtime stale ts =
     (let (ret, sec, usec) = (case os_get_reltime ts of Some t \<Rightarrow> t | None \<Rightarrow> stale)
      in if ret \<noteq> 0 then word_of_int (sec * 1000 + usec sdiv 1000) else 0)"

definition osal_enter_critical :: "os_env \<Rightarrow> ptr \<Rightarrow> mutex_obj wait_event list \<Rightarrow> os_sys \<Rightarrow> (int option \<times> os_sys) option" where
  "osal_enter_critical env mutex evs s = (case mutex of
     None \<Rightarrow> Some (Some OSAL_STATUS_SUCCESS, s)
   | Some _ \<Rightarrow> osal_mutex_lock env mutex evs s)"

definition osal_leave_critical :: "os_env \<Rightarrow> ptr \<Rightarrow> os_sys \<Rightarrow> os_sys option" where
  "osal_leave_critical env mutex s = (case mutex of
     None \<Rightarrow> Some s
   | Some _ \<Rightarrow> map_option snd (osal_mutex_unlock env mutex s))"

text \<open>The system time is 0 whenever the clock can be read: the test takes the result for success when it is not 0.\<close>

lemma osal_get_systemtime_zero: "osal_get_systemtime stale (Some ts) = 0"
  by (simp add: osal_get_systemtime_def os_get_reltime_def)

end
