(* ===== verification/OsThread.thy ===== *)
theory OsThread
  imports OsalStatus
begin

text \<open>
  Thread creation: \<open>src/osal/linux/os_pthread.c\<close> and \<open>src/osal/osal_thread.c\<close>.

  The heap holds the blocks of the thread handles, the start records (\<open>thread_info_t\<close>) and the
  copies of the names.  A created thread is an entry of \<open>spawned\<close> until it runs \<open>start_routine_wrapper\<close>.  What
  the library answers to each attribute call is a parameter, so that every error path is covered.
\<close>

section \<open>Names\<close>

definition TASK_COMM_LEN :: nat where "TASK_COMM_LEN = 16"
definition PATH_MAX :: nat where "PATH_MAX = 4096"

abbreviation NUL :: char where "NUL \<equiv> CHR 0x00"

definition c_str :: "char list \<Rightarrow> string" where
  "c_str buf = takeWhile (\<lambda>c. c \<noteq> NUL) buf"

text \<open>\<open>strncpy\<close> pads with zero bytes; the callers pass one less than the length of the array.\<close>

definition strncpy :: "char list \<Rightarrow> string \<Rightarrow> nat \<Rightarrow> char list" where
  "strncpy dst src n = take n (src @ replicate n NUL) @ drop n dst"

text \<open>\<open>readlink\<close> gives the text of the link, or fails.\<close>

definition os_procselfexepath :: "string option \<Rightarrow> char list option \<Rightarrow> nat \<Rightarrow> char list option" where
  "os_procselfexepath link path len = (case path of
     None \<Rightarrow> None
   | Some path \<Rightarrow>
       if len = 0 then Some path
       else let path = replicate len NUL;
                path = (case link of
                    Some l \<Rightarrow> take len l @ drop (length (take len l)) path
                  | None \<Rightarrow> strncpy path ''unknown'' (len - 1))
            in Some (path[len - 1 := NUL]))"

definition basename :: "string \<Rightarrow> string" where
  "basename p =
     (if p = [] then ''.''
      else let q = rev (dropWhile (\<lambda>c. c = CHR ''/'') (rev p))
           in if q = [] then ''/'' else rev (takeWhile (\<lambda>c. c \<noteq> CHR ''/'') (rev q)))"

definition os_procselfexename :: "string option \<Rightarrow> char list option \<Rightarrow> nat \<Rightarrow> char list option" where
  "os_procselfexename link name len = (case name of
     None \<Rightarrow> None
   | Some name \<Rightarrow>
       if len = 0 then Some name
       else do {
         path \<leftarrow> os_procselfexepath link (Some (replicate PATH_MAX NUL)) PATH_MAX;
         let name = strncpy name (basename (c_str path)) (len - 1);
         Some (name[len - 1 := NUL]) })"

text \<open>The name the kernel keeps for the thread; \<open>prctl\<close> keeps 15 characters.\<close>

definition os_setprocparam :: "string option \<Rightarrow> string option \<Rightarrow> string option" where
  "os_setprocparam link name = (case name of
     Some (c # cs) \<Rightarrow> Some (take (TASK_COMM_LEN - 1) (c # cs))
   | _ \<Rightarrow> do {
       self_name \<leftarrow> os_procselfexename link (Some (replicate TASK_COMM_LEN NUL)) TASK_COMM_LEN;
       Some (take (TASK_COMM_LEN - 1) (take (TASK_COMM_LEN - 1) (''tk_'' @ c_str self_name))) })"

section \<open>Signals\<close>

definition os_blockallsigs :: "nat set \<Rightarrow> nat set" where
  "os_blockallsigs blocked = blocked \<union> {1..64}"

definition os_unblocksig :: "nat \<Rightarrow> nat set \<Rightarrow> nat set" where
  "os_unblocksig sig blocked = blocked - (if sig \<in> {1..64} then {sig} else {})"

section \<open>Threads\<close>

record thread_info =
  info_name :: ptr
  info_prio :: int
  start_routine :: nat
  info_arg :: nat

record thread_desc =
  tid :: nat
  joinable :: bool
  rr_prio :: int
  stack :: "int option"
  info :: addr

record task_sys = mem +
  tasks :: "addr \<rightharpoonup> nat"
  infos :: "addr \<rightharpoonup> thread_info"
  strs :: "addr \<rightharpoonup> string"
  spawned :: "thread_desc list"

datatype attr_call = Attr_init | Attr_stacksize | Attr_detachstate | Attr_inheritsched | Attr_schedpolicy

record thread_env =
  attr_ret :: "attr_call \<Rightarrow> int"
  create_ret :: "nat option"

definition PTHREAD_STACK_MIN :: int where "PTHREAD_STACK_MIN = 16384"

definition free_thread_info :: "addr \<Rightarrow> task_sys \<Rightarrow> task_sys option" where
  "free_thread_info a s = do {
     i \<leftarrow> infos s a;
     s \<leftarrow> (case info_name i of
         None \<Rightarrow> Some s
       | Some n \<Rightarrow> do { _ \<leftarrow> strs s n; Some (s\<lparr>strs := (strs s)(n := None)\<rparr>) });
     Some (s\<lparr>infos := (infos s)(a := None)\<rparr>) }"

text \<open>The thread's own side: its name, and the call it makes.\<close>

definition start_routine_wrapper :: "string option \<Rightarrow> addr \<Rightarrow> task_sys \<Rightarrow> (string \<times> nat \<times> nat \<times> task_sys) option" where
  "start_routine_wrapper link arg s = do {
     i \<leftarrow> infos s arg;
     name \<leftarrow> (case info_name i of None \<Rightarrow> Some None | Some n \<Rightarrow> do { x \<leftarrow> strs s n; Some (Some x) });
     comm \<leftarrow> os_setprocparam link name;
     s \<leftarrow> free_thread_info arg s;
     Some (comm, start_routine i, info_arg i, s) }"

definition strdup :: "string \<Rightarrow> task_sys \<Rightarrow> ptr \<times> task_sys" where
  "strdup x s = (case malloc (int (length x) + 1) s of
     (None, s) \<Rightarrow> (None, s)
   | (Some a, s) \<Rightarrow> (Some a, s\<lparr>strs := (strs s)(a \<mapsto> x)\<rparr>))"

text \<open>The attributes, or \<open>None\<close> for the first call that is refused.  A priority outside 1 to 99 is refused for \<open>SCHED_RR\<close>.\<close>

definition thread_attributes :: "thread_env \<Rightarrow> int \<Rightarrow> int \<Rightarrow> int option option" where
  "thread_attributes env prio stack_size =
     (if attr_ret env Attr_init \<noteq> 0 then None
      else if stack_size \<noteq> 0 \<and> attr_ret env Attr_stacksize \<noteq> 0 then None
      else if attr_ret env Attr_detachstate \<noteq> 0 then None
      else if attr_ret env Attr_inheritsched \<noteq> 0 then None
      else if attr_ret env Attr_schedpolicy \<noteq> 0 then None
      else if \<not> (1 \<le> prio \<and> prio \<le> 99) then None
      else Some (if stack_size = 0 then None
                 else if stack_size < PTHREAD_STACK_MIN then Some PTHREAD_STACK_MIN else Some stack_size))"

text \<open>The result: the return value and what is stored through \<open>thread\<close>.\<close>

definition pthread_create_internel :: "thread_env \<Rightarrow> string option \<Rightarrow> int \<Rightarrow> bool \<Rightarrow> int \<Rightarrow> nat \<Rightarrow> nat \<Rightarrow> task_sys \<Rightarrow>
    (int \<times> nat option \<times> task_sys) option" where
  "pthread_create_internel env name prio state stack_size routine arg s =
     (case thread_attributes env prio stack_size of
        None \<Rightarrow> Some (-1, None, s)
      | Some sz \<Rightarrow> (case malloc 16 s of
          (None, s) \<Rightarrow> Some (-1, None, s)
        | (Some a, s) \<Rightarrow> do {
            let (nm, s) = (case name of None \<Rightarrow> (None, s) | Some x \<Rightarrow> strdup x s);
            let s = s\<lparr>infos := (infos s)(a \<mapsto> \<lparr>info_name = nm, info_prio = prio, start_routine = routine, info_arg = arg\<rparr>)\<rparr>;
            (case create_ret env of
               None \<Rightarrow> do {
                 s \<leftarrow> free_thread_info a s;
                 Some (-1, None, s) }
             | Some t \<Rightarrow> Some (0, Some t,
                 s\<lparr>spawned := spawned s @ [\<lparr>tid = t, joinable = state, rr_prio = prio, stack = sz, info = a\<rparr>]\<rparr>)) }))"

definition os_pthread_create :: "thread_env \<Rightarrow> string option \<Rightarrow> int \<Rightarrow> int \<Rightarrow> nat \<Rightarrow> nat \<Rightarrow> task_sys \<Rightarrow>
    (int \<times> nat option \<times> task_sys) option" where
  "os_pthread_create env name prio stack_size routine arg s =
     pthread_create_internel env name prio False stack_size routine arg s"

definition os_pthread_create_joinable :: "thread_env \<Rightarrow> string option \<Rightarrow> int \<Rightarrow> int \<Rightarrow> nat \<Rightarrow> nat \<Rightarrow> task_sys \<Rightarrow>
    (int \<times> nat option \<times> task_sys) option" where
  "os_pthread_create_joinable env name prio stack_size routine arg s =
     pthread_create_internel env name prio True stack_size routine arg s"

text \<open>\<open>osal_task_create\<close> and \<open>osal_task_create_joinable\<close>.  The block of the handle is written when the thread has been
  created; a failed creation leaves it allocated.\<close>

definition task_create_with :: "(task_sys \<Rightarrow> (int \<times> nat option \<times> task_sys) option) \<Rightarrow> nat \<Rightarrow> task_sys \<Rightarrow> (ptr \<times> task_sys) option" where
  "task_create_with create uninit s = (case malloc 4 s of
     (None, s) \<Rightarrow> Some (None, s)
   | (Some a, s) \<Rightarrow> do {
       (ret, t, s) \<leftarrow> create (s\<lparr>tasks := (tasks s)(a \<mapsto> uninit)\<rparr>);
       let s = (case t of None \<Rightarrow> s | Some t \<Rightarrow> s\<lparr>tasks := (tasks s)(a \<mapsto> t)\<rparr>);
       if ret \<noteq> 0 then Some (None, s) else Some (Some a, s) })"

definition osal_task_create :: "thread_env \<Rightarrow> string option \<Rightarrow> nat \<Rightarrow> nat \<Rightarrow> int \<Rightarrow> int \<Rightarrow> nat \<Rightarrow> task_sys \<Rightarrow> (ptr \<times> task_sys) option" where
  "osal_task_create env name routine arg stack_size prio =
     task_create_with (os_pthread_create env name prio stack_size routine arg)"

definition osal_task_create_joinable :: "thread_env \<Rightarrow> string option \<Rightarrow> int \<Rightarrow> int \<Rightarrow> nat \<Rightarrow> nat \<Rightarrow> nat \<Rightarrow> task_sys \<Rightarrow> (ptr \<times> task_sys) option" where
  "osal_task_create_joinable env name prio stack_size routine arg =
     task_create_with (os_pthread_create_joinable env name prio stack_size routine arg)"

definition osal_task_del :: "ptr \<Rightarrow> task_sys \<Rightarrow> (int \<times> task_sys) option" where
  "osal_task_del task s = (case task of
     None \<Rightarrow> Some (OSAL_STATUS_SUCCESS, s)
   | Some a \<Rightarrow> if tasks s a = None then None else Some (OSAL_STATUS_SUCCESS, s\<lparr>tasks := (tasks s)(a := None)\<rparr>))"

definition osal_blockallsigs :: "nat set \<Rightarrow> nat set" where
  "osal_blockallsigs blocked = os_blockallsigs blocked"

definition osal_unblocksig :: "nat \<Rightarrow> nat set \<Rightarrow> nat set" where
  "osal_unblocksig sig blocked = os_unblocksig sig blocked"

section \<open>Properties\<close>

lemma takeWhile_append_replicate: "x \<notin> set xs \<Longrightarrow> takeWhile (\<lambda>c. c \<noteq> x) (xs @ replicate n x) = xs"
  by (induction xs) (auto simp: takeWhile_eq_Nil_iff hd_replicate intro: ccontr)

lemma strncpy_pad: "strncpy (replicate (Suc k) NUL) x k = take k x @ replicate (Suc k - length (take k x)) NUL"
  by (auto simp: strncpy_def min_def replicate_add [symmetric] Suc_diff_le simp del: replicate.simps)

lemma c_str_pad:
  assumes "NUL \<notin> set x" "length x \<le> k"
  shows "c_str ((x @ replicate (Suc k - length x) NUL)[k := NUL]) = x"
proof -
  have "(x @ replicate (Suc k - length x) NUL)[k := NUL] = x @ replicate (Suc k - length x) NUL"
    by (rule list_update_same_conv [THEN iffD2]) (use assms(2) in \<open>auto simp: nth_append nth_replicate simp del: replicate.simps\<close>)
  then show ?thesis using takeWhile_append_replicate [OF assms(1)] by (simp add: c_str_def)
qed

lemma c_str_strncpy: "NUL \<notin> set x \<Longrightarrow> c_str ((strncpy (replicate (Suc k) NUL) x k)[k := NUL]) = take k x"
  unfolding strncpy_pad by (rule c_str_pad) (auto dest: in_set_takeD)

text \<open>The path of the program, cut to what fits the buffer.\<close>

definition exe_path :: "string option \<Rightarrow> string" where
  "exe_path link = (case link of Some l \<Rightarrow> l | None \<Rightarrow> ''unknown'')"

lemma exepath_ok:
  assumes "NUL \<notin> set (exe_path link)"
  shows "\<exists>buf. os_procselfexepath link (Some p) (Suc k) = Some buf \<and> c_str buf = take k (exe_path link)"
proof (cases link)
  case None
  then show ?thesis using c_str_strncpy [of "''unknown''" k]
    by (simp add: os_procselfexepath_def exe_path_def del: replicate.simps)
next
  case (Some l)
  let ?b = "take (Suc k) l @ replicate (Suc k - length (take (Suc k) l)) NUL"
  have "?b[k := NUL] = (take k l @ replicate (Suc k - length (take k l)) NUL)[k := NUL]"
    by (rule nth_equalityI)
      (auto simp: nth_append nth_list_update nth_replicate min_def simp del: replicate.simps split: if_splits)
  also have "c_str \<dots> = take k l"
    by (rule c_str_pad) (use assms Some in \<open>auto simp: exe_path_def dest: in_set_takeD\<close>)
  finally show ?thesis
    by (simp add: os_procselfexepath_def exe_path_def Some del: replicate.simps take_Suc_Cons)
qed

lemma set_basename: "c \<in> set (basename p) \<Longrightarrow> c \<in> set p \<or> c = CHR ''.'' \<or> c = CHR ''/''"
  by (auto simp: basename_def Let_def dest!: set_takeWhileD set_dropWhileD split: if_splits)

text \<open>What a thread is called: its own name, or the name of the program with a prefix.\<close>

definition comm_name :: "string option \<Rightarrow> string option \<Rightarrow> string" where
  "comm_name link name = take 15 (if name = None \<or> name = Some [] then ''tk_'' @ take 15 (basename (take 4095 (exe_path link))) else the name)"

lemma setprocparam_ok:
  assumes "NUL \<notin> set (exe_path link)"
  shows "os_setprocparam link name = Some (comm_name link name)"
proof -
  obtain buf where buf: "os_procselfexepath link (Some (replicate 4096 NUL)) (Suc 4095) = Some buf" "c_str buf = take 4095 (exe_path link)"
    using exepath_ok [OF assms] by blast
  have "NUL \<notin> set (basename (take 4095 (exe_path link)))"
    using assms by (auto dest!: set_basename in_set_takeD)
  then have "c_str ((strncpy (replicate (Suc 15) NUL) (basename (c_str buf)) 15)[15 := NUL]) = take 15 (basename (take 4095 (exe_path link)))"
    unfolding buf(2) by (rule c_str_strncpy)
  moreover have "Suc 4095 = 4096" "Suc 15 = 16" by simp_all
  ultimately have "\<exists>n. os_procselfexename link (Some (replicate TASK_COMM_LEN NUL)) TASK_COMM_LEN = Some n \<and>
      c_str n = take 15 (basename (take 4095 (exe_path link)))"
    using buf(1) by (simp add: os_procselfexename_def TASK_COMM_LEN_def PATH_MAX_def del: replicate.simps)
  then show ?thesis
    by (auto simp: os_setprocparam_def comm_name_def TASK_COMM_LEN_def del: replicate.simps split: option.split list.split)
qed


definition fresh_above :: "task_sys \<Rightarrow> bool" where
  "fresh_above s \<longleftrightarrow> (\<forall>a \<ge> brk s. infos s a = None \<and> strs s a = None \<and> tasks s a = None)"

lemma thread_create_ok:
  assumes "no_oom s" "fresh_above s" "thread_attributes env prio stack_size = Some sz" "create_ret env = Some t" "NUL \<notin> set (exe_path link)"
  shows "\<exists>s' d. pthread_create_internel env name prio state stack_size routine arg s = Some (0, Some t, s') \<and>
    tasks s' = tasks s \<and> spawned s' = spawned s @ [d] \<and>
    tid d = t \<and> joinable d = state \<and> rr_prio d = prio \<and> stack d = sz \<and>
    (\<forall>T. \<exists>s''. start_routine_wrapper link (info d) (s'\<lparr>tasks := T\<rparr>) = Some (comm_name link name, routine, arg, s'') \<and>
      infos s'' = infos s \<and> strs s'' = strs s \<and> tasks s'' = T)"
  using assms(1-4) setprocparam_ok [OF assms(5)]
  by (cases name) (auto simp: pthread_create_internel_def malloc_no_oom strdup_def start_routine_wrapper_def
      free_thread_info_def fresh_above_def fun_upd_idem)

lemma thread_create_fail:
  assumes "no_oom s" "fresh_above s" "thread_attributes env prio stack_size = None \<or> create_ret env = None"
  shows "\<exists>s'. pthread_create_internel env name prio state stack_size routine arg s = Some (-1, None, s') \<and>
    tasks s' = tasks s \<and> spawned s' = spawned s \<and> infos s' = infos s \<and> strs s' = strs s"
  using assms by (cases name) (auto simp: pthread_create_internel_def malloc_no_oom strdup_def
      free_thread_info_def fresh_above_def fun_upd_idem split: option.splits)

lemma task_create_total:
  assumes "no_oom s" "fresh_above s" "NUL \<notin> set (exe_path link)"
  shows "if (\<exists>sz. thread_attributes env prio stack_size = Some sz) \<and> create_ret env \<noteq> None
    then \<exists>s' d s''. osal_task_create env name routine arg stack_size prio uninit s = Some (Some (brk s), s') \<and>
      tasks s' = (tasks s)(brk s \<mapsto> tid d) \<and> spawned s' = spawned s @ [d] \<and> create_ret env = Some (tid d) \<and>
      \<not> joinable d \<and> rr_prio d = prio \<and> stack d = (if stack_size = 0 then None else Some (max PTHREAD_STACK_MIN stack_size)) \<and>
      start_routine_wrapper link (info d) s' = Some (comm_name link name, routine, arg, s'') \<and>
      infos s'' = infos s \<and> strs s'' = strs s \<and> tasks s'' = tasks s'
    else \<exists>s'. osal_task_create env name routine arg stack_size prio uninit s = Some (None, s') \<and> spawned s' = spawned s \<and>
      infos s' = infos s \<and> strs s' = strs s \<and> tasks s' = (tasks s)(brk s \<mapsto> uninit)"
proof -
  let ?s = "s\<lparr>brk := Suc (brk s), tasks := (tasks s)(brk s \<mapsto> uninit)\<rparr>"
  have m: "malloc 4 s = (Some (brk s), s\<lparr>brk := Suc (brk s)\<rparr>)" by (rule malloc_no_oom [OF assms(1)]) simp
  have ok: "no_oom ?s" "fresh_above ?s" using assms(1,2) by (auto simp: fresh_above_def no_oom_def)
  show ?thesis
  proof (cases "(\<exists>sz. thread_attributes env prio stack_size = Some sz) \<and> create_ret env \<noteq> None")
    case True
    then obtain sz t where st: "thread_attributes env prio stack_size = Some sz" "create_ret env = Some t" by auto
    have sz: "sz = (if stack_size = 0 then None else Some (max PTHREAD_STACK_MIN stack_size))"
      using st(1) by (auto simp: thread_attributes_def max_def split: if_splits)
    obtain s' d where c: "pthread_create_internel env name prio False stack_size routine arg ?s = Some (0, Some t, s')"
      "tasks s' = tasks ?s" "spawned s' = spawned s @ [d]" "tid d = t" "\<not> joinable d" "rr_prio d = prio" "stack d = sz"
      and w: "\<And>T. \<exists>s''. start_routine_wrapper link (info d) (s'\<lparr>tasks := T\<rparr>) = Some (comm_name link name, routine, arg, s'') \<and>
        infos s'' = infos s \<and> strs s'' = strs s \<and> tasks s'' = T"
      using thread_create_ok [OF ok st assms(3), of name False routine arg] by auto
    have "osal_task_create env name routine arg stack_size prio uninit s =
        Some (Some (brk s), s'\<lparr>tasks := (tasks s)(brk s \<mapsto> t)\<rparr>)"
      by (simp add: osal_task_create_def os_pthread_create_def task_create_with_def m c(1,2))
    with True c(3-7) w [of "(tasks s)(brk s \<mapsto> t)"] st(2) sz show ?thesis by auto
  next
    case False
    then have "thread_attributes env prio stack_size = None \<or> create_ret env = None" by auto
    from thread_create_fail [OF ok this, of name False routine arg] False show ?thesis
      by (auto simp: osal_task_create_def os_pthread_create_def task_create_with_def m)
  qed
qed


definition tasks_t :: task_sys where
  "tasks_t = \<lparr>brk = 4, alloc_fails = (\<lambda>_. False), junk = (\<lambda>_ _. 0), tasks = Map.empty, infos = Map.empty, strs = Map.empty, spawned = []\<rparr>"

definition thread_env_t :: thread_env where
  "thread_env_t = \<lparr>attr_ret = (\<lambda>_. 0), create_ret = Some 42\<rparr>"


end
