(* ===== verification/EgNet.thy ===== *)
theory EgNet
  imports OsThread
begin

text \<open>
  The TCP client of the controller, \<open>src/app/sys/eg_net.c\<close>: hexadecimal decoding, the connection state, sending, and the thread
  that receives frames.

  A frame is text: eight characters of head (\<open>01010101\<close>), two of command, four of length in hexadecimal, the data as pairs
  of hexadecimal digits, and eight characters at the end.  What the socket calls return is an
  argument: the answers of \<open>recv\<close>, in order, each at most as long as was asked for.
  A byte array written outside its bounds is a fault.
\<close>

section \<open>Hexadecimal text\<close>

text \<open>\<open>char\<close> is signed: its value is between -128 and 127.\<close>

definition isdigit :: "int \<Rightarrow> bool" where "isdigit ch \<longleftrightarrow> 48 \<le> ch \<and> ch \<le> 57"
definition isupper :: "int \<Rightarrow> bool" where "isupper ch \<longleftrightarrow> 65 \<le> ch \<and> ch \<le> 90"
definition islower :: "int \<Rightarrow> bool" where "islower ch \<longleftrightarrow> 97 \<le> ch \<and> ch \<le> 122"
definition isalpha :: "int \<Rightarrow> bool" where "isalpha ch \<longleftrightarrow> isupper ch \<or> islower ch"
definition toupper :: "int \<Rightarrow> int" where "toupper ch = (if islower ch then ch - 32 else ch)"

definition c2i :: "int \<Rightarrow> int" where
  "c2i ch =
     (if isdigit ch then ch - 48
      else if ch < 65 \<or> (ch > 70 \<and> ch < 97) \<or> ch > 122 then -1
      else if isalpha ch then (if isupper ch then ch - 55 else ch - 87)
      else -1)"

definition hex_digit_value :: "byte \<Rightarrow> byte" where
  "hex_digit_value h =
     (let s = word_of_int (toupper (sint h) - 0x30) in if s > 9 then s - 7 else s)"

fun StrToHex_loop :: "nat \<Rightarrow> nat \<Rightarrow> byte list \<Rightarrow> byte list \<Rightarrow> byte list option" where
  "StrToHex_loop i 0 pbDest pbSrc = Some pbDest"
| "StrToHex_loop i (Suc n) pbDest pbSrc =
     (if length pbSrc \<le> 2 * i + 1 \<or> length pbDest \<le> i then None
      else StrToHex_loop (Suc i) n
        (pbDest[i := hex_digit_value (pbSrc ! (2 * i)) * 16 + hex_digit_value (pbSrc ! (2 * i + 1))]) pbSrc)"

definition StrToHex :: "byte list \<Rightarrow> byte list \<Rightarrow> int \<Rightarrow> byte list option" where
  "StrToHex pbDest pbSrc nLen = StrToHex_loop 0 (nat nLen) pbDest pbSrc"

section \<open>The connection\<close>

record net_sys =
  sockfd :: int
  net_state :: byte
  sent :: "byte list list"
  net_tasks :: task_sys

text \<open>What the calls of the socket library return.\<close>

record net_env =
  sock_ret :: int
  inet_pton_ret :: int
  connect_ret :: int
  send_ret :: int

definition net_initial :: "task_sys \<Rightarrow> net_sys" where
  "net_initial ts = \<lparr>sockfd = 0, net_state = 1, sent = [], net_tasks = ts\<rparr>"

definition get_netstate :: "net_sys \<Rightarrow> int" where
  "get_netstate s = uint (net_state s)"

definition reconnect :: "net_env \<Rightarrow> net_sys \<Rightarrow> int \<times> net_sys" where
  "reconnect env s =
     (let s = s\<lparr>sockfd := sock_ret env\<rparr>
      in if sock_ret env < 0 then (-1, s)
         else if inet_pton_ret env \<le> 0 then (-1, s)
         else if connect_ret env = -1 then (-1, s\<lparr>net_state := 0\<rparr>)
         else (1, s))"

definition eg_tcp_send :: "net_env \<Rightarrow> byte list \<Rightarrow> nat \<Rightarrow> net_sys \<Rightarrow> (int \<times> net_sys) option" where
  "eg_tcp_send env data len s =
     (if net_state s = 0 then (let (_, s) = reconnect env s in Some (-2, s))
      else do {
        b \<leftarrow> read_bytes data 0 len;
        let ret = (if send_ret env < 0 then 1 else 0 :: int);
        if ret \<noteq> 0 then Some (-1, s) else Some (1, s\<lparr>sent := sent s @ [b]\<rparr>) })"

definition connect_array :: "byte list" where
  "connect_array = [0x01, 0x01, 0x01, 0x01, 0x01, 0x00, 0x06, 0xAA, 0xBB, 0xCC, 0xDD, 0xEE, 0xFF, 0x03, 0x00, 0xE7, 0x04, 0x24, 0x5F]"

definition check_IDcard :: "net_env \<Rightarrow> net_sys \<Rightarrow> (int \<times> net_sys) option" where
  "check_IDcard env s = eg_tcp_send env connect_array (length connect_array) s"

text \<open>\<open>eg_net_init\<close> starts the receiver only when the connection stands.  A failed assertion never returns.\<close>

definition net_thread_entry_fn :: nat where "net_thread_entry_fn = 3"

definition eg_net_init :: "net_env \<Rightarrow> thread_env \<Rightarrow> net_sys \<Rightarrow> net_sys option" where
  "eg_net_init env tenv s =
     (let s = s\<lparr>sockfd := sock_ret env\<rparr>
      in if sock_ret env < 0 then Some s
         else if inet_pton_ret env \<le> 0 then Some s
         else if connect_ret env = -1 then Some (s\<lparr>net_state := 0\<rparr>)
         else do {
           (tid, ts) \<leftarrow> osal_task_create tenv (Some ''tk_net'') net_thread_entry_fn 0 8388608 30 0 (net_tasks s);
           _ \<leftarrow> tid;
           Some (s\<lparr>net_tasks := ts\<rparr>) })"

section \<open>Receiving\<close>

definition CMD_CONNECT :: int where "CMD_CONNECT = 0x01"
definition CMD_POLL :: int where "CMD_POLL = 0x05"
definition CMD_ACL_DL :: int where "CMD_ACL_DL = 0x4B"

text \<open>What handling a command prints.\<close>

datatype net_action = Connected | Connect_failed | To_usb int | No_action

definition eg_tcp_main_proc :: "int \<Rightarrow> byte list \<Rightarrow> int \<Rightarrow> net_action option" where
  "eg_tcp_main_proc cmd data len =
     (if cmd = CMD_CONNECT then (case data of [] \<Rightarrow> None | d # _ \<Rightarrow> Some (if d = 0 then Connected else Connect_failed))
      else if cmd = CMD_POLL then Some (To_usb len)
      else if cmd = CMD_ACL_DL then Some No_action
      else Some No_action)"

datatype recv_result = Recv "byte list" | Recv_error

text \<open>\<open>recv\<close> of at most \<open>n\<close> bytes to the start of a buffer: the result and the buffer.\<close>

definition recv :: "recv_result \<Rightarrow> int \<Rightarrow> byte list \<Rightarrow> (int \<times> byte list) option" where
  "recv r n buf = (case r of
     Recv_error \<Rightarrow> Some (-1, buf)
   | Recv bs \<Rightarrow> (let b = take (nat n) bs in map_option (\<lambda>buf. (int (length b), buf)) (write_bytes buf 0 b)))"

definition MSG_HEAD_str :: "byte list" where
  "MSG_HEAD_str = [48, 49, 48, 49, 48, 49, 48, 49]"

definition GETBYTE_SIZE :: nat where "GETBYTE_SIZE = 2048"

text \<open>The command and the length in a complete head.  A character that is no digit contributes 255, or -1 at the last place.\<close>

definition head_cmd :: "byte list \<Rightarrow> int" where
  "head_cmd g = sint (g ! 9 - 48)"

definition head_len :: "byte list \<Rightarrow> int" where
  "head_len g =
     or (push_bit 12 (and 0xff (c2i (sint (g ! 10))))) (or (push_bit 8 (and 0xff (c2i (sint (g ! 11)))))
       (or (push_bit 4 (and 0xff (c2i (sint (g ! 12))))) (c2i (sint (g ! 13)))))"

datatype net_event = Head_error | Head_bad | Data_error | Frame int "byte list" int net_action

text \<open>\<open>net_thread_entry\<close> on a list of answers: the events, and the array with the decoded data when the thread waits again.\<close>

fun net_loop :: "recv_result list \<Rightarrow> byte list \<Rightarrow> (net_event list \<times> byte list) option" where
  "net_loop [] array_data = Some ([], array_data)"
| "net_loop (h # rs) array_data = do {
     (ret, g) \<leftarrow> recv h 14 (replicate GETBYTE_SIZE 0);
     if ret = -1 then do {
       (es, a) \<leftarrow> net_loop rs array_data;
       Some (Head_error # es, a) }
     else if ret \<noteq> 14 \<or> take 8 g \<noteq> MSG_HEAD_str then do {
       (es, a) \<leftarrow> net_loop rs array_data;
       Some (Head_bad # es, a) }
     else (case rs of
         [] \<Rightarrow> Some ([], array_data)
       | d # rs \<Rightarrow> do {
           let cmd = head_cmd g;
           let len = head_len g;
           (ret, g) \<leftarrow> recv d (len * 2 + 8) g;
           if ret = -1 then do {
             (es, a) \<leftarrow> net_loop rs array_data;
             Some (Data_error # es, a) }
           else do {
             array_data \<leftarrow> StrToHex array_data g len;
             act \<leftarrow> eg_tcp_main_proc cmd array_data len;
             (es, a) \<leftarrow> net_loop rs array_data;
             Some (Frame cmd (take (nat len) array_data) len act # es, a) } }) }"

definition net_thread_entry :: "recv_result list \<Rightarrow> (net_event list \<times> byte list) option" where
  "net_thread_entry rs = net_loop rs (replicate 256 0)"

section \<open>The test client\<close>

text \<open>\<open>eg_tcp_client\<close> connects, then prints what it receives; it ends only by \<open>exit\<close>.\<close>

definition MAXDATASIZE :: nat where "MAXDATASIZE = 100000"

datatype client_end = Exit int | Waiting

fun client_loop :: "recv_result list \<Rightarrow> byte list \<Rightarrow> (byte list list \<times> client_end) option" where
  "client_loop [] buf = Some ([], Waiting)"
| "client_loop (r # rs) buf = do {
     (num, buf) \<leftarrow> recv r (int MAXDATASIZE) buf;
     if num = -1 then Some ([], Exit 1)
     else do {
       buf \<leftarrow> write_bytes buf (nat num) [0];
       (ps, e) \<leftarrow> client_loop rs buf;
       Some (takeWhile (\<lambda>b. b \<noteq> 0) buf # ps, e) } }"

definition eg_tcp_client :: "net_env \<Rightarrow> recv_result list \<Rightarrow> (byte list list \<times> client_end) option" where
  "eg_tcp_client env rs =
     (if sock_ret env < 0 then Some ([], Exit 1)
      else if inet_pton_ret env \<le> 0 then Some ([], Exit 0)
      else if connect_ret env = -1 then Some ([], Exit 1)
      else client_loop rs (replicate MAXDATASIZE 0))"

end
