(* ===== verification/EgNetCorrect.thy ===== *)
theory EgNetCorrect
  imports EgNet
begin

text \<open>
  Properties of the TCP client: the hexadecimal round trip, the reception of well-formed frames, the frames that overrun the
  buffers, the connection state that never recovers, and the missing place for a terminator.
\<close>

section \<open>Hexadecimal text\<close>

definition hex_char :: "nat \<Rightarrow> byte" where
  "hex_char n = word_of_nat (if n < 10 then 48 + n else 55 + n)"

definition hex_byte :: "byte \<Rightarrow> byte list" where
  "hex_byte b = [hex_char (unat b div 16), hex_char (unat b mod 16)]"

definition hex_text :: "byte list \<Rightarrow> byte list" where
  "hex_text bs = concat (map hex_byte bs)"

lemma hex_char_cases:
  assumes "n < 16"
  shows "n \<in> set [0..<16]"
  using assms by simp

lemma hex_values: "\<forall>n \<in> set [0..<16]. hex_digit_value (hex_char n) = word_of_nat n \<and> c2i (sint (hex_char n)) = int n"
  by (simp add: upt_rec hex_digit_value_def hex_char_def toupper_def islower_def c2i_def isdigit_def isalpha_def isupper_def Let_def)

lemma hex_char_value: "n < 16 \<Longrightarrow> hex_digit_value (hex_char n) = word_of_nat n" "n < 16 \<Longrightarrow> c2i (sint (hex_char n)) = int n"
  using hex_values hex_char_cases by blast+

lemma hex_byte_value: "hex_digit_value (hex_byte b ! 0) * 16 + hex_digit_value (hex_byte b ! 1) = b"
proof -
  have "unat b < 256" using unsigned_less [of b, where ?'a = nat] by simp
  then have "unat b div 16 < 16" "unat b mod 16 < 16" by auto
  then have "hex_digit_value (hex_byte b ! 0) * 16 + hex_digit_value (hex_byte b ! 1) =
      word_of_nat (unat b div 16) * 16 + word_of_nat (unat b mod 16)"
    by (simp add: hex_byte_def hex_char_value)
  also have "\<dots> = word_of_nat (unat b div 16 * 16 + unat b mod 16)" by (simp only: of_nat_add of_nat_mult of_nat_numeral)
  also have "\<dots> = b" by (simp only: div_mult_mod_eq) simp
  finally show ?thesis .
qed

lemma length_hex_text [simp]: "length (hex_text bs) = 2 * length bs"
  by (induction bs) (simp_all add: hex_text_def hex_byte_def)

lemma hex_text_nth: "i < length bs \<Longrightarrow> [hex_text bs ! (2 * i), hex_text bs ! (2 * i + 1)] = hex_byte (bs ! i)"
proof (induction bs arbitrary: i)
  case (Cons b bs)
  then show ?case by (cases i) (simp_all add: hex_text_def hex_byte_def)
qed simp

lemma decode_loop:
  assumes "i + n = length bs" "length bs \<le> length dst"
  shows "StrToHex_loop i n (take i bs @ drop i dst) (hex_text bs @ rest) = Some (bs @ drop (length bs) dst)"
  using assms
proof (induction n arbitrary: i)
  case (Suc n)
  then have i: "i < length bs" by simp
  then have h: "hex_digit_value ((hex_text bs @ rest) ! (2 * i)) * 16 + hex_digit_value ((hex_text bs @ rest) ! (2 * i + 1)) = bs ! i"
    using hex_text_nth [OF i] hex_byte_value [of "bs ! i"] by (simp add: nth_append hex_byte_def)
  have "(take i bs @ drop i dst)[i := bs ! i] = take (Suc i) bs @ drop (Suc i) dst"
    using i Suc.prems(2) by (intro nth_equalityI) (auto simp: nth_append nth_list_update)
  then show ?case using Suc.IH [of "Suc i"] Suc.prems i h by simp
qed simp

lemma decode_total:
  "StrToHex dst (hex_text bs @ rest) (int (length bs)) =
    (if length bs \<le> length dst then Some (bs @ drop (length bs) dst) else None)"
proof (cases "length bs \<le> length dst")
  case True
  then show ?thesis using decode_loop [of 0 "length bs" bs dst rest] by (simp add: StrToHex_def)
next
  case False
  have over: "length d = length dst \<Longrightarrow> length dst < i + n \<Longrightarrow> i \<le> length dst \<Longrightarrow> StrToHex_loop i n d (hex_text bs @ rest) = None" for i n d
  proof (induction n arbitrary: i d)
    case (Suc n)
    then show ?case by (cases "i = length dst") auto
  qed simp
  show ?thesis using False over [of dst 0 "length bs"] by (simp add: StrToHex_def)
qed

text \<open>C27: decoding.  Decoding the hexadecimal text of any bytes, followed by anything, stores exactly these bytes at the start of an
  array that has room for them and keeps the rest of the array; an array that is too short is overrun.\<close>

theorem StrToHex_round_trip:
  "StrToHex dst (hex_text bs @ rest) (int (length bs)) =
    (if length bs \<le> length dst then Some (bs @ drop (length bs) dst) else None)"
  by (rule decode_total)

section \<open>Frames\<close>

text \<open>A command digit and the data of a frame, and its two parts on the wire.\<close>

definition frame_head :: "nat \<Rightarrow> byte list \<Rightarrow> byte list" where
  "frame_head d bs = MSG_HEAD_str @ [48, word_of_nat (48 + d)] @
     (let n = length bs in [hex_char (n div 4096), hex_char (n div 256 mod 16), hex_char (n div 16 mod 16), hex_char (n mod 16)])"

lemma or_push: "0 \<le> b \<Longrightarrow> b < 2 ^ k \<Longrightarrow> or (push_bit k a) b = a * 2 ^ k + (b :: int)"
  using concat_bit_eq [of k b a] concat_bit_def [of k b a]
  by (simp add: take_bit_int_eq_self push_bit_eq_mult or.commute)

lemma and_255:
  assumes "k < 16"
  shows "and 255 (int k) = int k"
proof -
  have "mask 8 = (255 :: int)" by (simp add: mask_eq_exp_minus_1)
  then have "and 255 (int k) = take_bit 8 (int k)" by (simp add: take_bit_eq_mask and.commute)
  then show ?thesis using assms by (simp add: take_bit_int_eq_self)
qed

lemma four_digits:
  assumes "a < 16" "b < 16" "c < 16" "d < 16"
  shows "or (push_bit 12 (int a)) (or (push_bit 8 (int b)) (or (push_bit 4 (int c)) (int d))) = int (4096 * a + 256 * b + 16 * c + d)"
  using or_push [of "int d" 4 "int c"] or_push [of "int c * 16 + int d" 8 "int b"]
    or_push [of "int b * 256 + (int c * 16 + int d)" 12 "int a"] assms by simp

lemma head_len_value:
  assumes "length bs < 65536"
  shows "head_len (frame_head d bs @ rest) = int (length bs)"
proof -
  define a b c e where abce: "a = length bs div 4096" "b = length bs div 256 mod 16" "c = length bs div 16 mod 16" "e = length bs mod 16"
  have d: "a < 16" "b < 16" "c < 16" "e < 16" using assms by (auto simp: abce)
  have "frame_head d bs @ rest = MSG_HEAD_str @ [48, word_of_nat (48 + d), hex_char a, hex_char b, hex_char c, hex_char e] @ rest"
    by (simp add: frame_head_def Let_def abce)
  then have "head_len (frame_head d bs @ rest) =
      or (push_bit 12 (and 255 (int a))) (or (push_bit 8 (and 255 (int b))) (or (push_bit 4 (and 255 (int c))) (int e)))"
    by (simp add: head_len_def MSG_HEAD_str_def hex_char_value d)
  also have "\<dots> = int (4096 * a + 256 * b + 16 * c + e)" by (simp only: and_255 [OF d(1)] and_255 [OF d(2)] and_255 [OF d(3)] four_digits [OF d])
  also have "4096 * a + 256 * b + 16 * c + e = length bs"
  proof -
    have "length bs div 16 div 16 = length bs div 256" "length bs div 256 div 16 = length bs div 4096"
      by (simp_all add: div_mult2_eq [symmetric])
    then show ?thesis unfolding abce
      using div_mult_mod_eq [of "length bs" 16] div_mult_mod_eq [of "length bs div 16" 16] div_mult_mod_eq [of "length bs div 256" 16]
      by linarith
  qed
  finally show ?thesis .
qed


lemma length_frame_head [simp]: "length (frame_head d bs) = 14"
  by (simp add: frame_head_def MSG_HEAD_str_def Let_def)

lemma head_cmd_value: "d < 10 \<Longrightarrow> head_cmd (frame_head d bs @ rest) = int d"
proof -
  assume d: "d < 10"
  have "head_cmd (frame_head d bs @ rest) = sint (word_of_nat d :: byte)"
    by (simp add: head_cmd_def frame_head_def MSG_HEAD_str_def Let_def)
  moreover have "d \<in> set [0..<10]" using d by simp
  moreover have "\<forall>d \<in> set [0..<10]. sint (word_of_nat d :: byte) = int d" by (simp add: upt_rec)
  ultimately show ?thesis by metis
qed

text \<open>How the thread reacts to the command of a frame.\<close>

definition reaction :: "nat \<Rightarrow> byte list \<Rightarrow> byte list \<Rightarrow> net_action" where
  "reaction d bs arr = (if d = 1 then (if hd (bs @ drop (length bs) arr) = 0 then Connected else Connect_failed)
     else if d = 5 then To_usb (int (length bs)) else No_action)"

lemma main_proc_total: "arr \<noteq> [] \<Longrightarrow> length bs \<le> length arr \<Longrightarrow>
    eg_tcp_main_proc (int d) (bs @ drop (length bs) arr) (int (length bs)) = Some (reaction d bs arr)"
  if "d < 10"
  using that by (cases "bs @ drop (length bs) arr")
    (auto simp: eg_tcp_main_proc_def reaction_def CMD_CONNECT_def CMD_POLL_def CMD_ACL_DL_def)

lemma recv_fit: "length b \<le> n \<Longrightarrow> length b \<le> length buf \<Longrightarrow> recv (Recv b) (int n) buf = Some (int (length b), b @ drop (length b) buf)"
  by (simp add: recv_def write_bytes_def)

lemma frame_step:
  assumes "d < 10" "length bs \<le> 256" "length arr = 256" "length tail8 = 8"
  shows "net_loop (Recv (frame_head d bs) # Recv (hex_text bs @ tail8) # rs) arr = do {
    (es, a) \<leftarrow> net_loop rs (bs @ drop (length bs) arr);
    Some (Frame (int d) bs (int (length bs)) (reaction d bs arr) # es, a) }"
proof -
  let ?g = "frame_head d bs @ replicate 2034 0"
  have g: "recv (Recv (frame_head d bs)) 14 (replicate GETBYTE_SIZE 0) = Some (14, ?g)"
    using recv_fit [of "frame_head d bs" 14 "replicate GETBYTE_SIZE 0"] by (simp add: GETBYTE_SIZE_def)
  have h: "take 8 ?g = MSG_HEAD_str" by (simp add: frame_head_def MSG_HEAD_str_def)
  have len: "head_len ?g = int (length bs)" using assms(2) by (simp add: head_len_value)
  let ?d = "hex_text bs @ tail8"
  define g2 where "g2 = ?d @ drop (length ?d) ?g"
  have dat: "recv (Recv ?d) (int (length bs) * 2 + 8) ?g = Some (int (2 * length bs + 8), g2)"
    using recv_fit [of ?d "length ?d" ?g] assms(2,4) unfolding g2_def by (simp add: ac_simps)
  have dec: "StrToHex arr g2 (int (length bs)) = Some (bs @ drop (length bs) arr)"
    using decode_loop [of 0 "length bs" bs arr "tail8 @ drop (length ?d) ?g"] assms(2,3) unfolding g2_def by (simp add: StrToHex_def)
  have act: "eg_tcp_main_proc (int d) (bs @ drop (length bs) arr) (int (length bs)) = Some (reaction d bs arr)"
    using assms(2,3) by (intro main_proc_total [OF assms(1)]) auto
  show ?thesis using g h dat by (simp add: len head_cmd_value [OF assms(1)] dec act Let_def)
qed


text \<open>A sequence of frames as the socket delivers it, head and rest apart, and what the thread makes of it.\<close>

definition wire :: "(nat \<times> byte list) list \<Rightarrow> byte list \<Rightarrow> recv_result list" where
  "wire fs tail8 = concat (map (\<lambda>(d, bs). [Recv (frame_head d bs), Recv (hex_text bs @ tail8)]) fs)"

fun handled :: "(nat \<times> byte list) list \<Rightarrow> byte list \<Rightarrow> net_event list" where
  "handled [] arr = []"
| "handled ((d, bs) # fs) arr = Frame (int d) bs (int (length bs)) (reaction d bs arr) # handled fs (bs @ drop (length bs) arr)"

lemma wire_handled:
  assumes "\<forall>(d, bs) \<in> set fs. d < 10 \<and> length bs \<le> 256" "length arr = 256" "length tail8 = 8"
  shows "\<exists>arr'. net_loop (wire fs tail8) arr = Some (handled fs arr, arr')"
  using assms
proof (induction fs arbitrary: arr)
  case (Cons f fs)
  obtain d bs where f: "f = (d, bs)" by force
  have ok: "d < 10" "length bs \<le> 256" using Cons.prems(1) f by auto
  have "length (bs @ drop (length bs) arr) = 256" using ok Cons.prems(2) by simp
  then obtain arr' where "net_loop (wire fs tail8) (bs @ drop (length bs) arr) = Some (handled fs (bs @ drop (length bs) arr), arr')"
    using Cons.IH [of "bs @ drop (length bs) arr"] Cons.prems(1,3) by auto
  with frame_step [OF ok Cons.prems(2,3), of "wire fs tail8"] show ?case by (simp add: f wire_def)
qed (simp add: wire_def)



text \<open>C36: the buffers of the receiver are not guarded.  A frame that announces 257 to 1020 bytes, which still fit the text buffer, makes the decoder
  write behind its array of 256 bytes; one that announces more and delivers it overruns the text buffer itself.  A head
  that the socket delivers in two pieces is thrown away, and the thread takes the rest for the next head.  The
  command is read from one digit only, so the download of access lists (4B) is never recognised.\<close>

theorem net_thread_unguarded:
  assumes "d < 10" "256 < length bs" "length bs < 65536" "length tail8 = 8" "length part < 14"
  shows "net_thread_entry (Recv (frame_head d bs) # Recv (hex_text bs @ tail8) # rs) = None \<and>
    net_loop (Recv part # rs) arr = do { (es, a) \<leftarrow> net_loop rs arr; Some (Head_bad # es, a) } \<and>
    (\<forall>n < 16. head_cmd (MSG_HEAD_str @ [52, hex_char n] @ rest) \<noteq> CMD_ACL_DL)"
proof (intro conjI)
  let ?g = "frame_head d bs @ replicate 2034 0" and ?d = "hex_text bs @ tail8"
  have g: "recv (Recv (frame_head d bs)) 14 (replicate GETBYTE_SIZE 0) = Some (14, ?g)"
    using recv_fit [of "frame_head d bs" 14 "replicate GETBYTE_SIZE 0"] by (simp add: GETBYTE_SIZE_def)
  have h: "take 8 ?g = MSG_HEAD_str" by (simp add: frame_head_def MSG_HEAD_str_def)
  have len: "head_len ?g = int (length bs)" using assms(3) by (simp add: head_len_value)
  have "recv (Recv ?d) (int (length bs) * 2 + 8) ?g = None \<or>
    (\<exists>r. recv (Recv ?d) (int (length bs) * 2 + 8) ?g = Some (r, ?d @ drop (length ?d) ?g) \<and> r \<noteq> -1)"
    using assms(4) by (auto simp: recv_def write_bytes_def Let_def nat_add_distrib nat_mult_distrib)
  moreover have "StrToHex (replicate 256 0) (?d @ x) (int (length bs)) = None" for x
    using decode_total [of "replicate 256 0" bs "tail8 @ x"] assms(2) by simp
  ultimately show "net_thread_entry (Recv (frame_head d bs) # Recv ?d # rs) = None"
    using g h by (auto simp: net_thread_entry_def len Let_def)
  show "net_loop (Recv part # rs) arr = do { (es, a) \<leftarrow> net_loop rs arr; Some (Head_bad # es, a) }"
    using recv_fit [of part 14 "replicate GETBYTE_SIZE 0"] assms(5) by (simp add: GETBYTE_SIZE_def)
  have "\<forall>n \<in> set [0..<16]. head_cmd (MSG_HEAD_str @ [52, hex_char n] @ rest) \<noteq> CMD_ACL_DL"
    by (simp add: upt_rec head_cmd_def MSG_HEAD_str_def hex_char_def CMD_ACL_DL_def)
  then show "\<forall>n < 16. head_cmd (MSG_HEAD_str @ [52, hex_char n] @ rest) \<noteq> CMD_ACL_DL" using hex_char_cases by blast
qed


theorem net_thread_unguarded_witness:
  "net_thread_entry [Recv (frame_head 5 (replicate 257 0)), Recv (hex_text (replicate 257 0) @ replicate 8 48)] = None"
  using net_thread_unguarded [of 5 "replicate 257 0" "replicate 8 48" "[]" "[]"] by simp

section \<open>The connection\<close>

text \<open>A sequence of sends, each with what the socket library answers.\<close>

fun send_run :: "(net_env \<times> byte list) list \<Rightarrow> net_sys \<Rightarrow> (int list \<times> net_sys) option" where
  "send_run [] s = Some ([], s)"
| "send_run ((env, b) # cs) s = do {
     (r, s) \<leftarrow> eg_tcp_send env b (length b) s;
     (rs, s) \<leftarrow> send_run cs s;
     Some (r # rs, s) }"

lemma send_down:
  "net_state s = 0 \<Longrightarrow> \<exists>s'. eg_tcp_send env b (length b) s = Some (-2, s') \<and> net_state s' = 0 \<and> sent s' = sent s"
  by (auto simp: eg_tcp_send_def reconnect_def Let_def)

lemma run_down:
  "net_state s = 0 \<Longrightarrow> \<exists>s'. send_run cs s = Some (replicate (length cs) (-2), s') \<and> net_state s' = 0 \<and> sent s' = sent s"
proof (induction cs arbitrary: s)
  case (Cons c cs)
  obtain env b where c: "c = (env, b)" by force
  obtain s1 where s1: "eg_tcp_send env b (length b) s = Some (-2, s1)" "net_state s1 = 0" "sent s1 = sent s"
    using send_down [OF Cons.prems] by blast
  from Cons.IH [OF s1(2)] s1 c show ?case by auto
qed simp

text \<open>C35: once a connection attempt has failed, the controller never sends again: every later send reports -2 and hands over nothing, even when a
  reconnection succeeds, because nothing sets the connection state back.  While the state is up, a send hands the data
  to the socket and reports 1, or reports -1 when the socket refuses it.\<close>

theorem net_state_never_recovers:
  assumes "0 \<le> sock_ret env" "0 < inet_pton_ret env" "connect_ret env = -1"
  shows "\<exists>s1 s2. eg_net_init env tenv s = Some s1 \<and> send_run cs s1 = Some (replicate (length cs) (-2), s2) \<and> sent s2 = sent s \<and>
    get_netstate s2 = 0 \<and>
    (net_state u \<noteq> 0 \<longrightarrow> eg_tcp_send e b (length b) u =
      (if send_ret e < 0 then Some (-1, u) else Some (1, u\<lparr>sent := sent u @ [b]\<rparr>)))"
proof -
  let ?s = "s\<lparr>sockfd := sock_ret env, net_state := 0\<rparr>"
  have i: "eg_net_init env tenv s = Some ?s" using assms by (simp add: eg_net_init_def Let_def)
  obtain s2 where s2: "send_run cs ?s = Some (replicate (length cs) (-2), s2)" "net_state s2 = 0" "sent s2 = sent ?s"
    using run_down [of ?s cs] by auto
  have up: "net_state u \<noteq> 0 \<longrightarrow> eg_tcp_send e b (length b) u =
      (if send_ret e < 0 then Some (-1, u) else Some (1, u\<lparr>sent := sent u @ [b]\<rparr>))"
    by (simp add: eg_tcp_send_def read_bytes_def)
  show ?thesis by (intro exI [of _ ?s] exI [of _ s2]) (use i s2 up in \<open>simp add: get_netstate_def\<close>)
qed

definition up_t :: net_env where
  "up_t = \<lparr>sock_ret = 4, inet_pton_ret = 1, connect_ret = 0, send_ret = 3\<rparr>"

theorem net_state_never_recovers_witness:
  "\<exists>s1 s2. eg_net_init (up_t\<lparr>connect_ret := -1\<rparr>) thread_env_t (net_initial tasks_t) = Some s1 \<and>
     send_run [(up_t, [1, 2, 3]), (up_t, [4])] s1 = Some ([-2, -2], s2) \<and> sent s2 = []"
proof -
  have e: "0 \<le> sock_ret (up_t\<lparr>connect_ret := -1\<rparr>)" "0 < inet_pton_ret (up_t\<lparr>connect_ret := -1\<rparr>)" "connect_ret (up_t\<lparr>connect_ret := -1\<rparr>) = -1"
    by (simp_all add: up_t_def)
  obtain s1 s2 where "eg_net_init (up_t\<lparr>connect_ret := -1\<rparr>) thread_env_t (net_initial tasks_t) = Some s1"
    "send_run [(up_t, [1, 2, 3]), (up_t, [4])] s1 = Some (replicate (length [(up_t, [1, 2, 3 :: byte]), (up_t, [4])]) (-2), s2)"
    "sent s2 = sent (net_initial tasks_t)"
    using net_state_never_recovers [OF e, of thread_env_t "net_initial tasks_t" "[(up_t, [1, 2, 3]), (up_t, [4])]" "net_initial tasks_t" up_t "[]"] by blast
  moreover have "sent (net_initial tasks_t) = []" by (simp add: net_initial_def)
  ultimately show ?thesis by (intro exI [of _ s1] exI [of _ s2]) simp
qed

section \<open>The test client\<close>

lemma client_reads:
  assumes "list_all (\<lambda>b. length b < MAXDATASIZE) bs" "length buf = MAXDATASIZE"
  shows "\<exists>ps. client_loop (map Recv bs) buf = Some (ps, Waiting) \<and> ps = map (takeWhile (\<lambda>b. b \<noteq> 0)) (map (\<lambda>b. b @ [0]) bs)"
  using assms
proof (induction bs arbitrary: buf)
  case (Cons b bs)
  let ?buf = "b @ [0] @ drop (Suc (length b)) buf"
  have b: "length b < MAXDATASIZE" using Cons.prems(1) by simp
  have r: "recv (Recv b) (int MAXDATASIZE) buf = Some (int (length b), b @ drop (length b) buf)"
    using b Cons.prems(2) by (intro recv_fit) simp_all
  have w: "write_bytes (b @ drop (length b) buf) (length b) [0] = Some ?buf" using b Cons.prems(2) by (simp add: write_bytes_def)
  have "length ?buf = MAXDATASIZE" using b Cons.prems(2) by simp
  then have "client_loop (map Recv bs) ?buf = Some (map (takeWhile (\<lambda>b. b \<noteq> 0)) (map (\<lambda>b. b @ [0]) bs), Waiting)"
    using Cons.IH [of ?buf] Cons.prems(1) by simp
  moreover have "takeWhile (\<lambda>b. b \<noteq> 0) ?buf = takeWhile (\<lambda>b. b \<noteq> 0) (b @ [0])" by (simp add: takeWhile_tail)
  ultimately show ?case using r w by simp
qed simp

text \<open>The test client prints each answer up to its first zero byte, as long as no answer fills the buffer; an answer of exactly the size of
  the buffer makes it write the terminator behind the buffer.  It ends when the socket fails, with exit code 1.\<close>

lemma eg_tcp_client_terminator:
  assumes "sock_ret env = 4" "inet_pton_ret env = 1" "connect_ret env = 0" and "list_all (\<lambda>b. length b < MAXDATASIZE) bs" "length big = MAXDATASIZE"
  shows "eg_tcp_client env (map Recv bs) = Some (map (\<lambda>b. takeWhile (\<lambda>b. b \<noteq> 0) (b @ [0])) bs, Waiting) \<and>
    eg_tcp_client env (Recv big # rs) = None \<and> eg_tcp_client env (Recv_error # rs) = Some ([], Exit 1)"
proof (intro conjI)
  show "eg_tcp_client env (map Recv bs) = Some (map (\<lambda>b. takeWhile (\<lambda>b. b \<noteq> 0) (b @ [0])) bs, Waiting)"
    using client_reads [OF assms(4), of "replicate MAXDATASIZE 0"] assms(1-3) by (simp add: eg_tcp_client_def comp_def)
  have "recv (Recv big) (int MAXDATASIZE) (replicate MAXDATASIZE 0) = Some (int MAXDATASIZE, big)"
    using recv_fit [of big MAXDATASIZE "replicate MAXDATASIZE 0"] assms(5) by simp
  then show "eg_tcp_client env (Recv big # rs) = None"
    using assms(1-3,5) by (simp add: eg_tcp_client_def write_bytes_def)
  show "eg_tcp_client env (Recv_error # rs) = Some ([], Exit 1)" using assms(1-3) by (simp add: eg_tcp_client_def recv_def)
qed

lemma eg_tcp_client_terminator_witness:
  "eg_tcp_client up_t [Recv [65, 66], Recv [67, 0, 68]] = Some ([[65, 66], [67]], Waiting) \<and>
   eg_tcp_client up_t [Recv (replicate MAXDATASIZE 65)] = None"
  using eg_tcp_client_terminator [of up_t "[[65, 66], [67, 0, 68]]" "replicate MAXDATASIZE 65" "[]"]
  by (simp add: up_t_def MAXDATASIZE_def)

end
