(* ===== verification/CmsDef.thy ===== *)
theory CmsDef
  imports Prelude
begin

text \<open>
  The data of the controller, \<open>src/include/cv_cms_def.h\<close>: the state of the card readers behind the USB
  ports, the reader configuration, the controller object, and the byte-order helpers of that header.
  Pointers to tasks, queues, timers and semaphores are the handles of the portability layer.
\<close>

section \<open>The controller\<close>

datatype usb_comm_state =
    USB_COMM_STATE_IDLE | USB_COMM_STATE_INIT | USB_COMM_STATE_POLL | USB_COMM_STATE_CFG | USB_COMM_STATE_PUSH
  | USB_COMM_STATE_TRANSFER | USB_COMM_STATE_ACL | USB_COMM_STATE_INVALID | USB_COMM_STATE_LOG

record usb_ccid_322 =
  ccid322_exist :: byte
  pr11_exist :: byte
  usb_port :: "char list"
  ccid322_index :: byte
  door_cfg_index :: byte
  usb_state :: usb_comm_state
  toggle :: byte
  toggle_transmit :: byte
  task_322 :: ptr
  queue_322 :: ptr
  timer_322 :: ptr
  sem_322 :: ptr

record reader_cfg =
  reader_no :: byte
  reader_doorno :: byte
  reader_direct :: byte
  reader_area :: short

record msg_manager =
  task_msg :: ptr
  queue_msg :: ptr
  timer_msg :: ptr
  sem_msg :: ptr

record config_time_door =
  days :: byte
  time_len :: short
  data_buffer :: ptr

record config_door =
  door_no :: byte
  cfg_base_len :: byte
  cfg_base_buffer :: ptr
  cfg_time_door :: "config_time_door list"

record controller =
  usb_ccid_322s :: "usb_ccid_322 list"
  msg_manager_obj :: msg_manager
  door_cfg :: "config_door list"
  reader_cfgs :: "reader_cfg list"
  sys_ctrl :: byte
  legacy_WG :: byte

text \<open>All zero bytes, as \<open>memset\<close> leaves the object.\<close>

definition zero_ccid :: usb_ccid_322 where
  "zero_ccid = \<lparr>ccid322_exist = 0, pr11_exist = 0, usb_port = replicate 16 (CHR 0x00), ccid322_index = 0, door_cfg_index = 0,
     usb_state = USB_COMM_STATE_IDLE, toggle = 0, toggle_transmit = 0, task_322 = None, queue_322 = None,
     timer_322 = None, sem_322 = None\<rparr>"

definition zero_reader :: reader_cfg where
  "zero_reader = \<lparr>reader_no = 0, reader_doorno = 0, reader_direct = 0, reader_area = 0\<rparr>"

definition zero_door :: config_door where
  "zero_door = \<lparr>door_no = 0, cfg_base_len = 0, cfg_base_buffer = None,
     cfg_time_door = replicate 8 \<lparr>days = 0, time_len = 0, data_buffer = None\<rparr>\<rparr>"

definition zero_controller :: controller where
  "zero_controller = \<lparr>usb_ccid_322s = replicate 4 zero_ccid,
     msg_manager_obj = \<lparr>task_msg = None, queue_msg = None, timer_msg = None, sem_msg = None\<rparr>,
     door_cfg = replicate 4 zero_door, reader_cfgs = replicate 8 zero_reader, sys_ctrl = 0, legacy_WG = 0\<rparr>"

section \<open>Byte order\<close>

text \<open>
  \<open>cv_ntohs\<close>, \<open>cv_ntohl\<close> and \<open>cv_ntohf\<close> test whether the macro \<open>__LITTLE_ENDIAN\<close> exists: \<open>le_macro\<close>.
  Without it the two byte pointers are used uninitialised.  With it the bytes are copied in
  reverse, on a machine of either order.  The float is its bit pattern.
\<close>

definition cv_ntohs :: "bool \<Rightarrow> byte_order \<Rightarrow> 16 word \<Rightarrow> 16 word option" where
  "cv_ntohs le_macro e s16 = (if \<not> le_macro then None else Some (of_native16 e (rev (native16 e s16))))"

definition cv_ntohl :: "bool \<Rightarrow> byte_order \<Rightarrow> 32 word \<Rightarrow> 32 word option" where
  "cv_ntohl le_macro e l32 = (if \<not> le_macro then None else Some (of_native32 e (rev (native32 e l32))))"

definition cv_ntohf :: "bool \<Rightarrow> byte_order \<Rightarrow> 32 word \<Rightarrow> 32 word option" where
  "cv_ntohf le_macro e f32 = (if \<not> le_macro then None else Some (of_native32 e (rev (native32 e f32))))"

text \<open>The byte-order helpers of the controller headers reverse the bytes whatever the machine.  On a little-endian
  machine that is what \<open>ntohs\<close> and \<open>ntohl\<close> do; on the big-endian target it is not: applied to what \<open>htons\<close> or \<open>htonl\<close>
  produced, they give back the bytes in reverse.  If the C library did not define the macro they
  test, they would write through wild pointers.\<close>

lemma cv_ntoh_spec:
  "cv_ntohs True Little_Endian w = Some (ntohs Little_Endian w) \<and> cv_ntohl True Little_Endian v = Some (ntohl Little_Endian v) \<and>
   cv_ntohf True Little_Endian v = Some (ntohl Little_Endian v) \<and>
   cv_ntohs True Big_Endian (htons Big_Endian w) = Some (of_be16 (rev (be16 w))) \<and>
   cv_ntohl True Big_Endian (htonl Big_Endian v) = Some (of_be32 (rev (be32 v))) \<and>
   cv_ntohs True Big_Endian (htons Big_Endian 1) = Some 256 \<and> cv_ntohs False e w = None \<and> cv_ntohl False e v = None"
  by (simp add: cv_ntohs_def cv_ntohl_def cv_ntohf_def of_native16_def native16_def of_native32_def native32_def htons_def htonl_def
      be16_def)

end
