(* ===== verification/CFormat.thy ===== *)
theory CFormat
  imports Prelude
begin

text \<open>
  The conversions of \<open>printf\<close> and \<open>sprintf\<close> that the program uses: decimal and hexadecimal numbers with leading zeros.
\<close>

fun digits :: "nat \<Rightarrow> string" where
  "digits n = (if n < 10 then [char_of (48 + n)] else digits (n div 10) @ [char_of (48 + n mod 10)])"

declare digits.simps [simp del]

definition zero_pad :: "nat \<Rightarrow> string \<Rightarrow> string" where
  "zero_pad k ds = replicate (k - length ds) (CHR ''0'') @ ds"

text \<open>\<open>%0kd\<close>.\<close>

definition format_d :: "nat \<Rightarrow> int \<Rightarrow> string" where
  "format_d k n = (if n < 0 then CHR ''-'' # zero_pad (k - 1) (digits (nat (- n))) else zero_pad k (digits (nat n)))"

definition chars :: "string \<Rightarrow> byte list" where
  "chars cs = map (\<lambda>c. word_of_nat (of_char c)) cs"

text \<open>\<open>%0kx\<close>.\<close>

definition hex_char_of :: "nat \<Rightarrow> char" where
  "hex_char_of d = char_of (if d < 10 then 48 + d else 87 + d)"

fun hex_digits :: "nat \<Rightarrow> string" where
  "hex_digits n = (if n < 16 then [hex_char_of n] else hex_digits (n div 16) @ [hex_char_of (n mod 16)])"

declare hex_digits.simps [simp del]

definition format_x :: "nat \<Rightarrow> nat \<Rightarrow> string" where
  "format_x k n = zero_pad k (hex_digits n)"

lemma digits_lt10: "n < 10 \<Longrightarrow> digits n = [char_of (48 + n)]"
  by (subst digits.simps) simp

lemma length_digits: "n < 10 ^ Suc k \<Longrightarrow> length (digits n) \<le> Suc k"
proof (induction k arbitrary: n)
  case (Suc k)
  then have "n div 10 < 10 ^ Suc k" by (simp add: less_mult_imp_div_less)
  from Suc.IH [OF this] show ?case by (subst digits.simps) simp
qed (simp add: digits_lt10)

lemma length_format: "0 \<le> n \<Longrightarrow> nat n < 10 ^ Suc k \<Longrightarrow> length (format_d (Suc k) n) = Suc k"
  using length_digits [of "nat n" k] by (simp add: format_d_def zero_pad_def)

lemma length_chars [simp]: "length (chars s) = length s"
  by (simp add: chars_def)

end
