(* ===== verification/UsbTo322.thy ===== *)
theory UsbTo322
  imports CmsDef CFormat OsThread OsalTimer
begin

text \<open>
  The card readers on the USB ports, \<open>src/app/sys/eg_usbto322.c\<close>: the table of ports, the time frame,
  the threads that talk to a reader, the timer callback with its small state machine, and the
  start-up code that finds the readers and gives each a thread and a stopped timer.

  The reader library (\<open>src/include/luareader.h\<close>) is not part of the repository.  Its functions are the fields of
  the record \<open>luareader\<close>, over an arbitrary type of states of that library; \<open>reader_contract\<close> states what
  the header documents of the lengths it returns.  A thread that loops for ever is run for a given
  number of rounds, its result being \<open>None\<close> as long as it has not ended.
\<close>

section \<open>The reader library\<close>

record 'w luareader =
  luareader_new :: "'w \<Rightarrow> nat \<times> 'w"
  luareader_connect :: "nat \<Rightarrow> string \<Rightarrow> 'w \<Rightarrow> int \<times> 'w"
  luareader_transmit :: "nat \<Rightarrow> byte list \<Rightarrow> nat \<Rightarrow> 'w \<Rightarrow> int \<times> byte list \<times> 'w"
  luareader_disconnect :: "nat \<Rightarrow> 'w \<Rightarrow> int \<times> 'w"
  luareader_pop_value :: "nat \<Rightarrow> nat \<Rightarrow> 'w \<Rightarrow> int \<times> char list \<times> 'w"
  luareader_term :: "nat \<Rightarrow> 'w \<Rightarrow> 'w"
  luareader_get_list :: "nat \<Rightarrow> nat \<Rightarrow> 'w \<Rightarrow> int \<times> char list \<times> 'w"

text \<open>An answer is not longer than the buffer, and a positive result is its length.\<close>

definition reader_contract :: "'w luareader \<Rightarrow> bool" where
  "reader_contract lr \<longleftrightarrow> (\<forall>ctx apdu n w. case luareader_transmit lr ctx apdu n w of
     (r, out, w') \<Rightarrow> length out \<le> n \<and> r \<le> int (length out))"

section \<open>Ports\<close>

definition MAX_322_NUM :: nat where "MAX_322_NUM = 4"

definition usb_port_def :: "string list" where
  "usb_port_def = [''1-1.2'', ''1-1.3'', ''1-1.4'', ''1-1.5'']"

fun alloc_loop :: "string list \<Rightarrow> int \<Rightarrow> string \<Rightarrow> int" where
  "alloc_loop [] i port_name = -1"
| "alloc_loop (p # ps) i port_name = (if p = port_name then i else alloc_loop ps (i + 1) port_name)"

definition alloc_322_index :: "string \<Rightarrow> int" where
  "alloc_322_index port_name = alloc_loop (take MAX_322_NUM usb_port_def) 0 port_name"

section \<open>The time frame\<close>

record tm =
  tm_min :: int
  tm_hour :: int
  tm_mday :: int
  tm_mon :: int
  tm_year :: int
  tm_wday :: int

text \<open>\<open>sprintf\<close> into the bytes from \<open>off\<close> on stores the terminating zero as well.\<close>

definition sprintf_at :: "byte list \<Rightarrow> nat \<Rightarrow> string \<Rightarrow> byte list option" where
  "sprintf_at buf off s = write_bytes buf off (chars s @ [0])"

definition time_head :: "byte list" where
  "time_head = [0x80, 0xA0, 0x00, 0x00, 0x18, 0x80, 0x34, 0x00, 0x00, 0x13]"

definition ascDay :: "int \<Rightarrow> short" where
  "ascDay wday =
     (if wday = 0 then 0xC8D5 else if wday = 1 then 0xD2BB else if wday = 2 then 0xB6FE else if wday = 3 then 0xC8FD
      else if wday = 4 then 0xCBC4 else if wday = 5 then 0xCEE5 else if wday = 6 then 0xC1F9 else 0x2020)"

text \<open>The text is built in an array of the given size and copied behind the head; the code has the
  size 17.\<close>

definition get_sys_time_in :: "nat \<Rightarrow> byte_order \<Rightarrow> tm \<Rightarrow> byte list \<Rightarrow> byte list option" where
  "get_sys_time_in n e t dst = do {
     let a = replicate n 0;
     a \<leftarrow> sprintf_at a 0 (format_d 4 (tm_year t + 1900) @ ''/'' @ format_d 2 (tm_mon t + 1) @ ''/'' @ format_d 2 (tm_mday t));
     a \<leftarrow> write_bytes a 10 (native16 e (ascDay (tm_wday t)));
     a \<leftarrow> sprintf_at a 12 (format_d 2 (tm_hour t) @ '':'' @ format_d 2 (tm_min t));
     dst \<leftarrow> write_bytes dst 0 time_head;
     write_bytes dst (length time_head) a }"

definition get_sys_time :: "byte_order \<Rightarrow> tm \<Rightarrow> byte list option \<Rightarrow> (int \<times> byte list option) option" where
  "get_sys_time e t time_ptr = (case time_ptr of
     None \<Rightarrow> Some (0, None)
   | Some dst \<Rightarrow> do {
       dst \<leftarrow> get_sys_time_in 17 e t dst;
       Some (0, Some dst) })"

section \<open>Printing\<close>

text \<open>\<open>print_rec\<close> and \<open>print_send\<close> print the first \<open>len\<close> bytes, which have to be inside the buffer.\<close>

definition print_rec :: "byte list \<Rightarrow> int \<Rightarrow> byte list option" where
  "print_rec rec len = read_bytes rec 0 (nat len)"

definition print_send :: "byte list \<Rightarrow> int \<Rightarrow> byte list option" where
  "print_send send len = read_bytes send 0 (nat len)"

section \<open>Reader threads\<close>

definition lu_test :: "byte list" where
  "lu_test = [0x00, 0x84, 0x00, 0x00, 0x08]"

text \<open>The end of a reader thread: disconnect, fetch the error text, give the context back.\<close>

definition reader_out :: "'w luareader \<Rightarrow> nat \<Rightarrow> 'w \<Rightarrow> int \<times> 'w" where
  "reader_out lr ctx w =
     (let (r, w) = luareader_disconnect lr ctx w;
          (r, _, w) = luareader_pop_value lr ctx 2048 w
      in (r, luareader_term lr ctx w))"

text \<open>Rounds of the loop of \<open>eg_usb12_thread_entry\<close> to \<open>eg_usb15_thread_entry\<close>: what each round prints.\<close>

fun transmit_rounds :: "'w luareader \<Rightarrow> nat \<Rightarrow> nat \<Rightarrow> byte list \<Rightarrow> 'w \<Rightarrow> (byte list list \<times> byte list \<times> 'w) option" where
  "transmit_rounds lr ctx 0 output w = Some ([], output, w)"
| "transmit_rounds lr ctx (Suc n) output w = do {
     let (r, out, w) = luareader_transmit lr ctx lu_test (length output) w;
     output \<leftarrow> write_bytes output 0 out;
     printed \<leftarrow> (if 0 < r then read_bytes output 0 (nat r) else Some []);
     (ps, output, w) \<leftarrow> transmit_rounds lr ctx n output w;
     Some (printed # ps, output, w) }"

definition eg_usb_port_thread :: "string \<Rightarrow> 'w luareader \<Rightarrow> nat \<Rightarrow> 'w \<Rightarrow> (int option \<times> byte list list \<times> 'w) option" where
  "eg_usb_port_thread port lr rounds w = do {
     let (ctx, w) = luareader_new lr w;
     let (ret, w) = luareader_connect lr ctx port w;
     if ret < 0 then (let (r, w) = reader_out lr ctx w in Some (Some r, [], w))
     else do {
       (ps, _, w) \<leftarrow> transmit_rounds lr ctx rounds (replicate 2048 0) w;
       Some (None, ps, w) } }"

definition eg_usb12_thread_entry :: "'w luareader \<Rightarrow> nat \<Rightarrow> 'w \<Rightarrow> (int option \<times> byte list list \<times> 'w) option" where
  "eg_usb12_thread_entry = eg_usb_port_thread ''1-1.2''"

definition eg_usb13_thread_entry :: "'w luareader \<Rightarrow> nat \<Rightarrow> 'w \<Rightarrow> (int option \<times> byte list list \<times> 'w) option" where
  "eg_usb13_thread_entry = eg_usb_port_thread ''1-1.3''"

definition eg_usb14_thread_entry :: "'w luareader \<Rightarrow> nat \<Rightarrow> 'w \<Rightarrow> (int option \<times> byte list list \<times> 'w) option" where
  "eg_usb14_thread_entry = eg_usb_port_thread ''1-1.4''"

definition eg_usb15_thread_entry :: "'w luareader \<Rightarrow> nat \<Rightarrow> 'w \<Rightarrow> (int option \<times> byte list list \<times> 'w) option" where
  "eg_usb15_thread_entry = eg_usb_port_thread ''1-1.5''"

text \<open>\<open>eg_usb_thread_entry\<close> connects to the port of its reader and then only sleeps: the polling loop is compiled out.\<close>

definition eg_usb_thread_entry :: "'w luareader \<Rightarrow> usb_ccid_322 \<Rightarrow> 'w \<Rightarrow> int option \<times> 'w" where
  "eg_usb_thread_entry lr p w =
     (let (ctx, w) = luareader_new lr w;
          (ret, w) = luareader_connect lr ctx (c_str (usb_port p)) w
      in if ret < 0 then (case reader_out lr ctx w of (r, w) \<Rightarrow> (Some r, w)) else (None, w))"

section \<open>The timer callback\<close>

definition timer_usb_callback :: "usb_ccid_322 \<Rightarrow> usb_ccid_322" where
  "timer_usb_callback p =
     (let p = (if usb_state p = USB_COMM_STATE_IDLE then
                 (if 10 \<le> toggle p then p\<lparr>toggle := 0, usb_state := USB_COMM_STATE_PUSH\<rparr>
                  else p\<lparr>toggle := toggle p + 1, usb_state := USB_COMM_STATE_POLL\<rparr>)
               else p)
      in if usb_state p = USB_COMM_STATE_TRANSFER then
           (if 8 \<le> toggle_transmit p then p\<lparr>toggle_transmit := 0\<rparr>
            else p\<lparr>toggle_transmit := toggle_transmit p + 1\<rparr>)
         else p)"

section \<open>Start-up\<close>

text \<open>The list of readers is cut at its zero bytes into at most four rows of 32 bytes.\<close>

function split_devices :: "char list \<Rightarrow> int \<Rightarrow> nat \<Rightarrow> nat \<Rightarrow> char list list \<Rightarrow> char list list option" where
  "split_devices output ret i j device_str =
     (if int i < ret - 1 then
        (if MAX_322_NUM \<le> length device_str then Some device_str
         else if length output \<le> i then None
         else if output ! i = NUL \<and> length device_str \<le> MAX_322_NUM then
           (if 32 < i - j + 1 then None
            else split_devices output ret (i + 1) (i + 1)
                   (device_str @ [take (i - j + 1) (drop j output) @ replicate (32 - (i - j + 1)) NUL]))
         else split_devices output ret (i + 1) j device_str)
      else Some device_str)"
  by pat_completeness auto

termination
  by (relation "measure (\<lambda>(output, ret, i, j, device_str). nat (ret - 1) - i)") auto

declare split_devices.simps [simp del]

definition EUSB_SEND_PERIOD :: int where "EUSB_SEND_PERIOD = 500"
definition RT_SYS_THREAD_STACK_SIZE :: int where "RT_SYS_THREAD_STACK_SIZE = 8388608"
definition RT_SYS_THREAD_PRIORITY :: int where "RT_SYS_THREAD_PRIORITY = 30"
definition TIMER_PRIO_NORMAL :: int where "TIMER_PRIO_NORMAL = 30"

text \<open>The addresses of the functions that are handed to threads and timers.\<close>

definition eg_usb_thread_entry_fn :: nat where "eg_usb_thread_entry_fn = 1"
definition timer_usb_callback_fn :: nat where "timer_usb_callback_fn = 2"

text \<open>The parts of the system that start-up writes to.  The argument of a reader's thread and timer is a pointer
  to its entry of the controller: the index.\<close>

record eg_sys =
  controll_eg :: controller
  task_part :: task_sys
  handle_part :: handle_mem
  timer_part :: timer_sys

definition strcpy_field :: "char list \<Rightarrow> string \<Rightarrow> char list option" where
  "strcpy_field buf s = (if length s < length buf then Some (s @ NUL # drop (length s + 1) buf) else None)"

text \<open>One round of the start-up loop.  A failed assertion never returns.\<close>

definition init_device :: "thread_env \<Rightarrow> env \<Rightarrow> char list \<Rightarrow> eg_sys \<Rightarrow> eg_sys option" where
  "init_device tenv env device s = do {
     let ret = alloc_322_index (c_str device);
     if ret < 0 then None else do {
       let k = nat ret;
       let p = usb_ccid_322s (controll_eg s) ! k;
       port \<leftarrow> strcpy_field (usb_port p) (c_str device);
       let p = p\<lparr>ccid322_index := word_of_int ret, usb_state := USB_COMM_STATE_INIT, ccid322_exist := 1, usb_port := port\<rparr>;
       (tid, tasks) \<leftarrow> osal_task_create tenv (Some (c_str device)) eg_usb_thread_entry_fn k
                         RT_SYS_THREAD_STACK_SIZE RT_SYS_THREAD_PRIORITY 0 (task_part s);
       _ \<leftarrow> tid;
       (tmr, _, hm, ts) \<leftarrow> osal_timer_create env (Some timer_usb_callback_fn) k EUSB_SEND_PERIOD
                            (or TIMER_INTERVAL TIMER_STOPPED) TIMER_PRIO_NORMAL (handle_part s) (timer_part s);
       _ \<leftarrow> tmr;
       let p = p\<lparr>timer_322 := tmr\<rparr>;
       let c = (controll_eg s)\<lparr>usb_ccid_322s := (usb_ccid_322s (controll_eg s))[k := p]\<rparr>;
       Some \<lparr>controll_eg = c, task_part = tasks, handle_part = hm, timer_part = ts\<rparr> } }"

fun init_devices :: "(nat \<Rightarrow> thread_env) \<Rightarrow> (nat \<Rightarrow> env) \<Rightarrow> nat \<Rightarrow> char list list \<Rightarrow> eg_sys \<Rightarrow> eg_sys option" where
  "init_devices tenv env i [] s = Some s"
| "init_devices tenv env i (d # ds) s = do {
     s \<leftarrow> init_device (tenv i) (env i) d s;
     init_devices tenv env (Suc i) ds s }"

definition eg_usbto322_init :: "'w luareader \<Rightarrow> (nat \<Rightarrow> thread_env) \<Rightarrow> (nat \<Rightarrow> env) \<Rightarrow> 'w \<Rightarrow> eg_sys \<Rightarrow> (eg_sys \<times> 'w) option" where
  "eg_usbto322_init lr tenv env w s = do {
     let (ctx, w) = luareader_new lr w;
     let (ret, out, w) = luareader_get_list lr ctx 1024 w;
     output \<leftarrow> (if length out \<le> 1024 then Some (out @ replicate (1024 - length out) NUL) else None);
     device_str \<leftarrow> split_devices output ret 0 0 [];
     s \<leftarrow> init_devices tenv env 0 (take MAX_322_NUM device_str) s;
     Some (s, w) }"

end
