(* ===== verification/Blob.thy ===== *)
theory Blob
  imports CFormat
begin

unbundle bit_operations_syntax

text \<open>
  The messages of the bus: the inline functions and macros of \<open>src/include/libubox/utils.h\<close>, \<open>blob.h\<close> and \<open>blobmsg.h\<close>, which are
  compiled into the bus client.  A block of memory with attributes in it is a list of bytes, a pointer to an attribute is an offset into it, and a
  read outside the block is a fault.  The functions of the library that these headers only declare (\<open>blob_put\<close>, \<open>blobmsg_add_field\<close>,
  \<open>blobmsg_open_nested\<close>, \<open>blob_nest_end\<close>, \<open>blob_buf_init\<close>) are arguments of the functions that call them.
\<close>

section \<open>Byte order\<close>

text \<open>\<open>__u_bswap32\<close> and \<open>__u_bswap64\<close> are built into the compiler.\<close>

definition u_bswap16 :: "16 word \<Rightarrow> 16 word" where
  "u_bswap16 val = ((drop_bit 8 val AND 0xff) OR push_bit 8 (val AND 0xff))"

definition u_bswap32 :: "32 word \<Rightarrow> 32 word" where
  "u_bswap32 x = of_be32 (rev (be32 x))"

definition u_bswap64 :: "64 word \<Rightarrow> 64 word" where
  "u_bswap64 x = of_be64 (rev (be64 x))"

definition cpu_to_be16 :: "byte_order \<Rightarrow> 16 word \<Rightarrow> 16 word" where
  "cpu_to_be16 e x = (case e of Little_Endian \<Rightarrow> u_bswap16 x | Big_Endian \<Rightarrow> x)"

definition cpu_to_be32 :: "byte_order \<Rightarrow> 32 word \<Rightarrow> 32 word" where
  "cpu_to_be32 e x = (case e of Little_Endian \<Rightarrow> u_bswap32 x | Big_Endian \<Rightarrow> x)"

definition cpu_to_be64 :: "byte_order \<Rightarrow> 64 word \<Rightarrow> 64 word" where
  "cpu_to_be64 e x = (case e of Little_Endian \<Rightarrow> u_bswap64 x | Big_Endian \<Rightarrow> x)"

definition be16_to_cpu :: "byte_order \<Rightarrow> 16 word \<Rightarrow> 16 word" where
  "be16_to_cpu e x = (case e of Little_Endian \<Rightarrow> u_bswap16 x | Big_Endian \<Rightarrow> x)"

definition be32_to_cpu :: "byte_order \<Rightarrow> 32 word \<Rightarrow> 32 word" where
  "be32_to_cpu e x = (case e of Little_Endian \<Rightarrow> u_bswap32 x | Big_Endian \<Rightarrow> x)"

text \<open>Objects of a block, as the machine stores them.\<close>

definition load8 :: "byte list \<Rightarrow> nat \<Rightarrow> byte option" where
  "load8 m p = map_option hd (read_bytes m p 1)"

definition load16 :: "byte_order \<Rightarrow> byte list \<Rightarrow> nat \<Rightarrow> 16 word option" where
  "load16 e m p = map_option (of_native16 e) (read_bytes m p 2)"

definition load32 :: "byte_order \<Rightarrow> byte list \<Rightarrow> nat \<Rightarrow> 32 word option" where
  "load32 e m p = map_option (of_native32 e) (read_bytes m p 4)"

section \<open>Bit fields\<close>

text \<open>\<open>unsigned long\<close> has 32 bits on the target; a negative number of a bit becomes a large one.\<close>

definition BITS_PER_LONG :: "32 word" where "BITS_PER_LONG = 32"

definition BITFIELD_SIZE :: "32 word \<Rightarrow> 32 word" where
  "BITFIELD_SIZE n = (n + (BITS_PER_LONG - 1)) div BITS_PER_LONG"

definition bitfield_set :: "32 word list \<Rightarrow> int \<Rightarrow> 32 word list option" where
  "bitfield_set bits b =
     (let i = unat ((word_of_int b :: 32 word) div BITS_PER_LONG); j = unat ((word_of_int b :: 32 word) mod BITS_PER_LONG)
      in if i < length bits then Some (bits[i := bits ! i OR push_bit j 1]) else None)"

definition bitfield_test :: "32 word list \<Rightarrow> int \<Rightarrow> bool option" where
  "bitfield_test bits b =
     (let i = unat ((word_of_int b :: 32 word) div BITS_PER_LONG); j = unat ((word_of_int b :: 32 word) mod BITS_PER_LONG)
      in if i < length bits then Some (bits ! i AND push_bit j 1 \<noteq> 0) else None)"

section \<open>Attributes\<close>

definition BLOB_ATTR_ID_MASK :: "32 word" where "BLOB_ATTR_ID_MASK = 0x7f000000"
definition BLOB_ATTR_ID_SHIFT :: nat where "BLOB_ATTR_ID_SHIFT = 24"
definition BLOB_ATTR_LEN_MASK :: "32 word" where "BLOB_ATTR_LEN_MASK = 0x00ffffff"
definition BLOB_ATTR_ALIGN :: "32 word" where "BLOB_ATTR_ALIGN = 4"
definition BLOB_ATTR_EXTENDED :: "32 word" where "BLOB_ATTR_EXTENDED = 0x80000000"

lemmas blob_consts = BLOB_ATTR_ID_MASK_def BLOB_ATTR_ID_SHIFT_def BLOB_ATTR_LEN_MASK_def BLOB_ATTR_ALIGN_def BLOB_ATTR_EXTENDED_def

text \<open>\<open>struct blob_attr\<close>: the field \<open>id_len\<close> of four bytes, then the data.\<close>

definition id_len :: "byte_order \<Rightarrow> byte list \<Rightarrow> nat \<Rightarrow> 32 word option" where
  "id_len e m attr = load32 e m attr"

definition blob_data :: "nat \<Rightarrow> nat" where
  "blob_data attr = attr + 4"

definition blob_id :: "byte_order \<Rightarrow> byte list \<Rightarrow> nat \<Rightarrow> 32 word option" where
  "blob_id e m attr = do {
     w \<leftarrow> id_len e m attr;
     Some (drop_bit BLOB_ATTR_ID_SHIFT (be32_to_cpu e w AND BLOB_ATTR_ID_MASK)) }"

definition blob_is_extended :: "byte_order \<Rightarrow> byte list \<Rightarrow> nat \<Rightarrow> bool option" where
  "blob_is_extended e m attr = do {
     w \<leftarrow> id_len e m attr;
     Some (w AND cpu_to_be32 e BLOB_ATTR_EXTENDED \<noteq> 0) }"

definition blob_len :: "byte_order \<Rightarrow> byte list \<Rightarrow> nat \<Rightarrow> 32 word option" where
  "blob_len e m attr = do {
     w \<leftarrow> id_len e m attr;
     Some ((be32_to_cpu e w AND BLOB_ATTR_LEN_MASK) - 4) }"

definition blob_raw_len :: "byte_order \<Rightarrow> byte list \<Rightarrow> nat \<Rightarrow> 32 word option" where
  "blob_raw_len e m attr = do { n \<leftarrow> blob_len e m attr; Some (n + 4) }"

definition blob_pad_len :: "byte_order \<Rightarrow> byte list \<Rightarrow> nat \<Rightarrow> 32 word option" where
  "blob_pad_len e m attr = do {
     len \<leftarrow> blob_raw_len e m attr;
     Some ((len + BLOB_ATTR_ALIGN - 1) AND NOT (BLOB_ATTR_ALIGN - 1)) }"

definition blob_get_u8 :: "byte list \<Rightarrow> nat \<Rightarrow> byte option" where
  "blob_get_u8 m attr = load8 m (blob_data attr)"

definition blob_get_u16 :: "byte_order \<Rightarrow> byte list \<Rightarrow> nat \<Rightarrow> 16 word option" where
  "blob_get_u16 e m attr = map_option (be16_to_cpu e) (load16 e m (blob_data attr))"

definition blob_get_u32 :: "byte_order \<Rightarrow> byte list \<Rightarrow> nat \<Rightarrow> 32 word option" where
  "blob_get_u32 e m attr = map_option (be32_to_cpu e) (load32 e m (blob_data attr))"

text \<open>Two words of 32 bits, the high one first.\<close>

definition get_u64_at :: "byte_order \<Rightarrow> byte list \<Rightarrow> nat \<Rightarrow> 64 word option" where
  "get_u64_at e m p = do {
     hi \<leftarrow> load32 e m p;
     let tmp = push_bit 32 (ucast (be32_to_cpu e hi));
     lo \<leftarrow> load32 e m (p + 4);
     Some (tmp OR ucast (be32_to_cpu e lo)) }"

definition blob_get_u64 :: "byte_order \<Rightarrow> byte list \<Rightarrow> nat \<Rightarrow> 64 word option" where
  "blob_get_u64 e m attr = get_u64_at e m (blob_data attr)"

text \<open>The signed variants convert the result.\<close>

definition blob_get_int8 :: "byte list \<Rightarrow> nat \<Rightarrow> int option" where
  "blob_get_int8 m attr = map_option sint (blob_get_u8 m attr)"

definition blob_get_int16 :: "byte_order \<Rightarrow> byte list \<Rightarrow> nat \<Rightarrow> int option" where
  "blob_get_int16 e m attr = map_option sint (blob_get_u16 e m attr)"

definition blob_get_int32 :: "byte_order \<Rightarrow> byte list \<Rightarrow> nat \<Rightarrow> int option" where
  "blob_get_int32 e m attr = map_option sint (blob_get_u32 e m attr)"

definition blob_get_int64 :: "byte_order \<Rightarrow> byte list \<Rightarrow> nat \<Rightarrow> int option" where
  "blob_get_int64 e m attr = map_option sint (blob_get_u64 e m attr)"

definition blob_get_string :: "nat \<Rightarrow> nat" where
  "blob_get_string attr = blob_data attr"

definition blob_next :: "byte_order \<Rightarrow> byte list \<Rightarrow> nat \<Rightarrow> nat option" where
  "blob_next e m attr = do { n \<leftarrow> blob_pad_len e m attr; Some (attr + unat n) }"

text \<open>Adding attributes: the bytes that are handed to \<open>blob_put\<close>.\<close>

definition blob_put_string :: "('b \<Rightarrow> int \<Rightarrow> byte list \<Rightarrow> 'r) \<Rightarrow> 'b \<Rightarrow> int \<Rightarrow> byte list \<Rightarrow> 'r" where
  "blob_put_string blob_put buf i str = blob_put buf i (str @ [0])"

definition blob_put_u8 :: "('b \<Rightarrow> int \<Rightarrow> byte list \<Rightarrow> 'r) \<Rightarrow> 'b \<Rightarrow> int \<Rightarrow> byte \<Rightarrow> 'r" where
  "blob_put_u8 blob_put buf i val = blob_put buf i [val]"

definition blob_put_u16 :: "byte_order \<Rightarrow> ('b \<Rightarrow> int \<Rightarrow> byte list \<Rightarrow> 'r) \<Rightarrow> 'b \<Rightarrow> int \<Rightarrow> 16 word \<Rightarrow> 'r" where
  "blob_put_u16 e blob_put buf i val = (let val = cpu_to_be16 e val in blob_put buf i (native16 e val))"

definition blob_put_u32 :: "byte_order \<Rightarrow> ('b \<Rightarrow> int \<Rightarrow> byte list \<Rightarrow> 'r) \<Rightarrow> 'b \<Rightarrow> int \<Rightarrow> 32 word \<Rightarrow> 'r" where
  "blob_put_u32 e blob_put buf i val = (let val = cpu_to_be32 e val in blob_put buf i (native32 e val))"

definition blob_put_u64 :: "byte_order \<Rightarrow> ('b \<Rightarrow> int \<Rightarrow> byte list \<Rightarrow> 'r) \<Rightarrow> 'b \<Rightarrow> int \<Rightarrow> 64 word \<Rightarrow> 'r" where
  "blob_put_u64 e blob_put buf i val = (let val = cpu_to_be64 e val in blob_put buf i (native64 e val))"

text \<open>The iteration over the attributes of a range: the offsets that are visited.  \<open>rem\<close> is an \<open>int\<close> of the caller; the
  comparison with the unsigned length is made only when it is positive.\<close>

function blob_for_each_in :: "byte_order \<Rightarrow> byte list \<Rightarrow> nat \<Rightarrow> int \<Rightarrow> nat list option" where
  "blob_for_each_in e m pos rem =
     (if rem \<le> 0 then Some []
      else case blob_pad_len e m pos of
        None \<Rightarrow> None
      | Some n \<Rightarrow>
          if uint n \<le> rem \<and> 4 \<le> uint n
          then map_option (Cons pos) (blob_for_each_in e m (pos + unat n) (rem - uint n))
          else Some [])"
  by pat_completeness auto

termination
  by (relation "measure (\<lambda>(e, m, pos, rem). nat rem)") auto

declare blob_for_each_in.simps [simp del]

definition blob_for_each_attr :: "byte_order \<Rightarrow> byte list \<Rightarrow> nat option \<Rightarrow> nat list option" where
  "blob_for_each_attr e m attr = (case attr of
     None \<Rightarrow> Some []
   | Some a \<Rightarrow> do {
       len \<leftarrow> blob_len e m a;
       blob_for_each_in e m (blob_data a) (sint len) })"

section \<open>Named attributes\<close>

datatype blobmsg_type =
    BLOBMSG_TYPE_UNSPEC | BLOBMSG_TYPE_ARRAY | BLOBMSG_TYPE_TABLE | BLOBMSG_TYPE_STRING
  | BLOBMSG_TYPE_INT64 | BLOBMSG_TYPE_INT32 | BLOBMSG_TYPE_INT16 | BLOBMSG_TYPE_INT8

fun blobmsg_type_no :: "blobmsg_type \<Rightarrow> int" where
  "blobmsg_type_no BLOBMSG_TYPE_UNSPEC = 0"
| "blobmsg_type_no BLOBMSG_TYPE_ARRAY = 1"
| "blobmsg_type_no BLOBMSG_TYPE_TABLE = 2"
| "blobmsg_type_no BLOBMSG_TYPE_STRING = 3"
| "blobmsg_type_no BLOBMSG_TYPE_INT64 = 4"
| "blobmsg_type_no BLOBMSG_TYPE_INT32 = 5"
| "blobmsg_type_no BLOBMSG_TYPE_INT16 = 6"
| "blobmsg_type_no BLOBMSG_TYPE_INT8 = 7"

definition BLOBMSG_PADDING :: "32 word \<Rightarrow> 32 word" where
  "BLOBMSG_PADDING len = ((len + push_bit 2 1 - 1) AND NOT (push_bit 2 1 - 1))"

definition blobmsg_hdrlen :: "32 word \<Rightarrow> int" where
  "blobmsg_hdrlen namelen = sint (BLOBMSG_PADDING (2 + namelen + 1))"

text \<open>\<open>struct blobmsg_hdr\<close>: the length of the name in two bytes, then the name.\<close>

definition blobmsg_clear_name :: "nat \<Rightarrow> byte list \<Rightarrow> byte list option" where
  "blobmsg_clear_name attr m = write_bytes m (blob_data attr + 2) [0]"

definition blobmsg_name :: "nat \<Rightarrow> nat" where
  "blobmsg_name attr = blob_data attr + 2"

definition blobmsg_type_of :: "byte_order \<Rightarrow> byte list \<Rightarrow> nat \<Rightarrow> int option" where
  "blobmsg_type_of e m attr = map_option sint (blob_id e m attr)"

definition blobmsg_data :: "byte_order \<Rightarrow> byte list \<Rightarrow> nat \<Rightarrow> nat option" where
  "blobmsg_data e m attr = do {
     let data = blob_data attr;
     ext \<leftarrow> blob_is_extended e m attr;
     if ext then do {
       namelen \<leftarrow> load16 e m (blob_data attr);
       Some (data + nat (blobmsg_hdrlen (ucast (be16_to_cpu e namelen)))) }
     else Some data }"

definition blobmsg_data_len :: "byte_order \<Rightarrow> byte list \<Rightarrow> nat \<Rightarrow> int option" where
  "blobmsg_data_len e m attr = do {
     let start = blob_data attr;
     fin \<leftarrow> blobmsg_data e m attr;
     len \<leftarrow> blob_len e m attr;
     Some (sint (len - word_of_int (int fin - int start))) }"

definition blobmsg_len :: "byte_order \<Rightarrow> byte list \<Rightarrow> nat \<Rightarrow> int option" where
  "blobmsg_len e m attr = blobmsg_data_len e m attr"

type_synonym ('b, 'r) add_field = "'b \<Rightarrow> int \<Rightarrow> byte list \<Rightarrow> byte list \<Rightarrow> 'r"

definition blobmsg_add_u8 :: "('b, 'r) add_field \<Rightarrow> 'b \<Rightarrow> byte list \<Rightarrow> byte \<Rightarrow> 'r" where
  "blobmsg_add_u8 blobmsg_add_field buf name val = blobmsg_add_field buf (blobmsg_type_no BLOBMSG_TYPE_INT8) name [val]"

definition blobmsg_add_u16 :: "byte_order \<Rightarrow> ('b, 'r) add_field \<Rightarrow> 'b \<Rightarrow> byte list \<Rightarrow> 16 word \<Rightarrow> 'r" where
  "blobmsg_add_u16 e blobmsg_add_field buf name val =
     (let val = cpu_to_be16 e val in blobmsg_add_field buf (blobmsg_type_no BLOBMSG_TYPE_INT16) name (native16 e val))"

definition blobmsg_add_u32 :: "byte_order \<Rightarrow> ('b, 'r) add_field \<Rightarrow> 'b \<Rightarrow> byte list \<Rightarrow> 32 word \<Rightarrow> 'r" where
  "blobmsg_add_u32 e blobmsg_add_field buf name val =
     (let val = cpu_to_be32 e val in blobmsg_add_field buf (blobmsg_type_no BLOBMSG_TYPE_INT32) name (native32 e val))"

definition blobmsg_add_u64 :: "byte_order \<Rightarrow> ('b, 'r) add_field \<Rightarrow> 'b \<Rightarrow> byte list \<Rightarrow> 64 word \<Rightarrow> 'r" where
  "blobmsg_add_u64 e blobmsg_add_field buf name val =
     (let val = cpu_to_be64 e val in blobmsg_add_field buf (blobmsg_type_no BLOBMSG_TYPE_INT64) name (native64 e val))"

definition blobmsg_add_string :: "('b, 'r) add_field \<Rightarrow> 'b \<Rightarrow> byte list \<Rightarrow> byte list \<Rightarrow> 'r" where
  "blobmsg_add_string blobmsg_add_field buf name str =
     blobmsg_add_field buf (blobmsg_type_no BLOBMSG_TYPE_STRING) name (str @ [0])"

text \<open>A copy of an attribute; a negative length is converted to a huge unsigned one.\<close>

definition blobmsg_add_blob :: "byte_order \<Rightarrow> ('b, 'r) add_field \<Rightarrow> 'b \<Rightarrow> byte list \<Rightarrow> nat \<Rightarrow> 'r option" where
  "blobmsg_add_blob e blobmsg_add_field buf m attr = do {
     t \<leftarrow> blobmsg_type_of e m attr;
     name \<leftarrow> c_string_at m (blobmsg_name attr);
     p \<leftarrow> blobmsg_data e m attr;
     n \<leftarrow> blobmsg_data_len e m attr;
     data \<leftarrow> read_bytes m p (unat (word_of_int n :: 32 word));
     Some (blobmsg_add_field buf t name data) }"

definition blobmsg_open_array :: "('b \<Rightarrow> byte list \<Rightarrow> bool \<Rightarrow> 'r) \<Rightarrow> 'b \<Rightarrow> byte list \<Rightarrow> 'r" where
  "blobmsg_open_array blobmsg_open_nested buf name = blobmsg_open_nested buf name True"

definition blobmsg_open_table :: "('b \<Rightarrow> byte list \<Rightarrow> bool \<Rightarrow> 'r) \<Rightarrow> 'b \<Rightarrow> byte list \<Rightarrow> 'r" where
  "blobmsg_open_table blobmsg_open_nested buf name = blobmsg_open_nested buf name False"

definition blobmsg_close_array :: "('b \<Rightarrow> 'k \<Rightarrow> 'b) \<Rightarrow> 'b \<Rightarrow> 'k \<Rightarrow> 'b" where
  "blobmsg_close_array blob_nest_end buf cookie = blob_nest_end buf cookie"

definition blobmsg_close_table :: "('b \<Rightarrow> 'k \<Rightarrow> 'b) \<Rightarrow> 'b \<Rightarrow> 'k \<Rightarrow> 'b" where
  "blobmsg_close_table blob_nest_end buf cookie = blob_nest_end buf cookie"

definition blobmsg_buf_init :: "('b \<Rightarrow> int \<Rightarrow> 'r) \<Rightarrow> 'b \<Rightarrow> 'r" where
  "blobmsg_buf_init blob_buf_init buf = blob_buf_init buf (blobmsg_type_no BLOBMSG_TYPE_TABLE)"

definition blobmsg_get_u8 :: "byte_order \<Rightarrow> byte list \<Rightarrow> nat \<Rightarrow> byte option" where
  "blobmsg_get_u8 e m attr = do { p \<leftarrow> blobmsg_data e m attr; load8 m p }"

definition blobmsg_get_bool :: "byte_order \<Rightarrow> byte list \<Rightarrow> nat \<Rightarrow> bool option" where
  "blobmsg_get_bool e m attr = do { p \<leftarrow> blobmsg_data e m attr; v \<leftarrow> load8 m p; Some (v \<noteq> 0) }"

definition blobmsg_get_u16 :: "byte_order \<Rightarrow> byte list \<Rightarrow> nat \<Rightarrow> 16 word option" where
  "blobmsg_get_u16 e m attr = do { p \<leftarrow> blobmsg_data e m attr; v \<leftarrow> load16 e m p; Some (be16_to_cpu e v) }"

definition blobmsg_get_u32 :: "byte_order \<Rightarrow> byte list \<Rightarrow> nat \<Rightarrow> 32 word option" where
  "blobmsg_get_u32 e m attr = do { p \<leftarrow> blobmsg_data e m attr; v \<leftarrow> load32 e m p; Some (be32_to_cpu e v) }"

definition blobmsg_get_u64 :: "byte_order \<Rightarrow> byte list \<Rightarrow> nat \<Rightarrow> 64 word option" where
  "blobmsg_get_u64 e m attr = do { p \<leftarrow> blobmsg_data e m attr; get_u64_at e m p }"

definition blobmsg_get_string :: "byte_order \<Rightarrow> byte list \<Rightarrow> nat option \<Rightarrow> nat option option" where
  "blobmsg_get_string e m attr = (case attr of
     None \<Rightarrow> Some None
   | Some a \<Rightarrow> map_option Some (blobmsg_data e m a))"

definition blobmsg_for_each_attr :: "byte_order \<Rightarrow> byte list \<Rightarrow> nat option \<Rightarrow> nat list option" where
  "blobmsg_for_each_attr e m attr = (case attr of
     None \<Rightarrow> Some []
   | Some a \<Rightarrow> do {
       rem \<leftarrow> blobmsg_data_len e m a;
       pos \<leftarrow> blobmsg_data e m a;
       blob_for_each_in e m pos rem })"

end
