(* ===== verification/BlobWire.thy ===== *)
theory BlobWire
  imports Blob
begin

unbundle bit_operations_syntax

text \<open>
  What the readers of \<open>Blob\<close> do with well-formed messages and with arbitrary bytes.  The format: an attribute starts with a word in network order with the mark of a named attribute, its
  type and its length; a named attribute goes on with the length of its name and the name, padded to a multiple of four, and its data; attributes are padded to a multiple of four.
\<close>

section \<open>Words in network order\<close>

lemma u_bswap16_be: "u_bswap16 x = of_be16 (rev (be16 x))"
proof (rule bit_word_eqI)
  have m: "(0xff :: 16 word) = mask 8" by (simp add: mask_eq_exp_minus_1)
  fix n assume "n < LENGTH(16)"
  then show "bit (u_bswap16 x) n \<longleftrightarrow> bit (of_be16 (rev (be16 x))) n"
    unfolding u_bswap16_def m by (auto simp: be16_def bit_simps dest: bit_imp_le_length)
qed

lemma cpu_to_be_hton: "cpu_to_be16 e = htons e" "cpu_to_be32 e = htonl e" "be16_to_cpu e = ntohs e" "be32_to_cpu e = ntohl e"
  by (simp_all add: fun_eq_iff cpu_to_be16_def cpu_to_be32_def be16_to_cpu_def be32_to_cpu_def htons_def htonl_def u_bswap16_be
      u_bswap32_def split: byte_order.split)

lemma of_be64_be64 [simp]: "of_be64 (be64 v) = v"
  by (simp add: be64_def) (rule bit_word_eqI, auto simp: bit_simps)

lemma be64_of_be64: "length bs = 8 \<Longrightarrow> be64 (of_be64 bs) = bs"
proof -
  assume "length bs = 8"
  have "ucast (drop_bit 32 (push_bit 32 (ucast a) OR ucast b :: 64 word)) = a" "ucast (push_bit 32 (ucast a) OR ucast b :: 64 word) = b"
    for a b :: "32 word"
    by (rule bit_word_eqI, auto simp: bit_simps dest: bit_imp_le_length)+
  with \<open>length bs = 8\<close> show ?thesis by (simp add: be64_def del: drop_bit_or)
qed

lemma native_be:
  "native16 e (cpu_to_be16 e x) = be16 x" "native32 e (cpu_to_be32 e y) = be32 y" "native64 e (cpu_to_be64 e z) = be64 z"
  by (simp_all add: cpu_to_be_hton native64_def cpu_to_be64_def u_bswap64_def be64_of_be64 del: of_be64.simps split: byte_order.split)

lemma be_to_cpu [simp]: "be16_to_cpu e (of_native16 e (be16 x)) = x" "be32_to_cpu e (of_native32 e (be32 y)) = y"
  by (simp_all add: cpu_to_be_hton)

lemma load_be [simp]:
  "read_bytes m p 2 = Some (be16 x) \<Longrightarrow> load16 e m p = Some (of_native16 e (be16 x))"
  "read_bytes m p 4 = Some (be32 y) \<Longrightarrow> load32 e m p = Some (of_native32 e (be32 y))"
  by (simp_all add: load16_def load32_def)

section \<open>The head of an attribute\<close>

definition head_word :: "bool \<Rightarrow> nat \<Rightarrow> nat \<Rightarrow> 32 word" where
  "head_word ext t n = push_bit 31 (of_bool ext) OR (push_bit 24 (word_of_nat t) OR word_of_nat n)"

lemma blob_masks:
  "BLOB_ATTR_ID_MASK = push_bit 24 (mask 7)" "BLOB_ATTR_LEN_MASK = mask 24" "BLOB_ATTR_EXTENDED = push_bit 31 1"
  by (simp_all add: blob_consts mask_eq_exp_minus_1 push_bit_eq_mult)

lemma nat_bit_bound: "t < 2 ^ k \<Longrightarrow> bit (t :: nat) i \<Longrightarrow> i < k"
proof (rule ccontr)
  assume a: "t < 2 ^ k" "bit t i" "\<not> i < k"
  then have "t < 2 ^ i" by (meson leI less_le_trans one_le_numeral power_increasing)
  then show False using a(2) by (simp add: bit_iff_odd)
qed

lemma head_word_parts:
  assumes "t < 128" "n < 2 ^ 24"
  shows "head_word ext t n AND BLOB_ATTR_LEN_MASK = word_of_nat n"
    and "drop_bit BLOB_ATTR_ID_SHIFT (head_word ext t n AND BLOB_ATTR_ID_MASK) = word_of_nat t"
    and "bit (head_word ext t n) 31 \<longleftrightarrow> ext"
proof -
  have t: "bit t i \<Longrightarrow> i < 7" for i using nat_bit_bound [of t 7] assms(1) by simp
  have n: "bit n i \<Longrightarrow> i < 24" for i using nat_bit_bound [of n 24] assms(2) by simp
  show "head_word ext t n AND BLOB_ATTR_LEN_MASK = word_of_nat n"
    by (rule bit_word_eqI) (auto simp: head_word_def blob_masks bit_simps dest: n)
  show "drop_bit BLOB_ATTR_ID_SHIFT (head_word ext t n AND BLOB_ATTR_ID_MASK) = word_of_nat t"
    by (rule bit_word_eqI) (auto simp: head_word_def blob_masks BLOB_ATTR_ID_SHIFT_def bit_simps dest: n t)
  show "bit (head_word ext t n) 31 \<longleftrightarrow> ext"
    by (auto simp: head_word_def bit_simps dest: n t)
qed

lemma extended_raw: "of_native32 e (be32 w) AND cpu_to_be32 e BLOB_ATTR_EXTENDED \<noteq> 0 \<longleftrightarrow> bit w 31"
proof (cases e)
  case Big_Endian
  have "w AND push_bit 31 1 \<noteq> 0 \<longleftrightarrow> bit w 31" for w :: "32 word"
    by (metis and_exp_eq_0_iff_not_bit push_bit_of_1)
  then show ?thesis by (simp add: Big_Endian of_native32_def cpu_to_be32_def blob_masks)
next
  case Little_Endian
  have "u_bswap32 BLOB_ATTR_EXTENDED = 2 ^ 7" by (simp add: u_bswap32_def BLOB_ATTR_EXTENDED_def be32_def)
  moreover have "bit (of_be32 (rev (be32 w))) 7 \<longleftrightarrow> bit w 31" by (simp add: be32_def bit_simps)
  ultimately show ?thesis by (simp add: Little_Endian of_native32_def cpu_to_be32_def and_exp_eq_0_iff_not_bit [of _ 7, simplified])
qed

lemma and_not_3: "(y :: 32 word) AND NOT 3 = push_bit 2 (drop_bit 2 y)"
proof -
  have m: "(3 :: 32 word) = mask 2" by (simp add: mask_eq_exp_minus_1)
  have "2 \<le> n \<Longrightarrow> Suc (Suc (n - 2)) = n" for n by simp
  then show ?thesis unfolding m by (intro bit_word_eqI) (auto simp: bit_simps)
qed

lemma unat_pad4: "unat ((y :: 32 word) AND - 4) = unat y div 4 * 4"
proof -
  have "unat y < 4294967296" using unsigned_less [of y] by simp
  then have "unat (y div 4) * unat (4 :: 32 word) < 2 ^ LENGTH(32)" by (simp add: unat_div)
  then have "unat (y div 4 * 4) = unat (y div 4) * unat (4 :: 32 word)" by (simp only: unat_mult_lem)
  then show ?thesis by (simp add: and_not_3 [simplified] push_bit_eq_mult drop_bit_eq_div unat_div)
qed

text \<open>The accessors at an attribute whose first four bytes are known.\<close>

definition head_at :: "byte list \<Rightarrow> nat \<Rightarrow> bool \<Rightarrow> nat \<Rightarrow> nat \<Rightarrow> bool" where
  "head_at m p ext t n \<longleftrightarrow> read_bytes m p 4 = Some (be32 (head_word ext t n)) \<and> t < 128 \<and> 4 \<le> n \<and> n < 2 ^ 24"

lemma head_at_access:
  assumes "head_at m p ext t n"
  shows "blob_len e m p = Some (word_of_nat (n - 4))" "blob_id e m p = Some (word_of_nat t)" "blob_is_extended e m p = Some ext"
    "\<exists>k. blob_pad_len e m p = Some k \<and> unat k = (n + 3) div 4 * 4"
proof -
  from assms have t: "t < 128" "n < 2 ^ 24" and n: "4 \<le> n" by (simp_all add: head_at_def)
  let ?w = "head_word ext t n"
  from assms have w: "id_len e m p = Some (of_native32 e (be32 ?w))" by (simp add: head_at_def id_len_def)
  show len: "blob_len e m p = Some (word_of_nat (n - 4))"
    using n by (simp add: blob_len_def w head_word_parts [OF t])
  show "blob_id e m p = Some (word_of_nat t)" by (simp add: blob_id_def w head_word_parts [OF t] del: drop_bit_and)
  show "blob_is_extended e m p = Some ext" by (simp add: blob_is_extended_def w extended_raw head_word_parts [OF t])
  have "unat (word_of_nat n + 3 :: 32 word) = n + 3"
    using t(2) by (simp add: unat_of_nat unat_word_ariths)
  then show "\<exists>k. blob_pad_len e m p = Some k \<and> unat k = (n + 3) div 4 * 4"
    using n by (simp add: blob_pad_len_def blob_raw_len_def len BLOB_ATTR_ALIGN_def unat_pad4 add.commute)
qed

section \<open>The format of messages\<close>

type_synonym field = "nat \<times> byte list \<times> byte list"

definition pad4 :: "nat \<Rightarrow> nat" where
  "pad4 n = (n + 3) div 4 * 4"

definition hdr_len :: "byte list \<Rightarrow> nat" where
  "hdr_len name = pad4 (length name + 3)"

fun field_len :: "field \<Rightarrow> nat" where
  "field_len (t, name, data) = 4 + hdr_len name + length data"

fun field_bytes :: "field \<Rightarrow> byte list" where
  "field_bytes (t, name, data) =
     be32 (head_word True t (field_len (t, name, data))) @ be16 (word_of_nat (length name)) @ name @
     replicate (hdr_len name - 2 - length name) 0 @ data @ replicate (pad4 (field_len (t, name, data)) - field_len (t, name, data)) 0"

fun field_ok :: "field \<Rightarrow> bool" where
  "field_ok (t, name, data) \<longleftrightarrow> t < 128 \<and> length name < 65536 \<and> 0 \<notin> set name \<and> field_len (t, name, data) < 2 ^ 24"

definition message :: "nat \<Rightarrow> field list \<Rightarrow> byte list" where
  "message t fs = (let body = concat (map field_bytes fs) in be32 (head_word False t (4 + length body)) @ body)"

definition message_ok :: "nat \<Rightarrow> field list \<Rightarrow> bool" where
  "message_ok t fs \<longleftrightarrow> t < 128 \<and> list_all field_ok fs \<and> 4 + length (concat (map field_bytes fs)) < 2 ^ 24"

text \<open>What a receiver reads: every attribute of a message with its type, name and data.\<close>

definition read_field :: "byte_order \<Rightarrow> byte list \<Rightarrow> nat \<Rightarrow> field option" where
  "read_field e m p = do {
     t \<leftarrow> blobmsg_type_of e m p;
     name \<leftarrow> c_string_at m (blobmsg_name p);
     q \<leftarrow> blobmsg_data e m p;
     n \<leftarrow> blobmsg_data_len e m p;
     data \<leftarrow> read_bytes m q (nat n);
     Some (nat t, name, data) }"

definition read_message :: "byte_order \<Rightarrow> byte list \<Rightarrow> field list option" where
  "read_message e m = do {
     ps \<leftarrow> blob_for_each_attr e m (Some 0);
     those (map (read_field e m) ps) }"

lemma pad4_ge: "n \<le> pad4 n" "pad4 n < n + 4" "4 dvd pad4 n"
  unfolding pad4_def by presburger+

lemma hdr_len_ge: "length name + 3 \<le> hdr_len name" "hdr_len name < length name + 7"
  using pad4_ge [of "length name + 3"] by (simp_all add: hdr_len_def)

lemma length_field_bytes: "length (field_bytes f) = pad4 (field_len f)"
proof (cases f)
  case (fields t name data)
  then show ?thesis using pad4_ge(1) [of "field_len f"] hdr_len_ge(1) [of name] by simp
qed

lemma sint_small: "unat (w :: 32 word) < 2 ^ 31 \<Longrightarrow> sint w = int (unat w)"
proof -
  assume "unat w < 2 ^ 31"
  then have "uint w < 2 ^ 31" by (simp add: unat_eq_nat_uint nat_less_iff del: nat_uint_eq)
  moreover have "- (2 ^ 31) \<le> uint w" by (rule order_trans [OF _ uint_nonnegative]) simp
  ultimately have "signed_take_bit 31 (uint w) = uint w" by (intro signed_take_bit_int_eq_self)
  then show ?thesis by (simp add: sint_uint)
qed

lemma hdrlen_word: "n < 65536 \<Longrightarrow> blobmsg_hdrlen (word_of_nat n) = int (pad4 (n + 3))"
proof -
  assume n: "n < 65536"
  have "unat (word_of_nat n + 6 :: 32 word) = n + 6" using n by (simp add: unat_of_nat unat_word_ariths)
  then have u: "unat (BLOBMSG_PADDING (2 + word_of_nat n + 1)) = pad4 (n + 3)"
    by (simp add: BLOBMSG_PADDING_def push_bit_eq_mult unat_pad4 pad4_def add.commute)
  moreover have "pad4 (n + 3) < 2 ^ 31" using pad4_ge(2) [of "n + 3"] n by simp
  ultimately show ?thesis
    by (simp add: blobmsg_hdrlen_def sint_small)
qed

text \<open>An attribute of a message, in any surroundings.\<close>

definition field_in :: "field \<Rightarrow> byte list \<Rightarrow> nat \<Rightarrow> bool" where
  "field_in f m p \<longleftrightarrow> field_ok f \<and> (\<exists>pre post. m = pre @ field_bytes f @ post \<and> p = length pre)"

lemma read_bytes_in: "q = length pre + length a \<Longrightarrow> n = length b \<Longrightarrow> read_bytes (pre @ a @ b @ post) q n = Some b"
  by (simp add: read_bytes_def)

lemma field_head: "field_in (t, name, data) m p \<Longrightarrow> head_at m p True t (field_len (t, name, data))"
  using read_bytes_in [of _ _ "[]" 4 "be32 (head_word True t (field_len (t, name, data)))"] by (auto simp: head_at_def field_in_def)

lemma field_data:
  assumes "field_in (t, name, data) m p"
  shows "blobmsg_data e m p = Some (p + 4 + hdr_len name)"
proof -
  from assms obtain pre post where m: "m = pre @ field_bytes (t, name, data) @ post" "p = length pre" and n: "length name < 65536"
    by (auto simp: field_in_def)
  have nl: "read_bytes m (p + 4) 2 = Some (be16 (word_of_nat (length name)))"
    using read_bytes_in [of _ pre "be32 (head_word True t (field_len (t, name, data)))" 2 "be16 (word_of_nat (length name))"] by (simp add: m)
  have "ucast (word_of_nat (length name) :: 16 word) = (word_of_nat (length name) :: 32 word)"
    using n by (simp add: unsigned_of_nat take_bit_nat_eq_self)
  then show ?thesis using n nl
    by (simp add: blobmsg_data_def head_at_access [OF field_head [OF assms]] blob_data_def hdrlen_word hdr_len_def)
qed

lemma field_data_len:
  assumes "field_in (t, name, data) m p"
  shows "blobmsg_data_len e m p = Some (int (length data))"
proof -
  have "length data < 2 ^ 24" using assms by (simp add: field_in_def)
  moreover have "(word_of_nat (field_len (t, name, data) - 4) - word_of_nat (hdr_len name) :: 32 word) = word_of_nat (length data)" by simp
  ultimately show ?thesis
    by (simp add: blobmsg_data_len_def field_data [OF assms] head_at_access [OF field_head [OF assms]] blob_data_def sint_small unat_of_nat)
qed

lemma field_name:
  assumes "field_in (t, name, data) m p"
  shows "c_string_at m (blobmsg_name p) = Some name"
proof -
  let ?f = "(t, name, data)"
  from assms obtain pre post where m: "m = pre @ field_bytes ?f @ post" "p = length pre" and n: "0 \<notin> set name" by (auto simp: field_in_def)
  have "hdr_len name - 2 - length name = Suc (hdr_len name - 3 - length name)" using hdr_len_ge(1) [of name] by simp
  then have "drop (blobmsg_name p) m =
      name @ 0 # replicate (hdr_len name - 3 - length name) 0 @ data @ replicate (pad4 (field_len ?f) - field_len ?f) 0 @ post"
    by (simp add: m blobmsg_name_def blob_data_def)
  then show ?thesis using n by (rule c_string_at_eq)
qed

lemma field_payload:
  assumes "field_in (t, name, data) m p"
  shows "read_bytes m (p + 4 + hdr_len name) (length data) = Some data"
proof -
  let ?f = "(t, name, data)"
  let ?head = "be32 (head_word True t (field_len ?f)) @ be16 (word_of_nat (length name)) @ name @ replicate (hdr_len name - 2 - length name) 0"
  from assms obtain pre post where m: "m = pre @ field_bytes ?f @ post" "p = length pre" by (auto simp: field_in_def)
  have "p + 4 + hdr_len name = length pre + length ?head" using hdr_len_ge(1) [of name] by (simp add: m)
  from read_bytes_in [OF this refl] show ?thesis by (simp add: m)
qed

lemma field_read: "field_in f m p \<Longrightarrow> read_field e m p = Some f"
proof (cases f)
  case (fields t name data)
  assume "field_in f m p"
  then have f: "field_in (t, name, data) m p" by (simp add: fields)
  have "blobmsg_type_of e m p = Some (int t)"
    using f by (simp add: field_in_def blobmsg_type_of_def head_at_access [OF field_head [OF f]] sint_small unat_of_nat)
  then show ?thesis by (simp add: read_field_def field_data [OF f] field_data_len [OF f] field_name [OF f] field_payload [OF f] fields)
qed

lemma field_pad_len: "field_in f m p \<Longrightarrow> \<exists>k. blob_pad_len e m p = Some k \<and> unat k = length (field_bytes f)"
  by (cases f) (metis field_head head_at_access(4) length_field_bytes pad4_def)

section \<open>Reading a message\<close>

lemma for_each_fields:
  assumes "list_all field_ok fs" "m = pre @ concat (map field_bytes fs) @ post"
  shows "\<exists>ps. blob_for_each_in e m (length pre) (int (length (concat (map field_bytes fs)))) = Some ps \<and> list_all2 (\<lambda>p f. field_in f m p) ps fs"
  using assms
proof (induction fs arbitrary: pre)
  case Nil
  then show ?case by (simp add: blob_for_each_in.simps)
next
  case (Cons f fs)
  have f: "field_in f m (length pre)" using Cons.prems by (auto simp: field_in_def)
  obtain k where k: "blob_pad_len e m (length pre) = Some k" "unat k = length (field_bytes f)" using field_pad_len [OF f] by blast
  have u: "uint k = int (length (field_bytes f))" using k(2) by (simp flip: k(2))
  have "4 \<le> length (field_bytes f)" using pad4_ge(1) [of "field_len f"] by (cases f) (simp add: length_field_bytes)
  moreover from Cons.IH [of "pre @ field_bytes f"] Cons.prems obtain ps where
    "blob_for_each_in e m (length (pre @ field_bytes f)) (int (length (concat (map field_bytes fs)))) = Some ps"
    "list_all2 (\<lambda>p f. field_in f m p) ps fs" by auto
  ultimately show ?case using f k u by (subst blob_for_each_in.simps) simp
qed

lemma message_visits:
  assumes "message_ok t fs"
  obtains ps where "blob_for_each_attr e (message t fs) (Some 0) = Some ps" "list_all2 (\<lambda>p f. field_in f (message t fs) p) ps fs"
proof -
  let ?body = "concat (map field_bytes fs)" and ?m = "message t fs"
  have h: "head_at ?m 0 False t (4 + length ?body)"
    using assms read_bytes_in [of 0 "[]" "[]" 4 "be32 (head_word False t (4 + length ?body))" ?body]
    by (simp add: head_at_def message_def message_ok_def Let_def)
  have len: "sint (word_of_nat (length ?body) :: 32 word) = int (length ?body)"
    using assms by (simp add: sint_small unat_of_nat message_ok_def)
  have "?m = be32 (head_word False t (4 + length ?body)) @ ?body @ []" by (simp add: message_def Let_def)
  from for_each_fields [OF _ this, of e] assms obtain ps where
    "blob_for_each_in e ?m 4 (int (length ?body)) = Some ps" "list_all2 (\<lambda>p f. field_in f ?m p) ps fs" by (auto simp: message_ok_def)
  then show thesis by (intro that [of ps]) (simp_all add: blob_for_each_attr_def head_at_access [OF h] blob_data_def len)
qed

text \<open>Whatever a receiver computes at each attribute.\<close>

lemma those_fields:
  assumes "list_all2 (\<lambda>p f. field_in f m p) ps (map g xs)" "\<And>x p. x \<in> set xs \<Longrightarrow> field_in (g x) m p \<Longrightarrow> r p = Some x"
  shows "those (map r ps) = Some xs"
  using assms
proof (induction xs arbitrary: ps)
  case (Cons x xs)
  then obtain p qs where ps: "ps = p # qs" "field_in (g x) m p" "list_all2 (\<lambda>p f. field_in f m p) qs (map g xs)"
    by (auto simp: list_all2_Cons2)
  have "r p = Some x" using Cons.prems(2) [OF _ ps(2)] by simp
  with Cons.IH [OF ps(3)] Cons.prems(2) show ?case by (simp add: ps(1))
qed simp

lemma read_message_ok:
  assumes "message_ok t fs"
  shows "read_message e (message t fs) = Some fs"
proof -
  obtain ps where ps: "blob_for_each_attr e (message t fs) (Some 0) = Some ps" "list_all2 (\<lambda>p f. field_in f (message t fs) p) ps fs"
    by (rule message_visits [OF assms])
  have "those (map (read_field e (message t fs)) ps) = Some fs"
    by (rule those_fields [where g = id, OF _ field_read]) (use ps(2) in simp_all)
  with ps(1) show ?thesis by (simp add: read_message_def)
qed

text \<open>An attribute of a range lies in it with its padding.\<close>

definition attr_inside :: "byte_order \<Rightarrow> byte list \<Rightarrow> nat \<Rightarrow> nat \<Rightarrow> nat \<Rightarrow> bool" where
  "attr_inside e m lo hi p \<longleftrightarrow> lo \<le> p \<and> (\<exists>k. blob_pad_len e m p = Some k \<and> 4 \<le> unat k \<and> p + unat k \<le> hi)"

lemma pad_len_exists: "p + 4 \<le> length m \<Longrightarrow> \<exists>k. blob_pad_len e m p = Some k \<and> 4 dvd unat k"
  by (simp add: blob_pad_len_def blob_raw_len_def blob_len_def id_len_def load32_def read_bytes_def BLOB_ATTR_ALIGN_def unat_pad4)

lemma for_each_inside:
  assumes "pos + n \<le> length m" "4 dvd n \<or> pos + n + 3 \<le> length m"
  shows "\<exists>ps. blob_for_each_in e m pos (int n) = Some ps \<and> list_all (attr_inside e m pos (pos + n)) ps"
  using assms
proof (induction n arbitrary: pos rule: less_induct)
  case (less n)
  show ?case
  proof (cases "n = 0")
    case False
    with less.prems have "pos + 4 \<le> length m" by (auto dest: dvd_imp_le)
    with pad_len_exists [of pos m e] obtain k where k: "blob_pad_len e m pos = Some k" "4 dvd unat k" by auto
    have iff: "uint k \<le> int n \<longleftrightarrow> unat k \<le> n" "4 \<le> uint k \<longleftrightarrow> 4 \<le> unat k"
      using of_nat_le_iff [of "unat k" n, where 'a = int] of_nat_le_iff [of 4 "unat k", where 'a = int] by simp_all
    show ?thesis
    proof (cases "unat k \<le> n \<and> 4 \<le> unat k")
      case True
      from less.IH [of "n - unat k" "pos + unat k"] True k(2) less.prems obtain ps where
        ps: "blob_for_each_in e m (pos + unat k) (int (n - unat k)) = Some ps"
        "list_all (attr_inside e m (pos + unat k) (pos + n)) ps" by auto
      have "blob_for_each_in e m pos (int n) = Some (pos # ps)"
        using True False k(1) ps(1) by (subst blob_for_each_in.simps) (simp add: of_nat_diff iff)
      moreover have "list_all (attr_inside e m pos (pos + n)) ps" using ps(2) by (auto simp: list_all_iff attr_inside_def)
      moreover have "attr_inside e m pos (pos + n) pos" using True k(1) by (simp add: attr_inside_def)
      ultimately show ?thesis by simp
    next
      case no: False
      then have "blob_for_each_in e m pos (int n) = Some []" using False k(1) by (subst blob_for_each_in.simps) (auto simp: iff)
      then show ?thesis by simp
    qed
  qed (simp add: blob_for_each_in.simps)
qed

text \<open>C15: iterating over arbitrary bytes.  The iteration ends for every content of the range, and every attribute it visits lies completely in the range, padding included.  A range
  whose length is not a multiple of four, as a corrupt length gives it, must have three readable bytes behind it: the length of an attribute is
  read before it is known that four bytes are left.\<close>

theorem blob_iteration_safe:
  assumes "pos + n \<le> length m" "4 dvd n \<or> pos + n + 3 \<le> length m"
  shows "(\<exists>ps. blob_for_each_in e m pos (int n) = Some ps \<and> list_all (attr_inside e m pos (pos + n)) ps) \<and>
    blob_for_each_in e [x] 0 1 = None"
proof
  show "\<exists>ps. blob_for_each_in e m pos (int n) = Some ps \<and> list_all (attr_inside e m pos (pos + n)) ps" by (rule for_each_inside [OF assms])
  show "blob_for_each_in e [x] 0 1 = None"
    by (simp add: blob_for_each_in.simps blob_pad_len_def blob_raw_len_def blob_len_def id_len_def load32_def read_bytes_def)
qed

theorem blob_iteration_safe_witness:
  "\<exists>ps. blob_for_each_in Big_Endian [0x85, 0, 0, 8, 1, 2, 3, 4, 0, 0, 0, 0xff] 0 12 = Some ps \<and>
     list_all (attr_inside Big_Endian [0x85, 0, 0, 8, 1, 2, 3, 4, 0, 0, 0, 0xff] 0 12) ps"
  using blob_iteration_safe [of 0 12 "[0x85, 0, 0, 8, 1, 2, 3, 4, 0, 0, 0, 0xff]" Big_Endian 0] by simp

section \<open>Values\<close>

text \<open>The values of the inline functions, how they are added and how they are read.\<close>

datatype val = U8 byte | U16 "16 word" | U32 "32 word" | U64 "64 word" | Str "byte list"

fun add_value :: "byte_order \<Rightarrow> ('b, 'r) add_field \<Rightarrow> 'b \<Rightarrow> byte list \<Rightarrow> val \<Rightarrow> 'r" where
  "add_value e add buf name (U8 v) = blobmsg_add_u8 add buf name v"
| "add_value e add buf name (U16 v) = blobmsg_add_u16 e add buf name v"
| "add_value e add buf name (U32 v) = blobmsg_add_u32 e add buf name v"
| "add_value e add buf name (U64 v) = blobmsg_add_u64 e add buf name v"
| "add_value e add buf name (Str v) = blobmsg_add_string add buf name v"

fun add_values :: "byte_order \<Rightarrow> ('b, int \<times> 'b) add_field \<Rightarrow> 'b \<Rightarrow> (byte list \<times> val) list \<Rightarrow> 'b" where
  "add_values e add buf [] = buf"
| "add_values e add buf ((name, v) # vs) = add_values e add (snd (add_value e add buf name v)) vs"

definition get_value :: "byte_order \<Rightarrow> byte list \<Rightarrow> nat \<Rightarrow> val option" where
  "get_value e m p = do {
     t \<leftarrow> blobmsg_type_of e m p;
     if t = blobmsg_type_no BLOBMSG_TYPE_INT8 then map_option U8 (blobmsg_get_u8 e m p)
     else if t = blobmsg_type_no BLOBMSG_TYPE_INT16 then map_option U16 (blobmsg_get_u16 e m p)
     else if t = blobmsg_type_no BLOBMSG_TYPE_INT32 then map_option U32 (blobmsg_get_u32 e m p)
     else if t = blobmsg_type_no BLOBMSG_TYPE_INT64 then map_option U64 (blobmsg_get_u64 e m p)
     else if t = blobmsg_type_no BLOBMSG_TYPE_STRING then do {
       q \<leftarrow> blobmsg_get_string e m (Some p);
       map_option Str (Option.bind q (c_string_at m)) }
     else None }"

definition read_values :: "byte_order \<Rightarrow> byte list \<Rightarrow> (byte list \<times> val) list option" where
  "read_values e m = do {
     ps \<leftarrow> blob_for_each_attr e m (Some 0);
     those (map (\<lambda>p. do { name \<leftarrow> c_string_at m (blobmsg_name p); v \<leftarrow> get_value e m p; Some (name, v) }) ps) }"

text \<open>A value as an attribute.\<close>

fun val_type :: "val \<Rightarrow> nat" where
  "val_type (U8 _) = 7" | "val_type (U16 _) = 6" | "val_type (U32 _) = 5" | "val_type (U64 _) = 4" | "val_type (Str _) = 3"

fun val_bytes :: "val \<Rightarrow> byte list" where
  "val_bytes (U8 v) = [v]" | "val_bytes (U16 v) = be16 v" | "val_bytes (U32 v) = be32 v" | "val_bytes (U64 v) = be64 v"
| "val_bytes (Str v) = v @ [0]"

fun val_ok :: "val \<Rightarrow> bool" where
  "val_ok (Str v) \<longleftrightarrow> 0 \<notin> set v"
| "val_ok _ \<longleftrightarrow> True"

fun val_field :: "byte list \<times> val \<Rightarrow> field" where
  "val_field (name, v) = (val_type v, name, val_bytes v)"

lemma add_value_field: "add_value e add buf name v = add buf (int (val_type v)) name (val_bytes v)"
  by (cases v) (simp_all add: blobmsg_add_u8_def blobmsg_add_u16_def blobmsg_add_u32_def blobmsg_add_u64_def blobmsg_add_string_def native_be)

lemma read_bytes_split:
  assumes "read_bytes m q (length xs + length ys) = Some (xs @ ys)"
  shows "read_bytes m q (length xs) = Some xs" "read_bytes m (q + length xs) (length ys) = Some ys"
proof -
  have len: "q + (length xs + length ys) \<le> length m" using assms by (auto simp: read_bytes_def split: if_splits)
  have "take (length xs) (drop q m) @ take (length ys) (drop (length xs) (drop q m)) = xs @ ys"
    using assms by (auto simp: read_bytes_def take_add split: if_splits)
  then have "take (length xs) (drop q m) = xs" "take (length ys) (drop (length xs) (drop q m)) = ys"
    using len by (simp_all add: append_eq_append_conv)
  with len show "read_bytes m q (length xs) = Some xs" "read_bytes m (q + length xs) (length ys) = Some ys"
    by (simp_all add: read_bytes_def add.commute)
qed

lemma get_u64_at_be: "read_bytes m q 8 = Some (be64 z) \<Longrightarrow> get_u64_at e m q = Some z"
proof -
  let ?hi = "ucast (drop_bit 32 z) :: 32 word" and ?lo = "ucast z :: 32 word"
  assume "read_bytes m q 8 = Some (be64 z)"
  with read_bytes_split [of m q "be32 ?hi" "be32 ?lo"] have "read_bytes m q 4 = Some (be32 ?hi)" "read_bytes m (q + 4) 4 = Some (be32 ?lo)"
    by (simp_all add: be64_def)
  moreover have "push_bit 32 (ucast ?hi) OR ucast ?lo = z" using of_be64_be64 [of z] by (simp add: be64_def)
  ultimately show ?thesis by (simp add: get_u64_at_def)
qed

lemma string_at: "read_bytes m q (length v + 1) = Some (v @ [0]) \<Longrightarrow> 0 \<notin> set v \<Longrightarrow> c_string_at m q = Some v"
proof (rule c_string_at_eq)
  assume "read_bytes m q (length v + 1) = Some (v @ [0])"
  then have "take (length v + 1) (drop q m) = v @ [0]" by (auto simp: read_bytes_def split: if_splits)
  then show "drop q m = v @ 0 # drop (length v + 1) (drop q m)"
    using append_take_drop_id [of "length v + 1" "drop q m"] by simp
qed

lemma get_value_field:
  assumes "field_in (val_field (name, v)) m p" "val_ok v"
  shows "get_value e m p = Some v"
proof -
  have f: "field_in (val_type v, name, val_bytes v) m p" using assms(1) by simp
  have ty: "blobmsg_type_of e m p = Some (int (val_type v))"
    using f by (simp add: field_in_def blobmsg_type_of_def head_at_access [OF field_head [OF f]] sint_small unat_of_nat)
  note pay = field_payload [OF f]
  show ?thesis
    using pay assms(2) get_u64_at_be string_at
    by (cases v) (auto simp: get_value_def ty field_data [OF f] blobmsg_get_u8_def blobmsg_get_u16_def blobmsg_get_u32_def blobmsg_get_u64_def
        blobmsg_get_string_def load8_def)
qed

text \<open>What the library promises of its buffers, given the memory for them: after initialisation the buffer holds a message without attributes,
  and adding a field appends an attribute with the given type, name and data.  \<open>head\<close> is the message the buffer points to.\<close>

definition blob_contract :: "('b \<Rightarrow> int \<Rightarrow> int \<times> 'b) \<Rightarrow> ('b, int \<times> 'b) add_field \<Rightarrow> ('b \<Rightarrow> byte list) \<Rightarrow> bool" where
  "blob_contract buf_init add_field head \<longleftrightarrow>
     (\<forall>b i. 0 \<le> i \<and> i < 128 \<longrightarrow> head (snd (buf_init b i)) = message (nat i) []) \<and>
     (\<forall>b i fs t name data. head b = message i fs \<and> message_ok i (fs @ [(t, name, data)]) \<longrightarrow>
        head (snd (add_field b (int t) name data)) = message i (fs @ [(t, name, data)]))"

lemma message_ok_prefix: "message_ok t (fs @ gs) \<Longrightarrow> message_ok t fs"
  by (auto simp: message_ok_def)

lemma add_values_message:
  assumes "blob_contract buf_init add_field head" "head b = message i fs" "message_ok i (fs @ map val_field vs)"
  shows "head (add_values e add_field b vs) = message i (fs @ map val_field vs)"
  using assms(2,3)
proof (induction vs arbitrary: b fs)
  case (Cons nv vs)
  obtain name v where nv: "nv = (name, v)" by force
  have "message_ok i (fs @ [val_field nv])" using message_ok_prefix [of i "fs @ [val_field nv]"] Cons.prems(2) by simp
  then have "head (snd (add_value e add_field b name v)) = message i (fs @ [val_field nv])"
    using assms(1) Cons.prems(1) by (simp add: blob_contract_def add_value_field nv)
  from Cons.IH [OF this] Cons.prems(2) show ?case by (simp add: nv)
qed simp

lemma read_values_message:
  assumes "message_ok i (map val_field vs)" "list_all (\<lambda>(name, v). val_ok v) vs"
  shows "read_values e (message i (map val_field vs)) = Some vs"
proof -
  let ?m = "message i (map val_field vs)"
  obtain ps where ps: "blob_for_each_attr e ?m (Some 0) = Some ps" "list_all2 (\<lambda>p f. field_in f ?m p) ps (map val_field vs)"
    by (rule message_visits [OF assms(1)])
  have "do { name \<leftarrow> c_string_at ?m (blobmsg_name p); v \<leftarrow> get_value e ?m p; Some (name, v) } = Some x"
    if "x \<in> set vs" "field_in (val_field x) ?m p" for x p
    using that assms(2) field_name [of "val_type (snd x)" "fst x" "val_bytes (snd x)" ?m p] get_value_field [of "fst x" "snd x" ?m p e]
    by (cases x) (auto simp: list_all_iff)
  from those_fields [OF ps(2) this] ps(1) show ?thesis by (simp add: read_values_def)
qed

text \<open>C14: messages of the bus.  What a sender of either byte order adds to a message with the inline functions (named numbers of 8 to 64 bits
  and strings), a receiver of either byte order finds when it iterates over the message: the same names and values in
  the same order, as long as the message fits the 24 bits of its length.\<close>

theorem blobmsg_round_trip:
  assumes "blob_contract buf_init add_field head" and "0 \<le> i" "i < 128"
    and "message_ok (nat i) (map val_field vs)" and "list_all (\<lambda>(name, v). val_ok v) vs"
  shows "read_values e' (head (add_values e add_field (snd (buf_init b i)) vs)) = Some vs"
proof -
  have "head (snd (buf_init b i)) = message (nat i) []" using assms(1-3) by (simp add: blob_contract_def)
  from add_values_message [OF assms(1) this] assms(4) have
    "head (add_values e add_field (snd (buf_init b i)) vs) = message (nat i) (map val_field vs)" by simp
  with read_values_message [OF assms(4,5)] show ?thesis by simp
qed

text \<open>A library that keeps its contract: the buffer is the message.\<close>

definition init_t :: "byte list \<Rightarrow> int \<Rightarrow> int \<times> byte list" where
  "init_t b i = (0, message (nat i) [])"

definition add_t :: "(byte list, int \<times> byte list) add_field" where
  "add_t b t name data =
     (let i = unat (drop_bit BLOB_ATTR_ID_SHIFT (of_be32 (take 4 b) AND BLOB_ATTR_ID_MASK)); body = drop 4 b @ field_bytes (nat t, name, data)
      in (0, be32 (head_word False i (4 + length body)) @ body))"

lemma contract_t: "blob_contract init_t add_t (\<lambda>b. b)"
proof -
  have "snd (add_t (message i fs) (int t) name data) = message i (fs @ [(t, name, data)])"
    if "message_ok i (fs @ [(t, name, data)])" for i fs t name data
  proof -
    have i: "i < 128" "4 + length (concat (map field_bytes fs)) < 2 ^ 24" using message_ok_prefix [OF that] by (simp_all add: message_ok_def)
    have "unat (word_of_nat i :: 32 word) = i" using i(1) by (simp add: unat_of_nat)
    then show ?thesis by (simp add: add_t_def message_def Let_def head_word_parts [OF i] del: field_bytes.simps drop_bit_and)
  qed
  then show ?thesis by (auto simp: blob_contract_def init_t_def)
qed

theorem blobmsg_round_trip_witness:
  "read_values Little_Endian ((add_values Big_Endian add_t (snd (init_t [] 0)) [(chars ''counter'', U32 7), (chars ''x'', Str (chars ''ab''))])) =
     Some [(chars ''counter'', U32 7), (chars ''x'', Str (chars ''ab''))]"
proof (rule blobmsg_round_trip [OF contract_t])
qed (simp_all add: message_ok_def chars_def hdr_len_def pad4_def)

section \<open>Bit fields\<close>

lemma bit_place:
  assumes "0 \<le> b" "b < 2 ^ 32"
  shows "unat ((word_of_int b :: 32 word) div BITS_PER_LONG) = nat b div 32" "unat ((word_of_int b :: 32 word) mod BITS_PER_LONG) = nat b mod 32"
proof -
  have "unat (word_of_int b :: 32 word) = nat b" using assms by (simp add: unat_eq_nat_uint unsigned_of_int take_bit_int_eq_self)
  then show "unat ((word_of_int b :: 32 word) div BITS_PER_LONG) = nat b div 32" "unat ((word_of_int b :: 32 word) mod BITS_PER_LONG) = nat b mod 32"
    by (simp_all add: unat_div unat_mod BITS_PER_LONG_def)
qed

lemma same_place: "a div 32 = c div 32 \<Longrightarrow> a mod 32 = c mod 32 \<Longrightarrow> a = (c::nat)"
  by (metis div_mod_decomp)

text \<open>A bit field of the announced size has room for every bit; setting one makes its test true and changes no other.\<close>

lemma bitfield_set_test:
  assumes "0 \<le> b" "b < n" "0 \<le> c" "c < n" "n < 2 ^ 31" "length bits = unat (BITFIELD_SIZE (word_of_int n))"
  shows "\<exists>bits' v. bitfield_set bits b = Some bits' \<and> length bits' = length bits \<and> bitfield_test bits c = Some v \<and> bitfield_test bits' c = Some (v \<or> c = b)"
proof -
  have n: "unat (word_of_int n :: 32 word) = nat n" "nat n < 2 ^ 31"
    using assms(1,2,5) by (simp_all add: unat_eq_nat_uint unsigned_of_int take_bit_int_eq_self)
  then have "unat (word_of_int n + 31 :: 32 word) = nat n + 31" by (simp add: unat_word_ariths)
  then have len: "length bits = (nat n + 31) div 32" by (simp add: assms(6) BITFIELD_SIZE_def BITS_PER_LONG_def unat_div)
  have b: "b < 2 ^ 32" "c < 2 ^ 32" using assms by simp_all
  have "nat b div 32 < length bits" "nat c div 32 < length bits" using assms(1-4) len by (auto simp: less_mult_imp_div_less)
  moreover have "nat c mod 32 < 32" by simp
  moreover have "nat c div 32 = nat b div 32 \<Longrightarrow> nat c mod 32 = nat b mod 32 \<longleftrightarrow> c = b" using same_place [of "nat c" "nat b"] assms(1,3) by auto
  ultimately show ?thesis
    by (simp add: bitfield_set_def bitfield_test_def bit_place [OF assms(1) b(1)] bit_place [OF assms(3) b(2)] Let_def and_exp_eq_0_iff_not_bit bit_or_iff bit_exp_iff nth_list_update) auto
qed

end
