(* ===== verification/Eg9531.thy ===== *)
theory Eg9531
  imports UsbTo322 BlobWire
begin

text \<open>
  The link of the controller to the other processes of the board, \<open>src/app/sys/eg_9531.c\<close>: the reader of the configuration file and
  the client of the message bus.

  The bus library is not part of the repository.  Its functions are the fields of the record \<open>ubus_lib\<close>, over arbitrary types
  of message buffers and of states of that library; the inline functions of its headers are those of \<open>Blob\<close>.  \<open>uloop_next\<close> is what its event loop does up to the next thing that concerns
  the client.  Every call the client makes is recorded in \<open>calls\<close>.  The event loop is run for a given
  number of rounds, the result of the thread being \<open>None\<close> as long as the loop has not ended.
\<close>

section \<open>The configuration file\<close>

definition READER1_CFG :: nat where "READER1_CFG = 0x601"
definition READER8_CFG :: nat where "READER8_CFG = 0x608"

text \<open>A file open for reading is the bytes from its position on.\<close>

definition get_file_len :: "byte list \<Rightarrow> int \<times> byte list" where
  "get_file_len file = (int (length file), file)"

definition fread :: "nat \<Rightarrow> byte list \<Rightarrow> byte list \<times> byte list" where
  "fread n fd = (take n fd, drop n fd)"

text \<open>The object representation of \<open>reader_cfg_t\<close> has six bytes: three fields of one byte, a byte of padding and the two of the area.
  Reading five bytes into it leaves the last byte of the area as it was; a shorter read sets a prefix.\<close>

definition overlay :: "byte list \<Rightarrow> nat \<Rightarrow> byte \<Rightarrow> byte" where
  "overlay bs i old = (if i < length bs then bs ! i else old)"

definition store_reader :: "byte_order \<Rightarrow> byte list \<Rightarrow> reader_cfg \<Rightarrow> reader_cfg" where
  "store_reader e bs r =
     \<lparr>reader_no = overlay bs 0 (reader_no r), reader_doorno = overlay bs 1 (reader_doorno r),
      reader_direct = overlay bs 2 (reader_direct r),
      reader_area = of_native16 e [overlay bs 4 (native16 e (reader_area r) ! 0), overlay bs 5 (native16 e (reader_area r) ! 1)]\<rparr>"

function cfg_reader_loop :: "byte_order \<Rightarrow> nat \<Rightarrow> byte list \<Rightarrow> controller \<Rightarrow> (byte list \<times> controller) option" where
  "cfg_reader_loop e i fd c =
     (if i < READER8_CFG then
        (if length (reader_cfgs c) \<le> i then None
         else let (_, fd) = fread 2 fd; (_, fd) = fread 2 fd; (bs, fd) = fread 5 fd
              in cfg_reader_loop e (i + 1) fd (c\<lparr>reader_cfgs := (reader_cfgs c)[i := store_reader e bs (reader_cfgs c ! i)]\<rparr>))
      else Some (fd, c))"
  by pat_completeness auto

termination
  by (relation "measure (\<lambda>(e, i, fd, c). READER8_CFG - i)") auto

declare cfg_reader_loop.simps [simp del]

text \<open>\<open>cmd\<close> holds 200 bytes.  The result is the return value, the controller, and the commands given to the shell.\<close>

definition sprintf_cmd :: "string \<Rightarrow> string option" where
  "sprintf_cmd s = (if length s < 200 then Some s else None)"

definition cfg_reader_RD :: "byte_order \<Rightarrow> string \<Rightarrow> byte list option \<Rightarrow> controller \<Rightarrow> (int \<times> controller \<times> string list) option" where
  "cfg_reader_RD e filename file c = (case file of
     None \<Rightarrow> Some (0, c, [])
   | Some fd \<Rightarrow> do {
       let (file_len, fd) = get_file_len fd;
       (fd, c) \<leftarrow> cfg_reader_loop e READER1_CFG fd c;
       let (bs, fd) = fread 1 fd;
       let c = c\<lparr>sys_ctrl := overlay bs 0 (sys_ctrl c)\<rparr>;
       let (bs, fd) = fread 1 fd;
       let c = c\<lparr>legacy_WG := overlay bs 0 (legacy_WG c)\<rparr>;
       cmd1 \<leftarrow> sprintf_cmd (''mv '' @ filename @ '' /root/cfg_reader'');
       cmd2 \<leftarrow> sprintf_cmd (''rm '' @ filename);
       Some (1, c, [cmd1, cmd2]) })"

section \<open>The bus client\<close>

datatype uloop_event = Timer_expired | Subscribed bool | Loop_ended

text \<open>\<open>blob_head\<close> is the message that the field \<open>head\<close> of a buffer points to.\<close>

record ('b, 'w) ubus_lib =
  blob_buf_init :: "'b \<Rightarrow> int \<Rightarrow> int \<times> 'b"
  blobmsg_add_field :: "('b, int \<times> 'b) add_field"
  blob_head :: "'b \<Rightarrow> byte list"
  ubus_connect :: "'w \<Rightarrow> bool \<times> 'w"
  ubus_add_object :: "'w \<Rightarrow> int \<times> 32 word \<times> 'w"
  ubus_lookup_id :: "string \<Rightarrow> 'w \<Rightarrow> int \<times> 32 word \<times> 'w"
  ubus_invoke :: "32 word \<Rightarrow> string \<Rightarrow> byte list \<Rightarrow> 'w \<Rightarrow> 'w"
  ubus_notify :: "string \<Rightarrow> byte list \<Rightarrow> 'w \<Rightarrow> int \<times> 'w"
  clock_of :: "'w \<Rightarrow> int \<times> int"
  uloop_next :: "'w \<Rightarrow> uloop_event \<times> 'w"

datatype ubus_call =
    Uloop_init | Connect_failed | Uloop_fd_add int | Add_object_failed int | Lookup_failed
  | Invoke "32 word" string "byte list" int | Notify string "byte list" int | Notify_failed int | Avg_time int
  | Timeout_set int | Subscribers_active bool | Ubus_free | Uloop_done

text \<open>\<open>counter\<close> is the static variable of the callback, \<open>blob_b\<close> the buffer \<open>b\<close>.\<close>

record 'b ubus_client =
  counter :: int
  blob_b :: 'b
  calls :: "ubus_call list"

definition note_call :: "ubus_call \<Rightarrow> 'b ubus_client \<Rightarrow> 'b ubus_client" where
  "note_call x c = c\<lparr>calls := calls c @ [x]\<rparr>"

definition ULOOP_READ :: int where "ULOOP_READ = 1"
definition ULOOP_BLOCKING :: int where "ULOOP_BLOCKING = 8"

definition ubus_add_uloop :: "'b ubus_client \<Rightarrow> 'b ubus_client" where
  "ubus_add_uloop c = note_call (Uloop_fd_add (or ULOOP_BLOCKING ULOOP_READ)) c"

text \<open>A message with one number: the buffer is initialised and the number added; both results are dropped.\<close>

definition fill_blob :: "byte_order \<Rightarrow> ('b, 'w) ubus_lib \<Rightarrow> string \<Rightarrow> 32 word \<Rightarrow> 'b ubus_client \<Rightarrow> 'b ubus_client" where
  "fill_blob e lib name v c =
     (let (_, b) = blob_buf_init lib (blob_b c) 0;
          (_, b) = blobmsg_add_u32 e (blobmsg_add_field lib) b (chars name) v
      in c\<lparr>blob_b := b\<rparr>)"

definition test_client_subscribe_cb :: "bool \<Rightarrow> 'b ubus_client \<Rightarrow> 'b ubus_client" where
  "test_client_subscribe_cb has_subscribers c = note_call (Subscribers_active has_subscribers) c"

text \<open>\<open>counter++\<close> at the largest \<open>int\<close> is undefined.  The time difference is a \<open>long\<close> of 32 bits.\<close>

definition test_client_notify_cb :: "byte_order \<Rightarrow> ('b, 'w) ubus_lib \<Rightarrow> 'b ubus_client \<times> 'w \<Rightarrow> ('b ubus_client \<times> 'w) option" where
  "test_client_notify_cb e lib = (\<lambda>(c, w).
     if 2147483647 \<le> counter c then None
     else Some (
       let c = fill_blob e lib ''counter'' (word_of_int (counter c)) c;
           c = c\<lparr>counter := counter c + 1\<rparr>;
           tv1 = clock_of lib w;
           c = note_call (Notify ''ping'' (blob_head lib (blob_b c)) 1000) c;
           (err, w) = ubus_notify lib ''ping'' (blob_head lib (blob_b c)) w;
           tv2 = clock_of lib w;
           c = (if err \<noteq> 0 then note_call (Notify_failed err) c else c);
           delta = wrap32 ((fst tv2 - fst tv1) * 1000000 + (snd tv2 - snd tv1));
           c = note_call (Avg_time (delta sdiv 1000)) c
       in (note_call (Timeout_set 10000) c, w)))"

text \<open>Rounds of the event loop; \<open>True\<close> when it has returned.\<close>

fun uloop_run :: "byte_order \<Rightarrow> ('b, 'w) ubus_lib \<Rightarrow> nat \<Rightarrow> 'b ubus_client \<times> 'w \<Rightarrow> (bool \<times> 'b ubus_client \<times> 'w) option" where
  "uloop_run e lib 0 (c, w) = Some (False, c, w)"
| "uloop_run e lib (Suc n) (c, w) = (case uloop_next lib w of
     (Loop_ended, w) \<Rightarrow> Some (True, c, w)
   | (Subscribed b, w) \<Rightarrow> uloop_run e lib n (test_client_subscribe_cb b c, w)
   | (Timer_expired, w) \<Rightarrow> do {
       (c, w) \<leftarrow> test_client_notify_cb e lib (c, w);
       uloop_run e lib n (c, w) })"

definition client_main :: "byte_order \<Rightarrow> ('b, 'w) ubus_lib \<Rightarrow> nat \<Rightarrow> 'b ubus_client \<times> 'w \<Rightarrow> (bool \<times> 'b ubus_client \<times> 'w) option" where
  "client_main e lib n = (\<lambda>(c, w).
     let (ret, obj_id, w) = ubus_add_object lib w
     in if ret \<noteq> 0 then Some (True, note_call (Add_object_failed ret) c, w)
        else let (ret, i, w) = ubus_lookup_id lib ''test'' w
             in if ret \<noteq> 0 then Some (True, note_call Lookup_failed c, w)
                else do {
                  let c = fill_blob e lib ''id'' obj_id c;
                  let c = note_call (Invoke i ''watch'' (blob_head lib (blob_b c)) 3000) c;
                  let w = ubus_invoke lib i ''watch'' (blob_head lib (blob_b c)) w;
                  (c, w) \<leftarrow> test_client_notify_cb e lib (c, w);
                  uloop_run e lib n (c, w) })"

definition eg_ubus_thread_entry :: "byte_order \<Rightarrow> ('b, 'w) ubus_lib \<Rightarrow> nat \<Rightarrow> 'b ubus_client \<times> 'w \<Rightarrow> (int option \<times> 'b ubus_client \<times> 'w) option" where
  "eg_ubus_thread_entry e lib n = (\<lambda>(c, w).
     let c = note_call Uloop_init c;
         (ok, w) = ubus_connect lib w
     in if \<not> ok then Some (Some (-1), note_call Connect_failed c, w)
        else do {
          let c = ubus_add_uloop c;
          (ended, c, w) \<leftarrow> client_main e lib n (c, w);
          if ended then Some (Some 0, note_call Uloop_done (note_call Ubus_free c), w)
          else Some (None, c, w) })"

text \<open>Starting the thread.  A failed assertion never returns.\<close>

definition eg_ubus_thread_entry_fn :: nat where "eg_ubus_thread_entry_fn = 4"

definition eg_comm_init :: "thread_env \<Rightarrow> task_sys \<Rightarrow> task_sys option" where
  "eg_comm_init tenv s = do {
     (tid, s) \<leftarrow> osal_task_create tenv (Some ''tk_ubus'') eg_ubus_thread_entry_fn 0
                   RT_SYS_THREAD_STACK_SIZE RT_SYS_THREAD_PRIORITY 0 s;
     _ \<leftarrow> tid;
     Some s }"

section \<open>Properties\<close>

lemma note_call_sel [simp]:
  "calls (note_call x c) = calls c @ [x]" "counter (note_call x c) = counter c" "blob_b (note_call x c) = blob_b c"
  by (simp_all add: note_call_def)

text \<open>The messages that a sequence of calls sent, and how often it armed the timer.\<close>

fun pings :: "ubus_call list \<Rightarrow> byte list list" where
  "pings [] = []"
| "pings (Notify m b t # xs) = (if m = ''ping'' \<and> t = 1000 then b # pings xs else pings xs)"
| "pings (_ # xs) = pings xs"

definition armed :: "ubus_call list \<Rightarrow> nat" where
  "armed xs = length (filter (\<lambda>x. x = Timeout_set 10000) xs)"

lemma pings_append [simp]: "pings (xs @ ys) = pings xs @ pings ys"
  by (induction xs rule: pings.induct) auto

lemma armed_append [simp]: "armed (xs @ ys) = armed xs + armed ys"
  by (simp add: armed_def)

abbreviation lib_contract :: "('b, 'w) ubus_lib \<Rightarrow> bool" where
  "lib_contract lib \<equiv> blob_contract (blob_buf_init lib) (blobmsg_add_field lib) (blob_head lib)"

text \<open>The message with one number, and what is read from it.\<close>

definition number_msg :: "string \<Rightarrow> 32 word \<Rightarrow> byte list" where
  "number_msg name v = message 0 (map val_field [(chars name, U32 v)])"

definition sendable :: "string \<Rightarrow> bool" where
  "sendable name \<longleftrightarrow> length name < 1000 \<and> 0 \<notin> set (chars name)"

lemma number_msg_ok: "sendable name \<Longrightarrow> message_ok 0 (map val_field [(chars name, U32 v)])"
  using hdr_len_ge(2) [of "chars name"] pad4_ge(2) [of "8 + hdr_len (chars name)"]
  by (simp add: message_ok_def sendable_def) linarith

lemma number_msg_read: "sendable name \<Longrightarrow> read_values e (number_msg name v) = Some [(chars name, U32 v)]"
  unfolding number_msg_def by (intro read_values_message number_msg_ok) simp_all

lemma fill_blob_msg:
  assumes "lib_contract lib" "sendable name"
  shows "\<exists>b. fill_blob e lib name v c = c\<lparr>blob_b := b\<rparr> \<and> blob_head lib b = number_msg name v"
proof -
  let ?b = "snd (blob_buf_init lib (blob_b c) 0)"
  have "blob_head lib ?b = message 0 []" using assms(1) by (simp add: blob_contract_def)
  from add_values_message [OF assms(1) this, of "[(chars name, U32 v)]" e] number_msg_ok [OF assms(2)] have
    "blob_head lib (snd (blobmsg_add_u32 e (blobmsg_add_field lib) ?b (chars name) v)) = number_msg name v" by (simp add: number_msg_def)
  then show ?thesis by (auto simp: fill_blob_def split: prod.splits)
qed

lemma sendable_names: "sendable ''counter''" "sendable ''id''"
  by (simp_all add: sendable_def chars_def)

text \<open>The client has sent the numbers below \<open>k\<close>, in order, and armed the timer after each.\<close>

definition count_msg :: "nat \<Rightarrow> byte list" where
  "count_msg i = number_msg ''counter'' (word_of_nat i)"

definition sent_up_to :: "nat \<Rightarrow> 'b ubus_client \<Rightarrow> bool" where
  "sent_up_to k c \<longleftrightarrow> counter c = int k \<and> pings (calls c) = map count_msg [0..<k] \<and> armed (calls c) = k"

lemma notify_cb_sent:
  assumes "lib_contract lib" "sent_up_to k c" "k < 2147483647"
  shows "\<exists>c' w'. test_client_notify_cb e lib (c, w) = Some (c', w') \<and> sent_up_to (Suc k) c' \<and> (\<exists>xs. calls c' = calls c @ xs)"
proof -
  obtain b where "fill_blob e lib ''counter'' (word_of_int (counter c)) c = c\<lparr>blob_b := b\<rparr>"
    "blob_head lib b = number_msg ''counter'' (word_of_int (counter c))"
    using fill_blob_msg [OF assms(1) sendable_names(1)] by blast
  then show ?thesis using assms(2,3)
    by (auto simp: test_client_notify_cb_def sent_up_to_def count_msg_def armed_def Let_def split: prod.splits)
qed

lemma subscribe_cb_sent: "sent_up_to k c \<Longrightarrow> sent_up_to k (test_client_subscribe_cb b c)"
  by (simp add: sent_up_to_def test_client_subscribe_cb_def armed_def)

text \<open>A run of the event loop keeps what was sent before and sends once per expiry.\<close>

definition runs_on :: "('b, 'w) ubus_lib \<Rightarrow> nat \<Rightarrow> nat \<Rightarrow> 'b ubus_client \<Rightarrow> bool \<Rightarrow> 'b ubus_client \<Rightarrow> bool" where
  "runs_on lib k n c ended c' \<longleftrightarrow> (\<exists>m \<le> n. sent_up_to (k + m) c' \<and> (\<exists>xs. calls c' = calls c @ xs) \<and>
     ((\<forall>w. fst (uloop_next lib w) = Timer_expired) \<longrightarrow> \<not> ended \<and> m = n))"

lemma runs_on_expiry: "runs_on lib (Suc k) n c2 ended c' \<Longrightarrow> calls c2 = calls c @ xs \<Longrightarrow> runs_on lib k (Suc n) c ended c'"
  unfolding runs_on_def by (metis Suc_le_mono add_Suc_shift append.assoc)

lemma runs_on_other:
  "runs_on lib k n (test_client_subscribe_cb b c) ended c' \<Longrightarrow> fst (uloop_next lib w) \<noteq> Timer_expired \<Longrightarrow> runs_on lib k (Suc n) c ended c'"
  unfolding runs_on_def test_client_subscribe_cb_def note_call_sel by (metis append.assoc le_SucI)

lemma uloop_run_sent:
  assumes lib: "lib_contract lib" and "sent_up_to k c" "k + n \<le> 2147483647"
  shows "\<exists>ended c' w'. uloop_run e lib n (c, w) = Some (ended, c', w') \<and> runs_on lib k n c ended c'"
  using assms(2,3)
proof (induction n arbitrary: k c w)
  case 0
  then show ?case by (auto simp: runs_on_def)
next
  case (Suc n)
  obtain ev w1 where ev: "uloop_next lib w = (ev, w1)" by fastforce
  show ?case
  proof (cases ev)
    case Timer_expired
    obtain c2 w2 xs where c2: "test_client_notify_cb e lib (c, w1) = Some (c2, w2)" "sent_up_to (Suc k) c2" "calls c2 = calls c @ xs"
      using notify_cb_sent [OF lib Suc.prems(1), of e w1] Suc.prems(2) by auto
    with Suc.IH [OF c2(2), of w2] Suc.prems(2) show ?thesis
      using ev Timer_expired by (auto intro: runs_on_expiry)
  next
    case (Subscribed b)
    have "fst (uloop_next lib w) \<noteq> Timer_expired" using ev Subscribed by simp
    note other = runs_on_other [OF _ this]
    from Suc.IH [OF subscribe_cb_sent [OF Suc.prems(1)], of b w1] Suc.prems(2) show ?thesis
      using ev Subscribed by (auto intro: other)
  next
    case Loop_ended
    then have "\<not> (\<forall>w. fst (uloop_next lib w) = Timer_expired)" using ev by (metis fst_conv uloop_event.distinct(3))
    with Suc.prems(1) ev Loop_ended show ?thesis by (auto simp: runs_on_def intro!: exI [of _ 0])
  qed
qed

definition client0 :: "'b \<Rightarrow> 'b ubus_client" where
  "client0 b = \<lparr>counter = 0, blob_b = b, calls = []\<rparr>"

text \<open>The thread once it is connected.\<close>

abbreviation connected :: "'b \<Rightarrow> 'b ubus_client" where
  "connected b \<equiv> ubus_add_uloop (note_call Uloop_init (client0 b))"

lemma client_main_runs:
  assumes lib: "lib_contract lib" and n: "n < 2147483647"
    and w2: "ubus_add_object lib w1 = (0, i, w2)" and w3: "ubus_lookup_id lib ''test'' w2 = (0, j, w3)"
  shows "\<exists>ended c c' w'. client_main e lib n (connected b, w1) = Some (ended, c', w') \<and> runs_on lib 1 n c ended c' \<and>
    Invoke j ''watch'' (number_msg ''id'' i) 3000 \<in> set (calls c)"
proof -
  obtain b' where fill: "fill_blob e lib ''id'' i (connected b) = (connected b)\<lparr>blob_b := b'\<rparr>" "blob_head lib b' = number_msg ''id'' i"
    using fill_blob_msg [OF lib sendable_names(2)] by blast
  define c where "c = note_call (Invoke j ''watch'' (number_msg ''id'' i) 3000) ((connected b)\<lparr>blob_b := b'\<rparr>)"
  have "sent_up_to 0 c" by (simp add: c_def sent_up_to_def client0_def note_call_def ubus_add_uloop_def armed_def)
  from notify_cb_sent [OF lib this, of e "ubus_invoke lib j ''watch'' (number_msg ''id'' i) w3"] obtain c1 w4 xs where
    c1: "test_client_notify_cb e lib (c, ubus_invoke lib j ''watch'' (number_msg ''id'' i) w3) = Some (c1, w4)" "sent_up_to 1 c1"
      "calls c1 = calls c @ xs" by auto
  from uloop_run_sent [OF lib c1(2), of n e w4] n obtain ended c' w' where r: "uloop_run e lib n (c1, w4) = Some (ended, c', w')"
    "runs_on lib 1 n c1 ended c'" by auto
  have "client_main e lib n (connected b, w1) = Some (ended, c', w')"
    using c1(1) r(1) by (simp add: client_main_def w2 w3 fill c_def)
  moreover have "Invoke j ''watch'' (number_msg ''id'' i) 3000 \<in> set (calls c1)" by (simp add: c1(3) c_def)
  ultimately show ?thesis using r(2) by blast
qed

lemma runs_on_sent:
  assumes "runs_on lib 1 n c ended c'"
  obtains k where "k \<le> n" "pings (calls c') = map count_msg [0..<Suc k]" "armed (calls c') = Suc k" "set (calls c) \<subseteq> set (calls c')"
    "(\<forall>w. fst (uloop_next lib w) = Timer_expired) \<longrightarrow> \<not> ended \<and> k = n"
proof -
  from assms obtain m xs where "m \<le> n" "sent_up_to (1 + m) c'" "calls c' = calls c @ xs"
    "(\<forall>w. fst (uloop_next lib w) = Timer_expired) \<longrightarrow> \<not> ended \<and> m = n" unfolding runs_on_def by blast
  then show thesis by (intro that [of m]) (simp_all add: sent_up_to_def)
qed

definition num_read :: "nat \<Rightarrow> (byte list \<times> val) list option" where
  "num_read i = Some [(chars ''counter'', U32 (word_of_nat i))]"

lemma read_counts: "map (read_values e) (map count_msg is) = map num_read is"
  by (simp add: count_msg_def number_msg_read [OF sendable_names(1)] num_read_def)


definition lib_t :: "(byte list, nat) ubus_lib" where
  "lib_t = \<lparr>blob_buf_init = init_t, blobmsg_add_field = add_t, blob_head = (\<lambda>b. b),
     ubus_connect = (\<lambda>w. (True, w)), ubus_add_object = (\<lambda>w. (0, 7, w)), ubus_lookup_id = (\<lambda>_ w. (0, 9, w)),
     ubus_invoke = (\<lambda>_ _ _ w. w), ubus_notify = (\<lambda>_ _ w. (0, w)), clock_of = (\<lambda>w. (int w, 0)), uloop_next = (\<lambda>w. (Timer_expired, Suc w))\<rparr>"


text \<open>The configuration file.  When it cannot be opened, 0 is returned and nothing changes.  When it can, whatever it holds, the first
  record is written to entry 0x601 of the table of eight readers, outside the controller: the reader never works.\<close>

lemma cfg_reader_RD_spec:
  assumes "length (reader_cfgs c) = 8"
  shows "cfg_reader_RD e filename None c = Some (0, c, []) \<and> cfg_reader_RD e filename (Some bs) c = None"
  using assms by (simp add: cfg_reader_RD_def get_file_len_def cfg_reader_loop.simps READER1_CFG_def READER8_CFG_def)

end
