(* ===== verification/UsbTo322Correct.thy ===== *)
theory UsbTo322Correct
  imports UsbTo322
begin

text \<open>
  Properties of the card-reader code: the cutting of the reader list, the safety of the reader threads, the time frame, the
  cadence of the timer callback, and the result of start-up.
\<close>

section \<open>Ports\<close>

lemma alloc_loop_iff:
  assumes "distinct ps"
  shows "k < length ps \<Longrightarrow> alloc_loop ps i (ps ! k) = i + int k" "p \<notin> set ps \<Longrightarrow> alloc_loop ps i p = -1"
proof -
  show "k < length ps \<Longrightarrow> alloc_loop ps i (ps ! k) = i + int k"
    using assms by (induction ps arbitrary: i k) (auto simp: nth_Cons split: nat.splits)
  show "p \<notin> set ps \<Longrightarrow> alloc_loop ps i p = -1" by (induction ps arbitrary: i) auto
qed

lemma alloc_port: "k < 4 \<Longrightarrow> alloc_322_index (usb_port_def ! k) = int k"
  using alloc_loop_iff(1) [of usb_port_def k 0] by (simp add: alloc_322_index_def MAX_322_NUM_def usb_port_def_def)

lemma alloc_unknown: "p \<notin> set usb_port_def \<Longrightarrow> alloc_322_index p = -1"
  using alloc_loop_iff(2) [of usb_port_def p 0] by (simp add: alloc_322_index_def MAX_322_NUM_def usb_port_def_def)

section \<open>The list of readers\<close>

text \<open>What the library documents as its multi-string format, and the row that holds a name.\<close>

definition multi_string :: "string list \<Rightarrow> char list" where
  "multi_string names = concat (map (\<lambda>n. n @ [NUL]) names) @ [NUL]"

definition row :: "string \<Rightarrow> char list" where
  "row n = n @ replicate (32 - length n) NUL"

definition name_ok :: "string \<Rightarrow> bool" where
  "name_ok n \<longleftrightarrow> NUL \<notin> set n \<and> length n < 32"

lemma c_str_row: "name_ok n \<Longrightarrow> c_str (row n) = n"
  by (simp add: c_str_def row_def name_ok_def takeWhile_append_replicate)

lemma split_one:
  assumes out: "output = pre @ n @ NUL # post" and n: "name_ok n" and r: "int (length pre + length n) < ret - 1" and d: "length ds < MAX_322_NUM"
    and k: "k \<le> length n"
  shows "split_devices output ret (length pre + k) (length pre) ds =
    split_devices output ret (length pre + length n + 1) (length pre + length n + 1) (ds @ [row n])"
  using k
proof (induction "length n - k" arbitrary: k)
  case 0
  then have "k = length n" by simp
  moreover have "take (Suc (length n)) (n @ NUL # post) @ replicate (31 - length n) NUL = row n"
    using n by (simp add: row_def name_ok_def replicate_Suc [symmetric] del: replicate_Suc) linarith
  ultimately show ?case using n r d
    by (subst split_devices.simps) (simp add: out nth_append name_ok_def)
next
  case (Suc m)
  then have lt: "k < length n" by simp
  then have "n ! k \<in> set n" by simp
  then have "n ! k \<noteq> NUL" using n unfolding name_ok_def by metis
  then have "split_devices output ret (length pre + k) (length pre) ds = split_devices output ret (length pre + Suc k) (length pre) ds"
    using lt r d by (subst split_devices.simps) (simp add: out nth_append)
  also have "\<dots> = split_devices output ret (length pre + length n + 1) (length pre + length n + 1) (ds @ [row n])"
    by (rule Suc.hyps(1)) (use Suc.hyps(2) lt in auto)
  finally show ?case .
qed

lemma split_all:
  assumes "output = pre @ multi_string names @ post" and "list_all name_ok names" and "ret = int (length pre + length (multi_string names))"
    and "length ds \<le> MAX_322_NUM"
  shows "split_devices output ret (length pre) (length pre) ds = Some (ds @ map row (take (MAX_322_NUM - length ds) names))"
  using assms
proof (induction names arbitrary: pre ds)
  case Nil
  then show ?case by (subst split_devices.simps) (simp add: multi_string_def)
next
  case (Cons n names)
  show ?case
  proof (cases "length ds < MAX_322_NUM")
    case False
    then show ?thesis using Cons.prems(3,4) by (subst split_devices.simps) (simp add: multi_string_def)
  next
    case True
    let ?p = "pre @ n @ [NUL]"
    have "split_devices output ret (length pre + 0) (length pre) ds =
        split_devices output ret (length pre + length n + 1) (length pre + length n + 1) (ds @ [row n])"
      by (rule split_one [where post = "multi_string names @ post"])
        (use Cons.prems True in \<open>auto simp: multi_string_def\<close>)
    also have "length pre + length n + 1 = length ?p" by simp
    also have "split_devices output ret (length ?p) (length ?p) (ds @ [row n]) =
        Some ((ds @ [row n]) @ map row (take (MAX_322_NUM - length (ds @ [row n])) names))"
      by (rule Cons.IH) (use Cons.prems True in \<open>auto simp: multi_string_def\<close>)
    finally show ?thesis using True by (simp add: take_Cons' Suc_diff_Suc [symmetric])
  qed
qed

text \<open>C29: the reader list.  Cutting the multi-string of any reader names, each shorter than 32 characters, gives rows that hold exactly the
  first four names, in order; nothing is read behind the list or written outside a row.\<close>

theorem split_devices_names:
  assumes "list_all name_ok names"
  shows "split_devices (multi_string names @ post) (int (length (multi_string names))) 0 0 [] = Some (map row (take 4 names)) \<and>
    map c_str (map row (take 4 names)) = take 4 names"
proof -
  have "list_all name_ok (take 4 names)" using assms by (metis append_take_drop_id list_all_append)
  then have "map c_str (map row (take 4 names)) = take 4 names"
    by (simp add: list_all_iff c_str_row map_idI)
  with split_all [of "multi_string names @ post" "[]" names post "int (length (multi_string names))" "[]"] assms
  show ?thesis by (simp add: MAX_322_NUM_def)
qed

theorem split_devices_names_witness:
  "split_devices (multi_string [''1-1.2'', ''1-1.4''] @ replicate 5 NUL) 13 0 0 [] = Some [row ''1-1.2'', row ''1-1.4''] \<and>
   c_str (row ''1-1.4'') = ''1-1.4''"
  using split_devices_names [of "[''1-1.2'', ''1-1.4'']" "replicate 5 NUL"]
  by (simp add: name_ok_def multi_string_def)


section \<open>Reader threads\<close>

lemma reader_contractD:
  "reader_contract lr \<Longrightarrow> luareader_transmit lr ctx apdu n w = (r, out, w') \<Longrightarrow> length out \<le> n \<and> r \<le> int (length out)"
  unfolding reader_contract_def
  by (drule spec [of _ ctx], drule spec [of _ apdu], drule spec [of _ n], drule spec [of _ w]) simp

lemma transmit_rounds_safe:
  assumes "reader_contract lr" "length buf = 2048"
  shows "\<exists>ps buf' w'. transmit_rounds lr ctx n buf w = Some (ps, buf', w') \<and> length ps = n \<and> length buf' = 2048 \<and>
    (\<forall>p \<in> set ps. length p \<le> 2048)"
  using assms(2)
proof (induction n arbitrary: buf w)
  case (Suc n)
  obtain r out w1 where t: "luareader_transmit lr ctx lu_test 2048 w = (r, out, w1)" by (metis prod_cases3)
  then have len: "length out \<le> 2048" "r \<le> int (length out)" using reader_contractD [OF assms(1)] by auto
  let ?o = "out @ drop (length out) buf"
  have o: "write_bytes buf 0 out = Some ?o" "length ?o = 2048" using len Suc.prems by (simp_all add: write_bytes_def)
  obtain q where q: "(if 0 < r then read_bytes ?o 0 (nat r) else Some []) = Some q" "length q \<le> 2048"
    by (rule that [of "if 0 < r then take (nat r) ?o else []"]) (use len o(2) in \<open>auto simp: read_bytes_def\<close>)
  obtain ps buf' w' where "transmit_rounds lr ctx n ?o w1 = Some (ps, buf', w')" "length ps = n" "length buf' = 2048"
    "\<forall>p \<in> set ps. length p \<le> 2048" using Suc.IH [OF o(2), of w1] by blast
  with t o q Suc.prems show ?case by simp
qed simp


text \<open>A library that counts its calls, refuses port 1-1.3 and answers every command with two bytes.\<close>

definition lr_t :: "nat luareader" where
  "lr_t = \<lparr>luareader_new = (\<lambda>w. (7, w + 1)), luareader_connect = (\<lambda>_ p w. (if p = ''1-1.3'' then -1 else 0, w + 1)),
     luareader_transmit = (\<lambda>_ _ n w. (if n < 2 then -1 else 2, if n < 2 then [] else [0x90, 0x00], w + 1)),
     luareader_disconnect = (\<lambda>_ w. (0, w + 1)), luareader_pop_value = (\<lambda>_ _ w. (5, ''error'', w + 1)), luareader_term = (\<lambda>_ w. w + 1),
     luareader_get_list = (\<lambda>_ _ w. (13, multi_string [''1-1.2'', ''1-1.4''], w + 1))\<rparr>"


section \<open>The time frame\<close>

definition tm_ok :: "tm \<Rightarrow> bool" where
  "tm_ok t \<longleftrightarrow> tm_min t \<in> {0..59} \<and> tm_hour t \<in> {0..23} \<and> tm_mday t \<in> {1..31} \<and> tm_mon t \<in> {0..11} \<and>
     tm_year t \<in> {0..8099} \<and> tm_wday t \<in> {0..6}"

lemma tm_lengths:
  assumes "tm_ok t"
  shows "length (format_d 4 (tm_year t + 1900)) = 4" "length (format_d 2 (tm_mon t + 1)) = 2" "length (format_d 2 (tm_mday t)) = 2"
    "length (format_d 2 (tm_hour t)) = 2" "length (format_d 2 (tm_min t)) = 2"
proof -
  have s: "Suc 1 = 2" "Suc 3 = 4" by simp_all
  have two: "0 \<le> n \<Longrightarrow> n < 100 \<Longrightarrow> length (format_d 2 n) = 2" for n
    using length_format [of n 1] unfolding s by (simp add: nat_less_iff)
  have four: "0 \<le> n \<Longrightarrow> n < 10000 \<Longrightarrow> length (format_d 4 n) = 4" for n
    using length_format [of n 3] unfolding s by (simp add: nat_less_iff)
  show "length (format_d 4 (tm_year t + 1900)) = 4" by (rule four) (use assms in \<open>auto simp: tm_ok_def\<close>)
  show "length (format_d 2 (tm_mon t + 1)) = 2" by (rule two) (use assms in \<open>auto simp: tm_ok_def\<close>)
  show "length (format_d 2 (tm_mday t)) = 2" by (rule two) (use assms in \<open>auto simp: tm_ok_def\<close>)
  show "length (format_d 2 (tm_hour t)) = 2" by (rule two) (use assms in \<open>auto simp: tm_ok_def\<close>)
  show "length (format_d 2 (tm_min t)) = 2" by (rule two) (use assms in \<open>auto simp: tm_ok_def\<close>)
qed

definition date_text :: "tm \<Rightarrow> byte list" where
  "date_text t = chars (format_d 4 (tm_year t + 1900) @ ''/'' @ format_d 2 (tm_mon t + 1) @ ''/'' @ format_d 2 (tm_mday t))"

definition clock_text :: "tm \<Rightarrow> byte list" where
  "clock_text t = chars (format_d 2 (tm_hour t) @ '':'' @ format_d 2 (tm_min t))"

lemma text_lengths: "tm_ok t \<Longrightarrow> length (date_text t) = 10" "tm_ok t \<Longrightarrow> length (clock_text t) = 5"
  by (simp_all add: date_text_def clock_text_def tm_lengths)


lemma time_prefix:
  assumes "tm_ok t" "12 \<le> n"
  shows "get_sys_time_in n e t dst = do {
    a \<leftarrow> write_bytes (date_text t @ native16 e (ascDay (tm_wday t)) @ replicate (n - 12) 0) 12 (clock_text t @ [0]);
    dst \<leftarrow> write_bytes dst 0 time_head;
    write_bytes dst (length time_head) a }"
proof -
  let ?d = "native16 e (ascDay (tm_wday t))"
  have "Suc (n - 11) = n - 10" using assms(2) by simp
  then have a1: "sprintf_at (replicate n 0) 0 (format_d 4 (tm_year t + 1900) @ ''/'' @ format_d 2 (tm_mon t + 1) @ ''/'' @ format_d 2 (tm_mday t)) =
      Some (date_text t @ replicate (n - 10) 0)"
    using text_lengths(1) [OF assms(1)] assms(2)
    by (simp add: sprintf_at_def write_bytes_def date_text_def replicate_Suc [symmetric] del: replicate_Suc)
  have "2 + (n - 12) = n - 10" using assms(2) by simp
  then have a2: "write_bytes (date_text t @ replicate (n - 10) 0) 10 ?d = Some (date_text t @ ?d @ replicate (n - 12) 0)"
    using write_bytes_append [of "replicate 2 0" ?d "date_text t" "replicate (n - 12) 0"] text_lengths(1) [OF assms(1)]
    by (simp add: replicate_add [symmetric])
  show ?thesis unfolding get_sys_time_in_def Let_def a1 by (simp add: a2 sprintf_at_def clock_text_def)
qed

text \<open>C37: the time frame.  For every valid date \<open>get_sys_time\<close> writes one byte behind its array of 17: the terminating zero of the last
  \<open>sprintf\<close>.  With one byte more the frame would be complete: the head, the date as \<open>yyyy/mm/dd\<close>, the two bytes of the
  weekday, which are in the order of the character code on a big-endian machine only, the time as \<open>hh:mm\<close>, and zeros.
  The head announces 19 bytes of data, one more than that.\<close>

theorem get_sys_time_frame:
  assumes "tm_ok t" and "length dst = 28 + length rest"
  shows "get_sys_time e t (Some dst) = None \<and>
    get_sys_time_in 18 e t dst = Some (time_head @ (date_text t @ native16 e (ascDay (tm_wday t)) @ clock_text t @ [0]) @ drop 28 dst) \<and>
    length (date_text t) = 10 \<and> length (clock_text t) = 5 \<and> last time_head = 19"
proof -
  note l = text_lengths [OF assms(1)]
  let ?d = "native16 e (ascDay (tm_wday t))"
  have h: "length time_head = 10" "last time_head = 19" by (simp_all add: time_head_def)
  have "write_bytes (date_text t @ ?d @ replicate (18 - 12) 0) 12 (clock_text t @ [0]) = Some (date_text t @ ?d @ clock_text t @ [0])"
    using write_bytes_append [of "replicate 6 0" "clock_text t @ [0]" "date_text t @ ?d" "[]"] l by simp
  then have "get_sys_time_in 18 e t dst = Some (time_head @ (date_text t @ ?d @ clock_text t @ [0]) @ drop 28 dst)"
    using assms(2) l h by (simp add: time_prefix [OF assms(1)] write_bytes_def)
  moreover have "get_sys_time e t (Some dst) = None"
    using l by (simp add: get_sys_time_def time_prefix [OF assms(1)] write_bytes_def)
  ultimately show ?thesis using l h by simp
qed

definition tm_t :: tm where
  "tm_t = \<lparr>tm_min = 5, tm_hour = 9, tm_mday = 4, tm_mon = 5, tm_year = 117, tm_wday = 0\<rparr>"

theorem get_sys_time_frame_witness:
  "get_sys_time Big_Endian tm_t (Some (replicate 64 0)) = None \<and>
   get_sys_time_in 18 Big_Endian tm_t (replicate 64 0) =
     Some (time_head @ chars ''2017/06/04'' @ [0xC8, 0xD5] @ chars ''09:05'' @ replicate 37 0)"
proof -
  have ok: "tm_ok tm_t" by (simp add: tm_ok_def tm_t_def)
  have d: "date_text tm_t = chars ''2017/06/04''" "clock_text tm_t = chars ''09:05''"
    by (simp_all add: date_text_def clock_text_def tm_t_def format_d_def zero_pad_def digits.simps chars_def)
  show ?thesis using get_sys_time_frame [OF ok, of "replicate 64 0" "replicate 36 0 :: byte list" Big_Endian]
    by (simp add: d) (simp add: tm_t_def ascDay_def native16_def be16_def replicate_Suc [symmetric] del: replicate_Suc)
qed

section \<open>The timer callback\<close>

text \<open>The reader's thread puts the reader back to idle between two ticks.\<close>

definition idle_tick :: "usb_ccid_322 \<Rightarrow> usb_ccid_322" where
  "idle_tick p = timer_usb_callback (p\<lparr>usb_state := USB_COMM_STATE_IDLE\<rparr>)"

lemma idle_tick_state:
  "usb_state (idle_tick p) = (if 10 \<le> toggle p then USB_COMM_STATE_PUSH else USB_COMM_STATE_POLL)"
  "toggle (idle_tick p) = (if 10 \<le> toggle p then 0 else toggle p + 1)" "toggle_transmit (idle_tick p) = toggle_transmit p"
  by (simp_all add: idle_tick_def timer_usb_callback_def Let_def)

lemma ticks_toggle: "toggle p = 0 \<Longrightarrow> toggle ((idle_tick ^^ n) p) = word_of_nat (n mod 11)"
proof (induction n)
  case (Suc n)
  have lt: "n mod 11 < 11" by simp
  then have u: "unat (word_of_nat (n mod 11) :: byte) = n mod 11" by (simp add: unat_of_nat take_bit_nat_eq_self)
  then have "10 \<le> (word_of_nat (n mod 11) :: byte) \<longleftrightarrow> 10 \<le> n mod 11" by (simp add: word_le_nat_alt)
  with Suc lt show ?case by (auto simp: idle_tick_state mod_Suc)
qed simp

lemma transfer_ticks:
  assumes "usb_state p = USB_COMM_STATE_TRANSFER" "toggle_transmit p = 0"
  shows "(timer_usb_callback ^^ n) p = p\<lparr>toggle_transmit := word_of_nat (n mod 9)\<rparr>"
proof (induction n)
  case (Suc n)
  have lt: "n mod 9 < 9" by simp
  then have u: "unat (word_of_nat (n mod 9) :: byte) = n mod 9" by (simp add: unat_of_nat take_bit_nat_eq_self)
  then have "8 \<le> (word_of_nat (n mod 9) :: byte) \<longleftrightarrow> 8 \<le> n mod 9" by (simp add: word_le_nat_alt)
  with Suc lt assms(1) show ?case by (auto simp: timer_usb_callback_def mod_Suc)
qed (use assms in \<open>cases p, simp\<close>)

text \<open>C28: the cadence of the readers.  A reader that starts with a zero counter and is idle at every tick is told to poll ten times, then
  once to push the time and the weather, and so on for ever; a reader in transfer mode keeps its
  state and only counts, from 0 to 8; in every other state a tick changes nothing.  Neither counter
  ever wraps around.\<close>

theorem timer_usb_cadence:
  assumes "toggle p = 0"
  shows "usb_state ((idle_tick ^^ Suc n) p) = (if n mod 11 = 10 then USB_COMM_STATE_PUSH else USB_COMM_STATE_POLL) \<and>
    unat (toggle ((idle_tick ^^ n) p)) = n mod 11 \<and> unat (toggle ((idle_tick ^^ n) p)) \<le> 10 \<and>
    (usb_state q = USB_COMM_STATE_TRANSFER \<and> toggle_transmit q = 0 \<longrightarrow>
       (timer_usb_callback ^^ n) q = q\<lparr>toggle_transmit := word_of_nat (n mod 9)\<rparr>) \<and>
    (usb_state q \<noteq> USB_COMM_STATE_IDLE \<and> usb_state q \<noteq> USB_COMM_STATE_TRANSFER \<longrightarrow> timer_usb_callback q = q)"
proof -
  have lt: "n mod 11 < 11" by simp
  then have u: "unat (word_of_nat (n mod 11) :: byte) = n mod 11" by (simp add: unat_of_nat take_bit_nat_eq_self)
  then have "10 \<le> (word_of_nat (n mod 11) :: byte) \<longleftrightarrow> n mod 11 = 10" using lt by (simp add: word_le_nat_alt) linarith
  then have "usb_state ((idle_tick ^^ Suc n) p) = (if n mod 11 = 10 then USB_COMM_STATE_PUSH else USB_COMM_STATE_POLL)"
    by (simp add: idle_tick_state ticks_toggle [OF assms])
  moreover have "usb_state q \<noteq> USB_COMM_STATE_IDLE \<and> usb_state q \<noteq> USB_COMM_STATE_TRANSFER \<longrightarrow> timer_usb_callback q = q"
    by (simp add: timer_usb_callback_def)
  ultimately show ?thesis using lt u ticks_toggle [OF assms, of n] transfer_ticks [of q n] by auto
qed

theorem timer_usb_cadence_witness:
  "usb_state ((idle_tick ^^ Suc 10) zero_ccid) = USB_COMM_STATE_PUSH \<and> usb_state ((idle_tick ^^ Suc 11) zero_ccid) = USB_COMM_STATE_POLL \<and>
   timer_usb_callback (zero_ccid\<lparr>usb_state := USB_COMM_STATE_INIT\<rparr>) = zero_ccid\<lparr>usb_state := USB_COMM_STATE_INIT\<rparr>"
  using timer_usb_cadence [of zero_ccid 10 "zero_ccid\<lparr>usb_state := USB_COMM_STATE_INIT\<rparr>"] timer_usb_cadence [of zero_ccid 11 zero_ccid]
  by (simp add: zero_ccid_def del: funpow.simps)


section \<open>Start-up\<close>

definition sys_ok :: "tabs \<Rightarrow> eg_sys \<Rightarrow> bool" where
  "sys_ok A s \<longleftrightarrow> api_inv (timer_part s) A \<and> no_oom (handle_part s) \<and> (\<forall>a \<ge> brk (handle_part s). handles (handle_part s) a = None) \<and>
     no_oom (task_part s) \<and> fresh_above (task_part s) \<and> length (usb_ccid_322s (controll_eg s)) = 4 \<and>
     (\<forall>p \<in> set (usb_ccid_322s (controll_eg s)). length (usb_port p) = 16)"

text \<open>A reader that has been set up: its entry, and a stopped periodic timer that will call the callback with this entry.\<close>

definition ready :: "nat \<Rightarrow> tabs \<Rightarrow> eg_sys \<Rightarrow> bool" where
  "ready k A s \<longleftrightarrow> (let p = usb_ccid_322s (controll_eg s) ! k in
     ccid322_exist p = 1 \<and> unat (ccid322_index p) = k \<and> usb_state p = USB_COMM_STATE_INIT \<and> c_str (usb_port p) = usb_port_def ! k \<and>
     (\<exists>h i. timer_322 p = Some h \<and> handles (handle_part s) h = Some (Some i) \<and> i < TIMER_MAX \<and> i \<notin> set (fr A) \<and>
        (let t = timers (timer_part s) i in \<not> armed t \<and> type t = TIMER_INTERVAL \<and> millisec t = 500 \<and>
           sigev_notify_function (event t) = timer_usb_callback_fn \<and> sival_ptr (event t) = k)))"

definition can_start :: "thread_env \<Rightarrow> bool" where
  "can_start tenv \<longleftrightarrow> (\<forall>c. attr_ret tenv c = 0) \<and> create_ret tenv \<noteq> None"

lemma can_start_attributes: "can_start tenv \<Longrightarrow> \<exists>sz. thread_attributes tenv RT_SYS_THREAD_PRIORITY stack_size = Some sz"
  by (simp add: can_start_def thread_attributes_def RT_SYS_THREAD_PRIORITY_def)

lemma port_facts:
  assumes "k < 4"
  shows "name_ok (usb_port_def ! k)" "length (usb_port_def ! k) = 5" "NUL \<notin> set (usb_port_def ! k)"
proof -
  have "length usb_port_def = 4" by (simp add: usb_port_def_def)
  then have "usb_port_def ! k \<in> set usb_port_def" using assms by simp
  then show "name_ok (usb_port_def ! k)" "length (usb_port_def ! k) = 5" "NUL \<notin> set (usb_port_def ! k)"
    by (auto simp: usb_port_def_def name_ok_def)
qed

lemma port_field:
  assumes "k < 4" "length buf = 16"
  shows "\<exists>b. strcpy_field buf (usb_port_def ! k) = Some b \<and> length b = 16 \<and> c_str b = usb_port_def ! k"
  using port_facts [OF assms(1)] assms(2) by (auto simp: strcpy_field_def c_str_def takeWhile_tail)

abbreviation usb_attr :: pthread_attr where
  "usb_attr \<equiv> timer_attr TIMER_PRIO_NORMAL"

lemma usb_timer_create:
  assumes inv: "api_inv st A" and env: "env_ok env" and i: "fr A = i # rest" and can: "can_serve env st A usb_attr CLOCK_MONOTONIC"
    and mem: "no_oom m"
  obtains wake st' A' where "osal_timer_create env (Some timer_usb_callback_fn) k EUSB_SEND_PERIOD (or TIMER_INTERVAL TIMER_STOPPED) TIMER_PRIO_NORMAL m st =
      Some (Some (brk m), wake, m\<lparr>brk := Suc (brk m), handles := (handles m)(brk m \<mapsto> Some i)\<rparr>, st')"
    and "api_inv st' A'" "fr A' = rest" "\<And>env. can_serve env st' A' usb_attr CLOCK_MONOTONIC" "i < TIMER_MAX" "i \<notin> set rest"
    and "\<And>j. j \<noteq> i \<Longrightarrow> timers st' j = timers st j" "\<not> armed (timers st' i)" "type (timers st' i) = TIMER_INTERVAL"
    and "millisec (timers st' i) = 500" "sigev_notify_function (event (timers st' i)) = timer_usb_callback_fn" "sival_ptr (event (timers st' i)) = k"
proof -
  let ?f = "or TIMER_INTERVAL TIMER_STOPPED"
  have f: "and ?f TIMER_ONESHOT = 0" "and ?f TIMER_STOPPED \<noteq> 0"
    by (simp_all add: TIMER_INTERVAL_def TIMER_STOPPED_def TIMER_ONESHOT_def)
  have ms: "0 < EUSB_SEND_PERIOD" "EUSB_SEND_PERIOD < 2 ^ 31" by (simp_all add: EUSB_SEND_PERIOD_def)
  obtain wake st' A' t where a: "os_timer_add env TIMER_PRIO_NORMAL EUSB_SEND_PERIOD ?f (Some timer_usb_callback_fn) k True st = Some (0, Some i, wake, st')"
    "api_inv st' A'" "fr A' = rest" "t \<in> set (ta A')" "millisec (timers st' i) = EUSB_SEND_PERIOD"
    "type (timers st' i) = (if and ?f TIMER_ONESHOT \<noteq> 0 then TIMER_ONESHOT else TIMER_INTERVAL)"
    "sigev_notify_function (event (timers st' i)) = timer_usb_callback_fn" "sival_ptr (event (timers st' i)) = k"
    "\<And>j. j \<noteq> i \<Longrightarrow> timers st' j = timers st j"
    "if and ?f TIMER_STOPPED \<noteq> 0 then stopped i st' A A'
      else running i (expirytime (timers st' i)) (if and ?f TIMER_ONESHOT \<noteq> 0 then zero_timespec else ms2ts EUSB_SEND_PERIOD) st' A A' \<and>
        (and ?f TIMER_ABSTIME = 0 \<longrightarrow> expiry st' i = monotonic env + EUSB_SEND_PERIOD * 1000000)"
    "thread_key st' t = attr_key usb_attr CLOCK_MONOTONIC"
    by (rule add_ok [OF inv env ms i can, where flag = ?f and f = timer_usb_callback_fn and arg = k]) blast
  have links: "links_ok (tlinks st) A" by (rule tinvD(1) [OF api_invD(1) [OF inv]])
  have i': "i < TIMER_MAX" "i \<notin> set rest" using links_okD(2) [OF links, of i] links_ok_distinct(1) [OF links] i by simp_all
  have can': "can_serve env' st' A' usb_attr CLOCK_MONOTONIC" for env'
    using a(4) a(11) [symmetric] by (simp add: can_serve_def)
  have call: "osal_timer_create env (Some timer_usb_callback_fn) k EUSB_SEND_PERIOD ?f TIMER_PRIO_NORMAL m st =
      Some (Some (brk m), wake, m\<lparr>brk := Suc (brk m), handles := (handles m)(brk m \<mapsto> Some i)\<rparr>, st')"
    using a(1) malloc_no_oom [OF mem, of 4] by (simp add: osal_timer_create_def)
  have "\<not> armed (timers st' i)" using a(10) f(2) by (simp add: stopped_def)
  with call a(2,3,5-9) f(1) i' can' show thesis
    by (intro that [OF call a(2,3) can' i' a(9)]) (simp_all add: EUSB_SEND_PERIOD_def)
qed


lemma usb_task_create:
  assumes "no_oom s" "fresh_above s" "can_start tenv"
  shows "\<exists>a s'. osal_task_create tenv (Some (usb_port_def ! k)) eg_usb_thread_entry_fn arg RT_SYS_THREAD_STACK_SIZE RT_SYS_THREAD_PRIORITY u s =
      Some (Some a, s') \<and> no_oom s' \<and> fresh_above s' \<and> length (spawned s') = Suc (length (spawned s))"
proof -
  obtain sz where sz: "thread_attributes tenv RT_SYS_THREAD_PRIORITY RT_SYS_THREAD_STACK_SIZE = Some sz"
    using can_start_attributes [OF assms(3)] by blast
  obtain t where t: "create_ret tenv = Some t" using assms(3) by (auto simp: can_start_def)
  show ?thesis using assms(1,2) malloc_no_oom [OF assms(1), of 4]
    by (auto simp: osal_task_create_def os_pthread_create_def task_create_with_def pthread_create_internel_def sz t strdup_def malloc_def
        no_oom_def fresh_above_def)
qed

text \<open>Setting up one more reader keeps what has been set up.\<close>

lemma ready_step:
  assumes "ready k' A s" "k' \<noteq> k" "fr A = i # fr A'"
    and "\<And>a. a \<noteq> brk (handle_part s) \<Longrightarrow> handles (handle_part s') a = handles (handle_part s) a" "handles (handle_part s) (brk (handle_part s)) = None"
    and "\<And>j. j \<noteq> i \<Longrightarrow> timers (timer_part s') j = timers (timer_part s) j"
    and "usb_ccid_322s (controll_eg s') = (usb_ccid_322s (controll_eg s))[k := p]"
  shows "ready k' A' s'"
proof -
  let ?p = "usb_ccid_322s (controll_eg s) ! k'"
  from assms(1) obtain h j where hj: "timer_322 ?p = Some h" "handles (handle_part s) h = Some (Some j)" "j < TIMER_MAX" "j \<notin> set (fr A)"
    by (auto simp: ready_def Let_def)
  then have "h \<noteq> brk (handle_part s)" "j \<noteq> i" "j \<notin> set (fr A')" using assms(3,5) by auto
  with hj assms(1,2,4,6,7) show ?thesis by (auto simp: ready_def Let_def)
qed

lemma init_device_ok:
  assumes sys: "sys_ok A s" and k: "k < 4" and i: "fr A = i # rest" and env: "env_ok env" and tenv: "can_start tenv"
    and can: "can_serve env (timer_part s) A usb_attr CLOCK_MONOTONIC"
  obtains s' A' where "init_device tenv env (row (usb_port_def ! k)) s = Some s'" "sys_ok A' s'" "fr A' = rest"
    and "\<And>env. can_serve env (timer_part s') A' usb_attr CLOCK_MONOTONIC" "ready k A' s'"
    and "\<And>k'. k' \<noteq> k \<Longrightarrow> ready k' A s \<Longrightarrow> ready k' A' s'"
    and "\<And>k'. k' \<noteq> k \<Longrightarrow> usb_ccid_322s (controll_eg s') ! k' = usb_ccid_322s (controll_eg s) ! k'"
    and "length (spawned (task_part s')) = Suc (length (spawned (task_part s)))"
proof -
  note ok = sys [unfolded sys_ok_def]
  let ?c = "usb_ccid_322s (controll_eg s)" and ?m = "handle_part s"
  obtain wake st' A' where t: "osal_timer_create env (Some timer_usb_callback_fn) k EUSB_SEND_PERIOD (or TIMER_INTERVAL TIMER_STOPPED)
      TIMER_PRIO_NORMAL ?m (timer_part s) = Some (Some (brk ?m), wake, ?m\<lparr>brk := Suc (brk ?m), handles := (handles ?m)(brk ?m \<mapsto> Some i)\<rparr>, st')"
    "api_inv st' A'" "fr A' = rest" "\<And>env. can_serve env st' A' usb_attr CLOCK_MONOTONIC" "i < TIMER_MAX" "i \<notin> set rest"
    "\<And>j. j \<noteq> i \<Longrightarrow> timers st' j = timers (timer_part s) j" "\<not> armed (timers st' i)" "type (timers st' i) = TIMER_INTERVAL"
    "millisec (timers st' i) = 500" "sigev_notify_function (event (timers st' i)) = timer_usb_callback_fn" "sival_ptr (event (timers st' i)) = k"
    by (rule usb_timer_create [of "timer_part s" A env i rest ?m k]) (use ok env i can in blast)+
  obtain tasks' a where task: "osal_task_create tenv (Some (usb_port_def ! k)) eg_usb_thread_entry_fn k RT_SYS_THREAD_STACK_SIZE
      RT_SYS_THREAD_PRIORITY 0 (task_part s) = Some (Some a, tasks')" "no_oom tasks'" "fresh_above tasks'"
    "length (spawned tasks') = Suc (length (spawned (task_part s)))"
    using usb_task_create [of "task_part s" tenv k] ok tenv by blast
  obtain b where b: "strcpy_field (usb_port (?c ! k)) (usb_port_def ! k) = Some b" "length b = 16" "c_str b = usb_port_def ! k"
    using port_field [OF k, of "usb_port (?c ! k)"] ok k by auto
  let ?p = "(?c ! k)\<lparr>ccid322_index := word_of_nat k, usb_state := USB_COMM_STATE_INIT, ccid322_exist := 1, usb_port := b, timer_322 := Some (brk ?m)\<rparr>"
  let ?s = "\<lparr>controll_eg = (controll_eg s)\<lparr>usb_ccid_322s := ?c[k := ?p]\<rparr>, task_part = tasks',
    handle_part = ?m\<lparr>brk := Suc (brk ?m), handles := (handles ?m)(brk ?m \<mapsto> Some i)\<rparr>, timer_part = st'\<rparr>"
  have call: "init_device tenv env (row (usb_port_def ! k)) s = Some ?s"
    using k by (simp add: init_device_def c_str_row port_facts alloc_port b(1) task(1) t(1))
  have "\<forall>p \<in> set (?c[k := ?p]). length (usb_port p) = 16" using ok b(2) by (auto dest!: set_update_subset_insert [THEN subsetD])
  then have sys': "sys_ok A' ?s" using ok t(2) task(2,3) by (auto simp: sys_ok_def no_oom_def)
  have "unat (word_of_nat k :: byte) = k" using k by (simp add: unat_of_nat take_bit_nat_eq_self)
  then have ready': "ready k A' ?s" using k ok b(3) t(3,5,6,8-12) by (auto simp: ready_def)
  have keep: "ready k' A s \<Longrightarrow> ready k' A' ?s" if "k' \<noteq> k" for k'
    by (rule ready_step [of k' A s k i]) (use that i t(3,7) ok in \<open>auto\<close>)
  show thesis by (rule that [OF call sys' t(3)]) (use t(4) ready' keep task(4) in \<open>auto\<close>)
qed


lemma init_devices_ok:
  assumes "sys_ok A s" "distinct ks" "set ks \<subseteq> {..<4}" "length ks \<le> length (fr A)" "\<forall>n. env_ok (env n)" "\<forall>n. can_start (tenv n)"
    and "can_serve (env n) (timer_part s) A usb_attr CLOCK_MONOTONIC"
  shows "\<exists>s' A'. init_devices tenv env n (map (\<lambda>k. row (usb_port_def ! k)) ks) s = Some s' \<and> sys_ok A' s' \<and>
    (\<forall>k \<in> set ks. ready k A' s') \<and> (\<forall>k. ready k A s \<and> k \<notin> set ks \<longrightarrow> ready k A' s') \<and>
    (\<forall>k. k \<notin> set ks \<longrightarrow> usb_ccid_322s (controll_eg s') ! k = usb_ccid_322s (controll_eg s) ! k) \<and>
    length (spawned (task_part s')) = length (spawned (task_part s)) + length ks"
  using assms
proof (induction ks arbitrary: A s n)
  case (Cons k ks)
  from Cons.prems(4) obtain i rest where i: "fr A = i # rest" by (cases "fr A") auto
  obtain s1 A1 where s1: "init_device (tenv n) (env n) (row (usb_port_def ! k)) s = Some s1" "sys_ok A1 s1" "fr A1 = rest"
    "\<And>env. can_serve env (timer_part s1) A1 usb_attr CLOCK_MONOTONIC" "ready k A1 s1"
    "\<And>k'. k' \<noteq> k \<Longrightarrow> ready k' A s \<Longrightarrow> ready k' A1 s1"
    "\<And>k'. k' \<noteq> k \<Longrightarrow> usb_ccid_322s (controll_eg s1) ! k' = usb_ccid_322s (controll_eg s) ! k'"
    "length (spawned (task_part s1)) = Suc (length (spawned (task_part s)))"
    by (rule init_device_ok [OF Cons.prems(1) _ i spec [OF Cons.prems(5)] spec [OF Cons.prems(6)] Cons.prems(7), of k]) (use Cons.prems(3) in auto)
  have "\<exists>s' A'. init_devices tenv env (Suc n) (map (\<lambda>k. row (usb_port_def ! k)) ks) s1 = Some s' \<and> sys_ok A' s' \<and>
    (\<forall>k \<in> set ks. ready k A' s') \<and> (\<forall>k. ready k A1 s1 \<and> k \<notin> set ks \<longrightarrow> ready k A' s') \<and>
    (\<forall>k. k \<notin> set ks \<longrightarrow> usb_ccid_322s (controll_eg s') ! k = usb_ccid_322s (controll_eg s1) ! k) \<and>
    length (spawned (task_part s')) = length (spawned (task_part s1)) + length ks"
    by (rule Cons.IH [OF s1(2) _ _ _ Cons.prems(5,6) s1(4)]) (use Cons.prems(2-4) s1(3) i in auto)
  then obtain s' A' where s': "init_devices tenv env (Suc n) (map (\<lambda>k. row (usb_port_def ! k)) ks) s1 = Some s'" "sys_ok A' s'"
    "\<forall>k \<in> set ks. ready k A' s'" "\<forall>k. ready k A1 s1 \<and> k \<notin> set ks \<longrightarrow> ready k A' s'"
    "\<forall>k. k \<notin> set ks \<longrightarrow> usb_ccid_322s (controll_eg s') ! k = usb_ccid_322s (controll_eg s1) ! k"
    "length (spawned (task_part s')) = length (spawned (task_part s1)) + length ks" by blast
  show ?case
    by (intro exI [of _ s'] exI [of _ A']) (use s1 s' Cons.prems(2) in auto)
qed auto

text \<open>Timers initialise themselves at the first use.\<close>

lemma add_from_static:
  assumes "timer_init_once env st0 = Some st" "init_once st" "0 < ms"
  shows "os_timer_add env prio ms flag (Some f) arg True st0 = os_timer_add env prio ms flag (Some f) arg True st"
proof -
  have "timer_init_once env st = Some st" using assms(2) by (simp add: timer_init_once_def)
  then show ?thesis using assms(1,3) by (simp add: os_timer_add_def timer_create_def)
qed

lemma init_device_static:
  assumes "timer_init_once env (timer_part s) = Some st" "init_once st"
  shows "init_device tenv env d s = init_device tenv env d (s\<lparr>timer_part := st\<rparr>)"
proof -
  have "osal_timer_create env (Some f) k EUSB_SEND_PERIOD flag prio m (timer_part s) =
      osal_timer_create env (Some f) k EUSB_SEND_PERIOD flag prio m st" for f k flag prio m
    using add_from_static [OF assms, of EUSB_SEND_PERIOD] by (simp add: osal_timer_create_def EUSB_SEND_PERIOD_def)
  then show ?thesis by (simp add: init_device_def Let_def)
qed

text \<open>The system as it is before \<open>main\<close>: cleared controller, empty heaps, timers not yet initialised.\<close>

definition boot_sys :: eg_sys where
  "boot_sys = \<lparr>controll_eg = zero_controller,
     task_part = \<lparr>brk = 1, alloc_fails = (\<lambda>_. False), junk = (\<lambda>_ _. 0), tasks = Map.empty, infos = Map.empty, strs = Map.empty, spawned = []\<rparr>,
     handle_part = \<lparr>brk = 1, alloc_fails = (\<lambda>_. False), junk = (\<lambda>_ _. 0), handles = Map.empty\<rparr>, timer_part = timer_static\<rparr>"

lemma boot_ok: "api_inv st empty_tabs \<Longrightarrow> sys_ok empty_tabs (boot_sys\<lparr>timer_part := st\<rparr>)"
  by (auto simp: sys_ok_def boot_sys_def no_oom_def fresh_above_def zero_controller_def zero_ccid_def)

lemma boot_devices:
  assumes "ks \<noteq> []" "distinct ks" "set ks \<subseteq> {..<4}" "\<forall>n. env_ok (env n)" "\<forall>n. can_start (tenv n)" "pthread_create (env 0) \<noteq> None"
  shows "\<exists>s A. init_devices tenv env 0 (map (\<lambda>k. row (usb_port_def ! k)) ks) boot_sys = Some s \<and> sys_ok A s \<and>
    (\<forall>k \<in> set ks. ready k A s) \<and> (\<forall>k < 4. k \<notin> set ks \<longrightarrow> usb_ccid_322s (controll_eg s) ! k = zero_ccid) \<and>
    length (spawned (task_part s)) = length ks"
proof -
  obtain st where st: "timer_init_once (env 0) timer_static = Some st" "api_inv st empty_tabs" using api_inv_static by blast
  have once: "init_once st" by (rule tinvD(2) [OF api_invD(1) [OF st(2)]])
  let ?s = "boot_sys\<lparr>timer_part := st\<rparr>"
  obtain k ks' where ks: "ks = k # ks'" using assms(1) by (cases ks) auto
  have same: "init_devices tenv env 0 (map (\<lambda>k. row (usb_port_def ! k)) ks) boot_sys =
      init_devices tenv env 0 (map (\<lambda>k. row (usb_port_def ! k)) ks) ?s"
    using init_device_static [of "env 0" boot_sys st] st(1) once by (simp add: ks boot_sys_def)
  have can: "can_serve (env 0) (timer_part ?s) empty_tabs usb_attr CLOCK_MONOTONIC"
    using assms(6) by (simp add: can_serve_def empty_tabs_def THREAD_MAXNODES_def)
  have len: "length ks \<le> length (fr empty_tabs)"
    using card_mono [OF _ assms(3)] distinct_card [OF assms(2)] by (simp add: empty_tabs_def TIMER_MAX_def)
  from init_devices_ok [OF boot_ok [OF st(2)] assms(2,3) len assms(4,5) can]
  show ?thesis unfolding same by (auto simp: boot_sys_def zero_controller_def)
qed

text \<open>Start-up.  When the library reports readers at known ports, all different and at least one, and threads can be had, start-up returns with
  exactly these readers set up: the entry of each is marked as existing, carries its index and port and the initial
  state, a thread has been created for it, and it has a stopped periodic timer of 500 ms that will call the
  callback with this entry.  The entries of the other ports are untouched, and the timer module is in
  a consistent state.\<close>

lemma usbto322_boot:
  assumes "ks \<noteq> []" "distinct ks" "set ks \<subseteq> {..<4}" and "\<forall>n. env_ok (env n)" "\<forall>n. can_start (tenv n)" "pthread_create (env 0) \<noteq> None"
    and "luareader_new lr w = (ctx, w1)"
    and "luareader_get_list lr ctx 1024 w1 = (int (length (multi_string (map ((!) usb_port_def) ks))), multi_string (map ((!) usb_port_def) ks), w2)"
  shows "\<exists>s A. eg_usbto322_init lr tenv env w boot_sys = Some (s, w2) \<and> api_inv (timer_part s) A \<and>
    (\<forall>k < 4. if k \<in> set ks then ready k A s else usb_ccid_322s (controll_eg s) ! k = zero_ccid) \<and>
    length (spawned (task_part s)) = length ks"
proof -
  let ?ns = "map ((!) usb_port_def) ks" and ?o = "multi_string (map ((!) usb_port_def) ks)"
  have ok: "list_all name_ok ?ns" using assms(3) port_facts(1) by (auto simp: list_all_iff)
  have l4: "length ks \<le> 4" using card_mono [OF _ assms(3)] distinct_card [OF assms(2)] by simp
  have "length (multi_string (map ((!) usb_port_def) ks)) = 6 * length ks + 1" using assms(3)
    by (induction ks) (auto simp: multi_string_def port_facts(2))
  then have len: "length ?o \<le> 1024" using l4 by simp
  have split: "split_devices (?o @ replicate (1024 - length ?o) NUL) (int (length ?o)) 0 0 [] = Some (map (\<lambda>k. row (usb_port_def ! k)) ks)"
    using split_all [of _ "[]" ?ns "replicate (1024 - length ?o) NUL" _ "[]"] ok l4 by (simp add: MAX_322_NUM_def comp_def)
  obtain s A where s: "init_devices tenv env 0 (map (\<lambda>k. row (usb_port_def ! k)) ks) boot_sys = Some s" "sys_ok A s"
    "\<forall>k \<in> set ks. ready k A s" "\<forall>k < 4. k \<notin> set ks \<longrightarrow> usb_ccid_322s (controll_eg s) ! k = zero_ccid"
    "length (spawned (task_part s)) = length ks"
    using boot_devices [OF assms(1-6)] by blast
  have "eg_usbto322_init lr tenv env w boot_sys = Some (s, w2)"
    using assms(7,8) len split s(1) l4 by (simp add: eg_usbto322_init_def MAX_322_NUM_def)
  then show ?thesis using s(2-5) by (intro exI [of _ s] exI [of _ A]) (auto simp: sys_ok_def)
qed

text \<open>Start-up does not check that a port is known.  When the first reader of the list is at any other port, the index is -1 and the entry
  before the array is written.\<close>

lemma eg_usbto322_unknown_port:
  assumes "list_all name_ok (n # ns)" "n \<notin> set usb_port_def" "length (multi_string (n # ns)) \<le> 1024"
    and "luareader_new lr w = (ctx, w1)" and "luareader_get_list lr ctx 1024 w1 = (int (length (multi_string (n # ns))), multi_string (n # ns), w2)"
  shows "eg_usbto322_init lr tenv env w s = None"
proof -
  let ?o = "multi_string (n # ns)"
  have "split_devices (?o @ replicate (1024 - length ?o) NUL) (int (length ?o)) 0 0 [] = Some (map row (take 4 (n # ns)))"
    using split_all [of _ "[]" "n # ns" "replicate (1024 - length ?o) NUL" _ "[]"] assms(1) by (simp add: MAX_322_NUM_def)
  moreover have "init_device tv ev (row n) s = None" for tv ev
    using assms(1,2) by (simp add: init_device_def c_str_row alloc_unknown)
  ultimately show ?thesis using assms(3-5) by (simp add: eg_usbto322_init_def MAX_322_NUM_def)
qed

lemma eg_usbto322_unknown_port_witness:
  "eg_usbto322_init (lr_t\<lparr>luareader_get_list := (\<lambda>_ _ w. (7, multi_string [''2-1.2''], w))\<rparr>) (\<lambda>_. thread_env_t) (\<lambda>_. env0) 0 boot_sys = None"
  by (rule eg_usbto322_unknown_port [of "''2-1.2''" "[]" _ 0 7 1 1])
    (simp_all add: name_ok_def usb_port_def_def multi_string_def lr_t_def)

end
