(* ===== verification/OsalDbg.thy ===== *)
theory OsalDbg
  imports CFormat OsCore
begin

text \<open>
  The debug output of the portability layer, \<open>src/osal/cv_osal_dbg.c\<close> and \<open>src/include/cv_osal_dbg.h\<close>: printing with optional time stamps and system log,
  the table of debug levels, and the two hexadecimal dumps.

  The state is that of the two static variables together with what was written to the standard streams and to the log.  Text that a caller formats is given
  as it comes out of \<open>vprintf\<close>.  \<open>tv\<close> gives what the local variable of \<open>cv_debug_print_timestamp\<close> holds after the
  i-th reading of the clock, whether or not the reading succeeded.
\<close>

abbreviation NL :: char where "NL \<equiv> CHR 0x0A"
abbreviation CR :: char where "CR \<equiv> CHR 0x0D"

section \<open>Printing\<close>

record dbg_sys =
  cv_debug_syslog :: int
  cv_debug_timestamp :: int
  clock_reads :: nat
  out_text :: string
  err_text :: string
  log_open :: bool
  logged :: "(int \<times> string) list"

type_synonym tv_of = "nat \<Rightarrow> int \<times> 32 word"

definition dbg_initial :: dbg_sys where
  "dbg_initial = \<lparr>cv_debug_syslog = 0, cv_debug_timestamp = 0, clock_reads = 0, out_text = [], err_text = [], log_open = False, logged = []\<rparr>"

definition put :: "string \<Rightarrow> dbg_sys \<Rightarrow> dbg_sys" where
  "put text s = s\<lparr>out_text := out_text s @ text\<rparr>"

definition cv_debug_print_timestamp :: "tv_of \<Rightarrow> dbg_sys \<Rightarrow> dbg_sys" where
  "cv_debug_print_timestamp tv s =
     (if cv_debug_timestamp s = 0 then s
      else let (sec, usec) = tv (clock_reads s);
               s = s\<lparr>clock_reads := clock_reads s + 1\<rparr>
           in put (''('' @ format_d 1 sec @ ''.'' @ format_d 6 (uint usec) @ ''): '') s)"

definition cv_debug_open_syslog :: "dbg_sys \<Rightarrow> dbg_sys" where
  "cv_debug_open_syslog s = s\<lparr>log_open := True, cv_debug_syslog := cv_debug_syslog s + 1\<rparr>"

definition cv_debug_close_syslog :: "dbg_sys \<Rightarrow> dbg_sys" where
  "cv_debug_close_syslog s = (if cv_debug_syslog s \<noteq> 0 then s\<lparr>log_open := False\<rparr> else s)"

definition OSAL_DEBUG_OFF :: int where "OSAL_DEBUG_OFF = 0"
definition OSAL_DEBUG_ERROR :: int where "OSAL_DEBUG_ERROR = 1"
definition OSAL_DEBUG_WARN :: int where "OSAL_DEBUG_WARN = 2"
definition OSAL_DEBUG_INFO :: int where "OSAL_DEBUG_INFO = 3"
definition OSAL_DEBUG_TRACE :: int where "OSAL_DEBUG_TRACE = 4"
definition OSAL_DEBUG_LOUD :: int where "OSAL_DEBUG_LOUD = 5"

text \<open>The priorities of the log: 3 error, 4 warning, 5 notice, 6 info, 7 debug.\<close>

definition syslog_priority :: "int \<Rightarrow> int" where
  "syslog_priority level =
     (if level = OSAL_DEBUG_LOUD \<or> level = OSAL_DEBUG_TRACE then 7
      else if level = OSAL_DEBUG_INFO then 5
      else if level = OSAL_DEBUG_WARN then 4
      else if level = OSAL_DEBUG_ERROR then 3
      else 6)"

definition osal_printf :: "tv_of \<Rightarrow> string \<Rightarrow> dbg_sys \<Rightarrow> dbg_sys" where
  "osal_printf tv text s = put text (cv_debug_print_timestamp tv s)"

text \<open>\<open>vprintf\<close> and \<open>vsyslog\<close> walk over the same argument list; the second walk of a list that is not empty is undefined.\<close>

definition osal_syslog :: "int \<Rightarrow> string \<Rightarrow> nat \<Rightarrow> dbg_sys \<Rightarrow> dbg_sys option" where
  "osal_syslog level text args s =
     (let s = put text s
      in if cv_debug_syslog s = 0 then Some s
         else if 0 < args then None
         else Some (s\<lparr>logged := logged s @ [(syslog_priority level, text)]\<rparr>))"

text \<open>The text is built in an array of 1000 bytes.\<close>

definition osal_printf_unbuf :: "tv_of \<Rightarrow> string \<Rightarrow> dbg_sys \<Rightarrow> dbg_sys option" where
  "osal_printf_unbuf tv text s =
     (if 1000 \<le> length text then None
      else let s = cv_debug_print_timestamp tv s in Some (s\<lparr>err_text := err_text s @ text\<rparr>))"

section \<open>Levels\<close>

text \<open>An entry of the table is the name of a module and its handler, which may be missing.  The macro that
  adds a module to the table is empty in the file that holds the table, so the table is.\<close>

type_synonym debug_entry = "string \<times> nat option"

definition debug_entry_table :: "debug_entry list" where
  "debug_entry_table = []"

text \<open>The result and the call made to a handler.\<close>

fun osal_dbg_set_level :: "debug_entry list \<Rightarrow> string \<Rightarrow> int \<Rightarrow> int \<times> (nat \<times> int) option" where
  "osal_dbg_set_level [] m level = (0, None)"
| "osal_dbg_set_level ((name, handler) # es) m level =
     (if m = name then (case handler of Some h \<Rightarrow> (1, Some (h, level)) | None \<Rightarrow> osal_dbg_set_level es m level)
      else osal_dbg_set_level es m level)"

definition osal_debug_level_str :: "string list" where
  "osal_debug_level_str = ['''', ''ERR'', ''W'', ''I'', ''T'', ''L'']"

definition osal_module_dbgprt :: "tv_of \<Rightarrow> int \<Rightarrow> string \<Rightarrow> int \<Rightarrow> string \<Rightarrow> dbg_sys \<Rightarrow> dbg_sys option" where
  "osal_module_dbgprt tv module_level m level text s =
     (if OSAL_DEBUG_OFF < level \<and> level \<le> module_level then
        (if length osal_debug_level_str \<le> nat level then None
         else Some (osal_printf tv (''['' @ osal_debug_level_str ! nat level @ '']'' @ m @ '': '' @ text) s))
      else Some s)"

section \<open>Dumps\<close>

definition LINE_WIDTH :: nat where "LINE_WIDTH = 16"

fun dump_header :: "tv_of \<Rightarrow> nat \<Rightarrow> nat \<Rightarrow> dbg_sys \<Rightarrow> dbg_sys" where
  "dump_header tv i 0 s = s"
| "dump_header tv i (Suc n) s = dump_header tv (Suc i) n (osal_printf tv (format_x 2 i @ '' '') s)"

fun dump_loop :: "tv_of \<Rightarrow> byte list \<Rightarrow> nat \<Rightarrow> nat \<Rightarrow> dbg_sys \<Rightarrow> dbg_sys option" where
  "dump_loop tv p i 0 s = Some s"
| "dump_loop tv p i (Suc n) s =
     (let s = (if i mod LINE_WIDTH = 0 then osal_printf tv (NL # '' '' @ format_x 4 i @ ''| '') s else s)
      in if length p \<le> i then None
         else dump_loop tv p (Suc i) n (osal_printf tv (format_x 2 (unat (p ! i)) @ '' '') s))"

text \<open>The index is an \<open>int\<close>: a length above its largest value makes it overflow.\<close>

definition osal_dbg_dump_data :: "tv_of \<Rightarrow> byte list \<Rightarrow> 32 word \<Rightarrow> dbg_sys \<Rightarrow> dbg_sys option" where
  "osal_dbg_dump_data tv p len s =
     (if 0 < len then
        (if 2147483647 < unat len then None
         else do {
           let s = osal_printf tv (''====================== dump data ======================'' @ [NL]) s;
           let s = osal_printf tv '' Addr| '' s;
           let s = dump_header tv 0 LINE_WIDTH s;
           let s = osal_printf tv (NL # '' -----------------------------------------------------'') s;
           s \<leftarrow> dump_loop tv p 0 (unat len) s;
           Some (osal_printf tv (NL # ''======================== end =========================='' @ [NL]) s) })
      else Some s)"

fun buf_loop :: "byte list \<Rightarrow> nat \<Rightarrow> nat \<Rightarrow> nat \<Rightarrow> dbg_sys \<Rightarrow> dbg_sys option" where
  "buf_loop pbuf i j 0 s = Some s"
| "buf_loop pbuf i j (Suc n) s =
     (let (j, s) = (if i mod 16 = 0 then (0, put [CR, NL] s) else (j, s))
      in if length pbuf \<le> i then None
         else let s = put (format_x 2 (unat (pbuf ! i)) @ '' '') s;
                  j = j + 1;
                  s = (if j = 8 then put '' '' s else s)
              in buf_loop pbuf (Suc i) j n s)"

definition dbg_buf_print :: "byte list \<Rightarrow> 32 word \<Rightarrow> dbg_sys \<Rightarrow> dbg_sys option" where
  "dbg_buf_print pbuf len s = do {
     let s = put ''================================================='' s;
     s \<leftarrow> buf_loop pbuf 0 0 (unat len) s;
     Some (put [CR, NL, NL] s) }"

section \<open>The dumps as text\<close>

lemma put_append [simp]: "put t (put u s) = put (u @ t) s"
  by (simp add: put_def)

lemma put_Nil [simp]: "put [] s = s"
  by (simp add: put_def)

lemma put_sel [simp]: "cv_debug_timestamp (put t s) = cv_debug_timestamp s" "out_text (put t s) = out_text s @ t"
  by (simp_all add: put_def)

lemma printf_plain [simp]: "cv_debug_timestamp s = 0 \<Longrightarrow> osal_printf tv t s = put t s"
  by (simp add: osal_printf_def cv_debug_print_timestamp_def)

definition hex_item :: "byte \<Rightarrow> string" where
  "hex_item b = format_x 2 (unat b) @ '' ''"

text \<open>Rows of sixteen bytes: with the offset in front, and in two groups of eight.\<close>

fun rows :: "nat \<Rightarrow> byte list \<Rightarrow> (nat \<times> byte list) list" where
  "rows off bs = (if bs = [] then [] else (off, take 16 bs) # rows (off + 16) (drop 16 bs))"

declare rows.simps [simp del]

definition hex_row :: "nat \<times> byte list \<Rightarrow> string" where
  "hex_row = (\<lambda>(off, bs). NL # '' '' @ format_x 4 off @ ''| '' @ concat (map hex_item bs))"

definition group_row :: "nat \<times> byte list \<Rightarrow> string" where
  "group_row = (\<lambda>(off, bs). [CR, NL] @ concat (map hex_item (take 8 bs)) @
     (if 8 \<le> length bs then '' '' else '''') @ concat (map hex_item (drop 8 bs)))"

definition dump_text :: "byte list \<Rightarrow> string" where
  "dump_text bs =
     ''====================== dump data ======================'' @ [NL] @
     '' Addr| 00 01 02 03 04 05 06 07 08 09 0a 0b 0c 0d 0e 0f '' @ [NL] @
     '' -----------------------------------------------------'' @ concat (map hex_row (rows 0 bs)) @ [NL] @
     ''======================== end =========================='' @ [NL]"

definition buf_text :: "byte list \<Rightarrow> string" where
  "buf_text bs = ''================================================='' @ concat (map group_row (rows 0 bs)) @ [CR, NL, NL]"

text \<open>What the loops print for one index.\<close>

definition dump_at :: "byte list \<Rightarrow> nat \<Rightarrow> string" where
  "dump_at p i = (if i mod 16 = 0 then NL # '' '' @ format_x 4 i @ ''| '' else '''') @ hex_item (p ! i)"

definition buf_at :: "byte list \<Rightarrow> nat \<Rightarrow> string" where
  "buf_at p i = (if i mod 16 = 0 then [CR, NL] else '''') @ hex_item (p ! i) @ (if i mod 16 = 7 then '' '' else '''')"

lemma dump_loop_text:
  "cv_debug_timestamp s = 0 \<Longrightarrow> dump_loop tv p i n s =
     (if i + n \<le> length p \<or> n = 0 then Some (put (concat (map (dump_at p) [i..<i + n])) s) else None)"
proof (induction n arbitrary: i s)
  case (Suc n)
  have upt: "[i..<i + Suc n] = i # [Suc i..<Suc i + n]" by (simp add: upt_conv_Cons)
  have step: "dump_loop tv p i (Suc n) s = (if length p \<le> i then None else dump_loop tv p (Suc i) n (put (dump_at p i) s))"
    using Suc.prems by (simp add: dump_at_def hex_item_def LINE_WIDTH_def Let_def)
  have plain: "cv_debug_timestamp (put (dump_at p i) s) = 0" using Suc.prems by simp
  show ?case unfolding step Suc.IH [OF plain] upt by (simp del: upt_Suc)
qed simp

lemma buf_loop_text:
  "j = i mod 16 \<or> i mod 16 = 0 \<Longrightarrow> buf_loop p i j n s =
     (if i + n \<le> length p \<or> n = 0 then Some (put (concat (map (buf_at p) [i..<i + n])) s) else None)"
proof (induction n arbitrary: i j s)
  case (Suc n)
  have upt: "[i..<i + Suc n] = i # [Suc i..<Suc i + n]" by (simp add: upt_conv_Cons)
  define j' where "j' = (if i mod 16 = 0 then 0 else j)"
  have j': "j' = i mod 16" using Suc.prems by (auto simp: j'_def)
  have next': "Suc j' = Suc i mod 16 \<or> Suc i mod 16 = 0" unfolding j' by (simp add: mod_Suc)
  have "j' + 1 = 8 \<longleftrightarrow> i mod 16 = 7" unfolding j' by auto
  then have step: "buf_loop p i j (Suc n) s = (if length p \<le> i then None else buf_loop p (Suc i) (Suc j') n (put (buf_at p i) s))"
    by (auto simp: buf_at_def hex_item_def j'_def Let_def)
  show ?case unfolding step Suc.IH [OF next'] upt by (simp del: upt_Suc)
qed simp

text \<open>A block of at most sixteen indices from a multiple of sixteen on prints a row.\<close>

lemma hex_items: "m \<le> n \<Longrightarrow> n \<le> length bs \<Longrightarrow> concat (map (\<lambda>k. hex_item (bs ! k)) [m..<n]) = concat (map hex_item (drop m (take n bs)))"
proof -
  assume "m \<le> n" "n \<le> length bs"
  then have "map (\<lambda>k. hex_item (bs ! k)) [m..<n] = map hex_item (drop m (take n bs))" by (intro nth_equalityI) simp_all
  then show ?thesis by simp
qed

lemma concat_first: "0 < m \<Longrightarrow> concat (map (\<lambda>k. (if k = 0 then h else []) @ f k) [0..<m]) = h @ concat (map f [0..<m])"
proof -
  assume "0 < m"
  then have m: "[0..<m] = 0 # [1..<m]" by (simp add: upt_conv_Cons)
  have rest: "map (\<lambda>k. (if k = 0 then h else []) @ f k) [1..<m] = map f [1..<m]" by simp
  show ?thesis unfolding m list.map(2) rest by simp
qed

lemma concat_mark:
  "concat (map (\<lambda>k. f k @ (if k = 7 then t else [])) [0..<m]) =
     concat (map f [0..<min 8 m]) @ (if 8 \<le> m then t else []) @ concat (map f [min 8 m..<m])"
proof (cases "8 \<le> m")
  case True
  have split: "[0..<m] = [0..<7] @ 7 # [8..<m]" and eight: "[0..<8] = [0..<7] @ [7]"
    using True upt_add_eq_append [of 0 7 "m - 7"] by (simp_all add: upt_conv_Cons upt_rec)
  have low: "map (\<lambda>k. f k @ (if k = 7 then t else [])) [0..<7] = map f [0..<7]"
    and high: "map (\<lambda>k. f k @ (if k = 7 then t else [])) [8..<m] = map f [8..<m]" by simp_all
  have "concat (map (\<lambda>k. f k @ (if k = 7 then t else [])) [0..<m]) = concat (map f [0..<7]) @ f 7 @ t @ concat (map f [8..<m])"
    unfolding split map_append list.map(2) low high by simp
  moreover have "concat (map f [0..<8]) = concat (map f [0..<7]) @ f 7" unfolding eight by simp
  ultimately show ?thesis using True by simp
next
  case False
  then have same: "map (\<lambda>k. f k @ (if k = 7 then t else [])) [0..<m] = map f [0..<m]" by simp
  show ?thesis unfolding same using False by simp
qed

lemma block_index: "off mod 16 = 0 \<Longrightarrow> k < 16 \<Longrightarrow> (off + k) mod 16 = (k::nat)"
  by (metis add.left_neutral mod_add_left_eq mod_less)

lemma dump_block:
  assumes "off mod 16 = 0" "length pre = off" "0 < m" "m \<le> 16" "m \<le> length bs"
  shows "concat (map (dump_at (pre @ bs)) [off..<off + m]) = hex_row (off, take m bs)"
proof -
  have "map (dump_at (pre @ bs)) [off..<off + m] =
      map (\<lambda>k. (if k = 0 then NL # '' '' @ format_x 4 off @ ''| '' else '''') @ hex_item (bs ! k)) [0..<m]"
    using assms by (intro nth_equalityI) (simp_all add: dump_at_def block_index nth_append)
  then show ?thesis
    using assms(5) by (simp only: concat_first [OF assms(3)] hex_items [of 0 m]) (simp add: hex_row_def)
qed

lemma buf_block:
  assumes "off mod 16 = 0" "length pre = off" "0 < m" "m \<le> 16" "m \<le> length bs"
  shows "concat (map (buf_at (pre @ bs)) [off..<off + m]) = group_row (off, take m bs)"
proof -
  have "map (buf_at (pre @ bs)) [off..<off + m] =
      map (\<lambda>k. (if k = 0 then [CR, NL] else '''') @ hex_item (bs ! k) @ (if k = 7 then '' '' else '''')) [0..<m]"
    using assms by (intro nth_equalityI) (simp_all add: buf_at_def block_index nth_append)
  moreover have "concat (map (\<lambda>k. hex_item (bs ! k) @ (if k = 7 then '' '' else '''')) [0..<m]) =
      concat (map hex_item (take 8 (take m bs))) @ (if 8 \<le> m then '' '' else '''') @ concat (map hex_item (drop 8 (take m bs)))"
    using assms(5) hex_items [of 0 "min 8 m" bs] hex_items [of "min 8 m" m bs]
    unfolding concat_mark by (cases "8 \<le> m") (simp_all add: min_def)
  ultimately show ?thesis
    using assms(5) by (simp only: concat_first [OF assms(3)]) (simp add: group_row_def)
qed

lemma rows_text:
  assumes block: "\<And>off pre m bs. off mod 16 = 0 \<Longrightarrow> length pre = off \<Longrightarrow> 0 < m \<Longrightarrow> m \<le> 16 \<Longrightarrow> m \<le> length bs \<Longrightarrow>
     concat (map (at (pre @ bs)) [off..<off + m]) = row (off, take m bs)"
  shows "off mod 16 = 0 \<Longrightarrow> length pre = off \<Longrightarrow> concat (map (at (pre @ bs)) [off..<off + length bs]) = concat (map row (rows off bs))"
proof (induction off bs arbitrary: pre rule: rows.induct)
  case (1 off bs)
  define m where "m = min 16 (length bs)"
  show ?case
  proof (cases "bs = []")
    case False
    have split: "[off..<off + length bs] = [off..<off + m] @ [off + m..<off + m + length (drop m bs)]"
      using upt_add_eq_append [of off "off + m" "length bs - m"] by (simp add: m_def)
    have take: "take 16 bs = take m bs" "m \<le> length bs" "0 < m" "m \<le> 16" using False by (auto simp: m_def min_def)
    have first: "concat (map (at (pre @ bs)) [off..<off + m]) = row (off, take 16 bs)"
      using block [OF "1.prems" take(3,4,2)] take(1) by simp
    have rest: "concat (map (at (pre @ bs)) [off + m..<off + m + length (drop m bs)]) = concat (map row (rows (off + 16) (drop 16 bs)))"
    proof (cases "length bs \<le> 16")
      case True
      then show ?thesis by (simp add: m_def rows.simps [of _ "[]"])
    next
      case long: False
      then have m: "m = 16" by (simp add: m_def)
      have "concat (map (at ((pre @ take 16 bs) @ drop 16 bs)) [off + 16..<off + 16 + length (drop 16 bs)]) =
          concat (map row (rows (off + 16) (drop 16 bs)))"
        by (rule "1.IH" [OF False]) (use "1.prems" long in \<open>simp_all add: mod_add_right_eq\<close>)
      then show ?thesis by (simp only: m append_assoc append_take_drop_id)
    qed
    show ?thesis unfolding split map_append concat_append first rest by (simp add: rows.simps [of off bs] False)
  qed (simp add: rows.simps)
qed

lemmas dump_rows = rows_text [where at = dump_at and row = hex_row, OF dump_block, of 0 "[]", simplified]
lemmas buf_rows = rows_text [where at = buf_at and row = group_row, OF buf_block, of 0 "[]", simplified]

section \<open>Properties\<close>

lemma dump_header_plain:
  "cv_debug_timestamp s = 0 \<Longrightarrow> dump_header tv i n s = put (concat (map (\<lambda>k. format_x 2 k @ '' '') [i..<i + n])) s"
proof (induction n arbitrary: i s)
  case (Suc n)
  have upt: "[i..<i + Suc n] = i # [Suc i..<Suc i + n]" by (simp add: upt_conv_Cons)
  have "cv_debug_timestamp (put (format_x 2 i @ '' '') s) = 0" using Suc.prems by simp
  from Suc.IH [OF this] Suc.prems show ?case unfolding upt by (simp del: upt_Suc)
qed simp

lemma header_text: "concat (map (\<lambda>k. format_x 2 k @ '' '') [0..<LINE_WIDTH]) = ''00 01 02 03 04 05 06 07 08 09 0a 0b 0c 0d 0e 0f ''"
  by code_simp

lemma rows_take:
  assumes "n \<le> length p"
  shows "concat (map (dump_at p) [0..<n]) = concat (map hex_row (rows 0 (take n p)))"
    "concat (map (buf_at p) [0..<n]) = concat (map group_row (rows 0 (take n p)))"
proof -
  have "map (dump_at p) [0..<n] = map (dump_at (take n p)) [0..<n]" "map (buf_at p) [0..<n] = map (buf_at (take n p)) [0..<n]"
    by (simp_all add: dump_at_def buf_at_def)
  moreover have "length (take n p) = n" using assms by simp
  ultimately show "concat (map (dump_at p) [0..<n]) = concat (map hex_row (rows 0 (take n p)))"
    "concat (map (buf_at p) [0..<n]) = concat (map group_row (rows 0 (take n p)))"
    using dump_rows [of "take n p"] buf_rows [of "take n p"] by (simp_all only:)
qed

lemma dump_data_text:
  assumes "cv_debug_timestamp s = 0" "0 < unat len" "unat len \<le> 2147483647"
  shows "osal_dbg_dump_data tv p len s = (if unat len \<le> length p then Some (put (dump_text (take (unat len) p)) s) else None)"
proof -
  have len: "0 < len" using assms(2) by (simp add: word_greater_zero_iff unat_gt_0)
  have loop: "dump_loop tv p 0 (unat len) (put t s) =
      (if unat len \<le> length p then Some (put (t @ concat (map hex_row (rows 0 (take (unat len) p)))) s) else None)" for t
    using assms(1,2) rows_take(1) [of "unat len" p] by (simp add: dump_loop_text)
  have header: "dump_header tv 0 LINE_WIDTH (put t s) = put (t @ ''00 01 02 03 04 05 06 07 08 09 0a 0b 0c 0d 0e 0f '') s" for t
    using assms(1) header_text by (simp add: dump_header_plain)
  show ?thesis
    using len assms(1,3) by (simp add: osal_dbg_dump_data_def header loop dump_text_def del: dump_header.simps dump_loop.simps)
qed

lemma buf_print_text:
  assumes "0 < unat len"
  shows "dbg_buf_print p len s = (if unat len \<le> length p then Some (put (buf_text (take (unat len) p)) s) else None)"
proof -
  have loop: "buf_loop p 0 0 (unat len) (put t s) =
      (if unat len \<le> length p then Some (put (t @ concat (map group_row (rows 0 (take (unat len) p)))) s) else None)" for t
    using assms rows_take(2) [of "unat len" p] by (simp add: buf_loop_text)
  show ?thesis by (simp add: dbg_buf_print_def loop buf_text_def del: buf_loop.simps)
qed

text \<open>C34: the dumps.  With time stamps off, the two routines, which work byte by byte with a running index, print exactly the table a reader expects: a line per
  sixteen bytes, with the offset in front in the one and in two groups of eight in the other; the last line may be short.  A length that exceeds the buffer
  makes both read outside it.\<close>

theorem dbg_dump_text:
  assumes "cv_debug_timestamp s = 0" "0 < unat len" "unat len \<le> 2147483647"
  shows "osal_dbg_dump_data tv p len s = (if unat len \<le> length p then Some (put (dump_text (take (unat len) p)) s) else None) \<and>
    dbg_buf_print p len s = (if unat len \<le> length p then Some (put (buf_text (take (unat len) p)) s) else None)"
  using dump_data_text [OF assms] buf_print_text [OF assms(2)] by blast

theorem dbg_dump_text_witness:
  "cv_debug_timestamp dbg_initial = 0 \<and> 0 < unat (9 :: 32 word) \<and> unat (9 :: 32 word) \<le> 2147483647 \<and>
   dbg_buf_print (0x1F # replicate 8 0xAB) 9 dbg_initial =
     Some (put (''================================================='' @ [CR, NL] @
       ''1f ab ab ab ab ab ab ab  ab '' @ [CR, NL, NL]) dbg_initial)"
proof -
  have h: "cv_debug_timestamp dbg_initial = 0" "0 < unat (9 :: 32 word)" "unat (9 :: 32 word) \<le> 2147483647"
    by (simp_all add: dbg_initial_def)
  have t: "buf_text (0x1F # replicate 8 0xAB) = ''================================================='' @ [CR, NL] @
      ''1f ab ab ab ab ab ab ab  ab '' @ [CR, NL, NL]"
    by code_simp
  from dbg_dump_text [OF h, of undefined "0x1F # replicate 8 0xAB"] h t show ?thesis by simp
qed

text \<open>Debug levels.  A message is printed exactly when its level is above 0 and not above the level of the module, and then only if it is one of the
  five levels that have a name; a higher one reads behind the table of names.  Levels cannot be changed at run time: in the
  build the table of modules is empty and every request is refused.\<close>

lemma debug_level_filter:
  assumes "cv_debug_timestamp s = 0"
  shows "osal_module_dbgprt tv l m level text s =
      (if level \<le> 0 \<or> l < level then Some s
       else if 6 \<le> level then None
       else Some (put (''['' @ osal_debug_level_str ! nat level @ '']'' @ m @ '': '' @ text) s)) \<and>
    osal_dbg_set_level debug_entry_table m level = (0, None)"
  using assms by (auto simp: osal_module_dbgprt_def OSAL_DEBUG_OFF_def osal_debug_level_str_def debug_entry_table_def)

end
