(* ===== verification/MainProg.thy ===== *)
theory MainProg
  imports UsbTo322Correct OsalIpc OsalDbg
begin

text \<open>
  The program, \<open>src/app/sys/main.c\<close>: clearing the global objects (\<open>src/include/queue_msg.h\<close> and the controller), starting the readers, and then
  sleeping for ever.  The endless loop is run for a given number of rounds; each round's element is the time \<open>select\<close> is asked
  to wait.  The message manager, \<open>src/app/sys/msg_manager.c\<close>, only takes an address.
\<close>

record usb_var =
  task_usb_r :: ptr
  task_usb_w :: ptr
  queue_usb :: ptr

record acl_var =
  task_acl :: ptr
  queue_acl :: ptr

record acl_local =
  task_acl_l :: ptr
  queue_acl_l :: ptr

record network =
  task_net :: ptr
  queue_net :: ptr

record eg_global_var =
  g_usb :: usb_var
  g_acl_l :: acl_local
  g_acl :: acl_var
  g_net :: network

text \<open>The global objects and whether the pointers to them are set.\<close>

record pc_sys =
  eg_envar :: eg_global_var
  p_eg_envar :: bool
  p_controll_eg :: bool
  board :: eg_sys

definition zero_envar :: eg_global_var where
  "zero_envar = \<lparr>g_usb = \<lparr>task_usb_r = None, task_usb_w = None, queue_usb = None\<rparr>, g_acl_l = \<lparr>task_acl_l = None, queue_acl_l = None\<rparr>,
     g_acl = \<lparr>task_acl = None, queue_acl = None\<rparr>, g_net = \<lparr>task_net = None, queue_net = None\<rparr>\<rparr>"

definition global_init :: "pc_sys \<Rightarrow> pc_sys" where
  "global_init s =
     (let s = s\<lparr>p_eg_envar := True\<rparr>;
          s = s\<lparr>eg_envar := zero_envar\<rparr>;
          s = s\<lparr>p_controll_eg := True\<rparr>
      in s\<lparr>board := (board s)\<lparr>controll_eg := zero_controller\<rparr>\<rparr>)"

fun main_loop :: "nat \<Rightarrow> (int \<times> int) list" where
  "main_loop 0 = []"
| "main_loop (Suc n) = osal_sleep 1000 # main_loop n"

definition main :: "'w luareader \<Rightarrow> (nat \<Rightarrow> thread_env) \<Rightarrow> (nat \<Rightarrow> env) \<Rightarrow> nat \<Rightarrow> 'w \<Rightarrow> pc_sys \<Rightarrow> ((int \<times> int) list \<times> pc_sys \<times> 'w) option" where
  "main lr tenv env n w s = do {
     let s = global_init s;
     (b, w) \<leftarrow> eg_usbto322_init lr tenv env w (board s);
     Some (main_loop n, s\<lparr>board := b\<rparr>, w) }"

definition msg_manager_init :: "pc_sys \<Rightarrow> pc_sys" where
  "msg_manager_init s = s"

definition FIRMWARE_VERSION :: string where "FIRMWARE_VERSION = ''V2.0.000''"
definition FIRMWARE_IDEN :: string where "FIRMWARE_IDEN = ''dbg''"

definition get_version :: "tv_of \<Rightarrow> string \<Rightarrow> string \<Rightarrow> dbg_sys \<Rightarrow> dbg_sys" where
  "get_version tv time date s =
     osal_printf tv (NL # ''Firm: '' @ FIRMWARE_VERSION @ ''['' @ FIRMWARE_IDEN @ '','' @ time @ '' '' @ date @ '']'' @ [NL, NL]) s"

section \<open>Properties\<close>

text \<open>Only the parts that start-up does not clear are those of a fresh process; the controller and the globals may hold anything.\<close>

definition fresh_process :: "pc_sys \<Rightarrow> bool" where
  "fresh_process s \<longleftrightarrow> (\<exists>c. board s = boot_sys\<lparr>controll_eg := c\<rparr>)"

lemma global_init_boot: "fresh_process s \<Longrightarrow> board (global_init s) = boot_sys"
  by (auto simp: fresh_process_def global_init_def boot_sys_def Let_def)


definition pc_t :: pc_sys where
  "pc_t = \<lparr>eg_envar = zero_envar, p_eg_envar = False, p_controll_eg = False, board = boot_sys\<lparr>controll_eg := zero_controller\<lparr>sys_ctrl := 9\<rparr>\<rparr>\<rparr>"


end
