(* ===== verification/ControllerWf.thy ===== *)
theory ControllerWf
  imports MainProg Eg9531
begin

text \<open>
  The controller object under all operations that write to it: clearing and start-up (\<open>src/app/sys/main.c\<close>, \<open>eg_usbto322.c\<close>), the timer callback of a reader, and the reader of the
  configuration file (\<open>eg_9531.c\<close>), in any order.  The invariant is what the declarations of \<open>src/include/cv_cms_def.h\<close> and the code that reads the object take for granted.
\<close>

section \<open>Well-formed controllers\<close>

text \<open>The port name is a string in its array of 16 bytes, the index is one of the four readers, and the two counters of the timer stay below the limits at which it resets them.\<close>

definition ccid_wf :: "usb_ccid_322 \<Rightarrow> bool" where
  "ccid_wf p \<longleftrightarrow> length (usb_port p) = 16 \<and> NUL \<in> set (usb_port p) \<and> unat (ccid322_index p) < MAX_322_NUM \<and>
     toggle p \<le> 10 \<and> toggle_transmit p \<le> 8"

definition controller_wf :: "controller \<Rightarrow> bool" where
  "controller_wf c \<longleftrightarrow> length (usb_ccid_322s c) = MAX_322_NUM \<and> list_all ccid_wf (usb_ccid_322s c) \<and>
     length (door_cfg c) = 4 \<and> list_all (\<lambda>d. length (cfg_time_door d) = 8) (door_cfg c) \<and> length (reader_cfgs c) = 8"

text \<open>The operations.  The timer callback of reader \<open>k\<close> gets a pointer to its entry.\<close>

inductive ctl_step :: "'w luareader \<Rightarrow> controller \<Rightarrow> controller \<Rightarrow> bool" for lr where
  clear: "ctl_step lr (controll_eg (board s)) (controll_eg (board (global_init s)))"
| start: "eg_usbto322_init lr tenv env w s = Some (s', w') \<Longrightarrow> ctl_step lr (controll_eg s) (controll_eg s')"
| tick: "k < length (usb_ccid_322s c) \<Longrightarrow>
    ctl_step lr c (c\<lparr>usb_ccid_322s := (usb_ccid_322s c)[k := timer_usb_callback (usb_ccid_322s c ! k)]\<rparr>)"
| config: "cfg_reader_RD e filename file c = Some (r, c', cmds) \<Longrightarrow> ctl_step lr c c'"

inductive_cases ctl_stepE: "ctl_step lr c c'"

section \<open>Every operation keeps the controller well-formed\<close>

lemma zero_controller_wf: "controller_wf zero_controller"
  by (simp add: controller_wf_def zero_controller_def zero_ccid_def zero_door_def ccid_wf_def MAX_322_NUM_def list_all_iff)

lemma alloc_range: "0 \<le> alloc_322_index p \<Longrightarrow> nat (alloc_322_index p) < MAX_322_NUM"
proof (cases "p \<in> set usb_port_def")
  case True
  then obtain k where k: "k < length usb_port_def" "p = usb_port_def ! k" by (auto simp: in_set_conv_nth)
  then have "k < 4" by (simp add: usb_port_def_def)
  with alloc_port [of k] k(2) show ?thesis by (simp add: MAX_322_NUM_def)
qed (simp add: alloc_unknown)

lemma strcpy_field_wf: "strcpy_field buf s = Some buf' \<Longrightarrow> length buf' = length buf \<and> NUL \<in> set buf'"
  by (auto simp: strcpy_field_def split: if_splits)

lemma init_device_wf:
  assumes "init_device tenv env d s = Some s'" "controller_wf (controll_eg s)"
  shows "controller_wf (controll_eg s')"
proof -
  let ?i = "alloc_322_index (c_str d)" and ?rs = "usb_ccid_322s (controll_eg s)"
  from assms(1) obtain port tmr where i: "0 \<le> ?i" and port: "strcpy_field (usb_port (?rs ! nat ?i)) (c_str d) = Some port"
    and c: "controll_eg s' = (controll_eg s)\<lparr>usb_ccid_322s := ?rs[nat ?i := (?rs ! nat ?i)\<lparr>ccid322_index := word_of_int ?i,
      usb_state := USB_COMM_STATE_INIT, ccid322_exist := 1, usb_port := port, timer_322 := tmr\<rparr>]\<rparr>"
    by (auto simp: init_device_def Let_def bind_eq_Some_conv not_less split: if_splits)
  note k = alloc_range [OF i]
  have "ccid_wf (?rs ! nat ?i)" using assms(2) k by (simp add: controller_wf_def list_all_length)
  moreover have "unat (word_of_int ?i :: byte) = nat ?i"
    using k i by (simp add: MAX_322_NUM_def unat_eq_nat_uint unsigned_of_int take_bit_int_eq_self del: nat_uint_eq)
  ultimately have "ccid_wf ((?rs ! nat ?i)\<lparr>ccid322_index := word_of_int ?i, usb_state := USB_COMM_STATE_INIT, ccid322_exist := 1, usb_port := port, timer_322 := tmr\<rparr>)"
    using strcpy_field_wf [OF port] k by (simp add: ccid_wf_def)
  then show ?thesis using assms(2) by (simp add: c controller_wf_def list_all_update)
qed

lemma init_devices_wf:
  "init_devices tenv env i ds s = Some s' \<Longrightarrow> controller_wf (controll_eg s) \<Longrightarrow> controller_wf (controll_eg s')"
  by (induction tenv env i ds s rule: init_devices.induct) (auto simp: bind_eq_Some_conv dest: init_device_wf)

lemma usbto322_init_wf:
  "eg_usbto322_init lr tenv env w s = Some (s', w') \<Longrightarrow> controller_wf (controll_eg s) \<Longrightarrow> controller_wf (controll_eg s')"
  by (auto simp: eg_usbto322_init_def bind_eq_Some_conv dest: init_devices_wf split: prod.splits if_splits)

lemma timer_callback_wf: "ccid_wf p \<Longrightarrow> ccid_wf (timer_usb_callback p)"
proof -
  assume p: "ccid_wf p"
  have "toggle p < 10 \<Longrightarrow> toggle p + 1 \<le> 10" "toggle_transmit p < 8 \<Longrightarrow> toggle_transmit p + 1 \<le> 8"
    by (auto intro: inc_le)
  with p show ?thesis by (auto simp: ccid_wf_def timer_usb_callback_def Let_def not_le)
qed

lemma tick_wf:
  assumes "controller_wf c" "k < length (usb_ccid_322s c)"
  shows "controller_wf (c\<lparr>usb_ccid_322s := (usb_ccid_322s c)[k := timer_usb_callback (usb_ccid_322s c ! k)]\<rparr>)"
proof -
  have "ccid_wf (usb_ccid_322s c ! k)" using assms by (simp add: controller_wf_def list_all_length)
  with assms(1) show ?thesis by (simp add: controller_wf_def list_all_update timer_callback_wf)
qed

lemma cfg_reader_wf: "cfg_reader_RD e filename file c = Some (r, c', cmds) \<Longrightarrow> controller_wf c \<Longrightarrow> controller_wf c'"
  using cfg_reader_RD_spec [of c e filename] by (cases "file") (auto simp: controller_wf_def)

lemma ctl_step_wf: "ctl_step lr c c' \<Longrightarrow> controller_wf c \<Longrightarrow> controller_wf c'"
  by (erule ctl_stepE) (auto simp: global_init_def zero_controller_wf intro: usbto322_init_wf tick_wf cfg_reader_wf)

text \<open>C20: the controller object.  From the cleared object on, after any number of start-ups, timer callbacks, configurations and
  clearings in any order, every array of the controller has its declared length, every port name is a string in its array, every
  index is that of a reader, and the counters of the timer are below their limits.\<close>

theorem controller_typed:
  assumes "(ctl_step lr)\<^sup>*\<^sup>* zero_controller c"
  shows "controller_wf c"
  using assms by (induction rule: rtranclp_induct) (auto intro: zero_controller_wf ctl_step_wf)

theorem controller_typed_witness:
  "controller_wf (zero_controller\<lparr>usb_ccid_322s := (usb_ccid_322s zero_controller)[2 := timer_usb_callback zero_ccid]\<rparr>)"
proof (rule controller_typed)
  have "usb_ccid_322s zero_controller ! 2 = zero_ccid" "2 < length (usb_ccid_322s zero_controller)" by (simp_all add: zero_controller_def)
  with ctl_step.tick [of 2 zero_controller lr_t] show
    "(ctl_step lr_t)\<^sup>*\<^sup>* zero_controller (zero_controller\<lparr>usb_ccid_322s := (usb_ccid_322s zero_controller)[2 := timer_usb_callback zero_ccid]\<rparr>)" by auto
qed

end
