(* ===== verification/HidTest.thy ===== *)
theory HidTest
  imports CFormat
begin

text \<open>
  The test program for a HID device, \<open>src/app/sys/test.c\<close>: it opens a device, prints what the driver says about it, lists all its reports with their fields
  and usages, and then prints the events it sends.

  The driver is a record of functions over an arbitrary type of states of the device.  An \<open>ioctl\<close> that fills a structure is a function from the
  structure before to the result and the structure after.  What the program prints is a list of lines, each with the values its format shows.  Structures that the
  code does not initialise are arguments.
\<close>

section \<open>The driver\<close>

record hiddev_devinfo =
  bustype :: "32 word"
  busnum :: "32 word"
  devnum :: "32 word"
  ifnum :: "32 word"
  vendor :: "16 word"
  product :: "16 word"
  dev_version :: "16 word"
  num_applications :: "32 word"

record hiddev_report_info =
  ri_report_type :: "32 word"
  ri_report_id :: "32 word"
  num_fields :: "32 word"

record hiddev_field_info =
  fi_report_type :: "32 word"
  fi_report_id :: "32 word"
  fi_field_index :: "32 word"
  maxusage :: "32 word"
  flags :: "32 word"
  physical :: "32 word"
  logical :: "32 word"
  application :: "32 word"
  logical_minimum :: int
  logical_maximum :: int
  physical_minimum :: int
  physical_maximum :: int
  unit_exponent :: "32 word"
  fi_unit :: "32 word"

record hiddev_usage_ref =
  ur_report_type :: "32 word"
  ur_report_id :: "32 word"
  ur_field_index :: "32 word"
  usage_index :: "32 word"
  usage_code :: "32 word"
  usage_value :: int

record hiddev_event =
  ev_hid :: "32 word"
  ev_value :: int

record 'w hiddev =
  hid_open :: "string \<Rightarrow> 'w \<Rightarrow> int \<times> 'w"
  HIDIOCGVERSION :: "'w \<Rightarrow> int \<times> int \<times> 'w"
  HIDIOCGDEVINFO :: "'w \<Rightarrow> int \<times> hiddev_devinfo \<times> 'w"
  HIDIOCGNAME :: "nat \<Rightarrow> 'w \<Rightarrow> int \<times> byte list \<times> 'w"
  HIDIOCGREPORTINFO :: "hiddev_report_info \<Rightarrow> 'w \<Rightarrow> int \<times> hiddev_report_info \<times> 'w"
  HIDIOCGFIELDINFO :: "hiddev_field_info \<Rightarrow> 'w \<Rightarrow> int \<times> hiddev_field_info \<times> 'w"
  HIDIOCGUCODE :: "hiddev_usage_ref \<Rightarrow> 'w \<Rightarrow> int \<times> hiddev_usage_ref \<times> 'w"
  HIDIOCGUSAGE :: "hiddev_usage_ref \<Rightarrow> 'w \<Rightarrow> int \<times> hiddev_usage_ref \<times> 'w"
  hid_read :: "nat \<Rightarrow> 'w \<Rightarrow> int \<times> hiddev_event list \<times> 'w"
  hid_close :: "'w \<Rightarrow> 'w"
  time_text :: "'w \<Rightarrow> nat \<Rightarrow> string"

text \<open>Constants of \<open>linux/hiddev.h\<close>.\<close>

definition HID_VERSION :: int where "HID_VERSION = 0x010004"
definition HID_REPORT_ID_FIRST :: "32 word" where "HID_REPORT_ID_FIRST = 0x100"
definition HID_REPORT_ID_NEXT :: "32 word" where "HID_REPORT_ID_NEXT = 0x80000000"
definition HID_REPORT_TYPE_INPUT :: "32 word" where "HID_REPORT_TYPE_INPUT = 1"
definition HID_REPORT_TYPE_OUTPUT :: "32 word" where "HID_REPORT_TYPE_OUTPUT = 2"
definition HID_REPORT_TYPE_FEATURE :: "32 word" where "HID_REPORT_TYPE_FEATURE = 3"

text \<open>What is printed: one constructor per format.\<close>

datatype hid_line =
    L_open_failure string | L_infor string | L_version int int | L_version_mismatch | L_perror string
  | L_devinfo hiddev_devinfo | L_name "byte list"
  | L_reports string "32 word" | L_report "32 word" "32 word"
  | L_field "32 word" "32 word" "32 word" "32 word" "32 word" "32 word" "32 word"
  | L_usage "32 word" int | L_waiting
  | L_begin_read | L_finish_read | L_event string "32 word" int
  | L_reportinfo "32 word" "32 word" | L_fieldinfo hiddev_field_info | L_usageinfo "32 word" "32 word" int | L_newline

section \<open>Reports\<close>

text \<open>The loop over the usages of a field; \<open>n\<close> are left.  \<open>line\<close> is what the two callers print.\<close>

fun usage_loop :: "'w hiddev \<Rightarrow> (hiddev_usage_ref \<Rightarrow> hid_line) \<Rightarrow> hiddev_field_info \<Rightarrow> nat \<Rightarrow> nat \<Rightarrow> nat \<Rightarrow> hiddev_usage_ref \<Rightarrow> 'w \<Rightarrow>
    hid_line list \<times> hiddev_usage_ref \<times> 'w" where
  "usage_loop lib line finfo i j 0 uref w = ([], uref, w)"
| "usage_loop lib line finfo i j (Suc n) uref w =
     (let uref = uref\<lparr>ur_report_type := fi_report_type finfo, ur_report_id := fi_report_id finfo,
            ur_field_index := word_of_nat i, usage_index := word_of_nat j\<rparr>;
          (_, uref, w) = HIDIOCGUCODE lib uref w;
          (_, uref, w) = HIDIOCGUSAGE lib uref w;
          (ls, uref', w) = usage_loop lib line finfo i (Suc j) n uref w
      in (line uref # ls, uref', w))"

text \<open>A count above the largest \<open>int\<close> drives the loop variable over its range.\<close>

definition INT_MAX :: nat where "INT_MAX = 2147483647"

definition usages :: "'w hiddev \<Rightarrow> (hiddev_usage_ref \<Rightarrow> hid_line) \<Rightarrow> hiddev_field_info \<Rightarrow> nat \<Rightarrow> hiddev_usage_ref \<Rightarrow> 'w \<Rightarrow>
    (hid_line list \<times> hiddev_usage_ref \<times> 'w) option" where
  "usages lib line finfo i uref w =
     (if INT_MAX < unat (maxusage finfo) then None else Some (usage_loop lib line finfo i 0 (unat (maxusage finfo)) uref w))"

text \<open>The loop over the fields of a report.  The structures for the \<open>ioctl\<close> calls keep what was left in them, unless the caller clears them in each round (\<open>reset\<close>).\<close>

type_synonym scratch = "hiddev_field_info \<times> hiddev_usage_ref"

fun field_loop :: "'w hiddev \<Rightarrow> (scratch \<Rightarrow> scratch) \<Rightarrow> (nat \<Rightarrow> hiddev_field_info \<Rightarrow> hid_line) \<Rightarrow> (hiddev_usage_ref \<Rightarrow> hid_line) \<Rightarrow>
    hiddev_report_info \<Rightarrow> nat \<Rightarrow> nat \<Rightarrow> scratch \<times> 'w \<Rightarrow> (hid_line list \<times> scratch \<times> 'w) option" where
  "field_loop lib reset fline uline rinfo i 0 s = Some ([], s)"
| "field_loop lib reset fline uline rinfo i (Suc n) s = do {
     let (finfo, uref) = reset (fst s);
     let finfo = finfo\<lparr>fi_report_type := ri_report_type rinfo, fi_report_id := ri_report_id rinfo, fi_field_index := word_of_nat i\<rparr>;
     let (_, finfo, w) = HIDIOCGFIELDINFO lib finfo (snd s);
     (us, uref, w) \<leftarrow> usages lib uline finfo i uref w;
     (ls, s) \<leftarrow> field_loop lib reset fline uline rinfo (Suc i) n ((finfo, uref), w);
     Some (fline i finfo # us @ ls, s) }"

definition fields :: "'w hiddev \<Rightarrow> (scratch \<Rightarrow> scratch) \<Rightarrow> (nat \<Rightarrow> hiddev_field_info \<Rightarrow> hid_line) \<Rightarrow> (hiddev_usage_ref \<Rightarrow> hid_line) \<Rightarrow>
    hiddev_report_info \<Rightarrow> scratch \<times> 'w \<Rightarrow> (hid_line list \<times> scratch \<times> 'w) option" where
  "fields lib reset fline uline rinfo s =
     (if INT_MAX < unat (num_fields rinfo) then None else field_loop lib reset fline uline rinfo 0 (unat (num_fields rinfo)) s)"

text \<open>The loop over the reports of a type: \<open>body\<close> handles one report and passes a state on.  A driver that always has a next report keeps it running.\<close>

partial_function (option) report_loop :: "'w hiddev \<Rightarrow> (hiddev_report_info \<Rightarrow> 's \<times> 'w \<Rightarrow> (hid_line list \<times> 's \<times> 'w) option) \<Rightarrow>
    hiddev_report_info \<Rightarrow> 's \<times> 'w \<Rightarrow> (hid_line list \<times> 's \<times> 'w) option" where
  "report_loop lib body rinfo s = (case HIDIOCGREPORTINFO lib rinfo (snd s) of (ret, rinfo, w) \<Rightarrow>
     if 0 \<le> ret then
       Option.bind (body rinfo (fst s, w)) (\<lambda>(ls, s).
         Option.bind (report_loop lib body (rinfo\<lparr>ri_report_id := or (ri_report_id rinfo) HID_REPORT_ID_NEXT\<rparr>) s) (\<lambda>(ls', s). Some (ls @ ls', s)))
     else Some ([], fst s, w))"

subsection \<open>\<open>show_all_report\<close>\<close>

definition zero_field :: hiddev_field_info where
  "zero_field = \<lparr>fi_report_type = 0, fi_report_id = 0, fi_field_index = 0, maxusage = 0, flags = 0, physical = 0, logical = 0, application = 0,
     logical_minimum = 0, logical_maximum = 0, physical_minimum = 0, physical_maximum = 0, unit_exponent = 0, fi_unit = 0\<rparr>"

definition zero_usage :: hiddev_usage_ref where
  "zero_usage = \<lparr>ur_report_type = 0, ur_report_id = 0, ur_field_index = 0, usage_index = 0, usage_code = 0, usage_value = 0\<rparr>"

definition field_line :: "nat \<Rightarrow> hiddev_field_info \<Rightarrow> hid_line" where
  "field_line i f = L_field (word_of_nat i) (application f) (physical f) (flags f) (maxusage f) (fi_unit f) (unit_exponent f)"

definition usage_line :: "hiddev_usage_ref \<Rightarrow> hid_line" where
  "usage_line u = L_usage (usage_code u) (usage_value u)"

definition show_report :: "'w hiddev \<Rightarrow> hiddev_report_info \<Rightarrow> scratch \<times> 'w \<Rightarrow> (hid_line list \<times> scratch \<times> 'w) option" where
  "show_report lib rinfo s = do {
     (ls, s) \<leftarrow> fields lib (\<lambda>_. (zero_field, zero_usage)) field_line usage_line rinfo s;
     Some (L_report (ri_report_id rinfo) (num_fields rinfo) # ls, s) }"

definition rtype_str :: "32 word \<Rightarrow> string" where
  "rtype_str rtype =
     (if rtype = HID_REPORT_TYPE_INPUT then ''Input'' else if rtype = HID_REPORT_TYPE_OUTPUT then ''Output''
      else if rtype = HID_REPORT_TYPE_FEATURE then ''Feature'' else ''Unknown'')"

text \<open>\<open>rinfo\<close> is set up afresh for each type, except for the number of fields, which is what the last call left (\<open>nf\<close>).\<close>

fun show_types :: "'w hiddev \<Rightarrow> (nat \<Rightarrow> 32 word) \<Rightarrow> 32 word list \<Rightarrow> scratch \<times> 'w \<Rightarrow> (hid_line list \<times> 'w) option" where
  "show_types lib nf [] s = Some ([], snd s)"
| "show_types lib nf (rtype # ts) s = do {
     (ls, s) \<leftarrow> report_loop lib (show_report lib) \<lparr>ri_report_type = rtype, ri_report_id = HID_REPORT_ID_FIRST, num_fields = nf (length ts)\<rparr> s;
     (ls', w) \<leftarrow> show_types lib nf ts s;
     Some (L_reports (rtype_str rtype) rtype # ls @ ls', w) }"

definition show_all_report :: "'w hiddev \<Rightarrow> (nat \<Rightarrow> 32 word) \<Rightarrow> scratch \<Rightarrow> 'w \<Rightarrow> (hid_line list \<times> 'w) option" where
  "show_all_report lib nf sc w = do {
     (ls, w) \<leftarrow> show_types lib nf [HID_REPORT_TYPE_INPUT, HID_REPORT_TYPE_OUTPUT, HID_REPORT_TYPE_FEATURE] (sc, w);
     Some (ls @ [L_waiting], w) }"

subsection \<open>\<open>showReports\<close>\<close>

definition usageinfo_line :: "hiddev_usage_ref \<Rightarrow> hid_line" where
  "usageinfo_line u = L_usageinfo (usage_index u) (usage_code u) (usage_value u)"

definition showReports_report :: "'w hiddev \<Rightarrow> hiddev_report_info \<Rightarrow> scratch \<times> 'w \<Rightarrow> (hid_line list \<times> scratch \<times> 'w) option" where
  "showReports_report lib rinfo s = do {
     (ls, s) \<leftarrow> fields lib (\<lambda>sc. sc) (\<lambda>_. L_fieldinfo) usageinfo_line rinfo s;
     Some (L_reportinfo (ri_report_id rinfo) (num_fields rinfo) # ls @ [L_newline], s) }"

definition showReports :: "'w hiddev \<Rightarrow> 32 word \<Rightarrow> 32 word \<Rightarrow> scratch \<Rightarrow> 'w \<Rightarrow> (hid_line list \<times> 'w) option" where
  "showReports lib nf report_type sc w = do {
     (ls, _, w) \<leftarrow> report_loop lib (showReports_report lib) \<lparr>ri_report_type = report_type, ri_report_id = HID_REPORT_ID_FIRST, num_fields = nf\<rparr> (sc, w);
     Some (ls, w) }"

section \<open>Events\<close>

text \<open>An event has 8 bytes and the buffer 64 events.  \<open>hid_read\<close> returns the number of bytes and the complete events among them; \<open>time_text\<close> is the time of day when the given event is printed.\<close>

definition event_line :: "string \<Rightarrow> hiddev_event \<Rightarrow> hid_line" where
  "event_line now ev = L_event now (ev_hid ev) (ev_value ev)"

partial_function (option) read_event :: "'w hiddev \<Rightarrow> 'w \<Rightarrow> (int \<times> hid_line list \<times> 'w) option" where
  "read_event lib w = (case hid_read lib 512 w of (rd, ev, w) \<Rightarrow>
     if rd < 8 then Some (-1, [L_begin_read, L_finish_read] @ (if rd < 0 then [L_perror (CHR 0x0A # ''evtest: error reading'')] else []), w)
     else Option.bind (read_event lib w) (\<lambda>(r, ls, w').
       Some (r, [L_begin_read, L_finish_read] @ map2 (\<lambda>i. event_line (time_text lib w i)) [0..<nat rd div 8] ev @ ls, w')))"

section \<open>The program\<close>

definition dev_name :: string where
  "dev_name = ''/dev/usb/hiddev0''"

definition version_lines :: "int \<times> int \<Rightarrow> hid_line list" where
  "version_lines = (\<lambda>(r, version).
     if r < 0 then [L_perror ''HIDIOCGVERSION'']
     else L_version (and (drop_bit 16 version) 0xFFFF) (and version 0xFFFF) # (if version \<noteq> HID_VERSION then [L_version_mismatch] else []))"

text \<open>\<open>name\<close> has 100 bytes that are not initialised (\<open>stale\<close>).  The driver writes at most 99 of them, and the last is set to zero before the string is printed.\<close>

definition name_lines :: "byte list \<Rightarrow> int \<times> byte list \<Rightarrow> hid_line list option" where
  "name_lines stale = (\<lambda>(r, bs).
     if r < 0 then Some [L_perror ''HIDIOCGNAME'']
     else do {
       name \<leftarrow> write_bytes stale 0 bs;
       name \<leftarrow> write_bytes name 99 [0];
       Some [L_name (takeWhile (\<lambda>b. b \<noteq> 0) name)] })"

text \<open>The result: -1 when the device cannot be opened, and no value at all otherwise, since the function has no return statement at its end.\<close>

definition test :: "'w hiddev \<Rightarrow> byte list \<Rightarrow> (nat \<Rightarrow> 32 word) \<Rightarrow> scratch \<Rightarrow> 'w \<Rightarrow> (int option \<times> hid_line list \<times> 'w) option" where
  "test lib stale nf sc w =
     (case hid_open lib dev_name w of (fd, w) \<Rightarrow>
        if fd = -1 then Some (Some (-1), [L_open_failure dev_name], w)
        else do {
          let (r, version, w) = HIDIOCGVERSION lib w;
          let vl = version_lines (r, version);
          let (r, dinfo, w) = HIDIOCGDEVINFO lib w;
          let dl = (if r < 0 then [L_perror ''HIDIOCGDEVINFO''] else [L_devinfo dinfo]);
          let (r, bs, w) = HIDIOCGNAME lib 99 w;
          nl \<leftarrow> name_lines stale (r, bs);
          (rl, w) \<leftarrow> show_all_report lib nf sc w;
          (_, el, w) \<leftarrow> read_event lib w;
          Some (None, L_infor dev_name # vl @ dl @ nl @ rl @ el, hid_close lib w) })"

section \<open>The listing of a device\<close>

text \<open>A device: for each type its reports, each with an identifier and fields, and each field with its description and the codes and values of its usages.\<close>

type_synonym hid_field = "hiddev_field_info \<times> (32 word \<times> int) list"
type_synonym hid_report = "32 word \<times> hid_field list"
type_synonym hid_device = "32 word \<Rightarrow> hid_report list"

definition report_info :: "32 word \<Rightarrow> hid_report \<Rightarrow> hiddev_report_info" where
  "report_info t r = \<lparr>ri_report_type = t, ri_report_id = fst r, num_fields = word_of_nat (length (snd r))\<rparr>"

definition field_info :: "32 word \<Rightarrow> hid_report \<Rightarrow> nat \<Rightarrow> hiddev_field_info" where
  "field_info t r i = (fst (snd r ! i))\<lparr>fi_report_type := t, fi_report_id := fst r, fi_field_index := word_of_nat i,
     maxusage := word_of_nat (length (snd (snd r ! i)))\<rparr>"

text \<open>What the driver documents.  Asked for the first report of a type, it gives it; asked for the report after one it gave, it gives the next; it fails when there is
  none.  It describes every field of a report and every usage of a field.\<close>

definition gives_report :: "'w hiddev \<Rightarrow> 32 word \<Rightarrow> 32 word \<Rightarrow> hid_report list \<Rightarrow> bool" where
  "gives_report lib t i rs \<longleftrightarrow> (\<forall>nf w. case HIDIOCGREPORTINFO lib \<lparr>ri_report_type = t, ri_report_id = i, num_fields = nf\<rparr> w of
     (ret, rinfo, w') \<Rightarrow> case rs of [] \<Rightarrow> ret < 0 | r # _ \<Rightarrow> 0 \<le> ret \<and> rinfo = report_info t r)"

definition gives_field :: "'w hiddev \<Rightarrow> 32 word \<Rightarrow> hid_report \<Rightarrow> nat \<Rightarrow> bool" where
  "gives_field lib t r i \<longleftrightarrow>
     (\<forall>f w. fi_report_type f = t \<and> fi_report_id f = fst r \<and> fi_field_index f = word_of_nat i \<longrightarrow>
        fst (snd (HIDIOCGFIELDINFO lib f w)) = field_info t r i) \<and>
     (\<forall>j u w. j < length (snd (snd r ! i)) \<and> ur_report_type u = t \<and> ur_report_id u = fst r \<and> ur_field_index u = word_of_nat i \<and>
        usage_index u = word_of_nat j \<longrightarrow>
        fst (snd (HIDIOCGUCODE lib u w)) = u\<lparr>usage_code := fst (snd (snd r ! i) ! j)\<rparr> \<and>
        fst (snd (HIDIOCGUSAGE lib u w)) = u\<lparr>usage_value := snd (snd (snd r ! i) ! j)\<rparr>)"

definition report_ok :: "hid_report \<Rightarrow> bool" where
  "report_ok r \<longleftrightarrow> length (snd r) \<le> INT_MAX \<and> (\<forall>f \<in> set (snd r). length (snd f) \<le> INT_MAX)"

definition hid_driver :: "'w hiddev \<Rightarrow> hid_device \<Rightarrow> bool" where
  "hid_driver lib dev \<longleftrightarrow> (\<forall>t. gives_report lib t HID_REPORT_ID_FIRST (dev t) \<and>
     (\<forall>xs r ys. dev t = xs @ r # ys \<longrightarrow> gives_report lib t (or (fst r) HID_REPORT_ID_NEXT) ys) \<and>
     (\<forall>r \<in> set (dev t). report_ok r \<and> (\<forall>i < length (snd r). gives_field lib t r i)))"

text \<open>The listing that \<open>show_all_report\<close> is meant to print, and that of \<open>showReports\<close>.\<close>

definition field_listing :: "nat \<Rightarrow> hid_field \<Rightarrow> hid_line list" where
  "field_listing i f = L_field (word_of_nat i) (application (fst f)) (physical (fst f)) (flags (fst f)) (word_of_nat (length (snd f)))
     (fi_unit (fst f)) (unit_exponent (fst f)) # map (\<lambda>(c, v). L_usage c v) (snd f)"

definition report_listing :: "hid_report \<Rightarrow> hid_line list" where
  "report_listing r = L_report (fst r) (word_of_nat (length (snd r))) # concat (map2 field_listing [0..<length (snd r)] (snd r))"

definition type_listing :: "hid_device \<Rightarrow> 32 word \<Rightarrow> hid_line list" where
  "type_listing dev t = L_reports (rtype_str t) t # concat (map report_listing (dev t))"

definition device_listing :: "hid_device \<Rightarrow> hid_line list" where
  "device_listing dev = type_listing dev 1 @ type_listing dev 2 @ type_listing dev 3 @ [L_waiting]"

lemma gives_fieldD:
  assumes "gives_field lib t r i"
  shows "fi_report_type f = t \<Longrightarrow> fi_report_id f = fst r \<Longrightarrow> fi_field_index f = word_of_nat i \<Longrightarrow> fst (snd (HIDIOCGFIELDINFO lib f w)) = field_info t r i"
    and "j < length (snd (snd r ! i)) \<Longrightarrow> ur_report_type u = t \<Longrightarrow> ur_report_id u = fst r \<Longrightarrow> ur_field_index u = word_of_nat i \<Longrightarrow>
      usage_index u = word_of_nat j \<Longrightarrow> fst (snd (HIDIOCGUCODE lib u w)) = u\<lparr>usage_code := fst (snd (snd r ! i) ! j)\<rparr>"
    and "j < length (snd (snd r ! i)) \<Longrightarrow> ur_report_type u = t \<Longrightarrow> ur_report_id u = fst r \<Longrightarrow> ur_field_index u = word_of_nat i \<Longrightarrow>
      usage_index u = word_of_nat j \<Longrightarrow> fst (snd (HIDIOCGUSAGE lib u w)) = u\<lparr>usage_value := snd (snd (snd r ! i) ! j)\<rparr>"
  using assms by (simp_all add: gives_field_def)

text \<open>A line about a usage is a function of its index, code and value.\<close>

definition usage_lines :: "(hiddev_usage_ref \<Rightarrow> hid_line) \<Rightarrow> (nat \<Rightarrow> 32 word \<times> int \<Rightarrow> hid_line) \<Rightarrow> bool" where
  "usage_lines line g \<longleftrightarrow> (\<forall>u k. usage_index u = word_of_nat k \<longrightarrow> line u = g k (usage_code u, usage_value u))"

lemma usage_loop_lists:
  assumes "gives_field lib t r i" "fi_report_type f = t" "fi_report_id f = fst r" "j + n = length (snd (snd r ! i))" and line: "usage_lines line g"
  shows "\<exists>u' w'. usage_loop lib line f i j n u w = (map2 g [j..<j + n] (drop j (snd (snd r ! i))), u', w')"
  using assms(4)
proof (induction n arbitrary: j u w)
  case (Suc n)
  let ?us = "snd (snd r ! i)"
  let ?u = "u\<lparr>ur_report_type := t, ur_report_id := fst r, ur_field_index := word_of_nat i, usage_index := word_of_nat j\<rparr>"
  have j: "j < length ?us" using Suc.prems by simp
  obtain a u1 w1 where code: "HIDIOCGUCODE lib ?u w = (a, u1, w1)" by (metis prod_cases3)
  obtain b u2 w2 where val: "HIDIOCGUSAGE lib u1 w1 = (b, u2, w2)" by (metis prod_cases3)
  have u1: "u1 = ?u\<lparr>usage_code := fst (?us ! j)\<rparr>" using gives_fieldD(2) [OF assms(1) j, of ?u w] code by simp
  have u2: "u2 = u1\<lparr>usage_value := snd (?us ! j)\<rparr>" using gives_fieldD(3) [OF assms(1) j, of u1 w1] val by (simp add: u1)
  have l: "line u2 = g j (?us ! j)" using line by (simp add: usage_lines_def u1 u2)
  from Suc.IH [of "Suc j" u2 w2] Suc.prems obtain u' w' where
    "usage_loop lib line f i (Suc j) n u2 w2 = (map2 g [Suc j..<Suc j + n] (drop (Suc j) ?us), u', w')" by auto
  moreover have "[j..<j + Suc n] = j # [Suc j..<Suc j + n]" by (simp add: upt_conv_Cons)
  ultimately show ?case using assms(2,3) by (simp add: code val l Cons_nth_drop_Suc [OF j, symmetric] del: upt_Suc)
qed simp

lemma usages_list:
  assumes "gives_field lib t r i" "report_ok r" "i < length (snd r)" "usage_lines line g"
  shows "\<exists>u' w'. usages lib line (field_info t r i) i u w = Some (map2 g [0..<length (snd (snd r ! i))] (snd (snd r ! i)), u', w')"
proof -
  have len: "length (snd (snd r ! i)) \<le> INT_MAX" using assms(2,3) by (simp add: report_ok_def)
  then have "unat (maxusage (field_info t r i)) = length (snd (snd r ! i))" by (simp add: field_info_def unat_of_nat INT_MAX_def)
  with usage_loop_lists [OF assms(1) _ _ _ assms(4), of "field_info t r i" 0 "length (snd (snd r ! i))" u w] len show ?thesis
    by (auto simp: usages_def field_info_def)
qed

text \<open>The fields of a report.\<close>

lemma usage_lines_all: "usage_lines usage_line (\<lambda>_ (c, v). L_usage c v)" "usage_lines usageinfo_line (\<lambda>k (c, v). L_usageinfo (word_of_nat k) c v)"
  by (simp_all add: usage_lines_def usage_line_def usageinfo_line_def)

lemma map2_const: "map2 (\<lambda>_. f) [0..<length xs] xs = map f xs"
  by (rule nth_equalityI) simp_all

definition field_lines :: "32 word \<Rightarrow> hid_report \<Rightarrow> (nat \<Rightarrow> hiddev_field_info \<Rightarrow> hid_line) \<Rightarrow> (nat \<Rightarrow> 32 word \<times> int \<Rightarrow> hid_line) \<Rightarrow> nat \<Rightarrow> hid_line list" where
  "field_lines t r fline g i = fline i (field_info t r i) # map2 g [0..<length (snd (snd r ! i))] (snd (snd r ! i))"

lemma field_loop_lists:
  assumes "\<forall>i < length (snd r). gives_field lib t r i" "report_ok r" "usage_lines uline g" "i + n = length (snd r)"
  shows "\<exists>s'. field_loop lib reset fline uline (report_info t r) i n s = Some (concat (map (field_lines t r fline g) [i..<i + n]), s')"
  using assms(4)
proof (induction n arbitrary: i s)
  case (Suc n)
  have i: "i < length (snd r)" using Suc.prems by simp
  obtain f u where re: "reset (fst s) = (f, u)" by force
  let ?f = "f\<lparr>fi_report_type := t, fi_report_id := fst r, fi_field_index := word_of_nat i\<rparr>"
  obtain a f1 w1 where f1: "HIDIOCGFIELDINFO lib ?f (snd s) = (a, f1, w1)" by (metis prod_cases3)
  have g: "gives_field lib t r i" using assms(1) i by simp
  have f1': "f1 = field_info t r i" using gives_fieldD(1) [OF g, of ?f "snd s"] f1 by simp
  obtain u2 w2 where us: "usages lib uline f1 i u w1 = Some (map2 g [0..<length (snd (snd r ! i))] (snd (snd r ! i)), u2, w2)"
    using usages_list [OF g assms(2) i assms(3), of u w1] by (auto simp: f1')
  from Suc.IH [of "Suc i" "((f1, u2), w2)"] Suc.prems obtain s' where
    "field_loop lib reset fline uline (report_info t r) (Suc i) n ((f1, u2), w2) = Some (concat (map (field_lines t r fline g) [Suc i..<Suc i + n]), s')" by auto
  moreover have "[i..<i + Suc n] = i # [Suc i..<Suc i + n]" by (simp add: upt_conv_Cons)
  ultimately show ?case using re f1 us f1' by (simp add: report_info_def field_lines_def [of t r fline g i] del: upt_Suc)
qed simp

lemma fields_list:
  assumes "\<forall>i < length (snd r). gives_field lib t r i" "report_ok r" "usage_lines uline g"
  shows "\<exists>s'. fields lib reset fline uline (report_info t r) s = Some (concat (map (field_lines t r fline g) [0..<length (snd r)]), s')"
proof -
  have "length (snd r) \<le> INT_MAX" using assms(2) by (simp add: report_ok_def)
  then have "unat (num_fields (report_info t r)) = length (snd r)" by (simp add: report_info_def unat_of_nat INT_MAX_def)
  with field_loop_lists [OF assms, of 0 "length (snd r)" reset fline s] \<open>_ \<le> INT_MAX\<close> show ?thesis by (simp add: fields_def)
qed

text \<open>The reports of a type, one after the other.\<close>

lemma gives_reportD:
  "gives_report lib t i [] \<Longrightarrow> \<exists>ret ri w'. HIDIOCGREPORTINFO lib \<lparr>ri_report_type = t, ri_report_id = i, num_fields = nf\<rparr> w = (ret, ri, w') \<and> ret < 0"
  "gives_report lib t i (r # rs) \<Longrightarrow>
     \<exists>ret w'. HIDIOCGREPORTINFO lib \<lparr>ri_report_type = t, ri_report_id = i, num_fields = nf\<rparr> w = (ret, report_info t r, w') \<and> 0 \<le> ret"
  by (cases "HIDIOCGREPORTINFO lib \<lparr>ri_report_type = t, ri_report_id = i, num_fields = nf\<rparr> w",
      force simp: gives_report_def dest!: spec [of _ nf] spec [of _ w])+

lemma report_loop_lists:
  assumes "gives_report lib t i rs" "\<And>xs r ys. rs = xs @ r # ys \<Longrightarrow> gives_report lib t (or (fst r) HID_REPORT_ID_NEXT) ys"
    and "\<And>r s. r \<in> set rs \<Longrightarrow> \<exists>s'. body (report_info t r) s = Some (listing r, s')"
  shows "\<exists>s'. report_loop lib body \<lparr>ri_report_type = t, ri_report_id = i, num_fields = nf\<rparr> s = Some (concat (map listing rs), s')"
  using assms
proof (induction rs arbitrary: i nf s)
  case Nil
  obtain ret ri w' where "HIDIOCGREPORTINFO lib \<lparr>ri_report_type = t, ri_report_id = i, num_fields = nf\<rparr> (snd s) = (ret, ri, w')" "ret < 0"
    using gives_reportD(1) [OF Nil.prems(1)] by blast
  then show ?case by (subst report_loop.simps) simp
next
  case (Cons r rs)
  obtain ret w1 where r: "HIDIOCGREPORTINFO lib \<lparr>ri_report_type = t, ri_report_id = i, num_fields = nf\<rparr> (snd s) = (ret, report_info t r, w1)" "0 \<le> ret"
    using gives_reportD(2) [OF Cons.prems(1)] by blast
  obtain s1 where s1: "body (report_info t r) (fst s, w1) = Some (listing r, s1)" using Cons.prems(3) [of r "(fst s, w1)"] by auto
  have "\<exists>s'. report_loop lib body \<lparr>ri_report_type = t, ri_report_id = or (fst r) HID_REPORT_ID_NEXT, num_fields = num_fields (report_info t r)\<rparr> s1 =
      Some (concat (map listing rs), s')"
  proof (rule Cons.IH)
    show "gives_report lib t (or (fst r) HID_REPORT_ID_NEXT) rs" using Cons.prems(2) [of "[]"] by simp
    show "gives_report lib t (or (fst q) HID_REPORT_ID_NEXT) ys" if "rs = xs @ q # ys" for xs q ys using Cons.prems(2) [of "r # xs"] that by simp
  qed (use Cons.prems(3) in simp)
  with r s1 show ?case by (subst report_loop.simps) (auto simp: report_info_def)
qed

lemma driver_type:
  assumes "hid_driver lib dev" "\<And>r s. r \<in> set (dev t) \<Longrightarrow> \<exists>s'. body (report_info t r) s = Some (listing r, s')"
  shows "\<exists>s'. report_loop lib body \<lparr>ri_report_type = t, ri_report_id = HID_REPORT_ID_FIRST, num_fields = nf\<rparr> s = Some (concat (map listing (dev t)), s')"
proof (rule report_loop_lists)
  show "gives_report lib t (or (fst r) HID_REPORT_ID_NEXT) ys" if "dev t = xs @ r # ys" for xs r ys
    using assms(1) that unfolding hid_driver_def by blast
qed (use assms in \<open>simp_all add: hid_driver_def\<close>)

lemma report_listing_lines:
  "report_listing r = L_report (fst r) (word_of_nat (length (snd r))) # concat (map (field_lines t r field_line (\<lambda>_ (c, v). L_usage c v)) [0..<length (snd r)])"
proof -
  have "field_lines t r field_line (\<lambda>_ (c, v). L_usage c v) i = field_listing i (snd r ! i)" for i
    by (simp add: field_lines_def field_listing_def map2_const field_line_def field_info_def)
  then have "map2 field_listing [0..<length (snd r)] (snd r) = map (field_lines t r field_line (\<lambda>_ (c, v). L_usage c v)) [0..<length (snd r)]"
    by (intro nth_equalityI) simp_all
  then show ?thesis by (simp add: report_listing_def)
qed

lemma show_report_lists:
  assumes "hid_driver lib dev" "r \<in> set (dev t)"
  shows "\<exists>s'. show_report lib (report_info t r) s = Some (report_listing r, s')"
proof -
  have "\<exists>s'. fields lib (\<lambda>_. (zero_field, zero_usage)) field_line usage_line (report_info t r) s =
      Some (concat (map (field_lines t r field_line (\<lambda>_ (c, v). L_usage c v)) [0..<length (snd r)]), s')"
    by (rule fields_list [OF _ _ usage_lines_all(1)]) (use assms in \<open>auto simp: hid_driver_def\<close>)
  then show ?thesis by (auto simp: show_report_def report_listing_lines [of r t] report_info_def)
qed

lemma show_types_lists:
  assumes "hid_driver lib dev"
  shows "\<exists>w'. show_types lib nf ts s = Some (concat (map (type_listing dev) ts), w')"
proof (induction ts arbitrary: s)
  case (Cons t ts)
  obtain s1 where "report_loop lib (show_report lib) \<lparr>ri_report_type = t, ri_report_id = HID_REPORT_ID_FIRST, num_fields = nf (length ts)\<rparr> s =
      Some (concat (map report_listing (dev t)), s1)"
    using driver_type [OF assms, of t "show_report lib" report_listing] show_report_lists [OF assms] by blast
  with Cons.IH [of s1] show ?case by (auto simp: type_listing_def)
qed simp

lemma show_all_report_lists: "hid_driver lib dev \<Longrightarrow> \<exists>w'. show_all_report lib nf sc w = Some (device_listing dev, w')"
  using show_types_lists [of lib dev nf "[1, 2, 3]" "(sc, w)"]
  by (auto simp: show_all_report_def device_listing_def HID_REPORT_TYPE_INPUT_def HID_REPORT_TYPE_OUTPUT_def HID_REPORT_TYPE_FEATURE_def
      simp del: show_types.simps)

text \<open>The listing of \<open>showReports\<close>.\<close>

definition reportinfo_listing :: "32 word \<Rightarrow> hid_report \<Rightarrow> hid_line list" where
  "reportinfo_listing t r = L_reportinfo (fst r) (word_of_nat (length (snd r))) #
     concat (map (\<lambda>i. L_fieldinfo (field_info t r i) #
        map2 (\<lambda>k (c, v). L_usageinfo (word_of_nat k) c v) [0..<length (snd (snd r ! i))] (snd (snd r ! i))) [0..<length (snd r)]) @ [L_newline]"

lemma showReports_report_lists:
  assumes "hid_driver lib dev" "r \<in> set (dev t)"
  shows "\<exists>s'. showReports_report lib (report_info t r) s = Some (reportinfo_listing t r, s')"
proof -
  have "\<exists>s'. fields lib (\<lambda>sc. sc) (\<lambda>_. L_fieldinfo) usageinfo_line (report_info t r) s =
      Some (concat (map (field_lines t r (\<lambda>_. L_fieldinfo) (\<lambda>k (c, v). L_usageinfo (word_of_nat k) c v)) [0..<length (snd r)]), s')"
    by (rule fields_list [OF _ _ usage_lines_all(2)]) (use assms in \<open>auto simp: hid_driver_def\<close>)
  then show ?thesis by (auto simp: showReports_report_def reportinfo_listing_def report_info_def field_lines_def [abs_def])
qed

text \<open>The listing of the device.  With a driver that hands out the reports of a type one after the other and describes their fields and usages, both listings end and
  print every report of the device with all its fields and all usages of each, once and in the order of the driver, whatever the structures
  held before.\<close>

lemma hid_listing_complete:
  assumes "hid_driver lib dev"
  shows "(\<exists>w'. show_all_report lib nf sc w = Some (device_listing dev, w')) \<and>
    (\<exists>w'. showReports lib n t sc w = Some (concat (map (reportinfo_listing t) (dev t)), w'))"
proof
  show "\<exists>w'. show_all_report lib nf sc w = Some (device_listing dev, w')" by (rule show_all_report_lists [OF assms])
  show "\<exists>w'. showReports lib n t sc w = Some (concat (map (reportinfo_listing t) (dev t)), w')"
    using driver_type [OF assms, of t "showReports_report lib" "reportinfo_listing t" n "(sc, w)"] showReports_report_lists [OF assms, of _ t]
    by (auto simp: showReports_def)
qed

text \<open>A driver for a device with two input reports, one of them with a field of two usages, that sends two events.\<close>

definition hid_dev_t :: hid_device where
  "hid_dev_t t = (if t = 1 then [(5, [(zero_field\<lparr>application := 4\<rparr>, [(7, 9), (8, -1)])]), (6, [])] else [])"

definition next_reports :: "32 word \<Rightarrow> hid_report list \<Rightarrow> hid_report list" where
  "next_reports i rs = (if i = HID_REPORT_ID_FIRST then rs else tl (dropWhile (\<lambda>r. or (fst r) HID_REPORT_ID_NEXT \<noteq> i) rs))"

definition dinfo_t :: hiddev_devinfo where
  "dinfo_t = \<lparr>bustype = 0, busnum = 0, devnum = 0, ifnum = 0, vendor = 0, product = 0, dev_version = 0, num_applications = 0\<rparr>"

definition hid_lib_t :: "nat hiddev" where
  "hid_lib_t = \<lparr>hid_open = (\<lambda>_ w. (3, w)), HIDIOCGVERSION = (\<lambda>w. (0, HID_VERSION, w)),
     HIDIOCGDEVINFO = (\<lambda>w. (-1, dinfo_t, w)),
     HIDIOCGNAME = (\<lambda>_ w. (3, [65, 66, 0], w)),
     HIDIOCGREPORTINFO = (\<lambda>f w. case next_reports (ri_report_id f) (hid_dev_t (ri_report_type f)) of [] \<Rightarrow> (-22, f, w) | r # _ \<Rightarrow> (0, report_info (ri_report_type f) r, w)),
     HIDIOCGFIELDINFO = (\<lambda>f w. (0, field_info 1 (hd (hid_dev_t 1)) 0, w)),
     HIDIOCGUCODE = (\<lambda>u w. (0, u\<lparr>usage_code := (if usage_index u = 0 then 7 else 8)\<rparr>, w)),
     HIDIOCGUSAGE = (\<lambda>u w. (0, u\<lparr>usage_value := (if usage_index u = 0 then 9 else -1)\<rparr>, w)),
     hid_read = (\<lambda>_ w. if w = 0 then (16, [\<lparr>ev_hid = 1, ev_value = 2\<rparr>, \<lparr>ev_hid = 3, ev_value = 4\<rparr>], 1) else (0, [], w)),
     hid_close = (\<lambda>w. w), time_text = (\<lambda>_ _. ''now'')\<rparr>"

lemma hid_lib_sel:
  "hid_open hid_lib_t n w = (3, w)" "HIDIOCGVERSION hid_lib_t w = (0, HID_VERSION, w)" "HIDIOCGDEVINFO hid_lib_t w = (-1, dinfo_t, w)"
  "HIDIOCGNAME hid_lib_t k w = (3, [65, 66, 0], w)" "hid_close hid_lib_t w = w"
  by (simp_all add: hid_lib_t_def)

lemma hid_driver_t: "hid_driver hid_lib_t hid_dev_t"
proof -
  have rep: "gives_report hid_lib_t t HID_REPORT_ID_FIRST (hid_dev_t t)" for t
    by (auto simp: gives_report_def hid_lib_t_def next_reports_def split: list.splits)
  have nxt: "gives_report hid_lib_t t (or (fst r) HID_REPORT_ID_NEXT) ys" if "hid_dev_t t = xs @ r # ys" for t xs r ys
    using that by (auto simp: gives_report_def hid_lib_t_def next_reports_def hid_dev_t_def HID_REPORT_ID_FIRST_def HID_REPORT_ID_NEXT_def
        Cons_eq_append_conv split: if_splits)
  have fld: "report_ok r \<and> (\<forall>i < length (snd r). gives_field hid_lib_t t r i)" if "r \<in> set (hid_dev_t t)" for r t
    using that by (auto simp: hid_dev_t_def report_ok_def INT_MAX_def gives_field_def hid_lib_t_def field_info_def less_Suc_eq numeral_2_eq_2 split: if_splits)
  from rep nxt fld show ?thesis unfolding hid_driver_def by blast
qed

lemma hid_listing_complete_witness:
  "hid_driver hid_lib_t hid_dev_t \<and> (\<exists>w'. show_all_report hid_lib_t (\<lambda>_. 0) (zero_field, zero_usage) 0 =
     Some ([L_reports ''Input'' 1, L_report 5 1, L_field 0 4 0 0 2 0 0, L_usage 7 9, L_usage 8 (-1), L_report 6 0,
            L_reports ''Output'' 2, L_reports ''Feature'' 3, L_waiting], w'))"
  using hid_listing_complete [OF hid_driver_t, of "\<lambda>_. 0" "(zero_field, zero_usage)" 0 0 1] hid_driver_t
  by (simp add: device_listing_def type_listing_def report_listing_def field_listing_def hid_dev_t_def rtype_str_def
      HID_REPORT_TYPE_INPUT_def HID_REPORT_TYPE_OUTPUT_def HID_REPORT_TYPE_FEATURE_def zero_field_def)

section \<open>The loop over the events\<close>

text \<open>The state of the device after a number of reads.\<close>

definition after_reads :: "'w hiddev \<Rightarrow> nat \<Rightarrow> 'w \<Rightarrow> 'w" where
  "after_reads lib n w = ((\<lambda>w. snd (snd (hid_read lib 512 w))) ^^ n) w"

definition read_lines :: "'w hiddev \<Rightarrow> 'w \<Rightarrow> hid_line list" where
  "read_lines lib w = (case hid_read lib 512 w of (rd, ev, w') \<Rightarrow>
     [L_begin_read, L_finish_read] @ (if rd < 8 then (if rd < 0 then [L_perror (CHR 0x0A # ''evtest: error reading'')] else [])
       else map2 (\<lambda>i. event_line (time_text lib w' i)) [0..<nat rd div 8] ev))"

text \<open>The loop prints every event of every read in order, until a read gives less than one event; it then returns -1.\<close>

lemma read_event_prints:
  assumes "\<forall>k < n. 8 \<le> fst (hid_read lib 512 (after_reads lib k w))" "fst (hid_read lib 512 (after_reads lib n w)) < 8"
  shows "read_event lib w = Some (-1, concat (map (\<lambda>k. read_lines lib (after_reads lib k w)) [0..<Suc n]), after_reads lib (Suc n) w)"
  using assms
proof (induction n arbitrary: w)
  case 0
  obtain rd ev w1 where "hid_read lib 512 w = (rd, ev, w1)" by (metis prod_cases3)
  with 0 show ?case by (subst read_event.simps) (simp add: read_lines_def after_reads_def)
next
  case (Suc n)
  obtain rd ev w1 where r: "hid_read lib 512 w = (rd, ev, w1)" by (metis prod_cases3)
  have after: "after_reads lib (Suc k) w = after_reads lib k w1" for k by (simp add: after_reads_def funpow_Suc_right r del: funpow.simps)
  have "8 \<le> rd" using Suc.prems(1) r by (auto simp: after_reads_def dest!: spec [of _ 0])
  moreover have "read_event lib w1 = Some (-1, concat (map (\<lambda>k. read_lines lib (after_reads lib k w1)) [0..<Suc n]), after_reads lib (Suc n) w1)"
    by (rule Suc.IH) (use Suc.prems after in auto)
  moreover have "map (\<lambda>k. read_lines lib (after_reads lib k w)) [0..<Suc (Suc n)] =
      read_lines lib w # map (\<lambda>k. read_lines lib (after_reads lib k w1)) [0..<Suc n]"
    by (simp only: upt_conv_Cons map_Suc_upt [symmetric] after list.map map_map o_def zero_less_Suc) (simp add: after_reads_def)
  ultimately show ?case using r by (subst read_event.simps) (simp add: read_lines_def [of lib w] after del: upt_Suc)
qed

definition events_until :: "'w hiddev \<Rightarrow> 'w \<Rightarrow> nat \<Rightarrow> bool" where
  "events_until lib w n \<longleftrightarrow> (\<forall>k < n. 8 \<le> fst (hid_read lib 512 (after_reads lib k w))) \<and> fst (hid_read lib 512 (after_reads lib n w)) < 8"

definition event_listing :: "'w hiddev \<Rightarrow> 'w \<Rightarrow> nat \<Rightarrow> hid_line list" where
  "event_listing lib w n = concat (map (\<lambda>k. read_lines lib (after_reads lib k w)) [0..<Suc n])"

definition name_text :: "byte list \<Rightarrow> byte list \<Rightarrow> byte list" where
  "name_text stale bs = takeWhile (\<lambda>b. b \<noteq> 0) (take 99 (bs @ drop (length bs) stale) @ [0])"

lemma name_lines_ok:
  assumes "length stale = 100" "length bs \<le> 99"
  shows "name_lines stale (r, bs) = Some (if r < 0 then [L_perror ''HIDIOCGNAME''] else [L_name (name_text stale bs)])"
proof -
  have "write_bytes (bs @ drop (length bs) stale) 99 [0] = Some (take 99 (bs @ drop (length bs) stale) @ [0])"
    using assms by (simp add: write_bytes_def)
  moreover have "write_bytes stale 0 bs = Some (bs @ drop (length bs) stale)" using assms by (simp add: write_bytes_def)
  ultimately show ?thesis by (simp add: name_lines_def name_text_def)
qed

text \<open>The test program.  When the device cannot be opened it says so and returns -1.  Otherwise it prints version, identity and name, or the calls that failed, then the
  complete listing of the device and then every event, as they come, until a read gives less than one event; it closes the device
  and ends without a return value.  The string it prints for the name always ends in the buffer.\<close>

lemma hid_test_prints:
  assumes "hid_driver lib dev" and "length stale = 100" and "\<forall>w. length (fst (snd (HIDIOCGNAME lib 99 w))) \<le> 99" and "\<forall>w. events_until lib w (cnt w)"
  shows "case hid_open lib dev_name w of (fd, w1) \<Rightarrow> if fd = -1 then test lib stale nf sc w = Some (Some (-1), [L_open_failure dev_name], w1)
    else \<exists>head w2. test lib stale nf sc w =
      Some (None, L_infor dev_name # head @ device_listing dev @ event_listing lib w2 (cnt w2), hid_close lib (after_reads lib (Suc (cnt w2)) w2)) \<and>
      (case HIDIOCGVERSION lib w1 of (r, v, w3) \<Rightarrow> case HIDIOCGDEVINFO lib w3 of (r', d, w4) \<Rightarrow> case HIDIOCGNAME lib 99 w4 of (r'', bs, w5) \<Rightarrow>
        head = version_lines (r, v) @ (if r' < 0 then [L_perror ''HIDIOCGDEVINFO''] else [L_devinfo d]) @
          (if r'' < 0 then [L_perror ''HIDIOCGNAME''] else [L_name (name_text stale bs)]))"
proof -
  obtain fd w1 where w1: "hid_open lib dev_name w = (fd, w1)" by fastforce
  obtain r v w3 where w3: "HIDIOCGVERSION lib w1 = (r, v, w3)" by (metis prod_cases3)
  obtain r' d w4 where w4: "HIDIOCGDEVINFO lib w3 = (r', d, w4)" by (metis prod_cases3)
  obtain r'' bs w5 where w5: "HIDIOCGNAME lib 99 w4 = (r'', bs, w5)" by (metis prod_cases3)
  have "length bs \<le> 99" using assms(3) w5 by (metis fst_conv snd_conv)
  note nl = name_lines_ok [OF assms(2) this]
  obtain w2 where w2: "show_all_report lib nf sc w5 = Some (device_listing dev, w2)" using show_all_report_lists [OF assms(1)] by blast
  have "read_event lib w2 = Some (-1, event_listing lib w2 (cnt w2), after_reads lib (Suc (cnt w2)) w2)"
    using read_event_prints [of "cnt w2" lib w2] assms(4) by (simp add: events_until_def event_listing_def del: upt_Suc)
  then show ?thesis by (auto simp: test_def w1 w3 w4 w5 nl w2)
qed

definition cnt_t :: "nat \<Rightarrow> nat" where
  "cnt_t w = (if w = 0 then 1 else 0)"

lemma hid_test_prints_witness:
  "\<exists>w2. test hid_lib_t (replicate 100 0) (\<lambda>_. 0) (zero_field, zero_usage) 0 =
     Some (None, [L_infor dev_name, L_version 1 4, L_perror ''HIDIOCGDEVINFO'', L_name [65, 66]] @ device_listing hid_dev_t @
       event_listing hid_lib_t w2 (cnt_t w2), after_reads hid_lib_t (Suc (cnt_t w2)) w2)"
proof -
  have "events_until hid_lib_t w (cnt_t w)" for w by (simp add: events_until_def after_reads_def hid_lib_t_def cnt_t_def)
  moreover have "length (fst (snd (HIDIOCGNAME hid_lib_t 99 w))) \<le> 99" for w by (simp add: hid_lib_t_def)
  ultimately show ?thesis
    using hid_test_prints [OF hid_driver_t, where stale = "replicate 100 0" and cnt = cnt_t and w = 0 and nf = "\<lambda>_. 0" and sc = "(zero_field, zero_usage)"]
    by (simp add: hid_lib_sel version_lines_def HID_VERSION_def name_text_def)
qed

end
