(* ===== verification/ReaderTest.thy ===== *)
theory ReaderTest
  imports UsbTo322
begin

text \<open>
  The test program of the reader library, \<open>src/test.c\<close>: it lists the readers, connects to the first one, sends it two commands and prints the answers.  The library is the record
  \<open>luareader\<close> of \<open>UsbTo322\<close>.  What is printed is a list of lines with the values their formats show.
\<close>

datatype reader_line =
    R_newline | R_chars "byte list" | R_get_list int "byte list" | R_connect int | R_transmit int | R_bytes "byte list" | R_pop_value int "byte list"

definition string_of :: "byte list \<Rightarrow> string" where
  "string_of bs = map (\<lambda>b. char_of (unat b)) bs"

text \<open>The loop that prints the first \<open>ret\<close> bytes.\<close>

definition print_bytes :: "byte list \<Rightarrow> int \<Rightarrow> byte list option" where
  "print_bytes output ret = (if 0 < ret then read_bytes output 0 (nat ret) else Some [])"

definition transmit_print :: "'w luareader \<Rightarrow> nat \<Rightarrow> byte list \<Rightarrow> byte list \<Rightarrow> 'w \<Rightarrow> (reader_line list \<times> byte list \<times> 'w) option" where
  "transmit_print lr ctx apdu output w = do {
     let (ret, out, w) = luareader_transmit lr ctx apdu (length output) w;
     output \<leftarrow> write_bytes output 0 out;
     bs \<leftarrow> print_bytes output ret;
     Some ([R_transmit ret, R_bytes bs], output, w) }"

definition reader_test_main :: "'w luareader \<Rightarrow> 'w \<Rightarrow> (int \<times> reader_line list \<times> 'w) option" where
  "reader_test_main lr w = do {
     let (ctx, w) = luareader_new lr w;
     let output = replicate 1024 0;
     let (ret, names, w) = luareader_get_list lr ctx (length output) w;
     output \<leftarrow> write_bytes output 0 (chars names);
     cs \<leftarrow> print_bytes output ret;
     s \<leftarrow> c_string_at output 0;
     let l1 = [R_newline, R_chars cs, R_newline, R_get_list ret s];
     let (ret, w) = luareader_connect lr ctx (string_of s) w;
     (l2, output, w) \<leftarrow> transmit_print lr ctx [0x00, 0x84, 0x00, 0x00, 0x08] output w;
     (l3, output, w) \<leftarrow> transmit_print lr ctx [0x00, 0xA4, 0x04, 0x00, 0x00] output w;
     let (_, w) = luareader_disconnect lr ctx w;
     let output = replicate 1024 0;
     let (r, msg, w) = luareader_pop_value lr ctx (length output) w;
     output \<leftarrow> write_bytes output 0 (chars msg);
     s' \<leftarrow> c_string_at output 0;
     Some (r, l1 @ [R_connect ret] @ l2 @ l3 @ [R_pop_value r s'], luareader_term lr ctx w) }"

definition luareader_callback :: "byte list \<Rightarrow> (int \<times> byte list) option" where
  "luareader_callback input = do { s \<leftarrow> c_string_at input 0; Some (0, s) }"

section \<open>Properties\<close>

text \<open>The texts of the library end in its buffers, and a positive result of the list is its length.\<close>

definition texts_contract :: "'w luareader \<Rightarrow> bool" where
  "texts_contract lr \<longleftrightarrow> (\<forall>ctx n w. case luareader_get_list lr ctx n w of (r, s, _) \<Rightarrow> length s < n \<and> r \<le> int n) \<and>
     (\<forall>ctx n w. case luareader_pop_value lr ctx n w of (r, s, _) \<Rightarrow> length s < n)"

lemma write_text:
  assumes "length s < n"
  shows "\<exists>t. write_bytes (replicate n 0) 0 (chars s) = Some t \<and> length t = n \<and> (\<exists>v. c_string_at t 0 = Some v)"
  using assms by (auto simp: write_bytes_def c_string_at_def)

lemma transmit_print_ok:
  assumes "reader_contract lr"
  shows "\<exists>out' w'. transmit_print lr ctx apdu output w =
    Some ([R_transmit (fst (luareader_transmit lr ctx apdu (length output) w)),
           R_bytes (take (nat (fst (luareader_transmit lr ctx apdu (length output) w))) (fst (snd (luareader_transmit lr ctx apdu (length output) w))))], out', w') \<and>
    length out' = length output"
proof -
  obtain r out w1 where t: "luareader_transmit lr ctx apdu (length output) w = (r, out, w1)" by (metis prod_cases3)
  have "length out \<le> length output" "r \<le> int (length out)"
    using assms t unfolding reader_contract_def by (metis (mono_tags, lifting) case_prod_conv)+
  then show ?thesis by (auto simp: transmit_print_def t write_bytes_def print_bytes_def read_bytes_def)
qed

text \<open>The program stays inside its buffers, whatever the readers answer and even when no reader can be connected, prints exactly the bytes of the answers, and gives the
  context back; its result is that of the last call that can fail.\<close>

lemma reader_test_main_safe:
  assumes "reader_contract lr" "texts_contract lr"
  shows "\<exists>r ls w'. reader_test_main lr w = Some (r, ls, luareader_term lr (fst (luareader_new lr w)) w') \<and> (\<exists>s. last ls = R_pop_value r s)"
proof -
  obtain ctx w1 where w1: "luareader_new lr w = (ctx, w1)" by force
  obtain n names w2 where w2: "luareader_get_list lr ctx 1024 w1 = (n, names, w2)" by (metis prod_cases3)
  have names: "length names < 1024" "n \<le> 1024"
    using assms(2) w2 unfolding texts_contract_def by (metis (mono_tags, lifting) case_prod_conv of_nat_numeral)+
  obtain t v where t: "write_bytes (replicate 1024 0) 0 (chars names) = Some t" "length t = 1024" "c_string_at t 0 = Some v"
    using write_text [OF names(1)] by blast
  have cs: "\<exists>cs. print_bytes t n = Some cs" using names(2) t(2) by (simp add: print_bytes_def read_bytes_def nat_le_iff)
  obtain c w3 where w3: "luareader_connect lr ctx (string_of v) w2 = (c, w3)" by force
  obtain l2 t2 w4 where l2: "transmit_print lr ctx [0x00, 0x84, 0x00, 0x00, 0x08] t w3 = Some (l2, t2, w4)"
    using transmit_print_ok [OF assms(1)] by metis
  obtain l3 t3 w5 where l3: "transmit_print lr ctx [0x00, 0xA4, 0x04, 0x00, 0x00] t2 w4 = Some (l3, t3, w5)"
    using transmit_print_ok [OF assms(1)] by metis
  obtain d w6 where w6: "luareader_disconnect lr ctx w5 = (d, w6)" by force
  obtain r msg w7 where w7: "luareader_pop_value lr ctx 1024 w6 = (r, msg, w7)" by (metis prod_cases3)
  have "length msg < 1024" using assms(2) w7 unfolding texts_contract_def by (metis (mono_tags, lifting) case_prod_conv)
  from write_text [OF this] obtain t' v' where "write_bytes (replicate 1024 0) 0 (chars msg) = Some t'" "c_string_at t' 0 = Some v'" by blast
  with t cs l2 l3 show ?thesis by (auto simp: reader_test_main_def w1 w2 w3 w6 w7)
qed

text \<open>A list that is longer than the buffer announces is read behind it.\<close>

lemma reader_test_main_overread:
  assumes "luareader_get_list lr (fst (luareader_new lr w)) 1024 (snd (luareader_new lr w)) = (r, names, w')" "1024 < r" "length names \<le> 1024"
  shows "reader_test_main lr w = None"
  using assms by (auto simp: reader_test_main_def print_bytes_def read_bytes_def write_bytes_def Let_def nat_le_iff split: prod.splits)

end
