(* ===== verification/UtHashFun.thy ===== *)
theory UtHashFun
  imports Prelude
begin

unbundle bit_operations_syntax

text \<open>
  The hash functions of \<open>src/include/uthash.h\<close>.  The macros take a pointer and a length; here they take the \<open>keylen\<close> bytes at the pointer, from which the macro
  reads.  \<open>HASH_MUR\<close> is compiled only when a program defines \<open>HASH_USING_NO_STRICT_ALIASING\<close>; it is modelled for the target, which is neither an Intel machine nor one of
  those that the header takes for big-endian.
\<close>

abbreviation u32 :: "byte \<Rightarrow> 32 word" where
  "u32 \<equiv> ucast"

section \<open>Byte by byte\<close>

definition HASH_BER :: "byte list \<Rightarrow> 32 word" where
  "HASH_BER bs = foldl (\<lambda>hashv b. (push_bit 5 hashv + hashv) + u32 b) 0 bs"

definition HASH_SAX :: "byte list \<Rightarrow> 32 word" where
  "HASH_SAX bs = foldl (\<lambda>hashv b. hashv XOR (push_bit 5 hashv + drop_bit 2 hashv + u32 b)) 0 bs"

definition HASH_FNV :: "byte list \<Rightarrow> 32 word" where
  "HASH_FNV bs = foldl (\<lambda>hashv b. (hashv XOR u32 b) * 16777619) 2166136261 bs"

definition oat_step :: "32 word \<Rightarrow> byte \<Rightarrow> 32 word" where
  "oat_step hashv b =
     (let hashv = hashv + u32 b;
          hashv = hashv + push_bit 10 hashv
      in hashv XOR drop_bit 6 hashv)"

definition HASH_OAT :: "byte list \<Rightarrow> 32 word" where
  "HASH_OAT bs =
     (let hashv = foldl oat_step 0 bs;
          hashv = hashv + push_bit 3 hashv;
          hashv = hashv XOR drop_bit 11 hashv
      in hashv + push_bit 15 hashv)"

section \<open>Jenkins\<close>

text \<open>The three kinds of line of the mixing macro: each changes one word by the two others and a shift of one of them.\<close>

definition mix_a :: "(32 word \<Rightarrow> 32 word) \<Rightarrow> 32 word \<times> 32 word \<times> 32 word \<Rightarrow> 32 word \<times> 32 word \<times> 32 word" where
  "mix_a sh = (\<lambda>(a, b, c). ((a - b - c) XOR sh c, b, c))"

definition mix_b :: "(32 word \<Rightarrow> 32 word) \<Rightarrow> 32 word \<times> 32 word \<times> 32 word \<Rightarrow> 32 word \<times> 32 word \<times> 32 word" where
  "mix_b sh = (\<lambda>(a, b, c). (a, (b - c - a) XOR sh a, c))"

definition mix_c :: "(32 word \<Rightarrow> 32 word) \<Rightarrow> 32 word \<times> 32 word \<times> 32 word \<Rightarrow> 32 word \<times> 32 word \<times> 32 word" where
  "mix_c sh = (\<lambda>(a, b, c). (a, b, (c - a - b) XOR sh b))"

definition HASH_JEN_MIX :: "32 word \<times> 32 word \<times> 32 word \<Rightarrow> 32 word \<times> 32 word \<times> 32 word" where
  "HASH_JEN_MIX abc =
     (let abc = mix_a (drop_bit 13) abc;
          abc = mix_b (push_bit 8) abc;
          abc = mix_c (drop_bit 13) abc;
          abc = mix_a (drop_bit 12) abc;
          abc = mix_b (push_bit 16) abc;
          abc = mix_c (drop_bit 5) abc;
          abc = mix_a (drop_bit 3) abc;
          abc = mix_b (push_bit 10) abc
      in mix_c (drop_bit 15) abc)"

text \<open>Four bytes of the key, the lowest first.\<close>

definition jen_word :: "byte list \<Rightarrow> nat \<Rightarrow> 32 word" where
  "jen_word key i = u32 (key ! i) + push_bit 8 (u32 (key ! (i + 1))) + push_bit 16 (u32 (key ! (i + 2))) + push_bit 24 (u32 (key ! (i + 3)))"

text \<open>The cases of the \<open>switch\<close> fall through: a case is executed when at least its number of bytes is left.\<close>

definition jen_tail :: "byte list \<Rightarrow> 32 word \<times> 32 word \<times> 32 word \<Rightarrow> 32 word \<times> 32 word \<times> 32 word" where
  "jen_tail key = (\<lambda>(i, j, hashv).
     let k = length key;
         at = (\<lambda>n sh. if n < k then push_bit sh (u32 (key ! n)) else 0);
         hashv = hashv + at 10 24 + at 9 16 + at 8 8;
         j = j + at 7 24 + at 6 16 + at 5 8 + at 4 0;
         i = i + at 3 24 + at 2 16 + at 1 8 + at 0 0
     in (i, j, hashv))"

function jen_loop :: "byte list \<Rightarrow> 32 word \<times> 32 word \<times> 32 word \<Rightarrow> byte list \<times> 32 word \<times> 32 word \<times> 32 word" where
  "jen_loop key (i, j, hashv) =
     (if 12 \<le> length key
      then jen_loop (drop 12 key) (HASH_JEN_MIX (i + jen_word key 0, j + jen_word key 4, hashv + jen_word key 8))
      else (key, i, j, hashv))"
  by pat_completeness auto
termination by (relation "measure (length \<circ> fst)") auto

definition HASH_JEN :: "byte list \<Rightarrow> 32 word" where
  "HASH_JEN key =
     (let (rest, i, j, hashv) = jen_loop key (0x9e3779b9, 0x9e3779b9, 0xfeedbeef);
          (i, j, hashv) = HASH_JEN_MIX (jen_tail rest (i, j, hashv + word_of_nat (length key)))
      in hashv)"

section \<open>Hsieh\<close>

definition get16bits :: "byte list \<Rightarrow> nat \<Rightarrow> 32 word" where
  "get16bits key d = push_bit 8 (u32 (key ! (d + 1))) + u32 (key ! d)"

fun sfh_loop :: "nat \<Rightarrow> byte list \<Rightarrow> 32 word \<Rightarrow> byte list \<times> 32 word" where
  "sfh_loop 0 key hashv = (key, hashv)"
| "sfh_loop (Suc n) key hashv =
     (let hashv = hashv + get16bits key 0;
          tmp = push_bit 11 (get16bits key 2) XOR hashv;
          hashv = push_bit 16 hashv XOR tmp
      in sfh_loop n (drop 4 key) (hashv + drop_bit 11 hashv))"

definition sfh_tail :: "nat \<Rightarrow> byte list \<Rightarrow> 32 word \<Rightarrow> 32 word" where
  "sfh_tail rem key hashv =
     (if rem = 3 then
        let hashv = hashv + get16bits key 0;
            hashv = hashv XOR push_bit 16 hashv;
            hashv = hashv XOR push_bit 18 (u32 (key ! 2))
        in hashv + drop_bit 11 hashv
      else if rem = 2 then
        let hashv = hashv + get16bits key 0;
            hashv = hashv XOR push_bit 11 hashv
        in hashv + drop_bit 17 hashv
      else if rem = 1 then
        let hashv = hashv + u32 (key ! 0);
            hashv = hashv XOR push_bit 10 hashv
        in hashv + drop_bit 1 hashv
      else hashv)"

definition HASH_SFH :: "byte list \<Rightarrow> 32 word" where
  "HASH_SFH bs =
     (let (key, hashv) = sfh_loop (length bs div 4) bs 0xcafebabe;
          hashv = sfh_tail (length bs mod 4) key hashv;
          hashv = hashv XOR push_bit 3 hashv;
          hashv = hashv + drop_bit 5 hashv;
          hashv = hashv XOR push_bit 4 hashv;
          hashv = hashv + drop_bit 17 hashv;
          hashv = hashv XOR push_bit 25 hashv
      in hashv + drop_bit 6 hashv)"

section \<open>Murmur\<close>

definition MUR_ROTL32 :: "32 word \<Rightarrow> nat \<Rightarrow> 32 word" where
  "MUR_ROTL32 x r = push_bit r x OR drop_bit (32 - r) x"

definition MUR_FMIX :: "32 word \<Rightarrow> 32 word" where
  "MUR_FMIX h =
     (let h = h XOR drop_bit 16 h;
          h = h * 0x85ebca6b;
          h = h XOR drop_bit 13 h;
          h = h * 0xc2b2ae35
      in h XOR drop_bit 16 h)"

text \<open>
  On a machine that is not an Intel one the key is read in whole aligned words.  \<open>m\<close> is the memory, \<open>e\<close> the order of bytes in a word; \<open>WP\<close> is the aligned word at or below an address.
  The big-endian target defines none of the four macros that the header asks for, so the masks are those for little-endian machines.
\<close>

definition mur_word :: "byte_order \<Rightarrow> (nat \<Rightarrow> byte) \<Rightarrow> nat \<Rightarrow> 32 word" where
  "mur_word e m p = of_native32 e [m p, m (p + 1), m (p + 2), m (p + 3)]"

definition WP :: "nat \<Rightarrow> nat" where
  "WP p = p - p mod 4"

definition MUR_THREE_ONE :: "byte_order \<Rightarrow> (nat \<Rightarrow> byte) \<Rightarrow> nat \<Rightarrow> 32 word" where
  "MUR_THREE_ONE e m p = drop_bit 8 (mur_word e m (WP p) AND 0xffffff00) OR push_bit 24 (mur_word e m (WP p + 4) AND 0x000000ff)"

definition MUR_TWO_TWO :: "byte_order \<Rightarrow> (nat \<Rightarrow> byte) \<Rightarrow> nat \<Rightarrow> 32 word" where
  "MUR_TWO_TWO e m p = drop_bit 16 (mur_word e m (WP p) AND 0xffff0000) OR push_bit 16 (mur_word e m (WP p + 4) AND 0x0000ffff)"

definition MUR_ONE_THREE :: "byte_order \<Rightarrow> (nat \<Rightarrow> byte) \<Rightarrow> nat \<Rightarrow> 32 word" where
  "MUR_ONE_THREE e m p = drop_bit 24 (mur_word e m (WP p) AND 0xff000000) OR push_bit 8 (mur_word e m (WP p + 4) AND 0x00ffffff)"

text \<open>The index \<open>i\<close> is that of the loop: the block is \<open>i\<close> words before \<open>p\<close>.  Only the aligned case uses it.\<close>

definition MUR_GETBLOCK :: "byte_order \<Rightarrow> (nat \<Rightarrow> byte) \<Rightarrow> nat \<Rightarrow> nat \<Rightarrow> 32 word" where
  "MUR_GETBLOCK e m p i =
     (if p mod 4 = 0 then mur_word e m (p - 4 * i)
      else if p mod 4 = 1 then MUR_THREE_ONE e m p
      else if p mod 4 = 2 then MUR_TWO_TWO e m p
      else MUR_ONE_THREE e m p)"

definition mur_k1 :: "32 word \<Rightarrow> 32 word" where
  "mur_k1 k1 = MUR_ROTL32 (k1 * 0xcc9e2d51) 15 * 0x1b873593"

fun mur_loop :: "byte_order \<Rightarrow> (nat \<Rightarrow> byte) \<Rightarrow> nat \<Rightarrow> nat \<Rightarrow> 32 word \<Rightarrow> 32 word" where
  "mur_loop e m blocks 0 h1 = h1"
| "mur_loop e m blocks (Suc i) h1 =
     (let h1 = h1 XOR mur_k1 (MUR_GETBLOCK e m blocks (Suc i));
          h1 = MUR_ROTL32 h1 13
      in mur_loop e m blocks i (h1 * 5 + 0xe6546b64))"

definition mur_tail :: "(nat \<Rightarrow> byte) \<Rightarrow> nat \<Rightarrow> nat \<Rightarrow> 32 word \<Rightarrow> 32 word" where
  "mur_tail m p r h1 =
     (if r = 0 then h1
      else h1 XOR mur_k1 ((if 3 \<le> r then push_bit 16 (u32 (m (p + 2))) else 0) XOR (if 2 \<le> r then push_bit 8 (u32 (m (p + 1))) else 0) XOR u32 (m p)))"

definition HASH_MUR :: "byte_order \<Rightarrow> (nat \<Rightarrow> byte) \<Rightarrow> nat \<Rightarrow> nat \<Rightarrow> 32 word" where
  "HASH_MUR e m key keylen =
     (let nblocks = keylen div 4;
          h1 = mur_loop e m (key + nblocks * 4) nblocks 0xf88D5353;
          h1 = mur_tail m (key + nblocks * 4) (keylen mod 4) h1
      in MUR_FMIX (h1 XOR word_of_nat keylen))"

section \<open>Mixing loses nothing\<close>

lemma mix_bij: "bij (mix_a sh)" "bij (mix_b sh)" "bij (mix_c sh)"
proof -
  let ?a = "\<lambda>(a, b, c). ((a XOR sh c) + c + b, b, c)"
  let ?b = "\<lambda>(a, b, c). (a, (b XOR sh a) + a + c, c)"
  let ?c = "\<lambda>(a, b, c). (a, b, (c XOR sh b) + b + a)"
  show "bij (mix_a sh)" by (rule o_bij [of ?a]) (auto simp: mix_a_def fun_eq_iff xor.assoc)
  show "bij (mix_b sh)" by (rule o_bij [of ?b]) (auto simp: mix_b_def fun_eq_iff xor.assoc)
  show "bij (mix_c sh)" by (rule o_bij [of ?c]) (auto simp: mix_c_def fun_eq_iff xor.assoc)
qed

lemma HASH_JEN_MIX_bij: "bij HASH_JEN_MIX"
proof -
  have "HASH_JEN_MIX = mix_c (drop_bit 15) \<circ> mix_b (push_bit 10) \<circ> mix_a (drop_bit 3) \<circ> mix_c (drop_bit 5) \<circ> mix_b (push_bit 16)
     \<circ> mix_a (drop_bit 12) \<circ> mix_c (drop_bit 13) \<circ> mix_b (push_bit 8) \<circ> mix_a (drop_bit 13)"
    by (simp add: fun_eq_iff HASH_JEN_MIX_def)
  moreover have "bij \<dots>" by (intro bij_comp mix_bij)
  ultimately show ?thesis by metis
qed

section \<open>An unaligned key\<close>

text \<open>Where the key is not aligned every block is the same, and the hash depends on the memory behind the key and on nothing before its last word.\<close>

lemma MUR_GETBLOCK_unaligned: "p mod 4 \<noteq> 0 \<Longrightarrow> MUR_GETBLOCK e m p i = MUR_GETBLOCK e m p j"
  by (simp add: MUR_GETBLOCK_def)

lemma HASH_MUR_unaligned_example:
  fixes m defines "m \<equiv> (\<lambda>a. if a = 13 then 7 else (0 :: byte))"
  shows "map m [5..<13] = map m [21..<29]" "HASH_MUR Big_Endian m 5 8 \<noteq> HASH_MUR Big_Endian m 21 8"
  by (simp_all add: m_def, code_simp)

end
