(* ===== verification/UtHash.thy ===== *)
theory UtHash
  imports UtHashFun
begin

text \<open>
  The hash table of \<open>src/include/uthash.h\<close>.  The table is intrusive: an element of the program contains a handle, through which it is linked into a doubly linked list in application order
  and into the doubly linked chain of its bucket; the first element of the list stands for the table.

  The structure \<open>UT_hash_handle\<close> is a family of maps, one for each field, from the element that contains the handle to the value of the field.  A program may have several handles in an
  element; a macro gets the name of the handle as its first argument, and the offset \<open>hho\<close> of the handle in the element is this name.  A pointer to a handle is
  represented by its element, so that \<open>ELMT_FROM_HH\<close> and \<open>HH_FROM_ELMT\<close> only change the type.  Tables and arrays of buckets are blocks of the heap.  A key is a pointer into memory from which a number of bytes can be read.

  A macro that calls \<open>uthash_fatal\<close> ends the process: the result is \<open>Exit\<close>.  The hash function, which a program can choose, is the argument \<open>fcn\<close>.  The macros for bloom filters, for integrity checks and for
  logging of keys expand to nothing unless a program asks for them.
\<close>

section \<open>Data\<close>

type_synonym hname = nat

record UT_hash_handle =
  live :: "addr \<Rightarrow> bool"
  tbl :: "addr \<Rightarrow> ptr"
  app_prev :: "addr \<Rightarrow> ptr"
  app_next :: "addr \<Rightarrow> ptr"
  hh_prev :: "addr \<Rightarrow> ptr"
  hh_next :: "addr \<Rightarrow> ptr"
  key :: "addr \<Rightarrow> addr"
  keylen :: "addr \<Rightarrow> 32 word"
  hashv :: "addr \<Rightarrow> 32 word"

record UT_hash_bucket =
  hh_head :: ptr
  bkt_count :: "32 word"
  expand_mult :: "32 word"

record UT_hash_table =
  buckets :: ptr
  num_buckets :: "32 word"
  log2_num_buckets :: "32 word"
  num_items :: "32 word"
  tail :: ptr
  hho :: hname
  ideal_chain_maxlen :: "32 word"
  nonideal_items :: "32 word"
  ineff_expands :: "32 word"
  noexpand :: "32 word"
  signature :: "32 word"

record ut_mem = mem +
  handles :: "hname \<Rightarrow> UT_hash_handle"
  tables :: "addr \<rightharpoonup> UT_hash_table"
  barrays :: "addr \<rightharpoonup> UT_hash_bucket list"
  kmem :: "addr \<rightharpoonup> byte list"

datatype 'a outcome = Exit | Ret 'a

definition HASH_INITIAL_NUM_BUCKETS :: "32 word" where "HASH_INITIAL_NUM_BUCKETS = 32"
definition HASH_INITIAL_NUM_BUCKETS_LOG2 :: "32 word" where "HASH_INITIAL_NUM_BUCKETS_LOG2 = 5"
definition HASH_BKT_CAPACITY_THRESH :: "32 word" where "HASH_BKT_CAPACITY_THRESH = 10"
definition HASH_SIGNATURE :: "32 word" where "HASH_SIGNATURE = 0xa0111fe1"

section \<open>Access to memory\<close>

text \<open>The element behind a pointer, of which the program may use the handle.\<close>

definition hh_at :: "hname \<Rightarrow> ptr \<Rightarrow> ut_mem \<Rightarrow> addr option" where
  "hh_at hh p s = do { a \<leftarrow> p; if live (handles s hh) a then Some a else None }"

definition set_hh :: "hname \<Rightarrow> (UT_hash_handle \<Rightarrow> UT_hash_handle) \<Rightarrow> ut_mem \<Rightarrow> ut_mem" where
  "set_hh hh f s = s\<lparr>handles := (handles s)(hh := f (handles s hh))\<rparr>"

definition set_app_prev :: "hname \<Rightarrow> addr \<Rightarrow> ptr \<Rightarrow> ut_mem \<Rightarrow> ut_mem" where
  "set_app_prev hh a p = set_hh hh (\<lambda>h. h\<lparr>app_prev := (app_prev h)(a := p)\<rparr>)"

definition set_app_next :: "hname \<Rightarrow> addr \<Rightarrow> ptr \<Rightarrow> ut_mem \<Rightarrow> ut_mem" where
  "set_app_next hh a p = set_hh hh (\<lambda>h. h\<lparr>app_next := (app_next h)(a := p)\<rparr>)"

definition set_hh_prev :: "hname \<Rightarrow> addr \<Rightarrow> ptr \<Rightarrow> ut_mem \<Rightarrow> ut_mem" where
  "set_hh_prev hh a p = set_hh hh (\<lambda>h. h\<lparr>hh_prev := (hh_prev h)(a := p)\<rparr>)"

definition set_hh_next :: "hname \<Rightarrow> addr \<Rightarrow> ptr \<Rightarrow> ut_mem \<Rightarrow> ut_mem" where
  "set_hh_next hh a p = set_hh hh (\<lambda>h. h\<lparr>hh_next := (hh_next h)(a := p)\<rparr>)"

definition set_tbl :: "hname \<Rightarrow> addr \<Rightarrow> ptr \<Rightarrow> ut_mem \<Rightarrow> ut_mem" where
  "set_tbl hh a p = set_hh hh (\<lambda>h. h\<lparr>tbl := (tbl h)(a := p)\<rparr>)"

definition get_table :: "ptr \<Rightarrow> ut_mem \<Rightarrow> UT_hash_table option" where
  "get_table t s = Option.bind t (tables s)"

definition set_table :: "ptr \<Rightarrow> (UT_hash_table \<Rightarrow> UT_hash_table) \<Rightarrow> ut_mem \<Rightarrow> ut_mem option" where
  "set_table t f s = do { a \<leftarrow> t; tb \<leftarrow> tables s a; Some (s\<lparr>tables := (tables s)(a \<mapsto> f tb)\<rparr>) }"

definition get_bkt :: "ptr \<Rightarrow> 32 word \<Rightarrow> ut_mem \<Rightarrow> UT_hash_bucket option" where
  "get_bkt b i s = do { a \<leftarrow> b; bs \<leftarrow> barrays s a; if unat i < length bs then Some (bs ! unat i) else None }"

definition set_bkt :: "ptr \<Rightarrow> 32 word \<Rightarrow> (UT_hash_bucket \<Rightarrow> UT_hash_bucket) \<Rightarrow> ut_mem \<Rightarrow> ut_mem option" where
  "set_bkt b i f s = do {
     a \<leftarrow> b;
     bs \<leftarrow> barrays s a;
     if unat i < length bs then Some (s\<lparr>barrays := (barrays s)(a \<mapsto> bs[unat i := f (bs ! unat i)])\<rparr>) else None }"

text \<open>\<open>(head)->hh.tbl\<close>.\<close>

definition tbl_of :: "hname \<Rightarrow> ptr \<Rightarrow> ut_mem \<Rightarrow> ptr option" where
  "tbl_of hh head s = do { a \<leftarrow> hh_at hh head s; Some (tbl (handles s hh) a) }"

definition key_bytes :: "addr \<Rightarrow> 32 word \<Rightarrow> ut_mem \<Rightarrow> byte list option" where
  "key_bytes p n s = do { bs \<leftarrow> kmem s p; read_bytes bs 0 (unat n) }"

definition uthash_memcmp_eq :: "addr \<Rightarrow> addr \<Rightarrow> 32 word \<Rightarrow> ut_mem \<Rightarrow> bool option" where
  "uthash_memcmp_eq p q n s = do { x \<leftarrow> key_bytes p n s; y \<leftarrow> key_bytes q n s; Some (x = y) }"

definition uthash_malloc :: "32 word \<Rightarrow> ut_mem \<Rightarrow> ptr \<times> ut_mem" where
  "uthash_malloc sz s = malloc (sint sz) s"

definition free_table :: "ptr \<Rightarrow> ut_mem \<Rightarrow> ut_mem option" where
  "free_table t s = do { a \<leftarrow> t; _ \<leftarrow> tables s a; Some (s\<lparr>tables := (tables s)(a := None)\<rparr>) }"

definition free_barray :: "ptr \<Rightarrow> ut_mem \<Rightarrow> ut_mem option" where
  "free_barray b s = do { a \<leftarrow> b; _ \<leftarrow> barrays s a; Some (s\<lparr>barrays := (barrays s)(a := None)\<rparr>) }"

section \<open>Finding\<close>

definition HASH_VALUE :: "(byte list \<Rightarrow> 32 word) \<Rightarrow> addr \<Rightarrow> 32 word \<Rightarrow> ut_mem \<Rightarrow> 32 word option" where
  "HASH_VALUE fcn keyptr len s = map_option fcn (key_bytes keyptr len s)"

definition HASH_TO_BKT :: "32 word \<Rightarrow> 32 word \<Rightarrow> 32 word" where
  "HASH_TO_BKT hv num_bkts = and hv (num_bkts - 1)"

partial_function (option) find_loop :: "hname \<Rightarrow> addr \<Rightarrow> 32 word \<Rightarrow> 32 word \<Rightarrow> ptr \<Rightarrow> ut_mem \<Rightarrow> ptr option" where
  "find_loop hh keyptr len hashval out s =
     (if out = None then Some None
      else Option.bind (hh_at hh out s) (\<lambda>a.
        Option.bind (if hashv (handles s hh) a = hashval \<and> keylen (handles s hh) a = len
                     then uthash_memcmp_eq (key (handles s hh) a) keyptr len s else Some False) (\<lambda>eq.
          if eq then Some out else find_loop hh keyptr len hashval (hh_next (handles s hh) a) s)))"

definition HASH_FIND_IN_BKT :: "hname \<Rightarrow> UT_hash_bucket \<Rightarrow> addr \<Rightarrow> 32 word \<Rightarrow> 32 word \<Rightarrow> ut_mem \<Rightarrow> ptr option" where
  "HASH_FIND_IN_BKT hh bkt keyptr len hashval s = find_loop hh keyptr len hashval (hh_head bkt) s"

definition HASH_FIND_BYHASHVALUE :: "hname \<Rightarrow> ptr \<Rightarrow> addr \<Rightarrow> 32 word \<Rightarrow> 32 word \<Rightarrow> ut_mem \<Rightarrow> ptr option" where
  "HASH_FIND_BYHASHVALUE hh head keyptr len hashval s =
     (if head = None then Some None
      else do {
        t \<leftarrow> tbl_of hh head s;
        tb \<leftarrow> get_table t s;
        bkt \<leftarrow> get_bkt (buckets tb) (HASH_TO_BKT hashval (num_buckets tb)) s;
        HASH_FIND_IN_BKT hh bkt keyptr len hashval s })"

definition HASH_FIND :: "(byte list \<Rightarrow> 32 word) \<Rightarrow> hname \<Rightarrow> ptr \<Rightarrow> addr \<Rightarrow> 32 word \<Rightarrow> ut_mem \<Rightarrow> ptr option" where
  "HASH_FIND fcn hh head keyptr len s = do {
     hv \<leftarrow> HASH_VALUE fcn keyptr len s;
     HASH_FIND_BYHASHVALUE hh head keyptr len hv s }"

section \<open>Adding\<close>

definition zero_bucket :: UT_hash_bucket where
  "zero_bucket = \<lparr>hh_head = None, bkt_count = 0, expand_mult = 0\<rparr>"

definition zero_table :: UT_hash_table where
  "zero_table = \<lparr>buckets = None, num_buckets = 0, log2_num_buckets = 0, num_items = 0, tail = None, hho = 0, ideal_chain_maxlen = 0,
     nonideal_items = 0, ineff_expands = 0, noexpand = 0, signature = 0\<rparr>"

text \<open>On the target a table has 44 bytes and a bucket 12.\<close>

definition HASH_MAKE_TABLE :: "hname \<Rightarrow> ptr \<Rightarrow> ut_mem \<Rightarrow> ut_mem outcome option" where
  "HASH_MAKE_TABLE hh head s = do {
     a \<leftarrow> hh_at hh head s;
     (case uthash_malloc 44 s of
        (None, s) \<Rightarrow> Some Exit
      | (Some t, s) \<Rightarrow>
          let s = set_tbl hh a (Some t) s;
              tb = zero_table\<lparr>tail := head, num_buckets := HASH_INITIAL_NUM_BUCKETS, log2_num_buckets := HASH_INITIAL_NUM_BUCKETS_LOG2, hho := hh\<rparr>
          in (case uthash_malloc (HASH_INITIAL_NUM_BUCKETS * 12) s of
                (None, s) \<Rightarrow> Some Exit
              | (Some b, s) \<Rightarrow>
                  Some (Ret (s\<lparr>tables := (tables s)(t \<mapsto> tb\<lparr>buckets := Some b, signature := HASH_SIGNATURE\<rparr>),
                               barrays := (barrays s)(b \<mapsto> replicate (unat HASH_INITIAL_NUM_BUCKETS) zero_bucket)\<rparr>)))) }"

definition HASH_APPEND_LIST :: "hname \<Rightarrow> ptr \<Rightarrow> addr \<Rightarrow> ut_mem \<Rightarrow> ut_mem option" where
  "HASH_APPEND_LIST hh head add s = do {
     let s = set_app_next hh add None s;
     t \<leftarrow> tbl_of hh head s;
     tb \<leftarrow> get_table t s;
     let s = set_app_prev hh add (tail tb) s;
     e \<leftarrow> hh_at hh (tail tb) s;
     let s = set_app_next hh e (Some add) s;
     set_table t (\<lambda>tb. tb\<lparr>tail := Some add\<rparr>) s }"

subsection \<open>Expansion\<close>

text \<open>Moving one item to its new bucket, in the array \<open>nb\<close>.  A division by zero is a fault.\<close>

definition expand_item :: "ptr \<Rightarrow> addr \<Rightarrow> addr \<Rightarrow> ut_mem \<Rightarrow> ut_mem option" where
  "expand_item t nb thh s = do {
     tb \<leftarrow> get_table t s;
     let hh = hho tb;
     let i = HASH_TO_BKT (hashv (handles s hh) thh) (num_buckets tb * 2);
     s \<leftarrow> set_bkt (Some nb) i (\<lambda>b. b\<lparr>bkt_count := bkt_count b + 1\<rparr>) s;
     newbkt \<leftarrow> get_bkt (Some nb) i s;
     s \<leftarrow> (if ideal_chain_maxlen tb < bkt_count newbkt then do {
              s \<leftarrow> set_table t (\<lambda>tb. tb\<lparr>nonideal_items := nonideal_items tb + 1\<rparr>) s;
              if ideal_chain_maxlen tb = 0 then None
              else set_bkt (Some nb) i (\<lambda>b. b\<lparr>expand_mult := bkt_count newbkt div ideal_chain_maxlen tb\<rparr>) s }
            else Some s);
     let s = set_hh_prev hh thh None s;
     let s = set_hh_next hh thh (hh_head newbkt) s;
     s \<leftarrow> (if hh_head newbkt \<noteq> None then do { e \<leftarrow> hh_at hh (hh_head newbkt) s; Some (set_hh_prev hh e (Some thh) s) } else Some s);
     set_bkt (Some nb) i (\<lambda>b. b\<lparr>hh_head := Some thh\<rparr>) s }"

partial_function (option) expand_chain :: "ptr \<Rightarrow> hname \<Rightarrow> addr \<Rightarrow> ptr \<Rightarrow> ut_mem \<Rightarrow> ut_mem option" where
  "expand_chain t hh nb thh s =
     (if thh = None then Some s
      else Option.bind (hh_at hh thh s) (\<lambda>a.
        let nxt = hh_next (handles s hh) a
        in Option.bind (expand_item t nb a s) (\<lambda>s. expand_chain t hh nb nxt s)))"

fun expand_loop :: "ptr \<Rightarrow> addr \<Rightarrow> nat \<Rightarrow> nat \<Rightarrow> ut_mem \<Rightarrow> ut_mem option" where
  "expand_loop t nb i 0 s = Some s"
| "expand_loop t nb i (Suc n) s = do {
     tb \<leftarrow> get_table t s;
     bkt \<leftarrow> get_bkt (buckets tb) (word_of_nat i) s;
     s \<leftarrow> expand_chain t (hho tb) nb (hh_head bkt) s;
     expand_loop t nb (Suc i) n s }"

definition HASH_EXPAND_BUCKETS :: "ptr \<Rightarrow> ut_mem \<Rightarrow> ut_mem outcome option" where
  "HASH_EXPAND_BUCKETS t s = do {
     tb \<leftarrow> get_table t s;
     let sz = 2 * num_buckets tb * 12;
     (case uthash_malloc sz s of
        (None, s) \<Rightarrow> Some Exit
      | (Some nb, s) \<Rightarrow> do {
          let s = s\<lparr>barrays := (barrays s)(nb \<mapsto> replicate (unat sz div 12) zero_bucket)\<rparr>;
          s \<leftarrow> set_table t (\<lambda>tb. tb\<lparr>ideal_chain_maxlen := drop_bit (unat (log2_num_buckets tb + 1)) (num_items tb) +
                   (if and (num_items tb) (num_buckets tb * 2 - 1) \<noteq> 0 then 1 else 0), nonideal_items := 0\<rparr>) s;
          s \<leftarrow> expand_loop t nb 0 (unat (num_buckets tb)) s;
          s \<leftarrow> free_barray (buckets tb) s;
          s \<leftarrow> set_table t (\<lambda>tb. tb\<lparr>num_buckets := num_buckets tb * 2, log2_num_buckets := log2_num_buckets tb + 1, buckets := Some nb\<rparr>) s;
          s \<leftarrow> set_table t (\<lambda>tb. tb\<lparr>ineff_expands := (if drop_bit 1 (num_items tb) < nonideal_items tb then ineff_expands tb + 1 else 0)\<rparr>) s;
          s \<leftarrow> set_table t (\<lambda>tb. if 1 < ineff_expands tb then tb\<lparr>noexpand := 1\<rparr> else tb) s;
          Some (Ret s) }) }"

definition HASH_ADD_TO_BKT :: "hname \<Rightarrow> ptr \<Rightarrow> 32 word \<Rightarrow> addr \<Rightarrow> ut_mem \<Rightarrow> ut_mem outcome option" where
  "HASH_ADD_TO_BKT hh b i addhh s = do {
     s \<leftarrow> set_bkt b i (\<lambda>bk. bk\<lparr>bkt_count := bkt_count bk + 1\<rparr>) s;
     bk \<leftarrow> get_bkt b i s;
     let s = set_hh_next hh addhh (hh_head bk) s;
     let s = set_hh_prev hh addhh None s;
     s \<leftarrow> (if hh_head bk \<noteq> None then do { e \<leftarrow> hh_at hh (hh_head bk) s; Some (set_hh_prev hh e (Some addhh) s) } else Some s);
     s \<leftarrow> set_bkt b i (\<lambda>bk. bk\<lparr>hh_head := Some addhh\<rparr>) s;
     tb \<leftarrow> get_table (tbl (handles s hh) addhh) s;
     if (expand_mult bk + 1) * HASH_BKT_CAPACITY_THRESH \<le> bkt_count bk \<and> noexpand tb \<noteq> 1
     then HASH_EXPAND_BUCKETS (tbl (handles s hh) addhh) s
     else Some (Ret s) }"

text \<open>The end of both macros that add: the item is counted and put into its bucket.  The result is the head and the memory.\<close>

definition add_finish :: "hname \<Rightarrow> ptr \<Rightarrow> 32 word \<Rightarrow> addr \<Rightarrow> ut_mem \<Rightarrow> (ptr \<times> ut_mem) outcome option" where
  "add_finish hh head hashval add s = do {
     t \<leftarrow> tbl_of hh head s;
     s \<leftarrow> set_table t (\<lambda>tb. tb\<lparr>num_items := num_items tb + 1\<rparr>) s;
     tb \<leftarrow> get_table t s;
     r \<leftarrow> HASH_ADD_TO_BKT hh (buckets tb) (HASH_TO_BKT hashval (num_buckets tb)) add s;
     Some (case r of Exit \<Rightarrow> Exit | Ret s \<Rightarrow> Ret (head, s)) }"

definition add_fields :: "hname \<Rightarrow> addr \<Rightarrow> 32 word \<Rightarrow> 32 word \<Rightarrow> addr \<Rightarrow> ut_mem \<Rightarrow> ut_mem" where
  "add_fields hh keyptr len hashval add = set_hh hh (\<lambda>h. h\<lparr>hashv := (hashv h)(add := hashval), key := (key h)(add := keyptr), keylen := (keylen h)(add := len)\<rparr>)"

text \<open>The first element of a table.\<close>

definition add_first :: "hname \<Rightarrow> 32 word \<Rightarrow> addr \<Rightarrow> ut_mem \<Rightarrow> (ptr \<times> ut_mem) outcome option" where
  "add_first hh hashval add s = do {
     let s = set_app_prev hh add None (set_app_next hh add None s);
     r \<leftarrow> HASH_MAKE_TABLE hh (Some add) s;
     (case r of Exit \<Rightarrow> Some Exit | Ret s \<Rightarrow> add_finish hh (Some add) hashval add s) }"

definition HASH_ADD_KEYPTR_BYHASHVALUE :: "hname \<Rightarrow> ptr \<Rightarrow> addr \<Rightarrow> 32 word \<Rightarrow> 32 word \<Rightarrow> addr \<Rightarrow> ut_mem \<Rightarrow> (ptr \<times> ut_mem) outcome option" where
  "HASH_ADD_KEYPTR_BYHASHVALUE hh head keyptr len hashval add s = do {
     a \<leftarrow> hh_at hh (Some add) s;
     let s = add_fields hh keyptr len hashval a s;
     if head = None then add_first hh hashval a s
     else do {
       t \<leftarrow> tbl_of hh head s;
       let s = set_tbl hh a t s;
       s \<leftarrow> HASH_APPEND_LIST hh head a s;
       add_finish hh head hashval a s } }"

definition HASH_ADD_KEYPTR :: "(byte list \<Rightarrow> 32 word) \<Rightarrow> hname \<Rightarrow> ptr \<Rightarrow> addr \<Rightarrow> 32 word \<Rightarrow> addr \<Rightarrow> ut_mem \<Rightarrow> (ptr \<times> ut_mem) outcome option" where
  "HASH_ADD_KEYPTR fcn hh head keyptr len add s = do {
     hv \<leftarrow> HASH_VALUE fcn keyptr len s;
     HASH_ADD_KEYPTR_BYHASHVALUE hh head keyptr len hv add s }"

text \<open>Adding in order: the place is before the first element that compares greater.\<close>

partial_function (option) order_loop :: "(addr \<Rightarrow> addr \<Rightarrow> int) \<Rightarrow> hname \<Rightarrow> addr \<Rightarrow> addr \<Rightarrow> ut_mem \<Rightarrow> ptr option" where
  "order_loop cmpfcn hh add iter s =
     (if 0 < cmpfcn iter add then Some (Some iter)
      else Option.bind (hh_at hh (Some iter) s) (\<lambda>a.
        case app_next (handles s hh) a of None \<Rightarrow> Some None | Some n \<Rightarrow> order_loop cmpfcn hh add n s))"

definition order_insert :: "hname \<Rightarrow> ptr \<Rightarrow> addr \<Rightarrow> addr \<Rightarrow> ut_mem \<Rightarrow> (ptr \<times> ut_mem) option" where
  "order_insert hh head add iter s = do {
     t \<leftarrow> tbl_of hh head s;
     tb \<leftarrow> get_table t s;
     let s = set_app_next hh add (Some iter) s;
     i \<leftarrow> hh_at (hho tb) (Some iter) s;
     let p = app_prev (handles s (hho tb)) i;
     let s = set_app_prev hh add p s;
     (head, s) \<leftarrow> (if p \<noteq> None then do { a \<leftarrow> hh_at (hho tb) p s; Some (head, set_app_next (hho tb) a (Some add) s) } else Some (Some add, s));
     Some (head, set_app_prev (hho tb) i (Some add) s) }"

definition HASH_ADD_KEYPTR_BYHASHVALUE_INORDER :: "hname \<Rightarrow> ptr \<Rightarrow> addr \<Rightarrow> 32 word \<Rightarrow> 32 word \<Rightarrow> addr \<Rightarrow> (addr \<Rightarrow> addr \<Rightarrow> int) \<Rightarrow> ut_mem \<Rightarrow>
    (ptr \<times> ut_mem) outcome option" where
  "HASH_ADD_KEYPTR_BYHASHVALUE_INORDER hh head keyptr len hashval add cmpfcn s = do {
     a \<leftarrow> hh_at hh (Some add) s;
     let s = add_fields hh keyptr len hashval a s;
     (case head of
        None \<Rightarrow> add_first hh hashval a s
      | Some h0 \<Rightarrow> do {
          t \<leftarrow> tbl_of hh head s;
          let s = set_tbl hh a t s;
          tb \<leftarrow> get_table t s;
          iter \<leftarrow> order_loop cmpfcn (hho tb) a h0 s;
          (head, s) \<leftarrow> (case iter of
             Some i \<Rightarrow> order_insert hh head a i s
           | None \<Rightarrow> do { s \<leftarrow> HASH_APPEND_LIST hh head a s; Some (head, s) });
          add_finish hh head hashval a s }) }"

definition HASH_ADD_KEYPTR_INORDER :: "(byte list \<Rightarrow> 32 word) \<Rightarrow> hname \<Rightarrow> ptr \<Rightarrow> addr \<Rightarrow> 32 word \<Rightarrow> addr \<Rightarrow> (addr \<Rightarrow> addr \<Rightarrow> int) \<Rightarrow> ut_mem \<Rightarrow>
    (ptr \<times> ut_mem) outcome option" where
  "HASH_ADD_KEYPTR_INORDER fcn hh head keyptr len add cmpfcn s = do {
     hv \<leftarrow> HASH_VALUE fcn keyptr len s;
     HASH_ADD_KEYPTR_BYHASHVALUE_INORDER hh head keyptr len hv add cmpfcn s }"

section \<open>Deleting and replacing\<close>

definition HASH_DEL_IN_BKT :: "hname \<Rightarrow> ptr \<Rightarrow> 32 word \<Rightarrow> addr \<Rightarrow> ut_mem \<Rightarrow> ut_mem option" where
  "HASH_DEL_IN_BKT hh b i hh_del s = do {
     s \<leftarrow> set_bkt b i (\<lambda>bk. bk\<lparr>bkt_count := bkt_count bk - 1\<rparr>) s;
     s \<leftarrow> set_bkt b i (\<lambda>bk. if hh_head bk = Some hh_del then bk\<lparr>hh_head := hh_next (handles s hh) hh_del\<rparr> else bk) s;
     s \<leftarrow> (if hh_prev (handles s hh) hh_del \<noteq> None
           then do { p \<leftarrow> hh_at hh (hh_prev (handles s hh) hh_del) s; Some (set_hh_next hh p (hh_next (handles s hh) hh_del) s) } else Some s);
     if hh_next (handles s hh) hh_del \<noteq> None
     then do { n \<leftarrow> hh_at hh (hh_next (handles s hh) hh_del) s; Some (set_hh_prev hh n (hh_prev (handles s hh) hh_del) s) } else Some s }"

definition HASH_CLEAR :: "hname \<Rightarrow> ptr \<Rightarrow> ut_mem \<Rightarrow> (ptr \<times> ut_mem) option" where
  "HASH_CLEAR hh head s =
     (if head = None then Some (head, s)
      else do {
        t \<leftarrow> tbl_of hh head s;
        tb \<leftarrow> get_table t s;
        s \<leftarrow> free_barray (buckets tb) s;
        s \<leftarrow> free_table t s;
        Some (None, s) })"

definition HASH_DELETE :: "hname \<Rightarrow> ptr \<Rightarrow> addr \<Rightarrow> ut_mem \<Rightarrow> (ptr \<times> ut_mem) option" where
  "HASH_DELETE hh head delptr s = do {
     d \<leftarrow> hh_at hh (Some delptr) s;
     if app_prev (handles s hh) d = None \<and> app_next (handles s hh) d = None
     then do {
       t \<leftarrow> tbl_of hh head s;
       tb \<leftarrow> get_table t s;
       s \<leftarrow> free_barray (buckets tb) s;
       s \<leftarrow> free_table t s;
       Some (None, s) }
     else do {
       t \<leftarrow> tbl_of hh head s;
       s \<leftarrow> set_table t (\<lambda>tb. if tail tb = Some d then tb\<lparr>tail := app_prev (handles s hh) d\<rparr> else tb) s;
       tb \<leftarrow> get_table t s;
       (head, s) \<leftarrow> (if app_prev (handles s hh) d \<noteq> None
          then do { p \<leftarrow> hh_at (hho tb) (app_prev (handles s hh) d) s; Some (head, set_app_next (hho tb) p (app_next (handles s hh) d) s) }
          else Some (app_next (handles s hh) d, s));
       t \<leftarrow> tbl_of hh head s;
       tb \<leftarrow> get_table t s;
       s \<leftarrow> (if app_next (handles s hh) d \<noteq> None
          then do { n \<leftarrow> hh_at (hho tb) (app_next (handles s hh) d) s; Some (set_app_prev (hho tb) n (app_prev (handles s hh) d) s) }
          else Some s);
       s \<leftarrow> HASH_DEL_IN_BKT hh (buckets tb) (HASH_TO_BKT (hashv (handles s hh) d) (num_buckets tb)) d s;
       s \<leftarrow> set_table t (\<lambda>tb. tb\<lparr>num_items := num_items tb - 1\<rparr>) s;
       Some (head, s) } }"

text \<open>The result of a replacement is the element that was replaced, if any, the head and the memory.  The key is a field of the new element.\<close>

definition HASH_REPLACE_BYHASHVALUE :: "hname \<Rightarrow> ptr \<Rightarrow> addr \<Rightarrow> 32 word \<Rightarrow> 32 word \<Rightarrow> addr \<Rightarrow> ut_mem \<Rightarrow> (ptr \<times> ptr \<times> ut_mem) outcome option" where
  "HASH_REPLACE_BYHASHVALUE hh head keyptr len hashval add s = do {
     replaced \<leftarrow> HASH_FIND_BYHASHVALUE hh head keyptr len hashval s;
     (head, s) \<leftarrow> (case replaced of Some d \<Rightarrow> HASH_DELETE hh head d s | None \<Rightarrow> Some (head, s));
     r \<leftarrow> HASH_ADD_KEYPTR_BYHASHVALUE hh head keyptr len hashval add s;
     Some (case r of Exit \<Rightarrow> Exit | Ret (head, s) \<Rightarrow> Ret (replaced, head, s)) }"

definition HASH_REPLACE :: "(byte list \<Rightarrow> 32 word) \<Rightarrow> hname \<Rightarrow> ptr \<Rightarrow> addr \<Rightarrow> 32 word \<Rightarrow> addr \<Rightarrow> ut_mem \<Rightarrow> (ptr \<times> ptr \<times> ut_mem) outcome option" where
  "HASH_REPLACE fcn hh head keyptr len add s = do {
     hv \<leftarrow> HASH_VALUE fcn keyptr len s;
     HASH_REPLACE_BYHASHVALUE hh head keyptr len hv add s }"

definition HASH_REPLACE_BYHASHVALUE_INORDER :: "hname \<Rightarrow> ptr \<Rightarrow> addr \<Rightarrow> 32 word \<Rightarrow> 32 word \<Rightarrow> addr \<Rightarrow> (addr \<Rightarrow> addr \<Rightarrow> int) \<Rightarrow> ut_mem \<Rightarrow>
    (ptr \<times> ptr \<times> ut_mem) outcome option" where
  "HASH_REPLACE_BYHASHVALUE_INORDER hh head keyptr len hashval add cmpfcn s = do {
     replaced \<leftarrow> HASH_FIND_BYHASHVALUE hh head keyptr len hashval s;
     (head, s) \<leftarrow> (case replaced of Some d \<Rightarrow> HASH_DELETE hh head d s | None \<Rightarrow> Some (head, s));
     r \<leftarrow> HASH_ADD_KEYPTR_BYHASHVALUE_INORDER hh head keyptr len hashval add cmpfcn s;
     Some (case r of Exit \<Rightarrow> Exit | Ret (head, s) \<Rightarrow> Ret (replaced, head, s)) }"

definition HASH_REPLACE_INORDER :: "(byte list \<Rightarrow> 32 word) \<Rightarrow> hname \<Rightarrow> ptr \<Rightarrow> addr \<Rightarrow> 32 word \<Rightarrow> addr \<Rightarrow> (addr \<Rightarrow> addr \<Rightarrow> int) \<Rightarrow> ut_mem \<Rightarrow>
    (ptr \<times> ptr \<times> ut_mem) outcome option" where
  "HASH_REPLACE_INORDER fcn hh head keyptr len add cmpfcn s = do {
     hv \<leftarrow> HASH_VALUE fcn keyptr len s;
     HASH_REPLACE_BYHASHVALUE_INORDER hh head keyptr len hv add cmpfcn s }"

section \<open>Counting and iterating\<close>

definition HASH_CNT :: "hname \<Rightarrow> ptr \<Rightarrow> ut_mem \<Rightarrow> 32 word option" where
  "HASH_CNT hh head s = (if head = None then Some 0 else do { t \<leftarrow> tbl_of hh head s; tb \<leftarrow> get_table t s; Some (num_items tb) })"

definition HASH_OVERHEAD :: "hname \<Rightarrow> ptr \<Rightarrow> ut_mem \<Rightarrow> 32 word option" where
  "HASH_OVERHEAD hh head s =
     (if head = None then Some 0
      else do { t \<leftarrow> tbl_of hh head s; tb \<leftarrow> get_table t s; Some (num_items tb * 32 + num_buckets tb * 12 + 44) })"

text \<open>The successor is fetched before the body runs.  \<open>el\<close> may be deleted, and freed, by the body.\<close>

partial_function (option) iter_loop :: "hname \<Rightarrow> (addr \<Rightarrow> 's \<Rightarrow> 's option) \<Rightarrow> ('s \<Rightarrow> ut_mem) \<Rightarrow> ptr \<Rightarrow> ptr \<Rightarrow> 's \<Rightarrow> (addr list \<times> 's) option" where
  "iter_loop hh body mem el tmp s =
     (case el of
        None \<Rightarrow> Some ([], s)
      | Some e \<Rightarrow> Option.bind (body e s) (\<lambda>s.
          Option.bind (if tmp = None then Some None else map_option (app_next (handles (mem s) hh)) (hh_at hh tmp (mem s))) (\<lambda>tmp'.
            Option.bind (iter_loop hh body mem tmp tmp' s) (\<lambda>(xs, s). Some (e # xs, s)))))"

definition HASH_ITER :: "hname \<Rightarrow> (addr \<Rightarrow> 's \<Rightarrow> 's option) \<Rightarrow> ('s \<Rightarrow> ut_mem) \<Rightarrow> ptr \<Rightarrow> 's \<Rightarrow> (addr list \<times> 's) option" where
  "HASH_ITER hh body mem head s = do {
     tmp \<leftarrow> (if head = None then Some None else map_option (app_next (handles (mem s) hh)) (hh_at hh head (mem s)));
     iter_loop hh body mem head tmp s }"

section \<open>Selecting\<close>

text \<open>One selected item: it gets the key of its other handle and is put behind the item that was selected before it.\<close>

definition select_item :: "hname \<Rightarrow> hname \<Rightarrow> ptr \<Rightarrow> ptr \<Rightarrow> addr \<Rightarrow> ut_mem \<Rightarrow> (ptr \<times> ptr \<times> ut_mem) outcome option" where
  "select_item hh_dst hh_src dst last_elt elt s = do {
     e \<leftarrow> hh_at hh_dst (Some elt) s;
     let hs = handles s hh_src;
     let s = add_fields hh_dst (key hs elt) (keylen hs elt) (hashv hs elt) elt s;
     let s = set_app_next hh_dst elt None (set_app_prev hh_dst elt last_elt s);
     s \<leftarrow> (if last_elt \<noteq> None then do { l \<leftarrow> hh_at hh_dst last_elt s; Some (set_app_next hh_dst l (Some elt) s) } else Some s);
     r \<leftarrow> (if dst = None then HASH_MAKE_TABLE hh_dst (Some elt) s
           else do { t \<leftarrow> tbl_of hh_dst dst s; Some (Ret (set_tbl hh_dst elt t s)) });
     (case r of Exit \<Rightarrow> Some Exit
      | Ret s \<Rightarrow> do {
          let dst = (if dst = None then Some elt else dst);
          tb \<leftarrow> get_table (tbl (handles s hh_dst) elt) s;
          r \<leftarrow> HASH_ADD_TO_BKT hh_dst (buckets tb) (HASH_TO_BKT (hashv (handles s hh_dst) elt) (num_buckets tb)) elt s;
          (case r of Exit \<Rightarrow> Some Exit
           | Ret s \<Rightarrow> do {
               t \<leftarrow> tbl_of hh_dst dst s;
               s \<leftarrow> set_table t (\<lambda>tb. tb\<lparr>num_items := num_items tb + 1\<rparr>) s;
               Some (Ret (dst, Some elt, s)) }) }) }"

partial_function (option) select_chain :: "hname \<Rightarrow> hname \<Rightarrow> (addr \<Rightarrow> bool) \<Rightarrow> ptr \<Rightarrow> ptr \<Rightarrow> ptr \<Rightarrow> ut_mem \<Rightarrow> (ptr \<times> ptr \<times> ut_mem) outcome option" where
  "select_chain hh_dst hh_src cond src_hh dst last_elt s =
     (if src_hh = None then Some (Ret (dst, last_elt, s))
      else Option.bind (hh_at hh_src src_hh s) (\<lambda>elt.
        Option.bind (if cond elt then select_item hh_dst hh_src dst last_elt elt s else Some (Ret (dst, last_elt, s))) (\<lambda>r.
          case r of Exit \<Rightarrow> Some Exit
          | Ret (dst, last_elt, s) \<Rightarrow> select_chain hh_dst hh_src cond (hh_next (handles s hh_src) elt) dst last_elt s)))"

fun select_loop :: "hname \<Rightarrow> hname \<Rightarrow> ptr \<Rightarrow> (addr \<Rightarrow> bool) \<Rightarrow> nat \<Rightarrow> nat \<Rightarrow> ptr \<Rightarrow> ptr \<Rightarrow> ut_mem \<Rightarrow> (ptr \<times> ut_mem) outcome option" where
  "select_loop hh_dst hh_src src cond src_bkt 0 dst last_elt s = Some (Ret (dst, s))"
| "select_loop hh_dst hh_src src cond src_bkt (Suc n) dst last_elt s = do {
     t \<leftarrow> tbl_of hh_src src s;
     tb \<leftarrow> get_table t s;
     bkt \<leftarrow> get_bkt (buckets tb) (word_of_nat src_bkt) s;
     r \<leftarrow> select_chain hh_dst hh_src cond (hh_head bkt) dst last_elt s;
     (case r of Exit \<Rightarrow> Some Exit
      | Ret (dst, last_elt, s) \<Rightarrow> select_loop hh_dst hh_src src cond (Suc src_bkt) n dst last_elt s) }"

definition HASH_SELECT :: "hname \<Rightarrow> ptr \<Rightarrow> hname \<Rightarrow> ptr \<Rightarrow> (addr \<Rightarrow> bool) \<Rightarrow> ut_mem \<Rightarrow> (ptr \<times> ut_mem) outcome option" where
  "HASH_SELECT hh_dst dst hh_src src cond s =
     (if src = None then Some (Ret (dst, s))
      else do {
        t \<leftarrow> tbl_of hh_src src s;
        tb \<leftarrow> get_table t s;
        select_loop hh_dst hh_src src cond 0 (unat (num_buckets tb)) dst None s })"

section \<open>The integrity check\<close>

text \<open>With \<open>HASH_DEBUG\<close> every operation ends with a walk over the table, which ends the process where something is wrong: the result \<open>False\<close>.\<close>

partial_function (option) fsck_chain :: "hname \<Rightarrow> ptr \<Rightarrow> ptr \<Rightarrow> 32 word \<Rightarrow> ut_mem \<Rightarrow> (bool \<times> 32 word) option" where
  "fsck_chain hh prev thh bkt_cnt s =
     (if thh = None then Some (True, bkt_cnt)
      else Option.bind (hh_at hh thh s) (\<lambda>a.
        if prev \<noteq> hh_prev (handles s hh) a then Some (False, bkt_cnt)
        else fsck_chain hh thh (hh_next (handles s hh) a) (bkt_cnt + 1) s))"

fun fsck_buckets :: "hname \<Rightarrow> ptr \<Rightarrow> nat \<Rightarrow> nat \<Rightarrow> 32 word \<Rightarrow> ut_mem \<Rightarrow> (bool \<times> 32 word) option" where
  "fsck_buckets hh b i 0 cnt s = Some (True, cnt)"
| "fsck_buckets hh b i (Suc n) cnt s = do {
     bkt \<leftarrow> get_bkt b (word_of_nat i) s;
     (ok, bkt_cnt) \<leftarrow> fsck_chain hh None (hh_head bkt) 0 s;
     if \<not> ok \<or> bkt_count bkt \<noteq> bkt_cnt then Some (False, cnt)
     else fsck_buckets hh b (Suc i) n (cnt + bkt_cnt) s }"

partial_function (option) fsck_list :: "hname \<Rightarrow> ptr \<Rightarrow> ptr \<Rightarrow> 32 word \<Rightarrow> ut_mem \<Rightarrow> (bool \<times> 32 word) option" where
  "fsck_list hh prev thh cnt s =
     (if thh = None then Some (True, cnt)
      else Option.bind (hh_at hh thh s) (\<lambda>a.
        if prev \<noteq> app_prev (handles s hh) a then Some (False, cnt + 1)
        else fsck_list hh thh (app_next (handles s hh) a) (cnt + 1) s))"

definition HASH_FSCK :: "hname \<Rightarrow> ptr \<Rightarrow> ut_mem \<Rightarrow> bool option" where
  "HASH_FSCK hh head s =
     (if head = None then Some True
      else do {
        t \<leftarrow> tbl_of hh head s;
        tb \<leftarrow> get_table t s;
        (ok, cnt) \<leftarrow> fsck_buckets (hho tb) (buckets tb) 0 (unat (num_buckets tb)) 0 s;
        if \<not> ok \<or> cnt \<noteq> num_items tb then Some False
        else do {
          (ok, cnt) \<leftarrow> fsck_list hh None head 0 s;
          Some (ok \<and> cnt = num_items tb) } })"

section \<open>Convenience forms\<close>

text \<open>The forms for which the name of the handle is \<open>hh\<close>, here the handle 0, and the key is a string, an \<open>int\<close> or a pointer.  The key of an element to add is at \<open>fld\<close>, the address of its field.\<close>

abbreviation (input) hh0 :: hname where "hh0 \<equiv> 0"

definition uthash_strlen :: "addr \<Rightarrow> ut_mem \<Rightarrow> 32 word option" where
  "uthash_strlen p s = do { bs \<leftarrow> kmem s p; str \<leftarrow> c_string_at bs 0; Some (word_of_nat (length str)) }"

definition HASH_FIND_STR :: "(byte list \<Rightarrow> 32 word) \<Rightarrow> ptr \<Rightarrow> addr \<Rightarrow> ut_mem \<Rightarrow> ptr option" where
  "HASH_FIND_STR fcn head findstr s = do { n \<leftarrow> uthash_strlen findstr s; HASH_FIND fcn hh0 head findstr n s }"

definition HASH_ADD_STR :: "(byte list \<Rightarrow> 32 word) \<Rightarrow> ptr \<Rightarrow> addr \<Rightarrow> addr \<Rightarrow> ut_mem \<Rightarrow> (ptr \<times> ut_mem) outcome option" where
  "HASH_ADD_STR fcn head fld add s = do { n \<leftarrow> uthash_strlen fld s; HASH_ADD_KEYPTR fcn hh0 head fld n add s }"

definition HASH_REPLACE_STR :: "(byte list \<Rightarrow> 32 word) \<Rightarrow> ptr \<Rightarrow> addr \<Rightarrow> addr \<Rightarrow> ut_mem \<Rightarrow> (ptr \<times> ptr \<times> ut_mem) outcome option" where
  "HASH_REPLACE_STR fcn head fld add s = do { n \<leftarrow> uthash_strlen fld s; HASH_REPLACE fcn hh0 head fld n add s }"

definition HASH_FIND_INT :: "(byte list \<Rightarrow> 32 word) \<Rightarrow> ptr \<Rightarrow> addr \<Rightarrow> ut_mem \<Rightarrow> ptr option" where
  "HASH_FIND_INT fcn head findint = HASH_FIND fcn hh0 head findint 4"

definition HASH_ADD_INT :: "(byte list \<Rightarrow> 32 word) \<Rightarrow> ptr \<Rightarrow> addr \<Rightarrow> addr \<Rightarrow> ut_mem \<Rightarrow> (ptr \<times> ut_mem) outcome option" where
  "HASH_ADD_INT fcn head fld = HASH_ADD_KEYPTR fcn hh0 head fld 4"

definition HASH_REPLACE_INT :: "(byte list \<Rightarrow> 32 word) \<Rightarrow> ptr \<Rightarrow> addr \<Rightarrow> addr \<Rightarrow> ut_mem \<Rightarrow> (ptr \<times> ptr \<times> ut_mem) outcome option" where
  "HASH_REPLACE_INT fcn head fld = HASH_REPLACE fcn hh0 head fld 4"

definition HASH_FIND_PTR :: "(byte list \<Rightarrow> 32 word) \<Rightarrow> ptr \<Rightarrow> addr \<Rightarrow> ut_mem \<Rightarrow> ptr option" where
  "HASH_FIND_PTR fcn head findptr = HASH_FIND fcn hh0 head findptr 4"

definition HASH_ADD_PTR :: "(byte list \<Rightarrow> 32 word) \<Rightarrow> ptr \<Rightarrow> addr \<Rightarrow> addr \<Rightarrow> ut_mem \<Rightarrow> (ptr \<times> ut_mem) outcome option" where
  "HASH_ADD_PTR fcn head fld = HASH_ADD_KEYPTR fcn hh0 head fld 4"

definition HASH_REPLACE_PTR :: "(byte list \<Rightarrow> 32 word) \<Rightarrow> ptr \<Rightarrow> addr \<Rightarrow> addr \<Rightarrow> ut_mem \<Rightarrow> (ptr \<times> ptr \<times> ut_mem) outcome option" where
  "HASH_REPLACE_PTR fcn head fld = HASH_REPLACE fcn hh0 head fld 4"

definition HASH_DEL :: "ptr \<Rightarrow> addr \<Rightarrow> ut_mem \<Rightarrow> (ptr \<times> ut_mem) option" where
  "HASH_DEL = HASH_DELETE hh0"

end
