(* ===== verification/UtHashInv.thy ===== *)
theory UtHashInv
  imports UtHash
begin

text \<open>
  What a well-formed table is, and that the operations keep it.  A doubly linked list is described by \<open>dls\<close> over the maps of the two fields; the table is described by the list of its
  elements in application order and by the chain of each bucket.
\<close>

section \<open>Doubly linked lists in field maps\<close>

definition first_or :: "addr list \<Rightarrow> ptr \<Rightarrow> ptr" where
  "first_or xs q = (case xs of [] \<Rightarrow> q | x # _ \<Rightarrow> Some x)"

definition last_or :: "addr list \<Rightarrow> ptr \<Rightarrow> ptr" where
  "last_or xs p = (if xs = [] then p else Some (last xs))"

fun dls :: "(addr \<Rightarrow> ptr) \<Rightarrow> (addr \<Rightarrow> ptr) \<Rightarrow> ptr \<Rightarrow> addr list \<Rightarrow> ptr \<Rightarrow> bool" where
  "dls pr nx p [] q = True"
| "dls pr nx p (x # xs) q = (pr x = p \<and> nx x = first_or xs q \<and> dls pr nx (Some x) xs q)"

lemma first_or_simps [simp]:
  "first_or [] q = q" "first_or (x # xs) q = Some x" "first_or (xs @ ys) q = first_or xs (first_or ys q)"
  by (auto simp: first_or_def split: list.split)

lemma last_or_simps [simp]: "last_or [] p = p" "last_or (x # xs) p = last_or xs (Some x)" "last_or (xs @ [y]) p = Some y"
  by (auto simp: last_or_def)

lemma last_or_append [simp]: "last_or (xs @ ys) p = last_or ys (last_or xs p)"
  by (auto simp: last_or_def)

lemma dls_append [simp]: "dls pr nx p (xs @ ys) q \<longleftrightarrow> dls pr nx p xs (first_or ys q) \<and> dls pr nx (last_or xs p) ys q"
  by (induction xs arbitrary: p) auto

lemma dls_cong: "(\<And>x. x \<in> set xs \<Longrightarrow> pr x = pr' x) \<Longrightarrow> (\<And>x. x \<in> set xs \<Longrightarrow> nx x = nx' x) \<Longrightarrow> dls pr nx p xs q = dls pr' nx' p xs q"
  by (induction xs arbitrary: p) auto

lemma dls_upd [simp]:
  "a \<notin> set xs \<Longrightarrow> dls (pr(a := v)) nx p xs q = dls pr nx p xs q"
  "a \<notin> set xs \<Longrightarrow> dls pr (nx(a := v)) p xs q = dls pr nx p xs q"
  by (auto intro!: dls_cong)

text \<open>The links after an element has been unlinked between its neighbours.\<close>

definition upd_at :: "ptr \<Rightarrow> ptr \<Rightarrow> (addr \<Rightarrow> ptr) \<Rightarrow> addr \<Rightarrow> ptr" where
  "upd_at p v f = (case p of None \<Rightarrow> f | Some a \<Rightarrow> f(a := v))"

lemma upd_at_simps [simp]: "upd_at None v f = f" "upd_at (Some a) v f = f(a := v)"
  by (simp_all add: upd_at_def)

lemma upd_at_other: "p \<noteq> Some x \<Longrightarrow> upd_at p v f x = f x"
  by (cases p) auto

lemma first_or_Some: "first_or xs None = Some a \<Longrightarrow> a \<in> set xs"
  by (cases xs) auto

lemma last_or_Some: "last_or xs None = Some a \<Longrightarrow> a \<in> set xs"
  by (auto simp: last_or_def split: if_splits)

lemma first_or_None [simp]: "first_or xs None = None \<longleftrightarrow> xs = []"
  by (cases xs) auto

lemma last_or_None [simp]: "last_or xs None = None \<longleftrightarrow> xs = []"
  by (auto simp: last_or_def)

lemma dls_cons: "x \<notin> set xs \<Longrightarrow> distinct xs \<Longrightarrow> dls pr nx None xs None \<Longrightarrow>
   dls (upd_at (first_or xs None) (Some x) (pr(x := None))) (nx(x := first_or xs None)) None (x # xs) None"
  by (cases xs) auto

lemma dls_unlink:
  assumes "distinct (xs @ x # ys)" "dls pr nx None (xs @ x # ys) None"
  shows "dls (upd_at (nx x) (pr x) pr) (upd_at (pr x) (nx x) nx) None (xs @ ys) None"
proof -
  have "pr x = last_or xs None" "nx x = first_or ys None" using assms(2) by auto
  moreover from assms have "dls (upd_at (first_or ys None) v pr) (upd_at (last_or xs None) (first_or ys None) nx) None xs (first_or ys None)" for v
    by (cases xs rule: rev_cases; cases ys) (auto)
  moreover from assms have "dls (upd_at (first_or ys None) (last_or xs None) pr) (upd_at (last_or xs None) (first_or ys None) nx) (last_or xs None) ys None"
    by (cases xs rule: rev_cases; cases ys) (auto)
  ultimately show ?thesis by simp
qed

lemma dls_insert:
  assumes "distinct (xs @ ys)" "a \<notin> set xs" "a \<notin> set ys" "dls pr nx None (xs @ ys) None"
  shows "dls (upd_at (first_or ys None) (Some a) (pr(a := last_or xs None))) (upd_at (last_or xs None) (Some a) (nx(a := first_or ys None))) None (xs @ a # ys) None"
  using assms by (cases xs rule: rev_cases; cases ys) auto

section \<open>Memory\<close>

lemmas setters = set_app_prev_def set_app_next_def set_hh_prev_def set_hh_next_def set_tbl_def add_fields_def set_hh_def

lemma setters_frame [simp]:
  "tables (set_hh hh f s) = tables s" "barrays (set_hh hh f s) = barrays s" "kmem (set_hh hh f s) = kmem s" "brk (set_hh hh f s) = brk s"
  "alloc_fails (set_hh hh f s) = alloc_fails s" "handles (set_hh hh f s) = (handles s)(hh := f (handles s hh))"
  by (simp_all add: set_hh_def)

lemma hh_at_Some [simp]: "hh_at hh (Some a) s = (if live (handles s hh) a then Some a else None)"
  by (simp add: hh_at_def)

lemma get_table_Some [simp]: "get_table (Some t) s = tables s t"
  by (simp add: get_table_def)

lemma set_table_Some: "tables s t = Some tb \<Longrightarrow> set_table (Some t) f s = Some (s\<lparr>tables := (tables s)(t \<mapsto> f tb)\<rparr>)"
  by (simp add: set_table_def)

lemma get_bkt_Some: "barrays s b = Some bs \<Longrightarrow> unat i < length bs \<Longrightarrow> get_bkt (Some b) i s = Some (bs ! unat i)"
  by (simp add: get_bkt_def)

lemma set_bkt_Some: "barrays s b = Some bs \<Longrightarrow> unat i < length bs \<Longrightarrow>
   set_bkt (Some b) i f s = Some (s\<lparr>barrays := (barrays s)(b \<mapsto> bs[unat i := f (bs ! unat i)])\<rparr>)"
  by (simp add: set_bkt_def)

lemma tbl_of_Some: "live (handles s hh) a \<Longrightarrow> tbl_of hh (Some a) s = Some (tbl (handles s hh) a)"
  by (simp add: tbl_of_def)

text \<open>What an operation on the buckets leaves as it is: everything but the links of the chains, the tables and the arrays.\<close>

definition same_list :: "hname \<Rightarrow> ut_mem \<Rightarrow> ut_mem \<Rightarrow> bool" where
  "same_list hh s s' \<longleftrightarrow>
     kmem s' = kmem s \<and> alloc_fails s' = alloc_fails s \<and> brk s \<le> brk s' \<and> (\<forall>h. h \<noteq> hh \<longrightarrow> handles s' h = handles s h) \<and>
     (\<exists>pr nx. handles s' hh = (handles s hh)\<lparr>hh_prev := pr, hh_next := nx\<rparr>)"

lemma same_list_refl: "same_list hh s s"
  unfolding same_list_def by (metis (no_types, lifting) UT_hash_handle.surjective UT_hash_handle.update_convs(5,6) order_refl)

lemma same_list_trans: "same_list hh s s' \<Longrightarrow> same_list hh s' s'' \<Longrightarrow> same_list hh s s''"
  unfolding same_list_def by (elim conjE exE) (simp, blast)

section \<open>Well-formed tables\<close>

definition bkt_of :: "nat \<Rightarrow> 32 word \<Rightarrow> nat" where
  "bkt_of k h = unat (HASH_TO_BKT h (2 ^ k))"

definition linked :: "UT_hash_handle \<Rightarrow> UT_hash_bucket list \<Rightarrow> (nat \<Rightarrow> addr list) \<Rightarrow> bool" where
  "linked H bs C \<longleftrightarrow>
     (\<forall>i < length bs. hh_head (bs ! i) = first_or (C i) None \<and> bkt_count (bs ! i) = word_of_nat (length (C i)) \<and> dls (hh_prev H) (hh_next H) None (C i) None)"

definition spread :: "nat \<Rightarrow> UT_hash_handle \<Rightarrow> addr set \<Rightarrow> (nat \<Rightarrow> addr list) \<Rightarrow> bool" where
  "spread k H S C \<longleftrightarrow> (\<forall>i. distinct (C i) \<and> set (C i) = {x \<in> S. bkt_of k (hashv H x) = i})"

definition wf_buckets :: "hname \<Rightarrow> UT_hash_table \<Rightarrow> addr set \<Rightarrow> nat \<Rightarrow> addr \<Rightarrow> UT_hash_bucket list \<Rightarrow> (nat \<Rightarrow> addr list) \<Rightarrow> ut_mem \<Rightarrow> bool" where
  "wf_buckets hh tb S k b bs C s \<longleftrightarrow>
     hho tb = hh \<and> buckets tb = Some b \<and> b < brk s \<and> barrays s b = Some bs \<and> 5 \<le> k \<and> k \<le> 27 \<and> num_buckets tb = 2 ^ k \<and>
     log2_num_buckets tb = word_of_nat k \<and> length bs = 2 ^ k \<and> linked (handles s hh) bs C \<and> spread k (handles s hh) S C"

definition wf_table :: "hname \<Rightarrow> addr \<Rightarrow> UT_hash_table \<Rightarrow> addr set \<Rightarrow> ut_mem \<Rightarrow> bool" where
  "wf_table hh t tb S s \<longleftrightarrow>
     tables s t = Some tb \<and> t < brk s \<and> (\<exists>k b bs C. wf_buckets hh tb S k b bs C s) \<and> (\<forall>x \<in> S. live (handles s hh) x \<and> tbl (handles s hh) x = Some t)"

lemma HASH_TO_BKT_take_bit: "HASH_TO_BKT h (2 ^ k) = take_bit k h"
  by (simp add: HASH_TO_BKT_def take_bit_eq_mask mask_eq_exp_minus_1)

lemma bkt_of_less: "k \<le> 28 \<Longrightarrow> bkt_of k h < 2 ^ k"
  by (simp add: bkt_of_def HASH_TO_BKT_take_bit unsigned_take_bit_eq)

lemma linked_update: "i < length bs \<Longrightarrow> linked H (bs[i := b]) C \<longleftrightarrow>
   hh_head b = first_or (C i) None \<and> bkt_count b = word_of_nat (length (C i)) \<and> dls (hh_prev H) (hh_next H) None (C i) None \<and>
   (\<forall>j < length bs. j \<noteq> i \<longrightarrow> hh_head (bs ! j) = first_or (C j) None \<and> bkt_count (bs ! j) = word_of_nat (length (C j)) \<and> dls (hh_prev H) (hh_next H) None (C j) None)"
  unfolding linked_def by (metis length_list_update nth_list_update_eq nth_list_update_neq)

text \<open>An item becomes the first of its chain.\<close>

definition push_links :: "addr \<Rightarrow> ptr \<Rightarrow> UT_hash_handle \<Rightarrow> UT_hash_handle" where
  "push_links x p H = H\<lparr>hh_prev := upd_at p (Some x) ((hh_prev H)(x := None)), hh_next := (hh_next H)(x := p)\<rparr>"

lemma linked_push:
  assumes "linked H bs C" "spread k H S C" "x \<notin> S" "bkt_of k (hashv H x) < length bs"
  defines "i \<equiv> bkt_of k (hashv H x)"
  shows "linked (push_links x (hh_head (bs ! i)) H) (bs[i := (bs ! i)\<lparr>bkt_count := bkt_count (bs ! i) + 1, expand_mult := m, hh_head := Some x\<rparr>]) (C(i := x # C i))"
    "spread k (push_links x p H) (insert x S) (C(i := x # C i))"
proof -
  have C: "distinct (C j)" "set (C j) = {y \<in> S. bkt_of k (hashv H y) = j}" for j
    using assms(2) by (auto simp: spread_def)
  have hd: "hh_head (bs ! i) = first_or (C i) None" and cnt: "bkt_count (bs ! i) = word_of_nat (length (C i))" and l: "dls (hh_prev H) (hh_next H) None (C i) None"
    using assms(1,4) by (auto simp: linked_def i_def)
  have "hh_prev (push_links x (hh_head (bs ! i)) H) y = hh_prev H y" "hh_next (push_links x (hh_head (bs ! i)) H) y = hh_next H y" if "y \<in> set (C j)" "j \<noteq> i" for j y
  proof -
    have "hh_head (bs ! i) \<noteq> Some y" "y \<noteq> x" using that assms(3) C first_or_Some [of "C i" y] by (auto simp: hd)
    then show "hh_prev (push_links x (hh_head (bs ! i)) H) y = hh_prev H y" "hh_next (push_links x (hh_head (bs ! i)) H) y = hh_next H y"
      by (simp_all add: push_links_def upd_at_other)
  qed
  then have "dls (hh_prev (push_links x (hh_head (bs ! i)) H)) (hh_next (push_links x (hh_head (bs ! i)) H)) None (C j) None" if "j \<noteq> i" "j < length bs" for j
    using that assms(1) by (subst dls_cong [of _ _ "hh_prev H" _ "hh_next H"]) (auto simp: linked_def)
  moreover have "dls (hh_prev (push_links x (hh_head (bs ! i)) H)) (hh_next (push_links x (hh_head (bs ! i)) H)) None (x # C i) None"
    using dls_cons [OF _ C(1) l] C(2) assms(3) by (simp add: push_links_def hd)
  ultimately show "linked (push_links x (hh_head (bs ! i)) H) (bs[i := (bs ! i)\<lparr>bkt_count := bkt_count (bs ! i) + 1, expand_mult := m, hh_head := Some x\<rparr>]) (C(i := x # C i))"
    using assms(1,4) by (simp add: linked_update cnt i_def) (simp add: linked_def)
  show "spread k (push_links x p H) (insert x S) (C(i := x # C i))"
    using C assms(3) by (auto simp: spread_def push_links_def i_def)
qed

text \<open>An item is taken out of its chain.\<close>

definition del_links :: "addr \<Rightarrow> UT_hash_handle \<Rightarrow> UT_hash_handle" where
  "del_links x H = H\<lparr>hh_prev := upd_at (hh_next H x) (hh_prev H x) (hh_prev H), hh_next := upd_at (hh_prev H x) (hh_next H x) (hh_next H)\<rparr>"

lemma linked_del:
  assumes "linked H bs C" "spread k H S C" "x \<in> S" "bkt_of k (hashv H x) < length bs"
  defines "i \<equiv> bkt_of k (hashv H x)"
  shows "linked (del_links x H) (bs[i := (bs ! i)\<lparr>bkt_count := bkt_count (bs ! i) - 1, hh_head := if hh_head (bs ! i) = Some x then hh_next H x else hh_head (bs ! i)\<rparr>])
     (C(i := remove1 x (C i)))"
    "spread k (del_links x H) (S - {x}) (C(i := remove1 x (C i)))"
    "hh_prev H x \<noteq> Some x" "hh_next H x \<noteq> Some x" "set_option (hh_prev H x) \<union> set_option (hh_next H x) \<subseteq> S"
proof -
  have C: "distinct (C j)" "set (C j) = {y \<in> S. bkt_of k (hashv H y) = j}" for j
    using assms(2) by (auto simp: spread_def)
  have hd: "hh_head (bs ! i) = first_or (C i) None" and cnt: "bkt_count (bs ! i) = word_of_nat (length (C i))" and l: "dls (hh_prev H) (hh_next H) None (C i) None"
    using assms(1,4) by (auto simp: linked_def i_def)
  from C(2) [of i] assms(3) obtain us vs where us: "C i = us @ x # vs"
    by (metis (mono_tags, lifting) i_def mem_Collect_eq split_list)
  with C(1) [of i] have rm: "remove1 x (us @ x # vs) = us @ vs" by (simp add: remove1_append)
  have lx: "hh_prev H x = last_or us None" "hh_next H x = first_or vs None" using l by (auto simp: us)
  have nb: "y \<in> set (C i)" if "hh_prev H x = Some y \<or> hh_next H x = Some y" for y
    using that by (auto simp: us lx dest: last_or_Some first_or_Some)
  have "hh_prev (del_links x H) y = hh_prev H y" "hh_next (del_links x H) y = hh_next H y" if "y \<in> set (C j)" "j \<noteq> i" for j y
  proof -
    have "hh_prev H x \<noteq> Some y" "hh_next H x \<noteq> Some y" using that nb C by auto
    then show "hh_prev (del_links x H) y = hh_prev H y" "hh_next (del_links x H) y = hh_next H y"
      by (simp_all add: del_links_def upd_at_other)
  qed
  then have "dls (hh_prev (del_links x H)) (hh_next (del_links x H)) None (C j) None" if "j \<noteq> i" "j < length bs" for j
    using that assms(1) by (subst dls_cong [of _ _ "hh_prev H" _ "hh_next H"]) (auto simp: linked_def)
  moreover have "dls (hh_prev (del_links x H)) (hh_next (del_links x H)) None (us @ vs) None"
    using dls_unlink [of us x vs] C(1) [of i] l by (simp add: us del_links_def)
  moreover have "(if hh_head (bs ! i) = Some x then hh_next H x else hh_head (bs ! i)) = first_or (us @ vs) None"
    using C(1) [of i] by (cases us) (auto simp: hd us lx)
  ultimately show "linked (del_links x H) (bs[i := (bs ! i)\<lparr>bkt_count := bkt_count (bs ! i) - 1, hh_head := if hh_head (bs ! i) = Some x then hh_next H x else hh_head (bs ! i)\<rparr>])
     (C(i := remove1 x (C i)))"
    using assms(1,4) by (simp add: linked_update cnt i_def [symmetric] rm us) (simp add: linked_def)
  show "spread k (del_links x H) (S - {x}) (C(i := remove1 x (C i)))"
    using C assms(3) by (auto simp: spread_def del_links_def i_def)
  show "hh_prev H x \<noteq> Some x" "hh_next H x \<noteq> Some x" "set_option (hh_prev H x) \<union> set_option (hh_next H x) \<subseteq> S"
    using C [of i] by (auto simp: us lx dest!: last_or_Some first_or_Some)
qed

section \<open>Expansion\<close>

text \<open>The items of \<open>M\<close> have been moved to the new array; \<open>nonideal_items\<close> counts those behind the ideal length of their chain.\<close>

definition beyond :: "nat \<Rightarrow> nat \<Rightarrow> (nat \<Rightarrow> addr list) \<Rightarrow> nat" where
  "beyond k m D = (\<Sum>i < 2 ^ k. length (D i) - m)"

definition moved :: "nat \<Rightarrow> hname \<Rightarrow> addr \<Rightarrow> UT_hash_table \<Rightarrow> addr \<Rightarrow> addr set \<Rightarrow> UT_hash_bucket list \<Rightarrow> (nat \<Rightarrow> addr list) \<Rightarrow> ut_mem \<Rightarrow> bool" where
  "moved k hh t tb nb M nbs D s \<longleftrightarrow>
     tables s t = Some (tb\<lparr>nonideal_items := word_of_nat (beyond k (unat (ideal_chain_maxlen tb)) D)\<rparr>) \<and> barrays s nb = Some nbs \<and>
     length nbs = 2 ^ k \<and> linked (handles s hh) nbs D \<and> spread k (handles s hh) M D \<and> (\<forall>x \<in> M. live (handles s hh) x)"

definition exp_frame :: "hname \<Rightarrow> addr \<Rightarrow> addr \<Rightarrow> addr set \<Rightarrow> ut_mem \<Rightarrow> ut_mem \<Rightarrow> bool" where
  "exp_frame hh t nb M s s' \<longleftrightarrow>
     same_list hh s s' \<and> brk s' = brk s \<and> (\<forall>b. b \<noteq> nb \<longrightarrow> barrays s' b = barrays s b) \<and> (\<forall>u. u \<noteq> t \<longrightarrow> tables s' u = tables s u) \<and>
     (\<forall>y. y \<notin> M \<longrightarrow> hh_prev (handles s' hh) y = hh_prev (handles s hh) y \<and> hh_next (handles s' hh) y = hh_next (handles s hh) y)"

lemma exp_frame_trans: "exp_frame hh t nb M s s' \<Longrightarrow> exp_frame hh t nb N s' s'' \<Longrightarrow> M \<subseteq> N \<Longrightarrow> exp_frame hh t nb N s s''"
  unfolding exp_frame_def using same_list_trans by (smt (verit) subset_eq)

lemma exp_frame_refl: "exp_frame hh t nb M s s"
  by (simp add: exp_frame_def same_list_refl)

lemma beyond_push: "i < 2 ^ k \<Longrightarrow> beyond k m (D(i := x # D i)) = beyond k m D + (if m < Suc (length (D i)) then 1 else 0)"
proof -
  assume i: "i < 2 ^ k"
  have "beyond k m E = (length (E i) - m) + (\<Sum>j \<in> {..<2 ^ k} - {i}. length (E j) - m)" for E
    unfolding beyond_def using i by (subst sum.remove [of _ i]) auto
  moreover have "(\<Sum>j \<in> {..<2 ^ k} - {i}. length ((D(i := x # D i)) j) - m) = (\<Sum>j \<in> {..<2 ^ k} - {i}. length (D j) - m)"
    by (rule sum.cong) auto
  ultimately show ?thesis by (simp add: Suc_diff_le)
qed

lemma expand_item_moves:
  assumes "moved (Suc k) hh t tb nb M nbs D s" "hho tb = hh" "num_buckets tb = 2 ^ k" "k \<le> 27" "ideal_chain_maxlen tb \<noteq> 0" "x \<notin> M" "live (handles s hh) x"
    "finite M" "card M < 2 ^ 31"
  shows "\<exists>s' nbs' D'. expand_item (Some t) nb x s = Some s' \<and> moved (Suc k) hh t tb nb (insert x M) nbs' D' s' \<and> exp_frame hh t nb (insert x M) s s'"
proof -
  let ?H = "handles s hh" and ?m = "ideal_chain_maxlen tb"
  define i where "i = HASH_TO_BKT (hashv ?H x) (num_buckets tb * 2)"
  have i: "unat i = bkt_of (Suc k) (hashv ?H x)" by (simp add: i_def bkt_of_def assms(3) mult.commute)
  have il: "unat i < length nbs" "unat i < 2 ^ Suc k" using assms(1,4) bkt_of_less [of "Suc k"] by (auto simp: moved_def i)
  let ?b = "nbs ! unat i" and ?D = "D(unat i := x # D (unat i))"
  have ch: "linked ?H nbs D" and sp: "spread (Suc k) ?H M D" using assms(1) by (auto simp: moved_def)
  have b: "hh_head ?b = first_or (D (unat i)) None" "bkt_count ?b = word_of_nat (length (D (unat i)))" using ch il by (auto simp: linked_def)
  have sub: "set (D (unat i)) \<subseteq> M" "distinct (D (unat i))" using sp by (auto simp: spread_def)
  then have "length (D (unat i)) < 2 ^ 31" using assms(8,9) by (metis card_mono distinct_card order_le_less_trans)
  then have lt: "?m < bkt_count ?b + 1 \<longleftrightarrow> unat ?m < Suc (length (D (unat i)))"
    by (simp add: b word_less_nat_alt unat_word_ariths unat_of_nat take_bit_eq_mod)
  define mu where "mu = (if ?m < bkt_count ?b + 1 then (bkt_count ?b + 1) div ?m else expand_mult ?b)"
  have lv: "live ?H a" if "hh_head ?b = Some a" for a using that sub assms(1) b by (auto simp: moved_def dest!: first_or_Some)
  define s' where "s' = s\<lparr>handles := (handles s)(hh := push_links x (hh_head ?b) ?H),
     tables := (tables s)(t \<mapsto> tb\<lparr>nonideal_items := word_of_nat (beyond (Suc k) (unat ?m) ?D)\<rparr>),
     barrays := (barrays s)(nb \<mapsto> nbs[unat i := ?b\<lparr>bkt_count := bkt_count ?b + 1, expand_mult := mu, hh_head := Some x\<rparr>])\<rparr>"
  have e: "expand_item (Some t) nb x s = Some s'"
  proof -
    have m: "tables s t = Some (tb\<lparr>nonideal_items := word_of_nat (beyond (Suc k) (unat ?m) D)\<rparr>)" "barrays s nb = Some nbs" "length nbs = 2 ^ Suc k"
      using assms(1) by (auto simp: moved_def)
    show ?thesis
      using m il lv assms(2,5) lt
      apply (simp add: expand_item_def i_def [symmetric] get_bkt_def set_bkt_def set_table_def Let_def beyond_push)
      apply (cases "hh_head ?b"; cases "?m < bkt_count ?b + 1")
      apply (simp_all add: s'_def mu_def setters push_links_def beyond_push i_def [symmetric])
      apply (auto intro!: ut_mem.equality simp: map_upd_triv)
      done
  qed
  have "moved (Suc k) hh t tb nb (insert x M) (nbs[unat i := ?b\<lparr>bkt_count := bkt_count ?b + 1, expand_mult := mu, hh_head := Some x\<rparr>]) ?D s'"
    using assms(1,7) linked_push(1) [OF ch sp assms(6), of mu] linked_push(2) [OF ch sp assms(6)] il by (auto simp: moved_def s'_def i push_links_def)
  moreover have "exp_frame hh t nb (insert x M) s s'"
    using sub b by (auto simp: exp_frame_def same_list_def s'_def push_links_def upd_at_def split: option.split dest!: first_or_Some)
  ultimately show ?thesis using e by blast
qed

lemma expand_chain_moves:
  assumes "moved (Suc k) hh t tb nb M nbs D s" "dls (hh_prev (handles s hh)) (hh_next (handles s hh)) p xs None" "distinct xs" "set xs \<inter> M = {}"
    "\<forall>x \<in> set xs. live (handles s hh) x" "finite M" "card M + length xs < 2 ^ 31"
    and tb: "hho tb = hh" "num_buckets tb = 2 ^ k" "k \<le> 27" "ideal_chain_maxlen tb \<noteq> 0"
  shows "\<exists>s' nbs' D'. expand_chain (Some t) hh nb (first_or xs None) s = Some s' \<and> moved (Suc k) hh t tb nb (set xs \<union> M) nbs' D' s' \<and> exp_frame hh t nb (set xs \<union> M) s s'"
  using assms(1-7)
proof (induction xs arbitrary: p M nbs D s)
  case Nil
  then show ?case by (auto simp: expand_chain.simps exp_frame_refl)
next
  case (Cons x xs)
  from expand_item_moves [OF Cons.prems(1) tb, of x] Cons.prems obtain s1 nbs1 D1 where
    s1: "expand_item (Some t) nb x s = Some s1" "moved (Suc k) hh t tb nb (insert x M) nbs1 D1 s1" "exp_frame hh t nb (insert x M) s s1" by auto
  have d: "dls (hh_prev (handles s1 hh)) (hh_next (handles s1 hh)) (Some x) xs None"
    using Cons.prems s1(3) by (subst dls_cong [of _ _ "hh_prev (handles s hh)" _ "hh_next (handles s hh)"]) (auto simp: exp_frame_def)
  have lv: "\<forall>y \<in> set xs. live (handles s1 hh) y" using Cons.prems(5) s1(3) by (auto simp: exp_frame_def same_list_def)
  obtain s' nbs' D' where
    s': "expand_chain (Some t) hh nb (first_or xs None) s1 = Some s'" "moved (Suc k) hh t tb nb (set xs \<union> insert x M) nbs' D' s'" "exp_frame hh t nb (set xs \<union> insert x M) s1 s'"
    using Cons.IH [OF s1(2) d _ _ lv] Cons.prems by (auto simp: card_insert_if)
  have "expand_chain (Some t) hh nb (first_or (x # xs) None) s = Some s'"
    using Cons.prems(2,5) s1(1) s'(1) by (subst expand_chain.simps) simp
  with s' exp_frame_trans [OF s1(3) s'(3)] show ?case by auto
qed

lemma expand_loop_moves:
  assumes "moved (Suc k) hh t tb nb M nbs D s" "M = (\<Union>j < i. set (C j))" "i + n = 2 ^ k"
    "\<forall>j. i \<le> j \<longrightarrow> j < 2 ^ k \<longrightarrow> hh_head (bs ! j) = first_or (C j) None \<and> dls (hh_prev (handles s hh)) (hh_next (handles s hh)) None (C j) None"
    "spread k (handles s hh) S C" "\<forall>x \<in> S. live (handles s hh) x" "barrays s b = Some bs"
    and tb: "hho tb = hh" "num_buckets tb = 2 ^ k" "k \<le> 27" "ideal_chain_maxlen tb \<noteq> 0" "buckets tb = Some b" "b \<noteq> nb" "length bs = 2 ^ k" "finite S" "card S < 2 ^ 30"
  shows "\<exists>s' nbs' D'. expand_loop (Some t) nb i n s = Some s' \<and> moved (Suc k) hh t tb nb (\<Union>j < 2 ^ k. set (C j)) nbs' D' s' \<and> exp_frame hh t nb (\<Union>j < 2 ^ k. set (C j)) s s'"
  using assms(1-7)
proof (induction n arbitrary: i M nbs D s)
  case 0
  then show ?case by (auto simp: exp_frame_refl)
next
  case (Suc n)
  have C: "distinct (C j)" "set (C j) = {y \<in> S. bkt_of k (hashv (handles s hh) y) = j}" for j
    using Suc.prems(5) by (auto simp: spread_def)
  have i: "i < 2 ^ k" using Suc.prems(3) by simp
  then have ui: "unat (word_of_nat i :: 32 word) = i" using tb(3) power_increasing [of k 27 "2 :: nat"] by (simp add: unat_of_nat take_bit_eq_mod)
  have MS: "M \<subseteq> S" using C by (auto simp: Suc.prems(2))
  then have M: "finite M" "card M < 2 ^ 30" using tb(8,9) by (auto intro: finite_subset dest: card_mono [OF tb(8)])
  have "length (C i) < 2 ^ 30" using C [of i] tb(8,9) by (metis (no_types, lifting) card_mono distinct_card mem_Collect_eq order_le_less_trans subsetI)
  with M have Mi: "card M + length (C i) < 2 ^ 31" by simp
  have Ci: "set (C i) \<inter> M = {}" "\<forall>x \<in> set (C i). live (handles s hh) x" "dls (hh_prev (handles s hh)) (hh_next (handles s hh)) None (C i) None"
    using C Suc.prems(2,4,6) i by auto
  obtain s1 nbs1 D1 where
    s1: "expand_chain (Some t) hh nb (first_or (C i) None) s = Some s1" "moved (Suc k) hh t tb nb (set (C i) \<union> M) nbs1 D1 s1" "exp_frame hh t nb (set (C i) \<union> M) s s1"
    using expand_chain_moves [OF Suc.prems(1) Ci(3) C(1) Ci(1,2) M(1) Mi tb(1-4)] by auto
  have dis: "set (C j) \<inter> (set (C i) \<union> M) = {}" if "Suc i \<le> j" for j using that C by (auto simp: Suc.prems(2))
  have d: "dls (hh_prev (handles s1 hh)) (hh_next (handles s1 hh)) None (C j) None" if "Suc i \<le> j" "j < 2 ^ k" for j
    using Suc.prems(4) that s1(3) dis [OF that(1)] by (subst dls_cong [of _ _ "hh_prev (handles s hh)" _ "hh_next (handles s hh)"]) (auto simp: exp_frame_def)
  have sp: "spread k (handles s1 hh) S C" "\<forall>x \<in> S. live (handles s1 hh) x" "barrays s1 b = Some bs"
    using Suc.prems(5-7) s1(3) tb(6) by (auto simp: exp_frame_def same_list_def spread_def)
  have Mi: "set (C i) \<union> M = (\<Union>j < Suc i. set (C j))" by (auto simp: Suc.prems(2) lessThan_Suc)
  have "Suc i + n = 2 ^ k" using Suc.prems(3) by simp
  then obtain s' nbs' D' where
    s': "expand_loop (Some t) nb (Suc i) n s1 = Some s'" "moved (Suc k) hh t tb nb (\<Union>j < 2 ^ k. set (C j)) nbs' D' s'" "exp_frame hh t nb (\<Union>j < 2 ^ k. set (C j)) s1 s'"
    using Suc.IH [OF s1(2) Mi _ _ sp] d Suc.prems(4) by auto
  have "expand_loop (Some t) nb i (Suc n) s = Some s'"
    using Suc.prems(1,4,7) tb i ui s1(1) s'(1) by (auto simp: moved_def get_bkt_def)
  moreover have "set (C i) \<union> M \<subseteq> (\<Union>j < 2 ^ k. set (C j))" using i by (force simp: Suc.prems(2))
  ultimately show ?case using s' exp_frame_trans [OF s1(3) s'(3)] by blast
qed

lemma buckets_size: "k \<le> 27 \<Longrightarrow> (0 \<le> sint (2 * 2 ^ k * 12 :: 32 word) \<longleftrightarrow> k < 27) \<and> unat (2 * 2 ^ k * 12 :: 32 word) = 2 ^ Suc k * 12"
proof -
  assume "k \<le> 27"
  then have "k \<in> set [0..<28]" by simp
  then show ?thesis by (simp add: upt_rec [of _ 28]) (elim disjE; simp)
qed

lemma unat_pow2: "k < 32 \<Longrightarrow> unat (2 ^ k :: 32 word) = 2 ^ k"
proof -
  assume "k < 32"
  then have "(2 :: nat) ^ k < 2 ^ 32" by (intro power_strict_increasing) auto
  then show ?thesis using unat_of_nat [of "2 ^ k", where 'a = 32] by (simp add: take_bit_eq_mod)
qed

lemma ceil_div: "0 < (m :: nat) \<Longrightarrow> (n + m - 1) div m = n div m + (if n mod m \<noteq> 0 then 1 else 0)"
proof -
  assume m: "0 < m"
  have "(n + m - 1) div m = (n div m * m + (n mod m + m - 1)) div m" using m by simp
  also have "\<dots> = n div m + (n mod m + m - 1) div m" using m by (subst div_mult_self3) auto
  also have "(n mod m + m - 1) div m = (if n mod m \<noteq> 0 then 1 else 0)"
  proof (cases "n mod m = 0")
    case False
    then have "n mod m + m - 1 = (n mod m - 1) + m" by simp
    then have "(n mod m + m - 1) div m = (n mod m - 1) div m + 1" using m by (simp only: div_add_self2)
    moreover have "n mod m - 1 < m" using m mod_less_divisor [of m n] by linarith
    ultimately show ?thesis using False by simp
  qed (use m in simp)
  finally show ?thesis .
qed

lemma ceil_div_word:
  fixes n :: "32 word"
  shows "unat (drop_bit k n + (if and n (2 ^ k - 1) \<noteq> 0 then 1 else 0)) = (unat n + 2 ^ k - 1) div 2 ^ k"
proof -
  have "and n (2 ^ k - 1) = take_bit k n" by (simp add: take_bit_eq_mask mask_eq_exp_minus_1)
  moreover have "take_bit k n = 0 \<longleftrightarrow> unat n mod 2 ^ k = 0"
    by (metis take_bit_eq_mod unat_eq_zero unsigned_take_bit_eq)
  moreover have d: "unat (drop_bit k n) = unat n div 2 ^ k" by (subst unat_drop_bit_eq) (simp add: drop_bit_eq_div)
  moreover have "unat (drop_bit k n + 1) = unat n div 2 ^ k + 1" if "unat n mod 2 ^ k \<noteq> 0"
  proof -
    from that have "(2 :: nat) ^ 1 \<le> 2 ^ k" by (cases k) auto
    then have "unat n div 2 ^ k \<le> unat n div 2" by (simp add: div_le_mono2)
    moreover have "unat n < 4294967296" using unsigned_less [of n] by simp
    ultimately have "unat n div 2 ^ k + 1 < 4294967296" by linarith
    then show ?thesis by (simp add: unat_word_ariths d)
  qed
  ultimately show ?thesis using ceil_div [of "2 ^ k" "unat n"] by simp
qed

lemma spread_card:
  assumes "spread k H M D" "finite M" "k \<le> 28"
  shows "(\<Sum>i < 2 ^ k. length (D i)) = card M"
proof -
  have D: "distinct (D j)" "set (D j) = {y \<in> M. bkt_of k (hashv H y) = j}" for j using assms(1) by (auto simp: spread_def)
  have "(\<Sum>i < 2 ^ k. length (D i)) = (\<Sum>i < 2 ^ k. card (set (D i)))" using D(1) by (simp add: distinct_card)
  also have "\<dots> = card (\<Union>i < 2 ^ k. set (D i))" using D(2) assms(2) by (subst card_UN_disjoint) auto
  also have "(\<Union>i < 2 ^ k. set (D i)) = M" using D(2) bkt_of_less [OF assms(3)] by fastforce
  finally show ?thesis .
qed

lemma beyond_le: "spread k H M D \<Longrightarrow> finite M \<Longrightarrow> k \<le> 28 \<Longrightarrow> beyond k m D \<le> card M"
  by (simp add: beyond_def sum_mono flip: spread_card)

text \<open>The statistics of an expansion: the ideal length of a chain is the number of items divided by the number of buckets, rounded up.\<close>

definition expanded :: "hname \<Rightarrow> addr \<Rightarrow> UT_hash_table \<Rightarrow> addr set \<Rightarrow> nat \<Rightarrow> UT_hash_table \<Rightarrow> (nat \<Rightarrow> addr list) \<Rightarrow> ut_mem \<Rightarrow> ut_mem \<Rightarrow> bool" where
  "expanded hh t tb S k tb' D s s' \<longleftrightarrow>
     (\<exists>b bs. wf_buckets hh tb' S k b bs D s') \<and> tables s' t = Some tb' \<and> same_list hh s s' \<and>
     tail tb' = tail tb \<and> num_items tb' = num_items tb \<and> num_buckets tb' = 2 * num_buckets tb \<and>
     unat (ideal_chain_maxlen tb') = (card S + 2 ^ k - 1) div 2 ^ k \<and>
     unat (nonideal_items tb') = beyond k (unat (ideal_chain_maxlen tb')) D \<and>
     ineff_expands tb' = (if card S div 2 < unat (nonideal_items tb') then ineff_expands tb + 1 else 0) \<and>
     noexpand tb' = (if 1 < ineff_expands tb' then 1 else noexpand tb)"

text \<open>The table before and after the items are moved, and the memory with the new array.\<close>

definition expand_begin :: "UT_hash_table \<Rightarrow> UT_hash_table" where
  "expand_begin tb = tb\<lparr>ideal_chain_maxlen := drop_bit (unat (log2_num_buckets tb + 1)) (num_items tb) +
     (if and (num_items tb) (num_buckets tb * 2 - 1) \<noteq> 0 then 1 else 0), nonideal_items := 0\<rparr>"

definition expand_end :: "addr \<Rightarrow> UT_hash_table \<Rightarrow> UT_hash_table" where
  "expand_end nb tb =
     (let tb = tb\<lparr>num_buckets := num_buckets tb * 2, log2_num_buckets := log2_num_buckets tb + 1, buckets := Some nb\<rparr>;
          tb = tb\<lparr>ineff_expands := (if drop_bit 1 (num_items tb) < nonideal_items tb then ineff_expands tb + 1 else 0)\<rparr>
      in if 1 < ineff_expands tb then tb\<lparr>noexpand := 1\<rparr> else tb)"

definition expand_mem :: "addr \<Rightarrow> UT_hash_table \<Rightarrow> nat \<Rightarrow> ut_mem \<Rightarrow> ut_mem" where
  "expand_mem t tb k s = s\<lparr>brk := Suc (brk s), barrays := (barrays s)(brk s \<mapsto> replicate (2 ^ Suc k) zero_bucket), tables := (tables s)(t \<mapsto> expand_begin tb)\<rparr>"

lemma expand_begin_ideal:
  assumes "num_buckets tb = 2 ^ k" "log2_num_buckets tb = word_of_nat k" "k < 27" "num_items tb = word_of_nat n" "n < 2 ^ 30"
  shows "unat (ideal_chain_maxlen (expand_begin tb)) = (n + 2 ^ Suc k - 1) div 2 ^ Suc k" "0 < n \<Longrightarrow> ideal_chain_maxlen (expand_begin tb) \<noteq> 0"
proof -
  have "unat (word_of_nat k + 1 :: 32 word) = Suc k" "unat (num_items tb) = n" using assms(3-5) by (simp_all add: unat_word_ariths unat_of_nat take_bit_eq_mod)
  with ceil_div_word [of "Suc k" "num_items tb"] assms(1,2) show ideal: "unat (ideal_chain_maxlen (expand_begin tb)) = (n + 2 ^ Suc k - 1) div 2 ^ Suc k"
    by (simp add: expand_begin_def mult.commute)
  assume "0 < n"
  then have "0 < (n + 2 ^ Suc k - 1) div 2 ^ Suc k" by (simp add: div_greater_zero_iff)
  with ideal show "ideal_chain_maxlen (expand_begin tb) \<noteq> 0" by fastforce
qed

lemma expand_loop_all:
  assumes "wf_buckets hh tb S k b bs C s" "k < 27" "\<forall>x \<in> S. live (handles s hh) x" "finite S" "card S < 2 ^ 30" "ideal_chain_maxlen (expand_begin tb) \<noteq> 0"
  shows "\<exists>s2 nbs D. expand_loop (Some t) (brk s) 0 (2 ^ k) (expand_mem t tb k s) = Some s2 \<and> moved (Suc k) hh t (expand_begin tb) (brk s) S nbs D s2 \<and>
     exp_frame hh t (brk s) S (expand_mem t tb k s) s2"
proof -
  note w = assms(1) [unfolded wf_buckets_def]
  have C: "distinct (C j)" "set (C j) = {y \<in> S. bkt_of k (hashv (handles s hh) y) = j}" for j using w by (auto simp: spread_def)
  have U: "(\<Union>j < 2 ^ k. set (C j)) = S" using C bkt_of_less [of k] assms(2) by fastforce
  have "moved (Suc k) hh t (expand_begin tb) (brk s) {} (replicate (2 ^ Suc k) zero_bucket) (\<lambda>_. []) (expand_mem t tb k s)"
    by (simp add: moved_def expand_mem_def linked_def zero_bucket_def spread_def beyond_def) (simp add: expand_begin_def)
  from expand_loop_moves [OF this, where i = 0 and C = C and n = "2 ^ k" and bs = bs and S = S and b = b] show ?thesis
    using w assms(2-6) by (auto simp: U) (auto simp: expand_mem_def expand_begin_def linked_def)
qed

lemma expand_end_expanded:
  assumes "wf_buckets hh tb S k b bs C s" "k < 27" "finite S" "card S < 2 ^ 30" "num_items tb = word_of_nat (card S)"
    and s2: "moved (Suc k) hh t (expand_begin tb) (brk s) S nbs D s2" "exp_frame hh t (brk s) S (expand_mem t tb k s) s2" and t2: "tables s2 t = Some tb2"
  shows "expanded hh t tb S (Suc k) (expand_end (brk s) tb2) D s (s2\<lparr>barrays := (barrays s2)(b := None), tables := (tables s2)(t \<mapsto> expand_end (brk s) tb2)\<rparr>)"
    (is "expanded hh t tb S _ ?tb D s ?s")
proof -
  note w = assms(1) [unfolded wf_buckets_def]
  let ?m = "ideal_chain_maxlen (expand_begin tb)"
  have tb2: "tb2 = (expand_begin tb)\<lparr>nonideal_items := word_of_nat (beyond (Suc k) (unat ?m) D)\<rparr>" using s2(1) t2 by (simp add: moved_def)
  have n: "unat (num_items tb) = card S" using assms(4,5) by (simp add: unat_of_nat take_bit_eq_mod)
  have "beyond (Suc k) (unat ?m) D \<le> card S" using s2(1) assms(2,3) by (intro beyond_le) (auto simp: moved_def)
  then have ni: "unat (nonideal_items tb2) = beyond (Suc k) (unat ?m) D" using assms(4) by (simp add: tb2 unat_of_nat take_bit_eq_mod)
  moreover have "drop_bit 1 (num_items tb) < nonideal_items tb2 \<longleftrightarrow> card S div 2 < unat (nonideal_items tb2)"
    by (subst word_less_nat_alt, subst unat_drop_bit_eq) (simp add: n drop_bit_eq_div)
  moreover have "wf_buckets hh ?tb S (Suc k) (brk s) nbs D ?s"
    using s2 w assms(2) by (auto simp: wf_buckets_def moved_def exp_frame_def expand_mem_def expand_end_def tb2 expand_begin_def Let_def)
  moreover have "same_list hh s ?s" using s2(2) by (simp add: exp_frame_def same_list_def expand_mem_def)
  moreover have "tail ?tb = tail tb" "num_items ?tb = num_items tb" "num_buckets ?tb = 2 * num_buckets tb" "ideal_chain_maxlen ?tb = ?m" "nonideal_items ?tb = nonideal_items tb2"
    "ineff_expands ?tb = (if drop_bit 1 (num_items tb) < nonideal_items tb2 then ineff_expands tb + 1 else 0)" "noexpand ?tb = (if 1 < ineff_expands ?tb then 1 else noexpand tb)"
    by (simp_all add: expand_end_def tb2 expand_begin_def Let_def)
  moreover have "unat ?m = (card S + 2 ^ Suc k - 1) div 2 ^ Suc k" using expand_begin_ideal(1) [OF _ _ assms(2,5,4)] w by simp
  ultimately show ?thesis unfolding expanded_def by (intro conjI exI [of _ "brk s"] exI [of _ nbs]) simp_all
qed

lemma HASH_EXPAND_BUCKETS_wf:
  assumes "wf_table hh t tb S s" "finite S" "S \<noteq> {}" "card S < 2 ^ 30" "num_items tb = word_of_nat (card S)"
  shows "(HASH_EXPAND_BUCKETS (Some t) s = Some Exit \<and> (\<not> no_oom s \<or> num_buckets tb = 2 ^ 27)) \<or>
     (\<exists>s' tb' k D. HASH_EXPAND_BUCKETS (Some t) s = Some (Ret s') \<and> expanded hh t tb S k tb' D s s')"
proof -
  from assms(1) obtain k b bs C where wf: "wf_buckets hh tb S k b bs C s" and t: "tables s t = Some tb" and lv: "\<forall>x \<in> S. live (handles s hh) x"
    by (auto simp: wf_table_def)
  note w = wf [unfolded wf_buckets_def]
  let ?sz = "2 * num_buckets tb * 12 :: 32 word"
  have sz: "0 \<le> sint ?sz \<longleftrightarrow> k < 27" "unat ?sz = 2 ^ Suc k * 12" using buckets_size [of k] w by auto
  show ?thesis
  proof (cases "sint ?sz < 0 \<or> alloc_fails s (brk s)")
    case True
    with sz(1) w t have "HASH_EXPAND_BUCKETS (Some t) s = Some Exit" "\<not> no_oom s \<or> num_buckets tb = 2 ^ 27"
      by (auto simp: HASH_EXPAND_BUCKETS_def uthash_malloc_def malloc_def no_oom_def)
    then show ?thesis by blast
  next
    case False
    with sz(1) w have k: "k < 27" by simp
    have "0 < card S" using assms(2,3) by (simp add: card_gt_0_iff)
    then have "ideal_chain_maxlen (expand_begin tb) \<noteq> 0" using expand_begin_ideal(2) [OF _ _ k assms(5,4)] w by simp
    from expand_loop_all [OF wf k lv assms(2,4) this] obtain s2 nbs D where
      s2: "expand_loop (Some t) (brk s) 0 (2 ^ k) (expand_mem t tb k s) = Some s2" "moved (Suc k) hh t (expand_begin tb) (brk s) S nbs D s2"
        "exp_frame hh t (brk s) S (expand_mem t tb k s) s2" by blast
    from s2(2,3) w obtain tb2 where t2: "tables s2 t = Some tb2" "barrays s2 b = Some bs" by (auto simp: moved_def exp_frame_def expand_mem_def)
    have "HASH_EXPAND_BUCKETS (Some t) s = Some (Ret (s2\<lparr>barrays := (barrays s2)(b := None), tables := (tables s2)(t \<mapsto> expand_end (brk s) tb2)\<rparr>))"
      using False t w sz(2) s2(1) t2 k
      by (simp add: HASH_EXPAND_BUCKETS_def uthash_malloc_def malloc_def set_table_def free_barray_def expand_mem_def expand_begin_def unat_pow2 split del: if_split)
        (simp add: expand_end_def)
    with expand_end_expanded [OF wf k assms(2,4,5) s2(2,3) t2(1)] show ?thesis by blast
  qed
qed

end
