(* ===== verification/UtHashOps.thy ===== *)
theory UtHashOps
  imports UtHashInv
begin

text \<open>
  The operations on a well-formed table: what they return and that the table stays well-formed.
\<close>

section \<open>What the invariant depends on\<close>

lemma wf_table_cong:
  assumes "wf_table hh t tb S s"
    and "hh_prev (handles s' hh) = hh_prev (handles s hh)" "hh_next (handles s' hh) = hh_next (handles s hh)" "live (handles s' hh) = live (handles s hh)"
    and "\<forall>x \<in> S. hashv (handles s' hh) x = hashv (handles s hh) x \<and> tbl (handles s' hh) x = tbl (handles s hh) x"
    and "barrays s' = barrays s" "brk s \<le> brk s'" "tables s' t = Some tb'"
    and "hho tb' = hho tb" "buckets tb' = buckets tb" "num_buckets tb' = num_buckets tb" "log2_num_buckets tb' = log2_num_buckets tb"
  shows "wf_table hh t tb' S s'"
proof -
  from assms(1) obtain k b bs C where "wf_buckets hh tb S k b bs C s" by (auto simp: wf_table_def)
  moreover from this assms(5) have "spread k (handles s' hh) S C" by (auto simp: wf_buckets_def spread_def)
  ultimately have "wf_buckets hh tb' S k b bs C s'" using assms by (auto simp: wf_buckets_def linked_def)
  with assms show ?thesis by (auto simp: wf_table_def)
qed

lemma expanded_wf: "expanded hh t tb S k tb' D s s' \<Longrightarrow> wf_table hh t tb0 S s \<Longrightarrow> wf_table hh t tb' S s'"
  by (fastforce simp: expanded_def wf_table_def same_list_def)

lemma links_commute:
  fixes H :: UT_hash_handle
  shows "H\<lparr>hh_next := nx, hh_prev := pr\<rparr> = H\<lparr>hh_prev := pr, hh_next := nx\<rparr>"
    "H\<lparr>app_next := nx, app_prev := pr\<rparr> = H\<lparr>app_prev := pr, app_next := nx\<rparr>"
  by simp_all

section \<open>Adding to and deleting from a bucket\<close>

lemma HASH_ADD_TO_BKT_wf:
  assumes "wf_table hh t tb S s" "x \<notin> S" "live (handles s hh) x" "tbl (handles s hh) x = Some t" "finite S" "card S + 1 < 2 ^ 30"
    "num_items tb = word_of_nat (Suc (card S))"
  defines "r \<equiv> HASH_ADD_TO_BKT hh (buckets tb) (HASH_TO_BKT (hashv (handles s hh) x) (num_buckets tb)) x s"
  shows "(r = Some Exit \<and> (\<not> no_oom s \<or> num_buckets tb = 2 ^ 27)) \<or>
     (\<exists>s' tb'. r = Some (Ret s') \<and> wf_table hh t tb' (insert x S) s' \<and> same_list hh s s' \<and> tail tb' = tail tb \<and> num_items tb' = num_items tb)"
proof -
  from assms(1) obtain k b bs C where w: "wf_buckets hh tb S k b bs C s" and t: "tables s t = Some tb" "t < brk s" and lv: "\<forall>x \<in> S. live (handles s hh) x \<and> tbl (handles s hh) x = Some t"
    by (auto simp: wf_table_def)
  note w = w [unfolded wf_buckets_def]
  let ?H = "handles s hh"
  define i where "i = HASH_TO_BKT (hashv ?H x) (num_buckets tb)"
  have i: "unat i = bkt_of k (hashv ?H x)" using w by (simp add: i_def bkt_of_def)
  have il: "unat i < length bs" using w bkt_of_less [of k] by (simp add: i)
  let ?b = "bs ! unat i"
  have b: "hh_head ?b = first_or (C (unat i)) None" using w il by (auto simp: linked_def)
  have lh: "live ?H a" if "hh_head ?b = Some a" for a using that w lv b by (auto simp: spread_def dest!: first_or_Some)
  define s1 where "s1 = s\<lparr>handles := (handles s)(hh := push_links x (hh_head ?b) ?H),
     barrays := (barrays s)(b \<mapsto> bs[unat i := ?b\<lparr>bkt_count := bkt_count ?b + 1, hh_head := Some x\<rparr>])\<rparr>"
  have b1: "?b\<lparr>bkt_count := bkt_count ?b + 1, hh_head := Some x\<rparr> = ?b\<lparr>bkt_count := bkt_count ?b + 1, expand_mult := expand_mult ?b, hh_head := Some x\<rparr>" by simp
  let ?c = "(expand_mult ?b + 1) * HASH_BKT_CAPACITY_THRESH \<le> bkt_count ?b + 1 \<and> noexpand tb \<noteq> 1"
  have r: "r = (if ?c then HASH_EXPAND_BUCKETS (Some t) s1 else Some (Ret s1))"
    unfolding r_def i_def [symmetric] using w t il lh assms(4)
    by (cases "hh_head ?b") (simp_all add: HASH_ADD_TO_BKT_def set_bkt_def get_bkt_def setters s1_def push_links_def links_commute)
  have w1: "wf_table hh t tb (insert x S) s1"
  proof -
    have "linked (handles s1 hh) (bs[unat i := ?b\<lparr>bkt_count := bkt_count ?b + 1, hh_head := Some x\<rparr>]) (C(unat i := x # C (unat i)))"
      using linked_push(1) [of ?H bs C k S x "expand_mult ?b"] w assms(2) il by (simp add: i s1_def)
    moreover have "spread k (handles s1 hh) (insert x S) (C(unat i := x # C (unat i)))"
      using linked_push(2) [of ?H bs C k S x] w assms(2) il by (simp add: i s1_def)
    ultimately have "wf_buckets hh tb (insert x S) k b (bs[unat i := ?b\<lparr>bkt_count := bkt_count ?b + 1, hh_head := Some x\<rparr>]) (C(unat i := x # C (unat i))) s1"
      using w by (simp add: wf_buckets_def s1_def)
    with t lv assms(3,4) show ?thesis by (auto simp: wf_table_def s1_def push_links_def)
  qed
  have s1: "same_list hh s s1" "no_oom s1 = no_oom s" by (auto simp: same_list_def s1_def push_links_def no_oom_def)
  show ?thesis
  proof (cases ?c)
    case True
    have "num_items tb = word_of_nat (card (insert x S))" "card (insert x S) < 2 ^ 30" using assms(2,5-7) by simp_all
    from HASH_EXPAND_BUCKETS_wf [OF w1 _ _ this(2,1)] assms(5) consider "HASH_EXPAND_BUCKETS (Some t) s1 = Some Exit" "\<not> no_oom s1 \<or> num_buckets tb = 2 ^ 27"
      | s' tb' k D where "HASH_EXPAND_BUCKETS (Some t) s1 = Some (Ret s')" "expanded hh t tb (insert x S) k tb' D s1 s'" by blast
    then show ?thesis
    proof cases
      case 1
      with r True s1 show ?thesis by simp
    next
      case 2
      with r True expanded_wf [OF 2(2) w1] same_list_trans [OF s1(1)] show ?thesis by (auto simp: expanded_def)
    qed
  next
    case False
    with r w1 s1(1) show ?thesis by auto
  qed
qed

lemma add_finish_wf:
  assumes "wf_table hh t tb S s" "x \<notin> S" "live (handles s hh) x" "tbl (handles s hh) x = Some t" "finite S" "card S + 1 < 2 ^ 30"
    "num_items tb = word_of_nat (card S)" "h \<in> insert x S"
  defines "r \<equiv> add_finish hh (Some h) (hashv (handles s hh) x) x s"
  shows "(r = Some Exit \<and> (\<not> no_oom s \<or> num_buckets tb = 2 ^ 27)) \<or>
     (\<exists>s' tb'. r = Some (Ret (Some h, s')) \<and> wf_table hh t tb' (insert x S) s' \<and> same_list hh s s' \<and> tail tb' = tail tb \<and> num_items tb' = word_of_nat (Suc (card S)))"
proof -
  define tb1 where "tb1 = tb\<lparr>num_items := num_items tb + 1\<rparr>"
  define s1 where "s1 = s\<lparr>tables := (tables s)(t \<mapsto> tb1)\<rparr>"
  have t: "tables s t = Some tb" using assms(1) by (simp add: wf_table_def)
  have w1: "wf_table hh t tb1 S s1" by (rule wf_table_cong [OF assms(1)]) (simp_all add: s1_def tb1_def)
  have h: "live (handles s hh) h" "tbl (handles s hh) h = Some t" using assms(1,3,4,8) by (auto simp: wf_table_def)
  have n1: "num_items tb1 = word_of_nat (Suc (card S))" "live (handles s1 hh) x" "tbl (handles s1 hh) x = Some t" using assms(3,4,7) by (simp_all add: tb1_def s1_def)
  have "r = Option.bind (HASH_ADD_TO_BKT hh (buckets tb1) (HASH_TO_BKT (hashv (handles s1 hh) x) (num_buckets tb1)) x s1)
      (\<lambda>r. Some (case r of Exit \<Rightarrow> Exit | Ret s \<Rightarrow> Ret (Some h, s)))"
    using h t by (simp add: r_def add_finish_def tbl_of_def set_table_def tb1_def s1_def)
  moreover have "same_list hh s s1" "no_oom s1 = no_oom s" "num_buckets tb1 = num_buckets tb" "tail tb1 = tail tb"
    using same_list_refl [of hh s] by (simp_all add: same_list_def s1_def no_oom_def tb1_def)
  ultimately show ?thesis
    using HASH_ADD_TO_BKT_wf [OF w1 assms(2) n1(2,3) assms(5,6) n1(1)] n1(1) same_list_trans [of hh s s1]
    by (elim disjE exE conjE) auto
qed

section \<open>The table as an ordered map\<close>

text \<open>The elements have at least the 32 bytes of a handle, so that less than \<open>2 ^ 27\<close> of them fit into memory.\<close>

definition handles_fit :: "hname \<Rightarrow> ut_mem \<Rightarrow> bool" where
  "handles_fit hh s \<longleftrightarrow> finite (Collect (live (handles s hh))) \<and> card (Collect (live (handles s hh))) < 2 ^ 27"

text \<open>The table holds the elements of \<open>al\<close>, with their keys, in this order.\<close>

definition list_ok :: "hname \<Rightarrow> addr \<Rightarrow> UT_hash_table \<Rightarrow> addr list \<Rightarrow> ut_mem \<Rightarrow> bool" where
  "list_ok hh t tb xs s \<longleftrightarrow>
     wf_table hh t tb (set xs) s \<and> distinct xs \<and> dls (app_prev (handles s hh)) (app_next (handles s hh)) None xs None \<and>
     tail tb = Some (last xs) \<and> num_items tb = word_of_nat (length xs)"

definition keys_ok :: "(byte list \<Rightarrow> 32 word) \<Rightarrow> hname \<Rightarrow> (addr \<times> byte list) list \<Rightarrow> ut_mem \<Rightarrow> bool" where
  "keys_ok fcn hh al s \<longleftrightarrow>
     distinct (map snd al) \<and>
     (\<forall>(x, k) \<in> set al. key_bytes (key (handles s hh) x) (keylen (handles s hh) x) s = Some k \<and> hashv (handles s hh) x = fcn k)"

definition hash_ok :: "(byte list \<Rightarrow> 32 word) \<Rightarrow> hname \<Rightarrow> ptr \<Rightarrow> (addr \<times> byte list) list \<Rightarrow> ut_mem \<Rightarrow> bool" where
  "hash_ok fcn hh head al s \<longleftrightarrow>
     head = first_or (map fst al) None \<and> handles_fit hh s \<and> keys_ok fcn hh al s \<and> (al \<noteq> [] \<longrightarrow> (\<exists>t tb. list_ok hh t tb (map fst al) s))"

text \<open>What every operation leaves as it is.\<close>

definition ut_frame :: "hname \<Rightarrow> ut_mem \<Rightarrow> ut_mem \<Rightarrow> bool" where
  "ut_frame hh s s' \<longleftrightarrow>
     kmem s' = kmem s \<and> alloc_fails s' = alloc_fails s \<and> (\<forall>h. h \<noteq> hh \<longrightarrow> handles s' h = handles s h) \<and> live (handles s' hh) = live (handles s hh)"

text \<open>Why a call may end the process: an allocation fails, or the array of buckets would need 2 GB.\<close>

definition mem_short :: "hname \<Rightarrow> ptr \<Rightarrow> ut_mem \<Rightarrow> bool" where
  "mem_short hh head s \<longleftrightarrow>
     \<not> no_oom s \<or> Option.bind (tbl_of hh head s) (\<lambda>t. map_option num_buckets (get_table t s)) = Some (2 ^ 27)"

lemma list_ok_length: "list_ok hh t tb xs s \<Longrightarrow> handles_fit hh s \<Longrightarrow> length xs < 2 ^ 27"
proof -
  assume "list_ok hh t tb xs s" "handles_fit hh s"
  then have "distinct xs" "set xs \<subseteq> Collect (live (handles s hh))" "finite (Collect (live (handles s hh)))" "card (Collect (live (handles s hh))) < 2 ^ 27"
    by (auto simp: list_ok_def wf_table_def handles_fit_def)
  then show ?thesis by (metis card_mono distinct_card order_le_less_trans)
qed

section \<open>Adding\<close>

text \<open>The memory when the new element \<open>x\<close> has been put into the list between \<open>us\<close> and \<open>vs\<close>.\<close>

definition ins_handle :: "addr \<Rightarrow> addr \<Rightarrow> 32 word \<Rightarrow> 32 word \<Rightarrow> addr \<Rightarrow> addr list \<Rightarrow> addr list \<Rightarrow> UT_hash_handle \<Rightarrow> UT_hash_handle" where
  "ins_handle t keyptr len hv x us vs H =
     H\<lparr>tbl := (tbl H)(x := Some t), app_prev := upd_at (first_or vs None) (Some x) ((app_prev H)(x := last_or us None)),
       app_next := upd_at (last_or us None) (Some x) ((app_next H)(x := first_or vs None)),
       key := (key H)(x := keyptr), keylen := (keylen H)(x := len), hashv := (hashv H)(x := hv)\<rparr>"

definition ins_mem :: "hname \<Rightarrow> addr \<Rightarrow> UT_hash_table \<Rightarrow> addr \<Rightarrow> 32 word \<Rightarrow> 32 word \<Rightarrow> addr \<Rightarrow> addr list \<Rightarrow> addr list \<Rightarrow> ut_mem \<Rightarrow> ut_mem" where
  "ins_mem hh t tb keyptr len hv x us vs s =
     s\<lparr>handles := (handles s)(hh := ins_handle t keyptr len hv x us vs (handles s hh)), tables := (tables s)(t \<mapsto> tb\<lparr>tail := Some (last (us @ x # vs))\<rparr>)\<rparr>"

lemma ins_mem_finish:
  fixes hv len :: "32 word" and keyptr :: addr
  assumes "list_ok hh t tb (us @ vs) s" "x \<notin> set (us @ vs)" "live (handles s hh) x" "handles_fit hh s" "h \<in> set (us @ x # vs)"
  defines "s1 \<equiv> ins_mem hh t tb keyptr len hv x us vs s"
  shows "(add_finish hh (Some h) hv x s1 = Some Exit \<and> (\<not> no_oom s \<or> num_buckets tb = 2 ^ 27)) \<or>
     (\<exists>s' tb'. add_finish hh (Some h) hv x s1 = Some (Ret (Some h, s')) \<and> list_ok hh t tb' (us @ x # vs) s' \<and> same_list hh s1 s')"
proof -
  let ?tb = "tb\<lparr>tail := Some (last (us @ x # vs))\<rparr>"
  have l: "wf_table hh t tb (set (us @ vs)) s" "distinct (us @ vs)" "dls (app_prev (handles s hh)) (app_next (handles s hh)) None (us @ vs) None"
    "num_items tb = word_of_nat (length (us @ vs))" using assms(1) by (simp_all add: list_ok_def)
  have n: "length (us @ vs) < 2 ^ 27" using list_ok_length [OF assms(1,4)] .
  have w1: "wf_table hh t ?tb (set (us @ vs)) s1"
    by (rule wf_table_cong [OF l(1)]) (use assms(2) in \<open>auto simp: s1_def ins_mem_def ins_handle_def\<close>)
  have c: "card (set (us @ vs)) = length (us @ vs)" using l(2) by (rule distinct_card)
  have d1: "dls (app_prev (handles s1 hh)) (app_next (handles s1 hh)) None (us @ x # vs) None"
    using dls_insert [OF l(2) _ _ l(3), of x] assms(2) by (simp add: s1_def ins_mem_def ins_handle_def)
  have x1: "live (handles s1 hh) x" "tbl (handles s1 hh) x = Some t" "hashv (handles s1 hh) x = hv" "no_oom s1 = no_oom s"
    using assms(3) by (simp_all add: s1_def ins_mem_def ins_handle_def no_oom_def)
  have c1: "card (set (us @ vs)) + 1 < 2 ^ 30" "num_items ?tb = word_of_nat (card (set (us @ vs)))" "h \<in> insert x (set (us @ vs))"
    using n l(4) assms(5) unfolding c by auto
  from add_finish_wf [OF w1 assms(2) x1(1,2) finite_set c1] consider
      "add_finish hh (Some h) hv x s1 = Some Exit" "\<not> no_oom s \<or> num_buckets tb = 2 ^ 27"
    | s' tb' where "add_finish hh (Some h) hv x s1 = Some (Ret (Some h, s'))" "wf_table hh t tb' (insert x (set (us @ vs))) s'" "same_list hh s1 s'"
        "tail tb' = Some (last (us @ x # vs))" "num_items tb' = word_of_nat (Suc (card (set (us @ vs))))"
    unfolding x1(3,4) by auto
  then show ?thesis
  proof cases
    case 2
    have "insert x (set (us @ vs)) = set (us @ x # vs)" by auto
    moreover have "dls (app_prev (handles s' hh)) (app_next (handles s' hh)) None (us @ x # vs) None" using d1 2(3) by (auto simp: same_list_def)
    ultimately have "list_ok hh t tb' (us @ x # vs) s'" using 2 assms(2) l(2) unfolding c list_ok_def by simp
    with 2 show ?thesis by blast
  qed simp
qed

lemma keys_ok_insert:
  assumes "keys_ok fcn hh (us @ vs) s" "k \<notin> snd ` set (us @ vs)" "x \<notin> fst ` set (us @ vs)" "kmem s' = kmem s"
    "\<And>y. y \<noteq> x \<Longrightarrow> key (handles s' hh) y = key (handles s hh) y \<and> keylen (handles s' hh) y = keylen (handles s hh) y \<and> hashv (handles s' hh) y = hashv (handles s hh) y"
    "key_bytes (key (handles s' hh) x) (keylen (handles s' hh) x) s = Some k" "hashv (handles s' hh) x = fcn k"
  shows "keys_ok fcn hh (us @ (x, k) # vs) s'"
proof -
  have kb: "key_bytes p n s' = key_bytes p n s" for p n using assms(4) by (simp add: key_bytes_def)
  have "key_bytes (key (handles s' hh) y) (keylen (handles s' hh) y) s = Some j \<and> hashv (handles s' hh) y = fcn j" if "(y, j) \<in> set (us @ vs)" for y j
  proof -
    have "y \<noteq> x" using that assms(3) by force
    then show ?thesis using that assms(1) assms(5) [of y] by (auto simp: keys_ok_def)
  qed
  then show ?thesis using assms(1,2,6,7) by (auto simp: keys_ok_def kb)
qed

lemma list_ok_member: "list_ok hh t tb xs s \<Longrightarrow> x \<in> set xs \<Longrightarrow> live (handles s hh) x \<and> tbl (handles s hh) x = Some t"
  by (auto simp: list_ok_def wf_table_def)

lemma list_ok_table: "list_ok hh t tb xs s \<Longrightarrow> tables s t = Some tb \<and> hho tb = hh"
  by (auto simp: list_ok_def wf_table_def wf_buckets_def)

text \<open>The memory when the fields of the new element have been set.\<close>

abbreviation (input) fields_mem :: "hname \<Rightarrow> addr \<Rightarrow> addr \<Rightarrow> 32 word \<Rightarrow> 32 word \<Rightarrow> addr \<Rightarrow> ut_mem \<Rightarrow> ut_mem" where
  "fields_mem hh t keyptr len hv x s \<equiv> set_tbl hh x (Some t) (add_fields hh keyptr len hv x s)"

lemma HASH_APPEND_LIST_ins:
  assumes "list_ok hh t tb us s" "us \<noteq> []" "x \<notin> set us"
  shows "HASH_APPEND_LIST hh (Some (hd us)) x (fields_mem hh t keyptr len hv x s) = Some (ins_mem hh t tb keyptr len hv x us [] s)"
proof -
  have "live (handles s hh) (hd us)" "tbl (handles s hh) (hd us) = Some t" "live (handles s hh) (last us)" "hd us \<noteq> x" "last us \<noteq> x"
    using list_ok_member [OF assms(1)] assms(2,3) by auto
  moreover have "tail tb = Some (last us)" "tables s t = Some tb" using assms(1) list_ok_table [OF assms(1)] by (auto simp: list_ok_def)
  ultimately show ?thesis
    using assms(2) by (auto simp: HASH_APPEND_LIST_def tbl_of_def set_table_def setters ins_mem_def ins_handle_def last_or_def intro!: ut_mem.equality UT_hash_handle.equality)
qed

lemma order_insert_ins:
  assumes "list_ok hh t tb (us @ i # vs) s" "x \<notin> set (us @ i # vs)"
  shows "order_insert hh (Some (hd (us @ i # vs))) x i (fields_mem hh t keyptr len hv x s) =
     Some (Some (hd (us @ x # i # vs)), ins_mem hh t tb keyptr len hv x us (i # vs) s)"
proof -
  let ?h = "hd (us @ i # vs)"
  have m: "live (handles s hh) ?h" "tbl (handles s hh) ?h = Some t" "?h \<noteq> x" "live (handles s hh) i" "i \<noteq> x"
    using list_ok_member [OF assms(1)] assms(2) by (cases us; auto)+
  have t: "tables s t = Some tb" "hho tb = hh" using list_ok_table [OF assms(1)] by auto
  have p: "app_prev (handles s hh) i = last_or us None" "tail tb = Some (last (us @ x # i # vs))" "i \<notin> set us" using assms(1) by (auto simp: list_ok_def)
  show ?thesis
  proof (cases us rule: rev_cases)
    case Nil
    with m t p show ?thesis
      by (auto simp: order_insert_def tbl_of_def setters ins_mem_def ins_handle_def map_upd_triv intro!: ut_mem.equality UT_hash_handle.equality)
  next
    case (snoc ys y)
    have "live (handles s hh) y" "y \<noteq> x" "y \<noteq> i" using list_ok_member [OF assms(1), of y] assms(2) p(3) by (auto simp: snoc)
    with m t p snoc show ?thesis
      by (auto simp: order_insert_def tbl_of_def setters ins_mem_def ins_handle_def map_upd_triv hd_append intro!: ut_mem.equality UT_hash_handle.equality)
  qed
qed

lemma order_loop_result:
  assumes "dls (app_prev (handles s hh)) (app_next (handles s hh)) p xs None" "\<forall>y \<in> set xs. live (handles s hh) y" "xs \<noteq> []"
  shows "order_loop cmpfcn hh x (hd xs) s = Some (first_or (dropWhile (\<lambda>y. cmpfcn y x \<le> 0) xs) None)"
  using assms
proof (induction xs arbitrary: p)
  case (Cons y ys)
  then show ?case by (cases ys) (auto simp: order_loop.simps [of _ _ _ y])
qed simp

definition add_frame :: "hname \<Rightarrow> addr \<Rightarrow> 32 word \<Rightarrow> 32 word \<Rightarrow> addr \<Rightarrow> ut_mem \<Rightarrow> ut_mem \<Rightarrow> bool" where
  "add_frame hh keyptr len hv x s s' \<longleftrightarrow>
     ut_frame hh s s' \<and> key (handles s' hh) = (key (handles s hh))(x := keyptr) \<and> keylen (handles s' hh) = (keylen (handles s hh))(x := len) \<and>
     hashv (handles s' hh) = (hashv (handles s hh))(x := hv)"

lemma ins_mem_frame: "same_list hh (ins_mem hh t tb keyptr len hv x us vs s) s' \<Longrightarrow> add_frame hh keyptr len hv x s s'"
  by (auto simp: same_list_def add_frame_def ut_frame_def ins_mem_def ins_handle_def)

lemma add_first_ok:
  fixes hv len :: "32 word" and keyptr :: addr
  assumes "live (handles s hh) x"
  defines "r \<equiv> add_first hh hv x (add_fields hh keyptr len hv x s)"
  shows "(r = Some Exit \<and> \<not> no_oom s) \<or> (\<exists>s' t tb. r = Some (Ret (Some x, s')) \<and> list_ok hh t tb [x] s' \<and> add_frame hh keyptr len hv x s s')"
proof (cases "alloc_fails s (brk s) \<or> alloc_fails s (Suc (brk s))")
  case True
  with assms(1) have "r = Some Exit" unfolding r_def add_first_def
    by (cases "alloc_fails s (brk s)") (simp_all add: HASH_MAKE_TABLE_def uthash_malloc_def malloc_def setters HASH_INITIAL_NUM_BUCKETS_def Let_def)
  with True show ?thesis by (auto simp: no_oom_def)
next
  case False
  let ?H = "handles s hh" and ?t = "brk s" and ?b = "Suc (brk s)"
  define tb where "tb = zero_table\<lparr>tail := Some x, num_buckets := 32, log2_num_buckets := 5, hho := hh, buckets := Some ?b, signature := HASH_SIGNATURE\<rparr>"
  define s1 where "s1 = s\<lparr>brk := Suc (Suc (brk s)),
     handles := (handles s)(hh := ?H\<lparr>tbl := (tbl ?H)(x := Some ?t), app_prev := (app_prev ?H)(x := None), app_next := (app_next ?H)(x := None),
       key := (key ?H)(x := keyptr), keylen := (keylen ?H)(x := len), hashv := (hashv ?H)(x := hv)\<rparr>),
     tables := (tables s)(?t \<mapsto> tb), barrays := (barrays s)(?b \<mapsto> replicate 32 zero_bucket)\<rparr>"
  have "HASH_MAKE_TABLE hh (Some x) (set_app_prev hh x None (set_app_next hh x None (add_fields hh keyptr len hv x s))) = Some (Ret s1)"
    using assms(1) False
    by (auto simp: HASH_MAKE_TABLE_def uthash_malloc_def malloc_def setters HASH_INITIAL_NUM_BUCKETS_def HASH_INITIAL_NUM_BUCKETS_LOG2_def s1_def tb_def
        intro!: ut_mem.equality UT_hash_handle.equality)
  then have r: "r = add_finish hh (Some x) hv x s1" by (simp add: r_def add_first_def)
  have "wf_buckets hh tb {} 5 ?b (replicate 32 zero_bucket) (\<lambda>_. []) s1"
    by (simp add: wf_buckets_def tb_def s1_def linked_def spread_def zero_bucket_def)
  then have w: "wf_table hh ?t tb {} s1" by (auto simp: wf_table_def s1_def)
  have x: "live (handles s1 hh) x" "tbl (handles s1 hh) x = Some ?t" "hashv (handles s1 hh) x = hv" "num_items tb = 0" "num_buckets tb = 32" "tail tb = Some x" "no_oom s1 = no_oom s"
    "app_prev (handles s1 hh) x = None" "app_next (handles s1 hh) x = None"
    using assms(1) by (simp_all add: s1_def tb_def zero_table_def no_oom_def)
  from add_finish_wf [OF w _ x(1,2), of x] x consider "r = Some Exit" "\<not> no_oom s"
    | s' tb' where "r = Some (Ret (Some x, s'))" "wf_table hh ?t tb' {x} s'" "same_list hh s1 s'" "tail tb' = Some x" "num_items tb' = word_of_nat 1"
    by (auto simp: r)
  then show ?thesis
  proof cases
    case 2
    then have "list_ok hh ?t tb' [x] s'" using x by (auto simp: list_ok_def same_list_def)
    moreover have "add_frame hh keyptr len hv x s s'" using 2(3) by (auto simp: same_list_def add_frame_def ut_frame_def s1_def)
    ultimately show ?thesis using 2 by blast
  qed simp
qed

lemma mem_short_head: "list_ok hh t tb (h # xs) s \<Longrightarrow> mem_short hh (Some h) s \<longleftrightarrow> \<not> no_oom s \<or> num_buckets tb = 2 ^ 27"
  using list_ok_member [of hh t tb "h # xs" s h] list_ok_table [of hh t tb "h # xs" s] by (simp add: mem_short_def tbl_of_def)

lemma mem_short_list: "list_ok hh t tb xs s \<Longrightarrow> xs \<noteq> [] \<Longrightarrow> mem_short hh (Some (hd xs)) s \<longleftrightarrow> \<not> no_oom s \<or> num_buckets tb = 2 ^ 27"
  by (cases xs) (auto simp: mem_short_head)

text \<open>An element and its key are put into the list at any place.\<close>

lemma hash_ok_insert:
  assumes "hash_ok fcn hh head (us @ vs) s" "list_ok hh t tb (map fst us @ x # map fst vs) s'" "add_frame hh keyptr len (fcn k) x s s'"
    "x \<notin> fst ` set (us @ vs)" "k \<notin> snd ` set (us @ vs)" "key_bytes keyptr len s = Some k"
  shows "hash_ok fcn hh (Some (hd (map fst us @ x # map fst vs))) (us @ (x, k) # vs) s'"
proof -
  have "keys_ok fcn hh (us @ (x, k) # vs) s'"
    using assms(1,3-6) by (intro keys_ok_insert [where s = s]) (auto simp: hash_ok_def add_frame_def ut_frame_def)
  moreover have "handles_fit hh s'" using assms(1,3) by (simp add: hash_ok_def handles_fit_def add_frame_def ut_frame_def)
  ultimately show ?thesis using assms(2) by (cases us) (auto simp: hash_ok_def)
qed

text \<open>A call ends without a fault: it returns a value with a property, or the process ends and memory was short.\<close>

definition ends_in :: "'a outcome option \<Rightarrow> bool \<Rightarrow> ('a \<Rightarrow> bool) \<Rightarrow> bool" where
  "ends_in r short P \<longleftrightarrow> (case r of None \<Rightarrow> False | Some Exit \<Rightarrow> short | Some (Ret v) \<Rightarrow> P v)"

lemma ends_in_simps [simp]: "ends_in (Some Exit) short P = short" "ends_in (Some (Ret v)) short P = P v" "\<not> ends_in None short P"
  by (simp_all add: ends_in_def)

lemma insert_ends:
  assumes "hash_ok fcn hh head (us @ vs) s" "us @ vs \<noteq> []" "list_ok hh t tb (map fst (us @ vs)) s" "x \<notin> fst ` set (us @ vs)" "k \<notin> snd ` set (us @ vs)"
    "live (handles s hh) x" "key_bytes keyptr len s = Some k" "h = hd (map fst us @ x # map fst vs)"
  shows "ends_in (add_finish hh (Some h) (fcn k) x (ins_mem hh t tb keyptr len (fcn k) x (map fst us) (map fst vs) s)) (mem_short hh head s)
     (\<lambda>(head', s'). hash_ok fcn hh head' (us @ (x, k) # vs) s' \<and> ut_frame hh s s')"
proof -
  from assms(1) have fit: "handles_fit hh s" and hd: "head = first_or (map fst (us @ vs)) None" by (auto simp: hash_ok_def)
  have short: "mem_short hh head s \<longleftrightarrow> \<not> no_oom s \<or> num_buckets tb = 2 ^ 27"
    using assms(2,3) by (cases "us @ vs") (auto simp: hd mem_short_head)
  have "h \<in> set (map fst us @ x # map fst vs)" by (simp add: assms(8) del: set_append map_append)
  from ins_mem_finish [OF assms(3) [unfolded map_append] _ assms(6) fit this, where hv = "fcn k" and len = len and keyptr = keyptr] assms(4) consider
      "add_finish hh (Some h) (fcn k) x (ins_mem hh t tb keyptr len (fcn k) x (map fst us) (map fst vs) s) = Some Exit" "mem_short hh head s"
    | s' tb' where "add_finish hh (Some h) (fcn k) x (ins_mem hh t tb keyptr len (fcn k) x (map fst us) (map fst vs) s) = Some (Ret (Some h, s'))"
        "list_ok hh t tb' (map fst us @ x # map fst vs) s'" "same_list hh (ins_mem hh t tb keyptr len (fcn k) x (map fst us) (map fst vs) s) s'"
    unfolding short by auto
  then show ?thesis
  proof cases
    case 2
    from ins_mem_frame [OF 2(3)] have f: "add_frame hh keyptr len (fcn k) x s s'" .
    from hash_ok_insert [OF assms(1) 2(2) f assms(4,5,7)] f show ?thesis by (simp add: 2(1) assms(8) [symmetric] add_frame_def)
  qed simp
qed

lemma add_fields_simps [simp]:
  "live (handles (add_fields hh keyptr len hv x s) h) = live (handles s h)" "tbl (handles (add_fields hh keyptr len hv x s) h) = tbl (handles s h)"
  "tables (add_fields hh keyptr len hv x s) = tables s"
  "app_prev (handles (add_fields hh keyptr len hv x s) h) = app_prev (handles s h)" "app_next (handles (add_fields hh keyptr len hv x s) h) = app_next (handles s h)"
  by (simp_all add: add_fields_def)

lemma HASH_ADD_KEYPTR_ok:
  assumes "hash_ok fcn hh head al s" "x \<notin> fst ` set al" "k \<notin> snd ` set al" "live (handles s hh) x" "key_bytes keyptr len s = Some k"
  shows "ends_in (HASH_ADD_KEYPTR fcn hh head keyptr len x s) (mem_short hh head s) (\<lambda>(head', s'). hash_ok fcn hh head' (al @ [(x, k)]) s' \<and> ut_frame hh s s')"
proof (cases "al = []")
  case True
  then have "HASH_ADD_KEYPTR fcn hh head keyptr len x s = add_first hh (fcn k) x (add_fields hh keyptr len (fcn k) x s)"
    using assms(1,4,5) by (simp add: HASH_ADD_KEYPTR_def HASH_VALUE_def HASH_ADD_KEYPTR_BYHASHVALUE_def hash_ok_def)
  with add_first_ok [OF assms(4), of "fcn k" keyptr len] hash_ok_insert [of fcn hh head "[]" "[]" s _ _ x _ keyptr len k] True assms
  show ?thesis by (fastforce simp: mem_short_def add_frame_def)
next
  case False
  define h where "h = hd (map fst al)"
  from False assms(1) obtain t tb where l: "list_ok hh t tb (map fst al) s" and hd: "head = Some h" by (cases al) (auto simp: hash_ok_def h_def)
  have h: "h \<in> set (map fst al)" "h \<noteq> x" using False assms(2) by (cases al; force simp: h_def)+
  have "live (handles s hh) h" "tbl (handles s hh) h = Some t" using list_ok_member [OF l h(1)] by auto
  moreover have "HASH_APPEND_LIST hh (Some h) x (fields_mem hh t keyptr len (fcn k) x s) = Some (ins_mem hh t tb keyptr len (fcn k) x (map fst al) [] s)"
    unfolding h_def by (rule HASH_APPEND_LIST_ins [OF l]) (use False assms(2) in auto)
  ultimately have "HASH_ADD_KEYPTR fcn hh head keyptr len x s = add_finish hh (Some h) (fcn k) x (ins_mem hh t tb keyptr len (fcn k) x (map fst al) [] s)"
    using assms(4,5) by (simp add: HASH_ADD_KEYPTR_def HASH_VALUE_def HASH_ADD_KEYPTR_BYHASHVALUE_def hd tbl_of_def)
  moreover have "h = hd (map fst al @ x # map fst [])" using False by (simp add: h_def hd_append)
  ultimately show ?thesis using insert_ends [of fcn hh head al "[]" s t tb x k keyptr len h] assms False l by simp
qed

lemma HASH_ADD_KEYPTR_INORDER_ok:
  assumes "hash_ok fcn hh head al s" "x \<notin> fst ` set al" "k \<notin> snd ` set al" "live (handles s hh) x" "key_bytes keyptr len s = Some k"
  shows "ends_in (HASH_ADD_KEYPTR_INORDER fcn hh head keyptr len x cmpfcn s) (mem_short hh head s)
     (\<lambda>(head', s'). hash_ok fcn hh head' (takeWhile (\<lambda>(y, _). cmpfcn y x \<le> 0) al @ (x, k) # dropWhile (\<lambda>(y, _). cmpfcn y x \<le> 0) al) s' \<and> ut_frame hh s s')"
proof (cases "al = []")
  case True
  then have "HASH_ADD_KEYPTR_INORDER fcn hh head keyptr len x cmpfcn s = HASH_ADD_KEYPTR fcn hh head keyptr len x s"
    using assms(1,4,5) by (simp add: HASH_ADD_KEYPTR_def HASH_VALUE_def HASH_ADD_KEYPTR_BYHASHVALUE_def hash_ok_def
      HASH_ADD_KEYPTR_INORDER_def HASH_ADD_KEYPTR_BYHASHVALUE_INORDER_def)
  with HASH_ADD_KEYPTR_ok [OF assms] True show ?thesis by simp
next
  case False
  define h us vs where "h = hd (map fst al)" and us: "us = takeWhile (\<lambda>(y, _). cmpfcn y x \<le> 0) al" and vs: "vs = dropWhile (\<lambda>(y, _). cmpfcn y x \<le> 0) al"
  have al: "al = us @ vs" by (simp add: us vs)
  from False assms(1) obtain t tb where l: "list_ok hh t tb (map fst al) s" and hd: "head = Some h" by (cases al) (auto simp: hash_ok_def h_def)
  have h: "h \<in> set (map fst al)" "h \<noteq> x" using False assms(2) by (cases al; force simp: h_def)+
  have tb: "live (handles s hh) h" "tbl (handles s hh) h = Some t" "tables s t = Some tb" "hho tb = hh" using list_ok_member [OF l h(1)] list_ok_table [OF l] by auto
  let ?s = "fields_mem hh t keyptr len (fcn k) x s"
  have "order_loop cmpfcn hh x h ?s = Some (first_or (dropWhile (\<lambda>y. cmpfcn y x \<le> 0) (map fst al)) None)"
    unfolding h_def using l list_ok_member [OF l] False by (intro order_loop_result) (auto simp: list_ok_def set_tbl_def)
  also have "dropWhile (\<lambda>y. cmpfcn y x \<le> 0) (map fst al) = map fst vs" by (simp add: vs dropWhile_map comp_def case_prod_unfold)
  finally have o: "order_loop cmpfcn hh x h ?s = Some (first_or (map fst vs) None)" .
  let ?h = "hd (map fst us @ x # map fst vs)"
  have "HASH_ADD_KEYPTR_INORDER fcn hh head keyptr len x cmpfcn s = add_finish hh (Some ?h) (fcn k) x (ins_mem hh t tb keyptr len (fcn k) x (map fst us) (map fst vs) s)"
  proof (cases vs)
    case Nil
    then have "HASH_APPEND_LIST hh (Some h) x ?s = Some (ins_mem hh t tb keyptr len (fcn k) x (map fst us) [] s)"
      unfolding h_def al using HASH_APPEND_LIST_ins [OF l, of x keyptr len "fcn k"] False assms(2) by (simp add: al)
    moreover have "?h = h" using False by (cases us) (simp_all add: h_def al Nil)
    ultimately show ?thesis using assms(4,5) tb o Nil
      by (simp add: HASH_ADD_KEYPTR_INORDER_def HASH_VALUE_def HASH_ADD_KEYPTR_BYHASHVALUE_INORDER_def hd tbl_of_def set_tbl_def)
  next
    case (Cons v vs')
    then have "order_insert hh (Some h) x (fst v) ?s = Some (Some ?h, ins_mem hh t tb keyptr len (fcn k) x (map fst us) (map fst vs) s)"
      using order_insert_ins [of hh t tb "map fst us" "fst v" "map fst vs'" s x keyptr len "fcn k"] l assms(2) by (simp add: al h_def image_Un)
    then show ?thesis using assms(4,5) tb o Cons
      by (simp add: HASH_ADD_KEYPTR_INORDER_def HASH_VALUE_def HASH_ADD_KEYPTR_BYHASHVALUE_INORDER_def hd tbl_of_def set_tbl_def)
  qed
  with insert_ends [of fcn hh head us vs s t tb x k keyptr len ?h] assms False l show ?thesis unfolding us [symmetric] vs [symmetric] by (simp add: al)
qed

section \<open>Finding\<close>

lemma find_loop_result:
  assumes "dls pr (hh_next (handles s hh)) p xs None" "\<forall>y \<in> set xs. live (handles s hh) y"
    "\<forall>y \<in> set xs. \<exists>j. key_bytes (key (handles s hh) y) (keylen (handles s hh) y) s = Some j \<and> hashv (handles s hh) y = fcn j"
    "key_bytes keyptr len s = Some k"
  shows "find_loop hh keyptr len (fcn k) (first_or xs None) s = Some (first_or (dropWhile (\<lambda>y. key_bytes (key (handles s hh) y) (keylen (handles s hh) y) s \<noteq> Some k) xs) None)"
  using assms(1-3)
proof (induction xs arbitrary: p)
  case Nil
  then show ?case by (simp add: find_loop.simps)
next
  case (Cons y ys)
  let ?H = "handles s hh"
  from Cons.prems(3) obtain j where j: "key_bytes (key ?H y) (keylen ?H y) s = Some j" "hashv ?H y = fcn j" by auto
  have len: "length j = unat (keylen ?H y)" "length k = unat len"
    using j(1) assms(4) by (auto simp: key_bytes_def dest!: read_bytes_length split: bind_splits)
  then have "keylen ?H y = len" if "j = k" using that by (metis word_unat_eq_iff)
  then have "(if hashv ?H y = fcn k \<and> keylen ?H y = len then uthash_memcmp_eq (key ?H y) keyptr len s else Some False) = Some (j = k)"
    using j assms(4) by (auto simp: uthash_memcmp_eq_def)
  with Cons j(1) show ?case by (auto simp: find_loop.simps [of _ _ _ _ "Some y"])
qed

lemma first_or_dropWhile:
  assumes "x \<in> set xs" "\<not> P x" "\<forall>y \<in> set xs. \<not> P y \<longrightarrow> y = x"
  shows "first_or (dropWhile P xs) None = Some x"
proof -
  from assms(1) obtain us vs where xs: "xs = us @ x # vs" "x \<notin> set us" by (metis split_list_first)
  then have "P y" if "y \<in> set us" for y using that assms(3) by (metis Un_iff set_append)
  then have "dropWhile P xs = dropWhile P (x # vs)" unfolding xs by (rule dropWhile_append2)
  with assms(2) show ?thesis by simp
qed

lemma HASH_FIND_ok:
  assumes "hash_ok fcn hh head al s" "key_bytes keyptr len s = Some k"
  shows "HASH_FIND fcn hh head keyptr len s = Some (map_of (map (\<lambda>(x, k). (k, x)) al) k)"
proof (cases "al = []")
  case True
  with assms show ?thesis by (simp add: HASH_FIND_def HASH_VALUE_def HASH_FIND_BYHASHVALUE_def hash_ok_def)
next
  case False
  let ?H = "handles s hh" and ?P = "\<lambda>y. key_bytes (key (handles s hh) y) (keylen (handles s hh) y) s \<noteq> Some k"
  define h where "h = hd (map fst al)"
  from False assms(1) obtain t tb where l: "list_ok hh t tb (map fst al) s" and hd: "head = Some h" by (cases al) (auto simp: hash_ok_def h_def)
  have ko: "keys_ok fcn hh al s" using assms(1) by (simp add: hash_ok_def)
  have "h \<in> set (map fst al)" using False by (cases al) (simp_all add: h_def)
  from list_ok_member [OF l this] have h: "live ?H h" "tbl ?H h = Some t" by auto
  from l obtain n b bs C where w: "wf_buckets hh tb (fst ` set al) n b bs C s" and t: "tables s t = Some tb" by (auto simp: list_ok_def wf_table_def)
  note w = w [unfolded wf_buckets_def]
  define i where "i = bkt_of n (fcn k)"
  have i: "unat (HASH_TO_BKT (fcn k) (num_buckets tb)) = i" "i < length bs" using w bkt_of_less [of n] by (auto simp: i_def bkt_of_def)
  have C: "set (C i) = {y \<in> fst ` set al. bkt_of n (hashv ?H y) = i}" using w by (simp add: spread_def)
  have "hh_head (bs ! i) = first_or (C i) None" "dls (hh_prev ?H) (hh_next ?H) None (C i) None" using w i(2) by (auto simp: linked_def)
  moreover have "\<forall>y \<in> set (C i). live ?H y" using C list_ok_member [OF l] by auto
  moreover have "\<forall>y \<in> set (C i). \<exists>j. key_bytes (key ?H y) (keylen ?H y) s = Some j \<and> hashv ?H y = fcn j" using C ko by (fastforce simp: keys_ok_def)
  ultimately have f: "HASH_FIND fcn hh head keyptr len s = Some (first_or (dropWhile ?P (C i)) None)"
    using w t h i assms(2) find_loop_result [of "hh_prev ?H" s hh None "C i" fcn keyptr len k]
    by (simp add: HASH_FIND_def HASH_VALUE_def HASH_FIND_BYHASHVALUE_def HASH_FIND_IN_BKT_def hd tbl_of_def get_bkt_def)
  have P: "\<not> ?P y \<longleftrightarrow> (y, k) \<in> set al" if "y \<in> fst ` set al" for y using that ko by (fastforce simp: keys_ok_def)
  have inj: "x = y" if "(x, k) \<in> set al" "(y, k) \<in> set al" for x y
    using that ko by (metis (mono_tags, lifting) distinct_map fst_conv inj_on_eq_iff keys_ok_def snd_conv)
  show ?thesis
  proof (cases "k \<in> snd ` set al")
    case True
    then obtain x where x: "(x, k) \<in> set al" by auto
    then have "x \<in> set (C i)" using C ko by (force simp: keys_ok_def i_def)
    moreover have "x \<in> fst ` set al" using x by force
    ultimately have "first_or (dropWhile ?P (C i)) None = Some x" using C P x inj by (intro first_or_dropWhile) auto
    moreover have "map_of (map (\<lambda>(x, k). (k, x)) al) k = Some x"
      using x ko by (intro map_of_is_SomeI) (force simp: keys_ok_def comp_def case_prod_unfold)+
    ultimately show ?thesis using f by simp
  next
    case False
    then have "dropWhile ?P (C i) = []" using C P by (force simp: dropWhile_eq_Nil_conv)
    moreover have "map_of (map (\<lambda>(x, k). (k, x)) al) k = None" using False by (force simp: map_of_eq_None_iff)
    ultimately show ?thesis using f by simp
  qed
qed

section \<open>Deleting\<close>

lemma HASH_DEL_IN_BKT_wf:
  assumes "wf_table hh t tb S s" "d \<in> S"
  shows "\<exists>s'. HASH_DEL_IN_BKT hh (buckets tb) (HASH_TO_BKT (hashv (handles s hh) d) (num_buckets tb)) d s = Some s' \<and>
     wf_table hh t tb (S - {d}) s' \<and> same_list hh s s' \<and> tables s' = tables s"
proof -
  from assms(1) obtain k b bs C where w: "wf_buckets hh tb S k b bs C s" and t: "tables s t = Some tb" "t < brk s" and lv: "\<forall>x \<in> S. live (handles s hh) x \<and> tbl (handles s hh) x = Some t"
    by (auto simp: wf_table_def)
  note w = w [unfolded wf_buckets_def]
  let ?H = "handles s hh"
  define i where "i = HASH_TO_BKT (hashv ?H d) (num_buckets tb)"
  have i: "unat i = bkt_of k (hashv ?H d)" using w by (simp add: i_def bkt_of_def)
  have il: "unat i < length bs" using w bkt_of_less [of k] by (simp add: i)
  let ?b = "bs ! unat i"
  have "linked ?H bs C" "spread k ?H S C" "bkt_of k (hashv ?H d) < length bs" using w il by (simp_all add: i)
  note del = linked_del [OF this(1,2) assms(2) this(3), folded i]
  let ?bs = "bs[unat i := ?b\<lparr>bkt_count := bkt_count ?b - 1, hh_head := if hh_head ?b = Some d then hh_next ?H d else hh_head ?b\<rparr>]"
  define s' where "s' = s\<lparr>handles := (handles s)(hh := del_links d ?H), barrays := (barrays s)(b \<mapsto> ?bs)\<rparr>"
  have nb: "live ?H a" if "hh_prev ?H d = Some a \<or> hh_next ?H d = Some a" for a using that del(5) lv by auto
  define s1 where "s1 = s\<lparr>barrays := (barrays s)(b \<mapsto> ?bs)\<rparr>"
  have "set_bkt (Some b) i (\<lambda>bk. bk\<lparr>bkt_count := bkt_count bk - 1\<rparr>) s = Some (s\<lparr>barrays := (barrays s)(b \<mapsto> bs[unat i := ?b\<lparr>bkt_count := bkt_count ?b - 1\<rparr>])\<rparr>)"
    using w il by (simp add: set_bkt_def)
  moreover have "set_bkt (Some b) i (\<lambda>bk. if hh_head bk = Some d then bk\<lparr>hh_head := hh_next ?H d\<rparr> else bk)
      (s\<lparr>barrays := (barrays s)(b \<mapsto> bs[unat i := ?b\<lparr>bkt_count := bkt_count ?b - 1\<rparr>])\<rparr>) = Some s1"
    using w il by (cases "hh_head ?b = Some d") (simp_all add: set_bkt_def s1_def)
  ultimately have "HASH_DEL_IN_BKT hh (buckets tb) i d s =
     do { s \<leftarrow> (if hh_prev ?H d \<noteq> None then do { p \<leftarrow> hh_at hh (hh_prev ?H d) s1; Some (set_hh_next hh p (hh_next ?H d) s1) } else Some s1);
       if hh_next (handles s hh) d \<noteq> None
       then do { n \<leftarrow> hh_at hh (hh_next (handles s hh) d) s; Some (set_hh_prev hh n (hh_prev (handles s hh) d) s) } else Some s }"
    using w by (simp add: HASH_DEL_IN_BKT_def s1_def cong: if_cong split del: if_split)
  also have "\<dots> = Some s'"
    using nb del(3,4) by (cases "hh_prev ?H d"; cases "hh_next ?H d")
      (auto simp: s1_def s'_def setters del_links_def intro!: ut_mem.equality UT_hash_handle.equality)
  finally have e: "HASH_DEL_IN_BKT hh (buckets tb) i d s = Some s'" .
  have "wf_buckets hh tb (S - {d}) k b ?bs (C(unat i := remove1 d (C (unat i)))) s'"
    using w del(1,2) by (simp add: wf_buckets_def s'_def split del: if_split)
  moreover have s': "same_list hh s s'" "tables s' = tables s" "brk s' = brk s" by (auto simp: same_list_def s'_def del_links_def)
  ultimately have "wf_table hh t tb (S - {d}) s'" using t lv unfolding wf_table_def same_list_def by (auto simp del: fun_upd_apply)
  with e s' show ?thesis by (auto simp: i_def)
qed

text \<open>The memory when the element \<open>d\<close> has been taken out of the list.\<close>

definition unlink_mem :: "hname \<Rightarrow> addr \<Rightarrow> UT_hash_table \<Rightarrow> addr \<Rightarrow> ut_mem \<Rightarrow> ut_mem" where
  "unlink_mem hh t tb d s =
     (let H = handles s hh
      in s\<lparr>tables := (tables s)(t \<mapsto> if tail tb = Some d then tb\<lparr>tail := app_prev H d\<rparr> else tb),
           handles := (handles s)(hh := H\<lparr>app_prev := upd_at (app_next H d) (app_prev H d) (app_prev H), app_next := upd_at (app_prev H d) (app_next H d) (app_next H)\<rparr>)\<rparr>)"

lemma HASH_DELETE_unlink:
  assumes "list_ok hh t tb (us @ d # vs) s" "us @ vs \<noteq> []"
  defines "s1 \<equiv> unlink_mem hh t tb d s" and "h \<equiv> hd (us @ vs)"
  shows "HASH_DELETE hh (Some (hd (us @ d # vs))) d s = do {
     s \<leftarrow> HASH_DEL_IN_BKT hh (buckets tb) (HASH_TO_BKT (hashv (handles s1 hh) d) (num_buckets tb)) d s1;
     s \<leftarrow> set_table (Some t) (\<lambda>tb. tb\<lparr>num_items := num_items tb - 1\<rparr>) s;
     Some (Some h, s) }"
proof -
  let ?H = "handles s hh" and ?h = "hd (us @ d # vs)"
  have t: "tables s t = Some tb" "hho tb = hh" using list_ok_table [OF assms(1)] by auto
  have m: "live ?H y" "tbl ?H y = Some t" if "y \<in> set (us @ d # vs)" for y using list_ok_member [OF assms(1) that] by auto
  have dd: "distinct (us @ d # vs)" "app_prev ?H d = last_or us None" "app_next ?H d = first_or vs None" using assms(1) by (auto simp: list_ok_def)
  have hs: "?h \<in> set (us @ d # vs)" "h \<in> set (us @ d # vs)" using assms(2) by (cases us; cases vs; auto simp: h_def)+
  show ?thesis
  proof (cases us rule: rev_cases)
    case Nil
    with assms(2) obtain v vs' where vs: "vs = v # vs'" by (cases vs) auto
    then have "tail tb \<noteq> Some d" using assms(1) Nil by (auto simp: list_ok_def)
    then show ?thesis using t m hs dd Nil vs
      by (simp add: HASH_DELETE_def tbl_of_def set_table_def s1_def unlink_mem_def h_def set_app_prev_def set_hh_def map_upd_triv Let_def)
  next
    case (snoc us' u)
    define g where "g = ?h"
    have h: "h = g" "live ?H g" "tbl ?H g = Some t" using m [OF hs(1)] by (simp_all add: h_def g_def snoc hd_append)
    have u: "live ?H u" "u \<noteq> d" "app_prev ?H d = Some u" "live ?H d" using m [of u] m [of d] dd by (auto simp: snoc)
    show ?thesis
    proof (cases vs)
      case Nil
      have "tail tb = Some d" "app_next ?H d = None" using assms(1) dd by (auto simp: list_ok_def Nil)
      with h u t show ?thesis unfolding g_def [symmetric]
        by (simp add: HASH_DELETE_def tbl_of_def set_table_def s1_def unlink_mem_def setters Let_def)
    next
      case (Cons v vs')
      have "tail tb \<noteq> Some d" "app_next ?H d = Some v" "live ?H v" "v \<noteq> d" "v \<noteq> u" using assms(1) dd m [of v] by (auto simp: list_ok_def Cons snoc)
      with h u t show ?thesis unfolding g_def [symmetric]
        by (simp add: HASH_DELETE_def tbl_of_def set_table_def s1_def unlink_mem_def setters Let_def map_upd_triv links_commute)
    qed
  qed
qed

lemma keys_ok_subset:
  assumes "keys_ok fcn hh al s" "set bl \<subseteq> set al" "distinct (map snd bl)" "kmem s' = kmem s"
    "key (handles s' hh) = key (handles s hh)" "keylen (handles s' hh) = keylen (handles s hh)" "hashv (handles s' hh) = hashv (handles s hh)"
  shows "keys_ok fcn hh bl s'"
proof -
  have "key_bytes p n s' = key_bytes p n s" for p n using assms(4) by (simp add: key_bytes_def)
  with assms show ?thesis by (auto simp: keys_ok_def)
qed

lemma HASH_DELETE_list:
  assumes "list_ok hh t tb (us @ d # vs) s" "us @ vs \<noteq> []"
  shows "\<exists>s' tb'. HASH_DELETE hh (Some (hd (us @ d # vs))) d s = Some (Some (hd (us @ vs)), s') \<and> list_ok hh t tb' (us @ vs) s' \<and> num_buckets tb' = num_buckets tb \<and> ut_frame hh s s' \<and>
     key (handles s' hh) = key (handles s hh) \<and> keylen (handles s' hh) = keylen (handles s hh) \<and> hashv (handles s' hh) = hashv (handles s hh)"
proof -
  let ?H = "handles s hh"
  define s1 where "s1 = unlink_mem hh t tb d s"
  define tb1 where "tb1 = (if tail tb = Some d then tb\<lparr>tail := app_prev ?H d\<rparr> else tb)"
  let ?tb = "tb1\<lparr>num_items := num_items tb1 - 1\<rparr>"
  have l: "wf_table hh t tb (set (us @ d # vs)) s" "distinct (us @ d # vs)" "dls (app_prev ?H) (app_next ?H) None (us @ d # vs) None"
    "tail tb = Some (last (us @ d # vs))" "num_items tb = word_of_nat (length (us @ d # vs))" using assms(1) by (simp_all add: list_ok_def)
  have "wf_table hh t tb1 (set (us @ d # vs)) s1"
    by (rule wf_table_cong [OF l(1)]) (simp_all add: s1_def tb1_def unlink_mem_def Let_def)
  from HASH_DEL_IN_BKT_wf [OF this, of d] obtain s2 where
    s2: "HASH_DEL_IN_BKT hh (buckets tb1) (HASH_TO_BKT (hashv (handles s1 hh) d) (num_buckets tb1)) d s1 = Some s2"
      "wf_table hh t tb1 (set (us @ d # vs) - {d}) s2" "same_list hh s1 s2" "tables s2 = tables s1" by auto
  define s' where "s' = s2\<lparr>tables := (tables s2)(t \<mapsto> ?tb)\<rparr>"
  have t2: "tables s2 t = Some tb1" using s2(2) by (simp add: wf_table_def)
  have del: "HASH_DELETE hh (Some (hd (us @ d # vs))) d s = Some (Some (hd (us @ vs)), s')"
    using HASH_DELETE_unlink [OF assms] s2(1) t2 by (simp add: s1_def set_table_def s'_def tb1_def split: if_splits)
  have "set (us @ d # vs) - {d} = set (us @ vs)" using l(2) by auto
  then have "wf_table hh t ?tb (set (us @ vs)) s'" using wf_table_cong [OF s2(2), of s' ?tb] by (simp add: s'_def)
  moreover have "dls (app_prev (handles s1 hh)) (app_next (handles s1 hh)) None (us @ vs) None"
    using dls_unlink [OF l(2,3)] by (simp add: s1_def unlink_mem_def Let_def)
  then have "dls (app_prev (handles s' hh)) (app_next (handles s' hh)) None (us @ vs) None" using s2(3) by (auto simp: same_list_def s'_def)
  moreover have "tail tb1 = Some (last (us @ vs))" using l(2-4) assms(2) by (cases vs rule: rev_cases) (auto simp: tb1_def last_or_def)
  moreover have "num_items tb1 - 1 = word_of_nat (length (us @ vs))" using l(5) by (simp add: tb1_def)
  ultimately have "list_ok hh t ?tb (us @ vs) s'" using l(2) by (simp add: list_ok_def)
  moreover have "key (handles s' hh) = key ?H" "keylen (handles s' hh) = keylen ?H" "hashv (handles s' hh) = hashv ?H" "ut_frame hh s s'"
    using s2(3) by (auto simp: same_list_def s'_def s1_def unlink_mem_def Let_def ut_frame_def)
  moreover have "num_buckets ?tb = num_buckets tb" by (simp add: tb1_def)
  ultimately show ?thesis using del by blast
qed

lemma HASH_DELETE_ok:
  assumes "hash_ok fcn hh head (us @ (d, k) # vs) s"
  shows "\<exists>head' s'. HASH_DELETE hh head d s = Some (head', s') \<and> hash_ok fcn hh head' (us @ vs) s' \<and> ut_frame hh s s' \<and> (mem_short hh head' s' \<longrightarrow> mem_short hh head s)"
proof -
  let ?us = "map fst us" and ?vs = "map fst vs" and ?H = "handles s hh"
  from assms obtain t tb where l: "list_ok hh t tb (?us @ d # ?vs) s" and hd: "head = Some (hd (?us @ d # ?vs))" and ko: "keys_ok fcn hh (us @ (d, k) # vs) s"
    by (cases us) (auto simp: hash_ok_def)
  have fit: "handles_fit hh s" using assms by (simp add: hash_ok_def)
  have ko': "keys_ok fcn hh (us @ vs) s'" if "kmem s' = kmem s" "key (handles s' hh) = key ?H" "keylen (handles s' hh) = keylen ?H" "hashv (handles s' hh) = hashv ?H" for s'
    using ko that by (intro keys_ok_subset [OF ko]) (auto simp: keys_ok_def)
  show ?thesis
  proof (cases "us @ vs = []")
    case True
    from l obtain b bs where "tables s t = Some tb" "buckets tb = Some b" "barrays s b = Some bs" by (auto simp: list_ok_def wf_table_def wf_buckets_def)
    moreover have "live ?H d" "tbl ?H d = Some t" "app_prev ?H d = None" "app_next ?H d = None" using l True by (auto simp: list_ok_def wf_table_def)
    ultimately have "HASH_DELETE hh head d s = Some (None, s\<lparr>barrays := (barrays s)(b := None), tables := (tables s)(t := None)\<rparr>)"
      using True by (simp add: HASH_DELETE_def hd tbl_of_def free_barray_def free_table_def)
    moreover have "ut_frame hh s (s\<lparr>barrays := (barrays s)(b := None), tables := (tables s)(t := None)\<rparr>)" by (simp add: ut_frame_def)
    ultimately show ?thesis using True fit ko' by (simp add: hash_ok_def handles_fit_def) (simp add: mem_short_def tbl_of_def hh_at_def no_oom_def)
  next
    case False
    from HASH_DELETE_list [OF l] False obtain s' tb' where
      s': "HASH_DELETE hh head d s = Some (Some (hd (?us @ ?vs)), s')" "list_ok hh t tb' (map fst (us @ vs)) s'" "num_buckets tb' = num_buckets tb" "ut_frame hh s s'"
        "key (handles s' hh) = key ?H" "keylen (handles s' hh) = keylen ?H" "hashv (handles s' hh) = hashv ?H" unfolding hd by auto
    have "handles_fit hh s'" using fit s'(4) by (simp add: handles_fit_def ut_frame_def)
    moreover have "Some (hd (?us @ ?vs)) = first_or (map fst (us @ vs)) None" using False by (cases us; cases vs) auto
    moreover have "keys_ok fcn hh (us @ vs) s'" using s'(4-7) by (intro ko') (simp_all add: ut_frame_def)
    ultimately have "hash_ok fcn hh (Some (hd (?us @ ?vs))) (us @ vs) s'" using s'(2) by (auto simp: hash_ok_def)
    moreover have "mem_short hh (Some (hd (?us @ ?vs))) s' \<longleftrightarrow> mem_short hh head s"
      using mem_short_list [OF l] mem_short_list [OF s'(2)] False s'(3,4) by (simp add: hd ut_frame_def no_oom_def)
    ultimately show ?thesis using s'(1,4) by blast
  qed
qed

text \<open>A replacement deletes the element that has the key and adds the new element at the end; the two may be the same.\<close>

lemma hash_ok_find:
  assumes "hash_ok fcn hh head al s" "map_of (map (\<lambda>(x, k). (k, x)) al) k = Some d"
  obtains us vs where "al = us @ (d, k) # vs" "filter (\<lambda>(_, j). j \<noteq> k) al = us @ vs"
proof -
  from map_of_SomeD [OF assms(2)] obtain us vs where al: "al = us @ (d, k) # vs" by (auto dest: split_list)
  have "k \<notin> snd ` set us" "k \<notin> snd ` set vs" using assms(1) by (auto simp: hash_ok_def keys_ok_def al)
  then have "filter (\<lambda>(_, j). j \<noteq> k) us = us" "filter (\<lambda>(_, j). j \<noteq> k) vs = vs" by (force simp: filter_id_conv)+
  with al that show thesis by simp
qed

lemma replace_delete:
  assumes "hash_ok fcn hh head al s" "key_bytes keyptr len s = Some k"
  defines "d \<equiv> map_of (map (\<lambda>(x, k). (k, x)) al) k"
  shows "\<exists>head' s'. (case d of Some d \<Rightarrow> HASH_DELETE hh head d s | None \<Rightarrow> Some (head, s)) = Some (head', s') \<and>
     hash_ok fcn hh head' (filter (\<lambda>(_, j). j \<noteq> k) al) s' \<and> ut_frame hh s s' \<and> (mem_short hh head' s' \<longrightarrow> mem_short hh head s)"
proof (cases d)
  case None
  then have "filter (\<lambda>(_, j). j \<noteq> k) al = al" by (force simp: d_def map_of_eq_None_iff filter_id_conv)
  with None assms(1) show ?thesis by (simp add: ut_frame_def)
next
  case (Some e)
  with hash_ok_find [OF assms(1)] obtain us vs where "al = us @ (e, k) # vs" "filter (\<lambda>(_, j). j \<noteq> k) al = us @ vs" unfolding d_def by metis
  with HASH_DELETE_ok [of fcn hh head us e k vs s] assms(1) Some show ?thesis by simp
qed

lemma HASH_REPLACE_ok:
  assumes "hash_ok fcn hh head al s" "live (handles s hh) x" "key_bytes keyptr len s = Some k" "x \<in> fst ` set al \<longrightarrow> (x, k) \<in> set al"
  defines "bl \<equiv> filter (\<lambda>(_, j). j \<noteq> k) al"
  shows "ends_in (HASH_REPLACE fcn hh head keyptr len x s) (mem_short hh head s)
       (\<lambda>(replaced, head', s'). replaced = map_of (map (\<lambda>(x, k). (k, x)) al) k \<and> hash_ok fcn hh head' (bl @ [(x, k)]) s' \<and> ut_frame hh s s')" (is ?A)
    and "ends_in (HASH_REPLACE_INORDER fcn hh head keyptr len x cmpfcn s) (mem_short hh head s)
       (\<lambda>(replaced, head', s'). replaced = map_of (map (\<lambda>(x, k). (k, x)) al) k \<and>
          hash_ok fcn hh head' (takeWhile (\<lambda>(y, _). cmpfcn y x \<le> 0) bl @ (x, k) # dropWhile (\<lambda>(y, _). cmpfcn y x \<le> 0) bl) s' \<and> ut_frame hh s s')" (is ?B)
proof -
  let ?d = "map_of (map (\<lambda>(x, k). (k, x)) al) k"
  from replace_delete [OF assms(1,3)] obtain h1 s1 where
    s1: "(case ?d of Some d \<Rightarrow> HASH_DELETE hh head d s | None \<Rightarrow> Some (head, s)) = Some (h1, s1)"
      "hash_ok fcn hh h1 bl s1" "ut_frame hh s s1" "mem_short hh h1 s1 \<longrightarrow> mem_short hh head s" unfolding bl_def by auto
  have f: "HASH_VALUE fcn keyptr len s = Some (fcn k)" "HASH_FIND_BYHASHVALUE hh head keyptr len (fcn k) s = Some ?d"
    using HASH_FIND_ok [OF assms(1,3)] assms(3) by (simp_all add: HASH_FIND_def HASH_VALUE_def)
  have k1: "key_bytes keyptr len s1 = Some k" using s1(3) assms(3) by (simp add: ut_frame_def key_bytes_def)
  have x1: "x \<notin> fst ` set bl" "k \<notin> snd ` set bl" "live (handles s1 hh) x"
  proof -
    have dis: "distinct (map fst al)" using assms(1) by (cases "al = []") (auto simp: hash_ok_def list_ok_def)
    then show "x \<notin> fst ` set bl" using assms(4) by (auto simp: bl_def dest: eq_key_imp_eq_value)
    show "k \<notin> snd ` set bl" "live (handles s1 hh) x" using s1(3) assms(2) by (auto simp: bl_def ut_frame_def)
  qed
  have tr: "ut_frame hh s s'" if "ut_frame hh s1 s'" for s' using that s1(3) by (simp add: ut_frame_def)
  have "HASH_REPLACE fcn hh head keyptr len x s = map_option (\<lambda>r. case r of Exit \<Rightarrow> Exit | Ret (head, s) \<Rightarrow> Ret (?d, head, s)) (HASH_ADD_KEYPTR fcn hh h1 keyptr len x s1)"
    using f s1(1) k1 by (simp add: HASH_REPLACE_def HASH_REPLACE_BYHASHVALUE_def HASH_ADD_KEYPTR_def HASH_VALUE_def map_conv_bind_option comp_def)
  then show ?A using HASH_ADD_KEYPTR_ok [OF s1(2) x1 k1] s1(4) tr by (fastforce simp: ends_in_def split: option.splits outcome.splits)
  have "HASH_REPLACE_INORDER fcn hh head keyptr len x cmpfcn s =
      map_option (\<lambda>r. case r of Exit \<Rightarrow> Exit | Ret (head, s) \<Rightarrow> Ret (?d, head, s)) (HASH_ADD_KEYPTR_INORDER fcn hh h1 keyptr len x cmpfcn s1)"
    using f s1(1) k1 by (simp add: HASH_REPLACE_INORDER_def HASH_REPLACE_BYHASHVALUE_INORDER_def HASH_ADD_KEYPTR_INORDER_def HASH_VALUE_def map_conv_bind_option comp_def)
  then show ?B using HASH_ADD_KEYPTR_INORDER_ok [OF s1(2) x1 k1, of cmpfcn] s1(4) tr by (fastforce simp: ends_in_def split: option.splits outcome.splits)
qed

section \<open>Counting, clearing and checking\<close>

lemma hash_ok_cases:
  assumes "hash_ok fcn hh head al s"
  obtains "al = []" "head = None"
  | t tb h where "al \<noteq> []" "head = Some h" "h = hd (map fst al)" "list_ok hh t tb (map fst al) s" "live (handles s hh) h" "tbl (handles s hh) h = Some t" "tables s t = Some tb" "hho tb = hh"
proof (cases "al = []")
  case False
  with assms obtain t tb where l: "list_ok hh t tb (map fst al) s" "head = Some (hd (map fst al))" by (cases al) (auto simp: hash_ok_def)
  moreover have "hd (map fst al) \<in> set (map fst al)" using False by (cases al) auto
  ultimately show thesis using False list_ok_member [OF l(1)] list_ok_table [OF l(1)] that(2) by blast
qed (use assms that in \<open>simp add: hash_ok_def\<close>)

lemma HASH_CNT_ok:
  assumes "hash_ok fcn hh head al s"
  shows "HASH_CNT hh head s = Some (word_of_nat (length al))" "length al < 2 ^ 27"
  using assms
  by (cases rule: hash_ok_cases; simp add: HASH_CNT_def tbl_of_def list_ok_def)
    (use assms in \<open>cases rule: hash_ok_cases; auto simp: hash_ok_def dest: list_ok_length\<close>)

lemma HASH_CLEAR_ok:
  assumes "hash_ok fcn hh head al s"
  shows "\<exists>s'. HASH_CLEAR hh head s = Some (None, s') \<and> hash_ok fcn hh None [] s' \<and> ut_frame hh s s'"
  using assms
proof (cases rule: hash_ok_cases)
  case 1
  with assms show ?thesis by (simp add: HASH_CLEAR_def ut_frame_def)
next
  case (2 t tb h)
  from 2(4) obtain b bs where "buckets tb = Some b" "barrays s b = Some bs" by (auto simp: list_ok_def wf_table_def wf_buckets_def)
  with 2(2,5-7) have "HASH_CLEAR hh head s = Some (None, s\<lparr>barrays := (barrays s)(b := None), tables := (tables s)(t := None)\<rparr>)"
    by (simp add: HASH_CLEAR_def tbl_of_def free_barray_def free_table_def)
  moreover have "handles_fit hh s" using assms by (simp add: hash_ok_def)
  ultimately show ?thesis by (simp add: hash_ok_def keys_ok_def handles_fit_def ut_frame_def)
qed

lemma fsck_chain_ok:
  "dls (hh_prev (handles s hh)) (hh_next (handles s hh)) p xs None \<Longrightarrow> \<forall>x \<in> set xs. live (handles s hh) x \<Longrightarrow>
   fsck_chain hh p (first_or xs None) c s = Some (True, c + word_of_nat (length xs))"
proof (induction xs arbitrary: p c)
  case Nil
  then show ?case by (simp add: fsck_chain.simps)
next
  case (Cons x xs)
  then show ?case by (subst fsck_chain.simps) (simp add: add.assoc)
qed

lemma fsck_list_ok:
  "dls (app_prev (handles s hh)) (app_next (handles s hh)) p xs None \<Longrightarrow> \<forall>x \<in> set xs. live (handles s hh) x \<Longrightarrow>
   fsck_list hh p (first_or xs None) c s = Some (True, c + word_of_nat (length xs))"
proof (induction xs arbitrary: p c)
  case Nil
  then show ?case by (simp add: fsck_list.simps)
next
  case (Cons x xs)
  then show ?case by (subst fsck_list.simps) (simp add: add.assoc)
qed

lemma fsck_buckets_ok:
  assumes "barrays s b = Some bs" "linked (handles s hh) bs C" "\<forall>i. \<forall>x \<in> set (C i). live (handles s hh) x" "length bs \<le> 2 ^ 28" "i + n = length bs"
  shows "fsck_buckets hh (Some b) i n c s = Some (True, c + word_of_nat (\<Sum>j = i..<length bs. length (C j)))"
  using assms(5)
proof (induction n arbitrary: i c)
  case (Suc n)
  then have i: "i < length bs" by simp
  then have "unat (word_of_nat i :: 32 word) = i" using assms(4) by (simp add: unat_of_nat take_bit_eq_mod)
  moreover have "fsck_chain hh None (first_or (C i) None) 0 s = Some (True, word_of_nat (length (C i)))"
    using fsck_chain_ok [of s hh None "C i" 0] assms(2,3) i by (simp add: linked_def)
  moreover have "(\<Sum>j = i..<length bs. length (C j)) = length (C i) + (\<Sum>j = Suc i..<length bs. length (C j))" using i by (simp add: sum.atLeast_Suc_lessThan)
  ultimately show ?case using Suc assms(1,2) i by (simp add: get_bkt_def linked_def add.assoc)
qed simp

text \<open>The integrity check accepts every well-formed table.\<close>

lemma HASH_FSCK_ok:
  assumes "hash_ok fcn hh head al s"
  shows "HASH_FSCK hh head s = Some True"
  using assms
proof (cases rule: hash_ok_cases)
  case 1
  then show ?thesis by (simp add: HASH_FSCK_def)
next
  case (2 t tb h)
  from 2(4) obtain n b bs C where w: "wf_buckets hh tb (set (map fst al)) n b bs C s" by (auto simp: list_ok_def wf_table_def)
  note w' = w [unfolded wf_buckets_def]
  have lv: "\<forall>i. \<forall>x \<in> set (C i). live (handles s hh) x" using w' list_ok_member [OF 2(4)] by (auto simp: spread_def)
  have n: "unat (num_buckets tb) = length bs" "length bs \<le> 2 ^ 28" using w' power_increasing [of n 28 "2 :: nat"] by (simp_all add: unat_pow2)
  have "(\<Sum>j = 0..<length bs. length (C j)) = length al"
    using spread_card [of n "handles s hh" "set (map fst al)" C] w' 2(4) distinct_card [of "map fst al"] by (simp add: lessThan_atLeast0 list_ok_def)
  then have "fsck_buckets (hho tb) (buckets tb) 0 (unat (num_buckets tb)) 0 s = Some (True, num_items tb)"
    using fsck_buckets_ok [of s b bs hh C 0 "length bs" 0] w' lv n 2(4,8) by (simp add: list_ok_def)
  moreover have "fsck_list hh None (Some h) 0 s = Some (True, num_items tb)"
    using fsck_list_ok [of s hh None "map fst al" 0] 2 list_ok_member [OF 2(4)] by (cases al) (auto simp: list_ok_def)
  ultimately show ?thesis using 2 by (simp add: HASH_FSCK_def tbl_of_def)
qed

section \<open>Iterating\<close>

text \<open>The body deletes the element and frees it.\<close>

definition free_element :: "hname \<Rightarrow> addr \<Rightarrow> ut_mem \<Rightarrow> ut_mem" where
  "free_element hh a = set_hh hh (\<lambda>h. h\<lparr>live := (live h)(a := False)\<rparr>)"

definition delete_and_free :: "hname \<Rightarrow> addr \<Rightarrow> ptr \<times> ut_mem \<Rightarrow> (ptr \<times> ut_mem) option" where
  "delete_and_free hh el = (\<lambda>(head, s). map_option (\<lambda>(head, s). (head, free_element hh el s)) (HASH_DELETE hh head el s))"

lemma free_element_ok:
  assumes "hash_ok fcn hh head al s" "a \<notin> fst ` set al"
  shows "hash_ok fcn hh head al (free_element hh a s)"
proof -
  let ?s = "free_element hh a s"
  have "Collect (live (handles ?s hh)) \<subseteq> Collect (live (handles s hh))" by (auto simp: free_element_def split: if_splits)
  then have "handles_fit hh ?s" using assms(1) unfolding hash_ok_def handles_fit_def by (meson card_mono finite_subset order_le_less_trans)
  moreover have ko: "keys_ok fcn hh al s" "distinct (map snd al)" using assms(1) by (simp_all add: hash_ok_def keys_ok_def)
  have "keys_ok fcn hh al ?s" by (rule keys_ok_subset [OF ko(1) order_refl ko(2)]) (simp_all add: free_element_def)
  moreover have "list_ok hh t tb (map fst al) ?s" if l: "list_ok hh t tb (map fst al) s" for t tb
  proof -
    from l have w: "wf_table hh t tb (fst ` set al) s" by (simp add: list_ok_def)
    then obtain k b bs C where "wf_buckets hh tb (fst ` set al) k b bs C s" by (auto simp: wf_table_def)
    then have "wf_buckets hh tb (fst ` set al) k b bs C ?s" by (simp add: wf_buckets_def free_element_def linked_def spread_def)
    with w assms(2) have "wf_table hh t tb (fst ` set al) ?s" by (auto simp: wf_table_def free_element_def)
    with l show ?thesis by (simp add: list_ok_def) (simp add: free_element_def)
  qed
  ultimately show ?thesis using assms(1) unfolding hash_ok_def by blast
qed

lemma iter_delete_all:
  assumes "hash_ok fcn hh head al s"
  shows "\<exists>s'. iter_loop hh (delete_and_free hh) snd head (first_or (tl (map fst al)) None) (head, s) = Some (map fst al, (None, s')) \<and>
     hash_ok fcn hh None [] s' \<and> (\<forall>a. live (handles s' hh) a \<longleftrightarrow> live (handles s hh) a \<and> a \<notin> fst ` set al)"
  using assms
proof (induction al arbitrary: head s)
  case Nil
  then show ?case by (simp add: iter_loop.simps hash_ok_def)
next
  case (Cons xk al)
  obtain x k where xk: "xk = (x, k)" by (cases xk)
  from Cons.prems have hd: "head = Some x" by (simp add: hash_ok_def xk)
  from HASH_DELETE_ok [of fcn hh head "[]" x k al s] Cons.prems obtain h1 s1 where
    s1: "HASH_DELETE hh head x s = Some (h1, s1)" "hash_ok fcn hh h1 al s1" "ut_frame hh s s1" by (auto simp: xk)
  have x: "x \<notin> fst ` set al" using Cons.prems by (auto simp: hash_ok_def list_ok_def xk)
  note ok = free_element_ok [OF s1(2) x]
  from Cons.IH [OF ok] obtain s' where
    s': "iter_loop hh (delete_and_free hh) snd h1 (first_or (tl (map fst al)) None) (h1, free_element hh x s1) = Some (map fst al, (None, s'))"
      "hash_ok fcn hh None [] s'" "\<forall>a. live (handles s' hh) a \<longleftrightarrow> live (handles (free_element hh x s1) hh) a \<and> a \<notin> fst ` set al" by blast
  have h1: "h1 = first_or (map fst al) None" using ok by (simp add: hash_ok_def)
  have "(if h1 = None then Some None else map_option (app_next (handles (free_element hh x s1) hh)) (hh_at hh h1 (free_element hh x s1))) = Some (first_or (tl (map fst al)) None)"
    using ok by (cases rule: hash_ok_cases) (cases al; auto simp: list_ok_def)+
  then have "iter_loop hh (delete_and_free hh) snd (Some x) h1 (head, s) = Some (x # map fst al, (None, s'))"
    using s1(1) s'(1) by (subst iter_loop.simps) (simp add: delete_and_free_def cong: if_cong split del: if_split)
  moreover have "\<forall>a. live (handles s' hh) a \<longleftrightarrow> live (handles s hh) a \<and> a \<notin> fst ` set (xk # al)"
    using s'(3) s1(3) by (auto simp: free_element_def ut_frame_def xk)
  ultimately show ?case using s'(2) by (simp add: hd h1 xk)
qed

lemma HASH_ITER_delete_all:
  assumes "hash_ok fcn hh head al s"
  shows "\<exists>s'. HASH_ITER hh (delete_and_free hh) snd head (head, s) = Some (map fst al, (None, s')) \<and>
     hash_ok fcn hh None [] s' \<and> (\<forall>a. live (handles s' hh) a \<longleftrightarrow> live (handles s hh) a \<and> a \<notin> fst ` set al)"
proof -
  have "(if head = None then Some None else map_option (app_next (handles s hh)) (hh_at hh head s)) = Some (first_or (tl (map fst al)) None)"
    using assms by (cases rule: hash_ok_cases) (cases al; auto simp: list_ok_def)+
  with iter_delete_all [OF assms] show ?thesis by (simp add: HASH_ITER_def cong: if_cong split del: if_split)
qed

end
