(* ===== verification/UtHashSort.thy ===== *)
theory UtHashSort
  imports UtHashOps "HOL-Library.Multiset"
begin

text \<open>
  \<open>HASH_SRT\<close> of \<open>src/include/uthash.h\<close>: the merge sort that puts the elements of a table into a new application order by relinking them, without any memory of its own.
  The comparison function is that of the program.  The result is the stable sort of the list.
\<close>

section \<open>The macro\<close>

definition srt_next :: "hname \<Rightarrow> ptr \<Rightarrow> ut_mem \<Rightarrow> ptr option" where
  "srt_next hh q s = map_option (app_next (handles s hh)) (hh_at hh q s)"

text \<open>The loop that steps over the first run; its argument is the number of steps that are left.\<close>

fun srt_split :: "hname \<Rightarrow> nat \<Rightarrow> 32 word \<Rightarrow> ptr \<Rightarrow> ut_mem \<Rightarrow> (32 word \<times> ptr) option" where
  "srt_split hh 0 psize q s = Some (psize, q)"
| "srt_split hh (Suc n) psize q s = do {
     let psize = psize + 1;
     q \<leftarrow> srt_next hh q s;
     if q = None then Some (psize, q) else srt_split hh n psize q s }"

text \<open>The element that comes next, and what is left of the two runs.\<close>

definition srt_choose :: "(addr \<Rightarrow> addr \<Rightarrow> int) \<Rightarrow> hname \<Rightarrow> ptr \<Rightarrow> 32 word \<Rightarrow> ptr \<Rightarrow> 32 word \<Rightarrow> ut_mem \<Rightarrow> (ptr \<times> ptr \<times> 32 word \<times> ptr \<times> 32 word) option" where
  "srt_choose cmpfcn hh p psize q qsize s =
     (if psize = 0 then do { q' \<leftarrow> srt_next hh q s; Some (q, p, psize, q', qsize - 1) }
      else if qsize = 0 \<or> q = None then do { p' \<leftarrow> (if p \<noteq> None then srt_next hh p s else Some None); Some (p, p', psize - 1, q, qsize) }
      else do {
        x \<leftarrow> p;
        y \<leftarrow> q;
        if cmpfcn x y \<le> 0 then do { p' \<leftarrow> srt_next hh p s; Some (p, p', psize - 1, q, qsize) }
        else do { q' \<leftarrow> srt_next hh q s; Some (q, p, psize, q', qsize - 1) } })"

definition srt_link :: "hname \<Rightarrow> ptr \<Rightarrow> ptr \<Rightarrow> ptr \<Rightarrow> ut_mem \<Rightarrow> (ptr \<times> ptr \<times> ut_mem) option" where
  "srt_link hh e hs_list hs_tail s = do {
     (hs_list, s) \<leftarrow> (if hs_tail \<noteq> None then do { a \<leftarrow> hh_at hh hs_tail s; Some (hs_list, set_app_next hh a e s) } else Some (e, s));
     s \<leftarrow> (if e \<noteq> None then do { b \<leftarrow> hh_at hh e s; Some (set_app_prev hh b hs_tail s) } else Some s);
     Some (hs_list, e, s) }"

partial_function (option) srt_merge :: "(addr \<Rightarrow> addr \<Rightarrow> int) \<Rightarrow> hname \<Rightarrow> ptr \<Rightarrow> 32 word \<Rightarrow> ptr \<Rightarrow> 32 word \<Rightarrow> ptr \<Rightarrow> ptr \<Rightarrow> ut_mem \<Rightarrow> (ptr \<times> ptr \<times> ptr \<times> ut_mem) option" where
  "srt_merge cmpfcn hh p psize q qsize hs_list hs_tail s =
     (if psize \<noteq> 0 \<or> (qsize \<noteq> 0 \<and> q \<noteq> None) then
        Option.bind (srt_choose cmpfcn hh p psize q qsize s) (\<lambda>(e, p, psize, q, qsize).
          Option.bind (srt_link hh e hs_list hs_tail s) (\<lambda>(hs_list, hs_tail, s). srt_merge cmpfcn hh p psize q qsize hs_list hs_tail s))
      else Some (q, hs_list, hs_tail, s))"

partial_function (option) srt_pass :: "(addr \<Rightarrow> addr \<Rightarrow> int) \<Rightarrow> hname \<Rightarrow> 32 word \<Rightarrow> ptr \<Rightarrow> ptr \<Rightarrow> ptr \<Rightarrow> 32 word \<Rightarrow> ut_mem \<Rightarrow> (ptr \<times> ptr \<times> 32 word \<times> ut_mem) option" where
  "srt_pass cmpfcn hh insize p hs_list hs_tail nmerges s =
     (if p = None then Some (hs_list, hs_tail, nmerges, s)
      else Option.bind (srt_split hh (unat insize) 0 p s) (\<lambda>(psize, q).
        Option.bind (srt_merge cmpfcn hh p psize q insize hs_list hs_tail s) (\<lambda>(q, hs_list, hs_tail, s).
          srt_pass cmpfcn hh insize q hs_list hs_tail (nmerges + 1) s)))"

partial_function (option) srt_loop :: "(addr \<Rightarrow> addr \<Rightarrow> int) \<Rightarrow> hname \<Rightarrow> 32 word \<Rightarrow> ptr \<Rightarrow> ut_mem \<Rightarrow> (ptr \<times> ptr \<times> ut_mem) option" where
  "srt_loop cmpfcn hh insize hs_list s =
     Option.bind (srt_pass cmpfcn hh insize hs_list None None 0 s) (\<lambda>(hs_list, hs_tail, nmerges, s).
       Option.bind (if hs_tail \<noteq> None then map_option (\<lambda>a. set_app_next hh a None s) (hh_at hh hs_tail s) else Some s) (\<lambda>s.
         if nmerges \<le> 1 then Some (hs_list, hs_tail, s) else srt_loop cmpfcn hh (insize * 2) hs_list s))"

definition HASH_SRT :: "hname \<Rightarrow> ptr \<Rightarrow> (addr \<Rightarrow> addr \<Rightarrow> int) \<Rightarrow> ut_mem \<Rightarrow> (ptr \<times> ut_mem) option" where
  "HASH_SRT hh head cmpfcn s =
     (if head = None then Some (head, s)
      else do {
        t \<leftarrow> tbl_of hh head s;
        tb \<leftarrow> get_table t s;
        (hs_list, hs_tail, s) \<leftarrow> srt_loop cmpfcn (hho tb) 1 head s;
        s \<leftarrow> set_table t (\<lambda>tb. tb\<lparr>tail := hs_tail\<rparr>) s;
        Some (hs_list, s) })"

section \<open>Merging lists\<close>

fun lmerge :: "(addr \<Rightarrow> addr \<Rightarrow> int) \<Rightarrow> addr list \<Rightarrow> addr list \<Rightarrow> addr list" where
  "lmerge c [] ys = ys"
| "lmerge c (x # xs) [] = x # xs"
| "lmerge c (x # xs) (y # ys) = (if c x y \<le> 0 then x # lmerge c xs (y # ys) else y # lmerge c (x # xs) ys)"

lemma lmerge_Nil [simp]: "lmerge c xs [] = xs"
  by (cases xs) auto

lemma mset_lmerge: "mset (lmerge c xs ys) = mset xs + mset ys"
  by (induction c xs ys rule: lmerge.induct) auto

lemma set_lmerge [simp]: "set (lmerge c xs ys) = set xs \<union> set ys"
  by (induction c xs ys rule: lmerge.induct) auto

lemma length_lmerge [simp]: "length (lmerge c xs ys) = length xs + length ys"
  by (induction c xs ys rule: lmerge.induct) auto

lemma lmerge_sorted:
  "(\<And>a b. c a b \<le> 0 \<longleftrightarrow> f a \<le> (f b :: 'k :: linorder)) \<Longrightarrow> sorted (map f xs) \<Longrightarrow> sorted (map f ys) \<Longrightarrow> sorted (map f (lmerge c xs ys))"
  by (induction c xs ys rule: lmerge.induct) (auto intro: order_trans less_imp_le)

lemma lmerge_stable:
  "(\<And>a b. c a b \<le> 0 \<longleftrightarrow> f a \<le> (f b :: 'k :: linorder)) \<Longrightarrow> sorted (map f xs) \<Longrightarrow> sorted (map f ys) \<Longrightarrow>
   filter (\<lambda>x. f x = k) (lmerge c xs ys) = filter (\<lambda>x. f x = k) xs @ filter (\<lambda>x. f x = k) ys"
proof (induction c xs ys rule: lmerge.induct)
  case (3 c x xs y ys)
  have "filter (\<lambda>x. f x = k) (x # xs) = []" if "\<not> f x \<le> f y" "f y = k"
    using that 3(4) by (force simp: filter_empty_conv)
  with 3 show ?case by (auto split: if_splits)
qed auto

lemma lmerge_sort_key:
  assumes "\<And>a b. c a b \<le> 0 \<longleftrightarrow> f a \<le> (f b :: 'k :: linorder)"
  shows "lmerge c (sort_key f xs) (sort_key f ys) = sort_key f (xs @ ys)"
proof -
  have "sort_key f (xs @ ys) = lmerge c (sort_key f xs) (sort_key f ys)"
  proof (rule properties_for_sort_key)
    show "mset (lmerge c (sort_key f xs) (sort_key f ys)) = mset (xs @ ys)" by (simp add: mset_lmerge)
    show "sorted (map f (lmerge c (sort_key f xs) (sort_key f ys)))" by (rule lmerge_sorted [OF assms]) auto
    fix k
    have "filter (\<lambda>x. f k = f x) zs = filter (\<lambda>x. f x = f k) zs" for zs by (rule filter_cong) auto
    moreover have "filter (\<lambda>x. f x = f k) (sort_key f zs) = filter (\<lambda>x. f x = f k) zs" for zs by (rule sort_key_stable)
    ultimately show "filter (\<lambda>x. f k = f x) (lmerge c (sort_key f xs) (sort_key f ys)) = filter (\<lambda>x. f k = f x) (xs @ ys)"
      by (simp add: lmerge_stable [OF assms])
  qed
  then show ?thesis ..
qed

section \<open>Runs in memory\<close>

text \<open>A run is followed by its forward links only.\<close>

fun path :: "(addr \<Rightarrow> ptr) \<Rightarrow> addr list \<Rightarrow> ptr \<Rightarrow> bool" where
  "path nx [] q = True"
| "path nx (x # xs) q = (nx x = first_or xs q \<and> path nx xs q)"

lemma path_append [simp]: "path nx (xs @ ys) q \<longleftrightarrow> path nx xs (first_or ys q) \<and> path nx ys q"
  by (induction xs) auto

lemma path_cong: "(\<And>x. x \<in> set xs \<Longrightarrow> nx x = nx' x) \<Longrightarrow> path nx xs q = path nx' xs q"
  by (induction xs) auto

lemma dls_path: "dls pr nx p xs q \<Longrightarrow> path nx xs q"
  by (induction xs arbitrary: p) auto

definition srt_frame :: "hname \<Rightarrow> addr set \<Rightarrow> ut_mem \<Rightarrow> ut_mem \<Rightarrow> bool" where
  "srt_frame hh X s s' \<longleftrightarrow>
     (\<exists>pr nx. s' = s\<lparr>handles := (handles s)(hh := (handles s hh)\<lparr>app_prev := pr, app_next := nx\<rparr>)\<rparr> \<and>
        (\<forall>x. x \<notin> X \<longrightarrow> pr x = app_prev (handles s hh) x \<and> nx x = app_next (handles s hh) x))"

lemma srt_frame_refl: "srt_frame hh X s s"
  unfolding srt_frame_def by (rule exI [of _ "app_prev (handles s hh)"], rule exI [of _ "app_next (handles s hh)"]) simp

lemma srt_frame_trans: "srt_frame hh X s s' \<Longrightarrow> srt_frame hh Y s' s'' \<Longrightarrow> X \<subseteq> Z \<Longrightarrow> Y \<subseteq> Z \<Longrightarrow> srt_frame hh Z s s''"
  unfolding srt_frame_def subset_iff
proof (elim exE conjE, goal_cases)
  case (1 pr pr' nx nx')
  then show ?case by - (rule exI [of _ pr'], rule exI [of _ nx'], simp, metis)
qed

lemma srt_frame_live [simp]: "srt_frame hh X s s' \<Longrightarrow> live (handles s' hh) = live (handles s hh)"
  by (auto simp: srt_frame_def)

lemma srt_frame_next: "srt_frame hh X s s' \<Longrightarrow> x \<notin> X \<Longrightarrow> app_next (handles s' hh) x = app_next (handles s hh) x"
  by (auto simp: srt_frame_def)

lemma srt_split_result:
  "path (app_next (handles s hh)) xs None \<Longrightarrow> \<forall>x \<in> set xs. live (handles s hh) x \<Longrightarrow> xs \<noteq> [] \<Longrightarrow>
   srt_split hh n c (first_or xs None) s = Some (c + word_of_nat (min n (length xs)), first_or (drop n xs) None)"
proof (induction n arbitrary: xs c)
  case (Suc n)
  then obtain x ys where xs: "xs = x # ys" by (cases xs) auto
  with Suc show ?case by (cases "ys = []") (auto simp: srt_next_def add.assoc)
qed simp

text \<open>
  The state of a merge: \<open>out\<close> has been merged, \<open>ps\<close> and \<open>qs\<close> are left of the two runs and \<open>rest\<close> follows the second.
\<close>

definition merging :: "hname \<Rightarrow> addr list \<Rightarrow> addr list \<Rightarrow> addr list \<Rightarrow> addr list \<Rightarrow> ut_mem \<Rightarrow> bool" where
  "merging hh out ps qs rest s \<longleftrightarrow>
     distinct (out @ ps @ qs @ rest) \<and> (\<forall>x \<in> set (out @ ps @ qs @ rest). live (handles s hh) x) \<and>
     (\<exists>q0. dls (app_prev (handles s hh)) (app_next (handles s hh)) None out q0) \<and> (\<exists>p0. path (app_next (handles s hh)) ps p0) \<and>
     path (app_next (handles s hh)) (qs @ rest) None"

lemma dls_open:
  "dls pr nx p xs q \<Longrightarrow> distinct (xs @ [y]) \<Longrightarrow> dls (pr(y := last_or xs p)) (upd_at (last_or xs None) (Some y) nx) p (xs @ [y]) (upd_at (last_or xs None) (Some y) nx y)"
  by (cases xs rule: rev_cases) auto

text \<open>Taking the next element from either run.\<close>

lemma srt_link_result:
  assumes "merging hh out ps qs rest s" "(\<exists>ps'. ps = y # ps' \<and> ps1 = ps' \<and> qs1 = qs) \<or> (\<exists>qs'. qs = y # qs' \<and> qs1 = qs' \<and> ps1 = ps)"
  shows "\<exists>s'. srt_link hh (Some y) (first_or out None) (last_or out None) s = Some (first_or (out @ [y]) None, Some y, s') \<and>
     merging hh (out @ [y]) ps1 qs1 rest s' \<and> srt_frame hh (insert y (set out)) s s'"
proof -
  let ?H = "handles s hh"
  have dis: "distinct (out @ ps @ qs @ rest)" and lv: "\<forall>x \<in> set (out @ ps @ qs @ rest). live ?H x" using assms(1) by (auto simp: merging_def)
  have y: "y \<notin> set out" "live ?H y" "y \<notin> set ps1" "y \<notin> set qs1" "y \<notin> set rest" using assms(2) dis lv by auto
  have sub: "set ps1 \<subseteq> set ps" "set qs1 \<subseteq> set qs" "distinct (out @ [y] @ ps1 @ qs1 @ rest)" using assms(2) dis by auto
  define s' where "s' = s\<lparr>handles := (handles s)(hh := ?H\<lparr>app_prev := (app_prev ?H)(y := last_or out None), app_next := upd_at (last_or out None) (Some y) (app_next ?H)\<rparr>)\<rparr>"
  have l: "srt_link hh (Some y) (first_or out None) (last_or out None) s = Some (first_or (out @ [y]) None, Some y, s')"
  proof (cases out rule: rev_cases)
    case Nil
    with y show ?thesis by (simp add: srt_link_def setters s'_def)
  next
    case (snoc os u)
    with y lv show ?thesis by (cases os) (simp_all add: srt_link_def setters s'_def links_commute)
  qed
  have nx: "app_next (handles s' hh) x = app_next ?H x" if "x \<notin> set out" for x
  proof -
    have "last_or out None \<noteq> Some x" using that last_or_Some by blast
    then show ?thesis by (simp add: s'_def upd_at_other)
  qed
  from assms(1) obtain q0 p0 where "dls (app_prev ?H) (app_next ?H) None out q0" "path (app_next ?H) ps p0" "path (app_next ?H) (qs @ rest) None" by (auto simp: merging_def)
  note m = this
  have "\<exists>q0. dls (app_prev (handles s' hh)) (app_next (handles s' hh)) None (out @ [y]) q0"
    using dls_open [OF m(1), of y] dis y by (fastforce simp: s'_def)
  moreover have pc: "path (app_next (handles s' hh)) xs p = path (app_next ?H) xs p" if "set xs \<inter> set out = {}" for xs p
    using that nx by (intro path_cong) blast
  have dj: "set ps1 \<inter> set out = {}" "set (qs1 @ rest) \<inter> set out = {}" using sub(3) by auto
  have "\<exists>p0. path (app_next (handles s' hh)) ps1 p0" "path (app_next (handles s' hh)) (qs1 @ rest) None"
    unfolding pc [OF dj(1)] pc [OF dj(2)] using m(2,3) assms(2) by auto
  ultimately have "merging hh (out @ [y]) ps1 qs1 rest s'" using sub lv y by (auto simp: merging_def) (auto simp: s'_def)
  moreover have "srt_frame hh (insert y (set out)) s s'"
    unfolding srt_frame_def by (rule exI [of _ "app_prev (handles s' hh)"], rule exI [of _ "app_next (handles s' hh)"]) (simp add: nx, simp add: s'_def)
  ultimately show ?thesis using l by blast
qed

text \<open>The variables of the loop for the runs that are left.\<close>

definition runs :: "addr list \<Rightarrow> addr list \<Rightarrow> addr list \<Rightarrow> ptr \<Rightarrow> 32 word \<Rightarrow> 32 word \<Rightarrow> bool" where
  "runs ps qs rest p psize qsize \<longleftrightarrow>
     length ps < 2 ^ 31 \<and> psize = word_of_nat (length ps) \<and> (ps \<noteq> [] \<longrightarrow> p = Some (hd ps)) \<and> length qs \<le> unat qsize \<and> (rest = [] \<or> length qs = unat qsize)"

lemma runs_size: "runs ps qs rest p psize qsize \<Longrightarrow> psize = 0 \<longleftrightarrow> ps = []"
proof -
  assume "runs ps qs rest p psize qsize"
  then have "unat psize = length ps" by (simp add: runs_def unat_of_nat take_bit_eq_mod)
  then show ?thesis by (metis length_0_conv unat_eq_zero)
qed

lemma runs_qsize: "runs ps qs rest p psize qsize \<Longrightarrow> qsize = 0 \<or> first_or (qs @ rest) None = None \<longleftrightarrow> qs = []"
  by (cases qs; cases rest) (auto simp: runs_def unat_eq_zero)

lemma unat_minus_one_word: "w \<noteq> 0 \<Longrightarrow> unat (w - 1 :: 32 word) = unat w - 1"
  by (simp add: unat_minus_one)

lemma srt_choose_result:
  assumes "merging hh out ps qs rest s" "runs ps qs rest p psize qsize" "ps \<noteq> [] \<or> qs \<noteq> []"
  shows "\<exists>y ps1 qs1 p1 psize1 qsize1. srt_choose c hh p psize (first_or (qs @ rest) None) qsize s = Some (Some y, p1, psize1, first_or (qs1 @ rest) None, qsize1) \<and>
     (ps = y # ps1 \<and> qs1 = qs \<or> qs = y # qs1 \<and> ps1 = ps) \<and> lmerge c ps qs = y # lmerge c ps1 qs1 \<and> runs ps1 qs1 rest p1 psize1 qsize1"
proof -
  let ?H = "handles s hh"
  from assms(1) obtain p0 where lv: "\<forall>x \<in> set (out @ ps @ qs @ rest). live ?H x" and pp: "path (app_next ?H) ps p0" and pq: "path (app_next ?H) (qs @ rest) None" by (auto simp: merging_def)
  have fromp: "srt_next hh p s = Some (first_or ps' p0)" "runs ps' qs rest (first_or ps' p0) (psize - 1) qsize" if "ps = x # ps'" for x ps'
    using that assms(2) lv pp by (cases ps'; auto simp: runs_def srt_next_def)+
  have fromq: "srt_next hh (first_or (qs @ rest) None) s = Some (first_or (qs' @ rest) None)" "runs ps qs' rest p psize (qsize - 1)" if "qs = y # qs'" for y qs'
  proof -
    show "srt_next hh (first_or (qs @ rest) None) s = Some (first_or (qs' @ rest) None)" using that lv pq by (simp add: srt_next_def)
    have "qsize \<noteq> 0" using runs_qsize [OF assms(2)] that by auto
    then show "runs ps qs' rest p psize (qsize - 1)" using assms(2) that by (auto simp: runs_def unat_minus_one_word)
  qed
  show ?thesis
  proof (cases ps)
    case Nil
    with assms(3) obtain y qs' where qs: "qs = y # qs'" by (cases qs) auto
    have "srt_choose c hh p psize (first_or (qs @ rest) None) qsize s = Some (Some y, p, psize, first_or (qs' @ rest) None, qsize - 1)"
      using fromq(1) [OF qs] runs_size [OF assms(2)] Nil by (simp add: srt_choose_def qs)
    with fromq(2) [OF qs] Nil qs show ?thesis by fastforce
  next
    case (Cons x ps')
    then have p: "p = Some x" using assms(2) by (simp add: runs_def)
    show ?thesis
    proof (cases qs)
      case Nil
      then have "srt_choose c hh p psize (first_or (qs @ rest) None) qsize s = Some (Some x, first_or ps' p0, psize - 1, first_or (qs @ rest) None, qsize)"
        using fromp(1) [OF Cons] runs_size [OF assms(2)] runs_qsize [OF assms(2)] Cons p by (auto simp: srt_choose_def)
      with fromp(2) [OF Cons] Nil Cons show ?thesis by fastforce
    next
      case qs: (Cons y qs')
      have *: "psize \<noteq> 0" "\<not> (qsize = 0 \<or> first_or (qs @ rest) None = None)" using runs_size [OF assms(2)] runs_qsize [OF assms(2)] Cons qs by auto
      show ?thesis
      proof (cases "c x y \<le> 0")
        case True
        then have "srt_choose c hh p psize (first_or (qs @ rest) None) qsize s = Some (Some x, first_or ps' p0, psize - 1, first_or (qs @ rest) None, qsize)"
          using fromp(1) [OF Cons] * p qs by (simp add: srt_choose_def)
        with fromp(2) [OF Cons] True Cons qs show ?thesis by fastforce
      next
        case False
        then have "srt_choose c hh p psize (first_or (qs @ rest) None) qsize s = Some (Some y, p, psize, first_or (qs' @ rest) None, qsize - 1)"
          using fromq(1) [OF qs] * p qs by (simp add: srt_choose_def)
        with fromq(2) [OF qs] False Cons qs show ?thesis by fastforce
      qed
    qed
  qed
qed

lemma srt_merge_result:
  assumes "merging hh out ps qs rest s" "runs ps qs rest p psize qsize"
  shows "\<exists>s'. srt_merge c hh p psize (first_or (qs @ rest) None) qsize (first_or out None) (last_or out None) s =
       Some (first_or rest None, first_or (out @ lmerge c ps qs) None, last_or (out @ lmerge c ps qs) None, s') \<and>
     merging hh (out @ lmerge c ps qs) [] [] rest s' \<and> srt_frame hh (set (out @ ps @ qs)) s s'"
  using assms
proof (induction "length ps + length qs" arbitrary: out ps qs p psize qsize s)
  case 0
  then have "psize = 0" "qsize = 0 \<or> first_or (qs @ rest) None = None" using runs_size [OF 0(3)] runs_qsize [OF 0(3)] by auto
  with 0 show ?case by (subst srt_merge.simps) (auto simp: srt_frame_refl)
next
  case (Suc n)
  then have ne: "ps \<noteq> [] \<or> qs \<noteq> []" by auto
  from srt_choose_result [OF Suc.prems ne] obtain y ps1 qs1 p1 psize1 qsize1 where
    ch: "srt_choose c hh p psize (first_or (qs @ rest) None) qsize s = Some (Some y, p1, psize1, first_or (qs1 @ rest) None, qsize1)"
      "ps = y # ps1 \<and> qs1 = qs \<or> qs = y # qs1 \<and> ps1 = ps" "lmerge c ps qs = y # lmerge c ps1 qs1" "runs ps1 qs1 rest p1 psize1 qsize1" by blast
  from srt_link_result [OF Suc.prems(1)] ch(2) obtain s1 where
    s1: "srt_link hh (Some y) (first_or out None) (last_or out None) s = Some (first_or (out @ [y]) None, Some y, s1)"
      "merging hh (out @ [y]) ps1 qs1 rest s1" "srt_frame hh (insert y (set out)) s s1" by metis
  have "n = length ps1 + length qs1" using Suc.hyps(2) ch(2) by auto
  from Suc.hyps(1) [OF this s1(2) ch(4)] obtain s' where
    s': "srt_merge c hh p1 psize1 (first_or (qs1 @ rest) None) qsize1 (first_or (out @ [y]) None) (last_or (out @ [y]) None) s1 =
        Some (first_or rest None, first_or ((out @ [y]) @ lmerge c ps1 qs1) None, last_or ((out @ [y]) @ lmerge c ps1 qs1) None, s')"
      "merging hh ((out @ [y]) @ lmerge c ps1 qs1) [] [] rest s'" "srt_frame hh (set ((out @ [y]) @ ps1 @ qs1)) s1 s'" by blast
  have "psize \<noteq> 0 \<or> (qsize \<noteq> 0 \<and> first_or (qs @ rest) None \<noteq> None)" using runs_size [OF Suc.prems(2)] runs_qsize [OF Suc.prems(2)] ne by auto
  then have "srt_merge c hh p psize (first_or (qs @ rest) None) qsize (first_or out None) (last_or out None) s =
      srt_merge c hh p1 psize1 (first_or (qs1 @ rest) None) qsize1 (first_or (out @ [y]) None) (last_or (out @ [y]) None) s1"
    by (subst srt_merge.simps) (simp add: ch(1) s1(1) del: first_or_simps)
  moreover have "srt_frame hh (set (out @ ps @ qs)) s s'" by (rule srt_frame_trans [OF s1(3) s'(3)]) (use ch(2) in auto)
  ultimately show ?case using s'(1,2) by (simp add: ch(3))
qed

section \<open>A pass over the list\<close>

text \<open>What a pass does to the list, and how many merges it makes.\<close>

function passl :: "(addr \<Rightarrow> addr \<Rightarrow> int) \<Rightarrow> nat \<Rightarrow> addr list \<Rightarrow> addr list" where
  "passl c k xs = (if xs = [] \<or> k = 0 then [] else lmerge c (take k xs) (take k (drop k xs)) @ passl c k (drop (2 * k) xs))"
  by pat_completeness auto
termination by (relation "measure (\<lambda>(c, k, xs). length xs)") auto

function passn :: "nat \<Rightarrow> addr list \<Rightarrow> nat" where
  "passn k xs = (if xs = [] \<or> k = 0 then 0 else Suc (passn k (drop (2 * k) xs)))"
  by pat_completeness auto
termination by (relation "measure (\<lambda>(k, xs). length xs)") auto

text \<open>The blocks of \<open>k\<close> elements of a list, each of them sorted.\<close>

function blocks :: "(addr \<Rightarrow> 'k :: linorder) \<Rightarrow> nat \<Rightarrow> addr list \<Rightarrow> addr list" where
  "blocks f k ys = (if ys = [] \<or> k = 0 then [] else sort_key f (take k ys) @ blocks f k (drop k ys))"
  by pat_completeness auto
termination by (relation "measure (\<lambda>(f, k, ys). length ys)") auto

declare passl.simps [simp del] passn.simps [simp del] blocks.simps [simp del]

lemma pass_Nil [simp]: "passl c k [] = []" "passn k [] = 0" "blocks f k [] = []"
  by (simp_all add: passl.simps passn.simps blocks.simps)

lemma pass_step:
  assumes "xs \<noteq> []" "0 < k"
  shows "passl c k xs = lmerge c (take k xs) (take k (drop k xs)) @ passl c k (drop (2 * k) xs)" "passn k xs = Suc (passn k (drop (2 * k) xs))"
    "blocks f k xs = sort_key f (take k xs) @ blocks f k (drop k xs)"
  using assms by (simp_all add: passl.simps [of c k xs] passn.simps [of k xs] blocks.simps [of f k xs])

lemma passn_le: "0 < k \<Longrightarrow> passn k xs \<le> length xs"
proof (induction xs rule: length_induct)
  case (1 xs)
  show ?case
  proof (cases "xs = []")
    case False
    then have "length (drop (2 * k) xs) < length xs" using 1(2) by simp
    with 1 have "passn k (drop (2 * k) xs) < length xs" by fastforce
    with False 1(2) show ?thesis by (simp add: pass_step)
  qed simp
qed

lemma passn_one:
  assumes "0 < k"
  shows "passn k xs \<le> 1 \<longleftrightarrow> length xs \<le> 2 * k"
proof (cases "xs = [] \<or> drop (2 * k) xs = []")
  case True
  with assms show ?thesis by (cases "xs = []") (auto simp: pass_step)
next
  case False
  with assms show ?thesis by (simp add: pass_step [of xs] pass_step [of "drop (2 * k) xs"])
qed

lemma blocks_length [simp]: "0 < k \<Longrightarrow> length (blocks f k ys) = length ys"
proof (induction f k ys rule: blocks.induct)
  case (1 f k ys)
  then show ?case by (cases "ys = []") (auto simp: pass_step)
qed

lemma blocks_take_drop: "0 < k \<Longrightarrow> take k (blocks f k ys) = sort_key f (take k ys) \<and> drop k (blocks f k ys) = blocks f k (drop k ys)"
proof (cases "ys = []")
  case False
  assume "0 < k"
  with False show ?thesis by (cases "k \<le> length ys") (auto simp: pass_step)
qed simp

lemma blocks_mset: "0 < k \<Longrightarrow> mset (blocks f k ys) = mset ys"
proof (induction f k ys rule: blocks.induct)
  case (1 f k ys)
  have "mset (take k ys) + mset (drop k ys) = mset ys" by (metis append_take_drop_id mset_append)
  with 1 show ?case by (cases "ys = []") (auto simp: pass_step)
qed

lemma blocks_one: "blocks f 1 ys = ys"
  by (induction ys) (simp_all add: pass_step)

lemma blocks_all: "length ys \<le> k \<Longrightarrow> 0 < k \<Longrightarrow> blocks f k ys = sort_key f ys"
  by (cases "ys = []") (auto simp: pass_step)

lemma passl_blocks:
  assumes "\<And>a b. c a b \<le> 0 \<longleftrightarrow> f a \<le> (f b :: 'k :: linorder)" "0 < k"
  shows "passl c k (blocks f k ys) = blocks f (2 * k) ys"
proof (induction ys rule: length_induct)
  case (1 ys)
  show ?case
  proof (cases "ys = []")
    case True
    then show ?thesis by simp
  next
    case False
    have t: "take k (blocks f k zs) = sort_key f (take k zs)" "drop k (blocks f k zs) = blocks f k (drop k zs)" for zs using blocks_take_drop [OF assms(2)] by auto
    have "drop (2 * k) (blocks f k ys) = drop k (drop k (blocks f k ys))" by (simp add: mult_2)
    also have "\<dots> = blocks f k (drop (2 * k) ys)" by (simp only: t) (simp add: mult_2)
    finally have d: "drop (2 * k) (blocks f k ys) = blocks f k (drop (2 * k) ys)" .
    have ne: "blocks f k ys \<noteq> []" using False blocks_length [OF assms(2), of f ys] by (metis length_0_conv)
    have "take (2 * k) ys = take k ys @ take k (drop k ys)" by (simp add: mult_2 take_add)
    then have "lmerge c (take k (blocks f k ys)) (take k (drop k (blocks f k ys))) = sort_key f (take (2 * k) ys)"
      by (simp only: t lmerge_sort_key [OF assms(1)])
    moreover have "passl c k (blocks f k (drop (2 * k) ys)) = blocks f (2 * k) (drop (2 * k) ys)" using 1 False assms(2) by simp
    ultimately show ?thesis using False assms(2) ne by (simp add: pass_step(1) [OF ne] pass_step(3) [of ys "2 * k"] d)
  qed
qed

lemma srt_pass_result:
  assumes "merging hh out [] [] rest s" "unat insize = k" "0 < k" "k < 2 ^ 31"
  shows "\<exists>s'. srt_pass c hh insize (first_or rest None) (first_or out None) (last_or out None) m s =
       Some (first_or (out @ passl c k rest) None, last_or (out @ passl c k rest) None, m + word_of_nat (passn k rest), s') \<and>
     merging hh (out @ passl c k rest) [] [] [] s' \<and> srt_frame hh (set (out @ rest)) s s'"
  using assms(1)
proof (induction rest arbitrary: out m s rule: length_induct)
  case (1 rest)
  show ?case
  proof (cases "rest = []")
    case True
    with 1(2) show ?thesis by (subst srt_pass.simps) (auto simp: srt_frame_refl)
  next
    case False
    let ?ps = "take k rest" and ?qs = "take k (drop k rest)" and ?r = "drop (2 * k) rest"
    have rest: "rest = ?ps @ ?qs @ ?r" by (metis append_take_drop_id drop_drop mult_2)
    from 1(2) have m: "merging hh out ?ps ?qs ?r s" unfolding merging_def by (subst (asm) (1 2 3) rest) (auto simp del: append_take_drop_id)
    have pq: "path (app_next (handles s hh)) rest None" "\<forall>x \<in> set rest. live (handles s hh) x" using 1(2) by (auto simp: merging_def)
    have sp: "srt_split hh k 0 (first_or rest None) s = Some (word_of_nat (length ?ps), first_or (?qs @ ?r) None)"
      using srt_split_result [OF pq False, of k 0] by (simp add: mult_2 min.commute flip: drop_drop)
    have "runs ?ps ?qs ?r (first_or rest None) (word_of_nat (length ?ps)) insize"
      using False assms(2-4) by (cases rest) (auto simp: runs_def)
    from srt_merge_result [OF m this, of c] obtain s1 where
      s1: "srt_merge c hh (first_or rest None) (word_of_nat (length ?ps)) (first_or (?qs @ ?r) None) insize (first_or out None) (last_or out None) s =
         Some (first_or ?r None, first_or (out @ lmerge c ?ps ?qs) None, last_or (out @ lmerge c ?ps ?qs) None, s1)"
        "merging hh (out @ lmerge c ?ps ?qs) [] [] ?r s1" "srt_frame hh (set (out @ ?ps @ ?qs)) s s1" by blast
    have "length ?r < length rest" using False assms(3) by simp
    from 1(1) [rule_format, OF this s1(2), of "m + 1"] obtain s' where
      s': "srt_pass c hh insize (first_or ?r None) (first_or (out @ lmerge c ?ps ?qs) None) (last_or (out @ lmerge c ?ps ?qs) None) (m + 1) s1 =
         Some (first_or ((out @ lmerge c ?ps ?qs) @ passl c k ?r) None, last_or ((out @ lmerge c ?ps ?qs) @ passl c k ?r) None, (m + 1) + word_of_nat (passn k ?r), s')"
        "merging hh ((out @ lmerge c ?ps ?qs) @ passl c k ?r) [] [] [] s'" "srt_frame hh (set ((out @ lmerge c ?ps ?qs) @ ?r)) s1 s'" by blast
    have ne: "first_or rest None \<noteq> None" using False by simp
    have "srt_pass c hh insize (first_or rest None) (first_or out None) (last_or out None) m s =
        srt_pass c hh insize (first_or ?r None) (first_or (out @ lmerge c ?ps ?qs) None) (last_or (out @ lmerge c ?ps ?qs) None) (m + 1) s1"
      using sp s1(1) ne by (subst srt_pass.simps) (simp add: assms(2) del: first_or_simps last_or_append)
    moreover have "srt_frame hh (set (out @ rest)) s s'"
      by (rule srt_frame_trans [OF s1(3) s'(3)]) (auto dest: in_set_takeD in_set_dropD)
    ultimately show ?thesis using s'(1,2) False assms(3) by (simp add: pass_step add.assoc)
  qed
qed

section \<open>The whole sort\<close>

lemma srt_loop_result:
  assumes "\<And>a b. c a b \<le> 0 \<longleftrightarrow> f a \<le> (f b :: 'k :: linorder)" "merging hh [] [] [] (blocks f k ys) s" "insize = word_of_nat k" "0 < k" "k < 2 ^ 27" "length ys < 2 ^ 27" "ys \<noteq> []"
  shows "\<exists>s'. srt_loop c hh insize (first_or (blocks f k ys) None) s = Some (first_or (sort_key f ys) None, last_or (sort_key f ys) None, s') \<and>
     dls (app_prev (handles s' hh)) (app_next (handles s' hh)) None (sort_key f ys) None \<and> srt_frame hh (set ys) s s'"
  using assms(2-5)
proof (induction "length ys - k" arbitrary: k insize s rule: less_induct)
  case less
  let ?zs = "blocks f (2 * k) ys"
  have sets: "set (blocks f n ys) = set ys" if "0 < n" for n using blocks_mset [OF that] by (metis set_mset_mset)
  have uk: "unat insize = k" using less.prems(2,4) by (simp add: unat_of_nat take_bit_eq_mod)
  from srt_pass_result [OF less.prems(1) uk less.prems(3), of c 0] less.prems(4) obtain s1 where
    s1: "srt_pass c hh insize (first_or (blocks f k ys) None) None None 0 s = Some (first_or ?zs None, last_or ?zs None, word_of_nat (passn k (blocks f k ys)), s1)"
      "merging hh ?zs [] [] [] s1" "srt_frame hh (set ys) s s1"
    by (auto simp: passl_blocks [OF assms(1) less.prems(3)] sets less.prems(3))
  have ne: "?zs \<noteq> []" using assms(7) blocks_length [of "2 * k" f ys] less.prems(3) by (metis length_0_conv nat_0_less_mult_iff zero_less_numeral)
  then have z: "last ?zs \<in> set ?zs" "last_or ?zs None = Some (last ?zs)" by (simp_all add: last_or_def)
  from s1(2) obtain q0 where d0: "distinct ?zs" "\<forall>x \<in> set ?zs. live (handles s1 hh) x" "dls (app_prev (handles s1 hh)) (app_next (handles s1 hh)) None ?zs q0" by (auto simp: merging_def)
  define s2 where "s2 = set_app_next hh (last ?zs) None s1"
  have d2: "dls (app_prev (handles s2 hh)) (app_next (handles s2 hh)) None ?zs None"
    using d0(1,3) by (cases ?zs rule: rev_cases) (auto simp: s2_def set_app_next_def)
  have f2: "srt_frame hh (set ys) s s2"
  proof (rule srt_frame_trans [OF s1(3), of "{last ?zs}"])
    show "srt_frame hh {last ?zs} s1 s2" unfolding srt_frame_def
      by (rule exI [of _ "app_prev (handles s2 hh)"], rule exI [of _ "app_next (handles s2 hh)"]) (simp add: s2_def setters)
  qed (use z sets less.prems(3) in auto)
  have "unat (word_of_nat (passn k (blocks f k ys)) :: 32 word) = passn k (blocks f k ys)"
    using passn_le [OF less.prems(3), of "blocks f k ys"] less.prems(3) assms(6) by (simp add: unat_of_nat take_bit_eq_mod)
  then have one: "(word_of_nat (passn k (blocks f k ys)) :: 32 word) \<le> 1 \<longleftrightarrow> length ys \<le> 2 * k"
    using passn_one [OF less.prems(3), of "blocks f k ys"] less.prems(3) by (simp add: word_le_nat_alt)
  have e: "srt_loop c hh insize (first_or (blocks f k ys) None) s =
      (if length ys \<le> 2 * k then Some (first_or ?zs None, last_or ?zs None, s2) else srt_loop c hh (insize * 2) (first_or ?zs None) s2)"
    using s1(1) z d0(2) one by (subst srt_loop.simps) (simp add: s2_def)
  show ?case
  proof (cases "length ys \<le> 2 * k")
    case True
    with e d2 f2 less.prems(3) show ?thesis by (simp add: blocks_all)
  next
    case False
    have "merging hh [] [] [] ?zs s2" using d0(1,2) dls_path [OF d2] by (simp add: merging_def s2_def set_app_next_def)
    moreover have "length ys - 2 * k < length ys - k" using False less.prems(3) by linarith
    ultimately obtain s' where "srt_loop c hh (insize * 2) (first_or ?zs None) s2 = Some (first_or (sort_key f ys) None, last_or (sort_key f ys) None, s')"
      "dls (app_prev (handles s' hh)) (app_next (handles s' hh)) None (sort_key f ys) None" "srt_frame hh (set ys) s2 s'"
      using less.hyps [of "2 * k" s2 "insize * 2"] less.prems(2,3) False assms(6) by (auto simp: mult.commute)
    with e False srt_frame_trans [OF f2, of "set ys" s' "set ys"] show ?thesis by auto
  qed
qed

lemma map_sort_key: "map fst (sort_key (\<lambda>p. f (fst p)) al) = sort_key f (map fst al)"
proof (induction al)
  case (Cons a al)
  have "map fst (insort_key (\<lambda>p. f (fst p)) a xs) = insort_key f (fst a) (map fst xs)" for xs by (induction xs) auto
  with Cons show ?case by simp
qed simp

lemma HASH_SRT_ok:
  assumes "hash_ok fcn hh head al s" "\<And>a b. c a b \<le> 0 \<longleftrightarrow> f a \<le> (f b :: 'k :: linorder)"
  shows "\<exists>head' s'. HASH_SRT hh head c s = Some (head', s') \<and> hash_ok fcn hh head' (sort_key (\<lambda>p. f (fst p)) al) s' \<and> ut_frame hh s s'"
  using assms(1)
proof (cases rule: hash_ok_cases)
  case 1
  with assms(1) show ?thesis by (simp add: HASH_SRT_def ut_frame_def)
next
  case (2 t tb h)
  let ?xs = "map fst al" and ?zs = "sort_key f (map fst al)" and ?bl = "sort_key (\<lambda>p. f (fst p)) al"
  have l: "wf_table hh t tb (set ?xs) s" "distinct ?xs" "dls (app_prev (handles s hh)) (app_next (handles s hh)) None ?xs None" "num_items tb = word_of_nat (length ?xs)"
    using 2(4) by (auto simp: list_ok_def)
  have n: "length ?xs < 2 ^ 27" using HASH_CNT_ok(2) [OF assms(1)] by simp
  have "merging hh [] [] [] (blocks f 1 ?xs) s"
    unfolding blocks_one using l(2) dls_path [OF l(3)] list_ok_member [OF 2(4)] by (auto simp: merging_def)
  from srt_loop_result [OF assms(2) this, of 1] n 2(1) obtain s1 where
    s1: "srt_loop c hh 1 (first_or (blocks f 1 ?xs) None) s = Some (first_or ?zs None, last_or ?zs None, s1)"
      "dls (app_prev (handles s1 hh)) (app_next (handles s1 hh)) None ?zs None" "srt_frame hh (set ?xs) s s1" by auto
  define s' where "s' = s1\<lparr>tables := (tables s1)(t \<mapsto> tb\<lparr>tail := last_or ?zs None\<rparr>)\<rparr>"
  from s1(3) obtain pr nx where fr: "s1 = s\<lparr>handles := (handles s)(hh := (handles s hh)\<lparr>app_prev := pr, app_next := nx\<rparr>)\<rparr>" by (auto simp: srt_frame_def)
  have hd: "head = first_or ?xs None" using assms(1) by (simp add: hash_ok_def)
  have "HASH_SRT hh head c s = Some (first_or ?zs None, s')"
    using 2 s1(1) by (simp add: HASH_SRT_def tbl_of_def blocks_one [unfolded One_nat_def] hd [symmetric] set_table_def) (simp add: s'_def fr)
  moreover have "wf_table hh t (tb\<lparr>tail := last_or ?zs None\<rparr>) (set ?xs) s'"
    by (rule wf_table_cong [OF l(1)]) (simp_all add: s'_def fr)
  then have "list_ok hh t (tb\<lparr>tail := last_or ?zs None\<rparr>) (map fst ?bl) s'"
    using s1(2) l(2,4) 2(1) by (simp add: list_ok_def map_sort_key s'_def last_or_def) (metis length_0_conv length_map length_sort)
  moreover have "keys_ok fcn hh ?bl s'"
  proof (rule keys_ok_subset)
    show "keys_ok fcn hh al s" using assms(1) by (simp add: hash_ok_def)
    have "mset (map snd ?bl) = mset (map snd al)" by simp
    then show "distinct (map snd ?bl)" using assms(1) by (metis hash_ok_def keys_ok_def mset_eq_imp_distinct_iff)
  qed (simp_all add: s'_def fr)
  moreover have "ut_frame hh s s'" "handles_fit hh s'" using assms(1) by (simp_all add: ut_frame_def s'_def fr hash_ok_def handles_fit_def)
  ultimately show ?thesis by (auto simp: hash_ok_def map_sort_key)
qed

end
