(* ===== verification/UtHashMap.thy ===== *)
theory UtHashMap
  imports UtHashSort
begin

text \<open>
  The table as its users see it: an ordered map.  The interface \<open>keyed_table\<close> states what finding, adding and deleting promise, and gives the laws of looking up a key after a change; it is
  interpreted for the two ways of adding.  A machine with one step for every operation of the table is simulated by the same machine on association lists.
\<close>

section \<open>Looking up after a change\<close>

locale keyed_table =
  fixes ok :: "'h \<Rightarrow> (addr \<times> byte list) list \<Rightarrow> 's \<Rightarrow> bool"
    and key_at :: "'p \<Rightarrow> 's \<Rightarrow> byte list option"
    and usable :: "addr \<Rightarrow> 's \<Rightarrow> bool"
    and find :: "'h \<Rightarrow> 'p \<Rightarrow> 's \<Rightarrow> ptr option"
    and add :: "'h \<Rightarrow> 'p \<Rightarrow> addr \<Rightarrow> 's \<Rightarrow> ('h \<times> 's) outcome option"
    and del :: "'h \<Rightarrow> addr \<Rightarrow> 's \<Rightarrow> ('h \<times> 's) option"
  assumes ok_keys: "ok h al s \<Longrightarrow> distinct (map snd al)"
    and find_law: "ok h al s \<Longrightarrow> key_at p s = Some k \<Longrightarrow> find h p s = Some (map_of (map (\<lambda>(x, k). (k, x)) al) k)"
    and add_law: "ok h al s \<Longrightarrow> usable x s \<Longrightarrow> x \<notin> fst ` set al \<Longrightarrow> key_at p s = Some k \<Longrightarrow> k \<notin> snd ` set al \<Longrightarrow> add h p x s = Some (Ret (h', s')) \<Longrightarrow>
      (\<exists>us vs. al = us @ vs \<and> ok h' (us @ (x, k) # vs) s') \<and> (\<forall>q. key_at q s' = key_at q s)"
    and del_law: "ok h (us @ (x, k) # vs) s \<Longrightarrow> del h x s = Some (h', s') \<Longrightarrow> ok h' (us @ vs) s' \<and> (\<forall>q. key_at q s' = key_at q s)"
begin

lemma map_of_mid: "distinct (map snd (us @ (x, k) # vs)) \<Longrightarrow>
   map_of (map (\<lambda>(x, k). (k, x)) (us @ (x, k) # vs)) j = (if j = k then Some x else map_of (map (\<lambda>(x, k). (k, x)) (us @ vs)) j)"
proof -
  assume "distinct (map snd (us @ (x, k) # vs))"
  then have "map_of (map (\<lambda>(x, k). (k, x)) us) k = None" by (auto simp: map_of_eq_None_iff image_iff)
  then show ?thesis by (auto simp: map_add_def split: option.split)
qed

lemma find_after_add:
  assumes "ok h al s" "usable x s" "x \<notin> fst ` set al" "key_at p s = Some k" "k \<notin> snd ` set al" "add h p x s = Some (Ret (h', s'))" "key_at q s = Some j"
  shows "find h' q s' = (if j = k then Some (Some x) else find h q s)"
proof -
  from add_law [OF assms(1-6)] obtain us vs where al: "al = us @ vs" and ok': "ok h' (us @ (x, k) # vs) s'" and q: "key_at q s' = Some j" using assms(7) by auto
  from find_law [OF ok' q] find_law [OF assms(1,7)] map_of_mid [OF ok_keys [OF ok']] show ?thesis by (simp add: al)
qed

lemma find_after_del:
  assumes "ok h al s" "(x, k) \<in> set al" "del h x s = Some (h', s')" "key_at q s = Some j"
  shows "find h' q s' = (if j = k then Some None else find h q s)"
proof -
  from assms(2) obtain us vs where al: "al = us @ (x, k) # vs" by (metis split_list)
  with del_law [of h us x k vs s h' s'] assms have ok': "ok h' (us @ vs) s'" and q: "key_at q s' = Some j" by auto
  have "map_of (map (\<lambda>(x, k). (k, x)) (us @ vs)) k = None" using ok_keys [OF assms(1)] by (auto simp: al map_of_eq_None_iff image_iff map_add_def split: option.splits)
  with find_law [OF ok' q] find_law [OF assms(1,4)] map_of_mid [OF ok_keys [OF assms(1) [unfolded al]], of j] show ?thesis by (auto simp: al)
qed

end

definition key_at :: "addr \<times> 32 word \<Rightarrow> ut_mem \<Rightarrow> byte list option" where
  "key_at p s = key_bytes (fst p) (snd p) s"

lemma hash_ok_distinct: "hash_ok fcn hh h al s \<Longrightarrow> distinct (map snd al)"
  by (simp add: hash_ok_def keys_ok_def)

lemma key_at_frame: "ut_frame hh s s' \<Longrightarrow> key_at q s' = key_at q s"
  by (simp add: key_at_def key_bytes_def ut_frame_def)

lemma delete_law: "hash_ok fcn hh h (us @ (x, k) # vs) s \<Longrightarrow> HASH_DELETE hh h x s = Some (h', s') \<Longrightarrow> hash_ok fcn hh h' (us @ vs) s' \<and> (\<forall>q. key_at q s' = key_at q s)"
  using HASH_DELETE_ok [of fcn hh h us x k vs s] key_at_frame [of hh s s'] by auto

interpretation append: keyed_table "hash_ok fcn hh" key_at "\<lambda>x s. live (handles s hh) x" "\<lambda>h p. HASH_FIND fcn hh h (fst p) (snd p)"
  "\<lambda>h p x. HASH_ADD_KEYPTR fcn hh h (fst p) (snd p) x" "HASH_DELETE hh" for fcn hh
proof (unfold_locales, goal_cases)
  case (1 h al s)
  then show ?case by (rule hash_ok_distinct)
next
  case (2 h al s p k)
  then show ?case unfolding key_at_def by (rule HASH_FIND_ok)
next
  case (3 h al s x p k h' s')
  have "hash_ok fcn hh h' (al @ [(x, k)]) s'" "ut_frame hh s s'"
    using HASH_ADD_KEYPTR_ok [OF 3(1,3,5,2), of "fst p" "snd p"] 3(4,6) by (auto simp: key_at_def)
  then show ?case using key_at_frame [of hh s s'] by (intro conjI exI [of _ al] exI [of _ "[]"] allI) simp_all
next
  case (4 h us x k vs s h' s')
  then show ?case by (rule delete_law)
qed

interpretation inorder: keyed_table "hash_ok fcn hh" key_at "\<lambda>x s. live (handles s hh) x" "\<lambda>h p. HASH_FIND fcn hh h (fst p) (snd p)"
  "\<lambda>h p x. HASH_ADD_KEYPTR_INORDER fcn hh h (fst p) (snd p) x cmpfcn" "HASH_DELETE hh" for fcn hh cmpfcn
proof (unfold_locales, goal_cases)
  case (1 h al s)
  then show ?case by (rule hash_ok_distinct)
next
  case (2 h al s p k)
  then show ?case unfolding key_at_def by (rule HASH_FIND_ok)
next
  case (3 h al s x p k h' s')
  have "hash_ok fcn hh h' (takeWhile (\<lambda>(y, _). cmpfcn y x \<le> 0) al @ (x, k) # dropWhile (\<lambda>(y, _). cmpfcn y x \<le> 0) al) s'" "ut_frame hh s s'"
    using HASH_ADD_KEYPTR_INORDER_ok [OF 3(1,3,5,2), of "fst p" "snd p" cmpfcn] 3(4,6) by (auto simp: key_at_def)
  then show ?case using key_at_frame [of hh s s']
    by (intro conjI exI [of _ "takeWhile (\<lambda>(y, _). cmpfcn y x \<le> 0) al"] exI [of _ "dropWhile (\<lambda>(y, _). cmpfcn y x \<le> 0) al"] allI) simp_all
next
  case (4 h us x k vs s h' s')
  then show ?case by (rule delete_law)
qed

section \<open>The operations as steps\<close>

text \<open>An element to be added comes with the address and the length of its key.\<close>

datatype ut_op =
    Op_Add addr addr "32 word"
  | Op_AddInorder addr addr "32 word"
  | Op_Replace addr addr "32 word"
  | Op_ReplaceInorder addr addr "32 word"
  | Op_Del addr
  | Op_Sort
  | Op_Clear
  | Op_Find addr "32 word"
  | Op_Count

datatype ut_res = No_Result | Element ptr | Count "32 word"

definition done_with :: "ut_res \<Rightarrow> (ptr \<times> ut_mem) option \<Rightarrow> (ut_res \<times> ptr \<times> ut_mem) outcome option" where
  "done_with r = map_option (\<lambda>(head, s). Ret (r, head, s))"

definition with_result :: "(ptr \<times> ut_mem) outcome option \<Rightarrow> (ut_res \<times> ptr \<times> ut_mem) outcome option" where
  "with_result = map_option (\<lambda>r. case r of Exit \<Rightarrow> Exit | Ret (head, s) \<Rightarrow> Ret (No_Result, head, s))"

definition with_element :: "(ptr \<times> ptr \<times> ut_mem) outcome option \<Rightarrow> (ut_res \<times> ptr \<times> ut_mem) outcome option" where
  "with_element = map_option (\<lambda>r. case r of Exit \<Rightarrow> Exit | Ret (e, head, s) \<Rightarrow> Ret (Element e, head, s))"

fun ut_exec :: "(byte list \<Rightarrow> 32 word) \<Rightarrow> (addr \<Rightarrow> addr \<Rightarrow> int) \<Rightarrow> hname \<Rightarrow> ut_op \<Rightarrow> ptr \<Rightarrow> ut_mem \<Rightarrow> (ut_res \<times> ptr \<times> ut_mem) outcome option" where
  "ut_exec fcn c hh (Op_Add x p n) head s = with_result (HASH_ADD_KEYPTR fcn hh head p n x s)"
| "ut_exec fcn c hh (Op_AddInorder x p n) head s = with_result (HASH_ADD_KEYPTR_INORDER fcn hh head p n x c s)"
| "ut_exec fcn c hh (Op_Replace x p n) head s = with_element (HASH_REPLACE fcn hh head p n x s)"
| "ut_exec fcn c hh (Op_ReplaceInorder x p n) head s = with_element (HASH_REPLACE_INORDER fcn hh head p n x c s)"
| "ut_exec fcn c hh (Op_Del x) head s = done_with No_Result (HASH_DELETE hh head x s)"
| "ut_exec fcn c hh Op_Sort head s = done_with No_Result (HASH_SRT hh head c s)"
| "ut_exec fcn c hh Op_Clear head s = done_with No_Result (HASH_CLEAR hh head s)"
| "ut_exec fcn c hh (Op_Find p n) head s = map_option (\<lambda>e. Ret (Element e, head, s)) (HASH_FIND fcn hh head p n s)"
| "ut_exec fcn c hh Op_Count head s = map_option (\<lambda>n. Ret (Count n, head, s)) (HASH_CNT hh head s)"

text \<open>The same operations on an association list of elements and keys; \<open>f\<close> is the order of the elements and \<open>ks\<close> gives the keys behind the pointers.\<close>

definition without_key :: "byte list \<Rightarrow> (addr \<times> byte list) list \<Rightarrow> (addr \<times> byte list) list" where
  "without_key k al = filter (\<lambda>(_, j). j \<noteq> k) al"

definition insert_inorder :: "(addr \<Rightarrow> 'o :: linorder) \<Rightarrow> addr \<times> byte list \<Rightarrow> (addr \<times> byte list) list \<Rightarrow> (addr \<times> byte list) list" where
  "insert_inorder f xk al = takeWhile (\<lambda>(y, _). f y \<le> f (fst xk)) al @ xk # dropWhile (\<lambda>(y, _). f y \<le> f (fst xk)) al"

definition lookup :: "byte list \<Rightarrow> (addr \<times> byte list) list \<Rightarrow> ptr" where
  "lookup k al = map_of (map (\<lambda>(x, k). (k, x)) al) k"

fun spec_exec :: "(addr \<Rightarrow> 'o :: linorder) \<Rightarrow> (addr \<Rightarrow> 32 word \<Rightarrow> byte list) \<Rightarrow> ut_op \<Rightarrow> (addr \<times> byte list) list \<Rightarrow> ut_res \<times> (addr \<times> byte list) list" where
  "spec_exec f ks (Op_Add x p n) al = (No_Result, al @ [(x, ks p n)])"
| "spec_exec f ks (Op_AddInorder x p n) al = (No_Result, insert_inorder f (x, ks p n) al)"
| "spec_exec f ks (Op_Replace x p n) al = (Element (lookup (ks p n) al), without_key (ks p n) al @ [(x, ks p n)])"
| "spec_exec f ks (Op_ReplaceInorder x p n) al = (Element (lookup (ks p n) al), insert_inorder f (x, ks p n) (without_key (ks p n) al))"
| "spec_exec f ks (Op_Del x) al = (No_Result, filter (\<lambda>(y, _). y \<noteq> x) al)"
| "spec_exec f ks Op_Sort al = (No_Result, sort_key (\<lambda>(y, _). f y) al)"
| "spec_exec f ks Op_Clear al = (No_Result, [])"
| "spec_exec f ks (Op_Find p n) al = (Element (lookup (ks p n) al), al)"
| "spec_exec f ks Op_Count al = (Count (word_of_nat (length al)), al)"

text \<open>What the program has to ensure: an element that it adds is its own and not yet in the table, its key can be read and is not yet in the table; an element that it deletes is in the table.\<close>

definition new_element :: "hname \<Rightarrow> addr \<Rightarrow> addr \<Rightarrow> 32 word \<Rightarrow> (addr \<times> byte list) list \<Rightarrow> ut_mem \<Rightarrow> bool" where
  "new_element hh x p n al s \<longleftrightarrow> live (handles s hh) x \<and> x \<notin> fst ` set al \<and> key_bytes p n s \<noteq> None \<and> the (key_bytes p n s) \<notin> snd ` set al"

definition new_or_same :: "hname \<Rightarrow> addr \<Rightarrow> addr \<Rightarrow> 32 word \<Rightarrow> (addr \<times> byte list) list \<Rightarrow> ut_mem \<Rightarrow> bool" where
  "new_or_same hh x p n al s \<longleftrightarrow> live (handles s hh) x \<and> key_bytes p n s \<noteq> None \<and> (x \<in> fst ` set al \<longrightarrow> (x, the (key_bytes p n s)) \<in> set al)"

fun op_legal :: "hname \<Rightarrow> ut_op \<Rightarrow> (addr \<times> byte list) list \<Rightarrow> ut_mem \<Rightarrow> bool" where
  "op_legal hh (Op_Add x p n) al s = new_element hh x p n al s"
| "op_legal hh (Op_AddInorder x p n) al s = new_element hh x p n al s"
| "op_legal hh (Op_Replace x p n) al s = new_or_same hh x p n al s"
| "op_legal hh (Op_ReplaceInorder x p n) al s = new_or_same hh x p n al s"
| "op_legal hh (Op_Del x) al s = (x \<in> fst ` set al)"
| "op_legal hh (Op_Find p n) al s = (key_bytes p n s \<noteq> None)"
| "op_legal hh _ al s = True"

lemma ends_in_with_result: "ends_in (with_result r) m P = ends_in r m (\<lambda>(head, s). P (No_Result, head, s))"
  by (auto simp: ends_in_def with_result_def split: option.split outcome.split)

lemma ends_in_with_element: "ends_in (with_element r) m P = ends_in r m (\<lambda>(e, head, s). P (Element e, head, s))"
  by (auto simp: ends_in_def with_element_def split: option.split outcome.split)

lemma ends_in_done_with: "ends_in (done_with v r) m P = (case r of None \<Rightarrow> False | Some (head, s) \<Rightarrow> P (v, head, s))"
  by (auto simp: ends_in_def done_with_def split: option.split)

lemma delete_filter:
  assumes "hash_ok fcn hh head al s" "x \<in> fst ` set al"
  obtains us k vs where "al = us @ (x, k) # vs" "filter (\<lambda>(y, _). y \<noteq> x) al = us @ vs"
proof -
  from assms(2) obtain us k vs where al: "al = us @ (x, k) # vs" by (metis imageE prod.collapse split_list)
  have "distinct (map fst al)" using assms(1) al by (auto simp: hash_ok_def list_ok_def)
  then have "x \<notin> fst ` set us" "x \<notin> fst ` set vs" by (auto simp: al)
  then have "filter (\<lambda>(y, _). y \<noteq> x) us = us" "filter (\<lambda>(y, _). y \<noteq> x) vs = vs" by (force simp: filter_id_conv)+
  with al that show thesis by simp
qed

text \<open>Every legal step of the table is the step on the list: it does not fault, and ends the process only for lack of memory.\<close>

lemma ut_exec_simulates:
  assumes "hash_ok fcn hh head al s" "op_legal hh op al s" and c: "\<And>a b. c a b \<le> 0 \<longleftrightarrow> f a \<le> (f b :: 'o :: linorder)"
  shows "ends_in (ut_exec fcn c hh op head s) (mem_short hh head s)
     (\<lambda>(r, head', s'). r = fst (spec_exec f (\<lambda>p n. the (key_bytes p n s)) op al) \<and> hash_ok fcn hh head' (snd (spec_exec f (\<lambda>p n. the (key_bytes p n s)) op al)) s' \<and> ut_frame hh s s')"
proof (cases op)
  case (Op_Add x p n)
  with assms(2) obtain k where "key_bytes p n s = Some k" by (auto simp: new_element_def new_or_same_def)
  with HASH_ADD_KEYPTR_ok [OF assms(1), of x k p n] assms(2) Op_Add show ?thesis by (simp add: new_element_def ends_in_with_result case_prod_unfold)
next
  case (Op_AddInorder x p n)
  with assms(2) obtain k where "key_bytes p n s = Some k" by (auto simp: new_element_def new_or_same_def)
  with HASH_ADD_KEYPTR_INORDER_ok [OF assms(1), of x k p n c] assms(2) Op_AddInorder show ?thesis by (simp add: new_element_def ends_in_with_result case_prod_unfold insert_inorder_def c)
next
  case (Op_Replace x p n)
  with assms(2) obtain k where "key_bytes p n s = Some k" by (auto simp: new_element_def new_or_same_def)
  with HASH_REPLACE_ok(1) [OF assms(1), of x p n k] assms(2) Op_Replace show ?thesis by (simp add: new_or_same_def ends_in_with_element case_prod_unfold without_key_def lookup_def)
next
  case (Op_ReplaceInorder x p n)
  with assms(2) obtain k where "key_bytes p n s = Some k" by (auto simp: new_element_def new_or_same_def)
  with HASH_REPLACE_ok(2) [OF assms(1), of x p n k c] assms(2) Op_ReplaceInorder show ?thesis
    by (simp add: new_or_same_def ends_in_with_element case_prod_unfold without_key_def lookup_def insert_inorder_def c)
next
  case (Op_Del x)
  with assms(2) delete_filter [OF assms(1), of x] obtain us k vs where "al = us @ (x, k) # vs" "filter (\<lambda>(y, _). y \<noteq> x) al = us @ vs" by auto
  with HASH_DELETE_ok [of fcn hh head us x k vs s] assms(1) Op_Del show ?thesis by (auto simp: ends_in_done_with)
next
  case Op_Sort
  with HASH_SRT_ok [where c = c and f = f, OF assms(1) c] show ?thesis by (auto simp: ends_in_done_with case_prod_unfold)
next
  case Op_Clear
  with HASH_CLEAR_ok [OF assms(1)] show ?thesis by (auto simp: ends_in_done_with)
next
  case (Op_Find p n)
  with assms(2) obtain k where "key_bytes p n s = Some k" by (auto simp: new_element_def new_or_same_def)
  with HASH_FIND_ok [OF assms(1)] Op_Find assms(1) show ?thesis by (simp add: lookup_def ut_frame_def)
next
  case Op_Count
  with HASH_CNT_ok [OF assms(1)] assms(1) show ?thesis by (simp add: ut_frame_def)
qed

text \<open>The states that a program can reach from the empty table, beside the list that it should hold.\<close>

inductive ut_reach :: "(byte list \<Rightarrow> 32 word) \<Rightarrow> (addr \<Rightarrow> addr \<Rightarrow> int) \<Rightarrow> (addr \<Rightarrow> 'o :: linorder) \<Rightarrow> hname \<Rightarrow> ut_mem \<Rightarrow> ptr \<Rightarrow> (addr \<times> byte list) list \<Rightarrow> ut_mem \<Rightarrow> bool"
  for fcn c f hh s0 where
  start: "ut_reach fcn c f hh s0 None [] s0"
| step: "ut_reach fcn c f hh s0 head al s \<Longrightarrow> op_legal hh op al s \<Longrightarrow> ut_exec fcn c hh op head s = Some (Ret (r, head', s')) \<Longrightarrow>
    ut_reach fcn c f hh s0 head' (snd (spec_exec f (\<lambda>p n. the (key_bytes p n s)) op al)) s'"

lemma ut_reach_ok:
  assumes "ut_reach fcn c f hh s0 head al s" "handles_fit hh s0" "\<And>a b. c a b \<le> 0 \<longleftrightarrow> f a \<le> (f b :: 'o :: linorder)"
  shows "hash_ok fcn hh head al s"
  using assms(1)
proof induction
  case start
  then show ?case using assms(2) by (simp add: hash_ok_def keys_ok_def)
next
  case (step head al s op r head' s')
  then show ?case using ut_exec_simulates [where c = c and f = f, OF step.IH step.hyps(2) assms(3)] by simp
qed

section \<open>Expansion keeps the table\<close>

lemma hash_ok_same_list:
  assumes "hash_ok fcn hh head al s" "al \<noteq> []" "same_list hh s s'" "wf_table hh t tb' (fst ` set al) s'" "tail tb' = Some (last (map fst al))" "num_items tb' = word_of_nat (length al)"
  shows "hash_ok fcn hh head al s'"
proof -
  from assms(3) obtain pr nx where f: "handles s' hh = (handles s hh)\<lparr>hh_prev := pr, hh_next := nx\<rparr>" "kmem s' = kmem s" by (auto simp: same_list_def)
  from assms(1,2) have "distinct (map fst al)" "dls (app_prev (handles s hh)) (app_next (handles s hh)) None (map fst al) None" by (auto simp: hash_ok_def list_ok_def)
  then have "list_ok hh t tb' (map fst al) s'" using assms(4-6) f by (simp add: list_ok_def)
  moreover have ko: "keys_ok fcn hh al s" "distinct (map snd al)" using assms(1) by (simp_all add: hash_ok_def keys_ok_def)
  have "keys_ok fcn hh al s'" by (rule keys_ok_subset [OF ko(1) order_refl ko(2)]) (simp_all add: f)
  ultimately show ?thesis using assms(1) f by (auto simp: hash_ok_def handles_fit_def)
qed

lemma bucket_counts:
  assumes "wf_buckets hh tb S k b bs D s" "finite S" "card S < 2 ^ 30"
  shows "length bs = 2 ^ k" "map (\<lambda>bk. unat (bkt_count bk)) bs = map (\<lambda>i. length (D i)) [0..<2 ^ k]"
proof -
  show n: "length bs = 2 ^ k" using assms(1) by (simp add: wf_buckets_def)
  have D: "distinct (D i)" "set (D i) \<subseteq> S" for i using assms(1) by (auto simp: wf_buckets_def spread_def)
  have "length (D i) < 2 ^ 30" for i using D [of i] assms(2,3) by (metis card_mono distinct_card order_le_less_trans)
  then have "unat (word_of_nat (length (D i)) :: 32 word) = length (D i)" for i by (simp add: unat_of_nat take_bit_eq_mod order_less_trans [of _ "2 ^ 30" "4294967296 :: nat"])
  then have "unat (bkt_count (bs ! i)) = length (D i)" if "i < length bs" for i using that assms(1) by (simp add: wf_buckets_def linked_def)
  then show "map (\<lambda>bk. unat (bkt_count bk)) bs = map (\<lambda>i. length (D i)) [0..<2 ^ k]" by (simp add: list_eq_iff_nth_eq n)
qed

section \<open>Evaluating the macros\<close>

text \<open>A memory with three elements, each of which is its own key of one byte.\<close>

definition no_handle :: UT_hash_handle where
  "no_handle = \<lparr>live = (\<lambda>a. a \<in> {1, 2, 3}), tbl = (\<lambda>_. None), app_prev = (\<lambda>_. None), app_next = (\<lambda>_. None), hh_prev = (\<lambda>_. None), hh_next = (\<lambda>_. None),
     key = (\<lambda>_. 0), keylen = (\<lambda>_. 0), hashv = (\<lambda>_. 0)\<rparr>"

definition demo :: ut_mem where
  "demo = \<lparr>brk = 10, alloc_fails = (\<lambda>_. False), junk = (\<lambda>_ _. 0), handles = (\<lambda>_. no_handle), tables = (\<lambda>_. None), barrays = (\<lambda>_. None), kmem = (\<lambda>a. Some [word_of_nat a])\<rparr>"

definition by_address :: "addr \<Rightarrow> addr \<Rightarrow> int" where
  "by_address a b = int a - int b"

lemma select_loop_numeral: "select_loop hdst hsrc src cond i (numeral v) dst l s = do {
     t \<leftarrow> tbl_of hsrc src s;
     tb \<leftarrow> get_table t s;
     bkt \<leftarrow> get_bkt (buckets tb) (word_of_nat i) s;
     r \<leftarrow> select_chain hdst hsrc cond (hh_head bkt) dst l s;
     (case r of Exit \<Rightarrow> Some Exit
      | Ret (dst, l, s) \<Rightarrow> select_loop hdst hsrc src cond (Suc i) (pred_numeral v) dst l s) }"
  unfolding numeral_eq_Suc by (rule select_loop.simps)

lemma fsck_buckets_numeral: "fsck_buckets hh b i (numeral v) cnt s = do {
     bkt \<leftarrow> get_bkt b (word_of_nat i) s;
     (ok, bkt_cnt) \<leftarrow> fsck_chain hh None (hh_head bkt) 0 s;
     if \<not> ok \<or> bkt_count bkt \<noteq> bkt_cnt then Some (False, cnt)
     else fsck_buckets hh b (Suc i) (pred_numeral v) (cnt + bkt_cnt) s }"
  unfolding numeral_eq_Suc by (rule fsck_buckets.simps)

lemmas ut_eval = HASH_VALUE_def key_bytes_def read_bytes_def uthash_malloc_def malloc_def setters tbl_of_def set_table_def get_table_def set_bkt_def get_bkt_def HASH_TO_BKT_def
  HASH_INITIAL_NUM_BUCKETS_def zero_table_def zero_bucket_def HASH_BKT_CAPACITY_THRESH_def HASH_INITIAL_NUM_BUCKETS_LOG2_def Let_def word_le_nat_alt
  HASH_ADD_KEYPTR_def HASH_ADD_KEYPTR_BYHASHVALUE_def add_first_def HASH_MAKE_TABLE_def add_finish_def HASH_ADD_TO_BKT_def HASH_APPEND_LIST_def HASH_BER_def HASH_CNT_def
  demo_def no_handle_def

lemmas ut_loops = select_chain.simps [of _ _ _ None] select_chain.simps [of _ _ _ "Some a" for a] fsck_chain.simps [of _ _ None] fsck_chain.simps [of _ _ "Some a" for a]
  fsck_list.simps [of _ _ None] fsck_list.simps [of _ _ "Some a" for a] iter_loop.simps [of _ _ _ None] iter_loop.simps [of _ _ _ "Some a" for a] select_loop_numeral fsck_buckets_numeral

lemma demo_fits: "handles_fit hh demo"
proof -
  have "Collect (live (handles demo hh)) = {1, 2, 3}" by (auto simp: demo_def no_handle_def)
  then show ?thesis by (simp add: handles_fit_def)
qed

lemma demo_reach: "\<exists>s. ut_reach HASH_BER by_address int 0 demo (Some 2) [(2, [2]), (1, [1])] s"
proof -
  have "\<exists>s1 s2. HASH_ADD_KEYPTR HASH_BER 0 None 2 1 2 demo = Some (Ret (Some 2, s1)) \<and> HASH_ADD_KEYPTR HASH_BER 0 (Some 2) 1 1 1 s1 = Some (Ret (Some 2, s2)) \<and>
     key_bytes 1 1 s1 = Some [1] \<and> live (handles s1 0) 1"
    by (simp add: ut_eval)
  then obtain s1 s2 where s: "ut_exec HASH_BER by_address 0 (Op_Add 2 2 1) None demo = Some (Ret (No_Result, Some 2, s1))"
    "ut_exec HASH_BER by_address 0 (Op_Add 1 1 1) (Some 2) s1 = Some (Ret (No_Result, Some 2, s2))" "key_bytes 1 1 s1 = Some [1]" "live (handles s1 0) 1"
    by (auto simp: with_result_def)
  have k: "key_bytes 2 1 demo = Some [2]" "live (handles demo 0) 2" by (simp_all add: ut_eval)
  have "ut_reach HASH_BER by_address int 0 demo (Some 2) [(2, [2])] s1"
    using ut_reach.step [OF ut_reach.start _ s(1)] k by (simp add: new_element_def)
  from ut_reach.step [OF this _ s(2)] s(3,4) show ?thesis by (auto simp: new_element_def)
qed

lemma demo_ok: "\<exists>s. hash_ok HASH_BER 0 (Some 2) [(2, [2]), (1, [1])] s"
  using demo_reach ut_reach_ok [where f = int, OF _ demo_fits] by (fastforce simp: by_address_def)

section \<open>The properties of the table\<close>

text \<open>C17: From the empty table, whatever sequence of adding, adding in order, replacing, deleting, sorting, clearing, finding and counting a program runs, with elements of its own and keys that
  differ: the table holds the elements and keys of the association list on which the same operations are run, in its order; the integrity check of the header accepts it; every further operation that the
  program may call ends without a fault with the result that it has on the list, unless an allocation fails or the array of buckets would need 2 GB; and a loop over the table that deletes and frees each
  element visits every element once, in order, and leaves the empty table.\<close>

theorem uthash_refines_map:
  assumes "ut_reach fcn c f hh s0 head al s" "handles_fit hh s0" "\<forall>a b. c a b \<le> 0 \<longleftrightarrow> f a \<le> (f b :: 'o :: linorder)"
  shows "hash_ok fcn hh head al s \<and> HASH_FSCK hh head s = Some True \<and>
     (\<forall>op. op_legal hh op al s \<longrightarrow>
        ends_in (ut_exec fcn c hh op head s) (mem_short hh head s) (\<lambda>(r, head', s'). r = fst (spec_exec f (\<lambda>p n. the (key_bytes p n s)) op al))) \<and>
     (\<exists>s'. HASH_ITER hh (delete_and_free hh) snd head (head, s) = Some (map fst al, None, s'))"
proof -
  have ok: "hash_ok fcn hh head al s" using ut_reach_ok [OF assms(1,2)] assms(3) by blast
  have "ends_in (ut_exec fcn c hh op head s) (mem_short hh head s) (\<lambda>(r, head', s'). r = fst (spec_exec f (\<lambda>p n. the (key_bytes p n s)) op al))" if "op_legal hh op al s" for op
    using ut_exec_simulates [where c = c and f = f, OF ok that] assms(3) by (auto simp: ends_in_def split: option.splits outcome.splits)
  with ok HASH_FSCK_ok [OF ok] HASH_ITER_delete_all [OF ok] show ?thesis by blast
qed

theorem uthash_refines_map_witness:
  "\<exists>s. HASH_FSCK 0 (Some 2) s = Some True \<and> ends_in (ut_exec HASH_BER by_address 0 Op_Count (Some 2) s) (mem_short 0 (Some 2) s) (\<lambda>(r, head', s'). r = Count 2) \<and>
     (\<exists>s'. HASH_ITER 0 (delete_and_free 0) snd (Some 2) (Some 2, s) = Some ([2, 1], None, s'))"
proof -
  obtain s where s: "ut_reach HASH_BER by_address int 0 demo (Some 2) [(2, [2]), (1, [1])] s" using demo_reach by blast
  have "\<forall>a b. by_address a b \<le> 0 \<longleftrightarrow> int a \<le> int b" by (simp add: by_address_def)
  from uthash_refines_map [OF s demo_fits this] have
    "HASH_FSCK 0 (Some 2) s = Some True" "\<exists>s'. HASH_ITER 0 (delete_and_free 0) snd (Some 2) (Some 2, s) = Some ([2, 1], None, s')"
    "ends_in (ut_exec HASH_BER by_address 0 Op_Count (Some 2) s) (mem_short 0 (Some 2) s) (\<lambda>(r, head', s'). r = Count 2)"
    by (auto dest!: spec [of _ Op_Count] simp del: ut_exec.simps)
  then show ?thesis by blast
qed

text \<open>C18: The merge sort that relinks the list in place ends for every well-formed table and gives the stable sort of its elements, with the table well formed as before: the loop over runs that double in
  length is the sort of the library, for every comparison function that agrees with a linear order of some attribute of the elements.\<close>

theorem uthash_sort_stable:
  assumes "hash_ok fcn hh head al s" "\<forall>a b. c a b \<le> 0 \<longleftrightarrow> f a \<le> (f b :: 'o :: linorder)"
  shows "\<exists>head' s'. HASH_SRT hh head c s = Some (head', s') \<and> hash_ok fcn hh head' (sort_key (\<lambda>(x, _). f x) al) s' \<and> ut_frame hh s s'"
  using HASH_SRT_ok [where c = c and f = f, OF assms(1)] assms(2) by (simp add: case_prod_unfold)

theorem uthash_sort_stable_witness: "\<exists>s head' s'. HASH_SRT 0 (Some 2) by_address s = Some (head', s') \<and> hash_ok HASH_BER 0 head' [(1, [1]), (2, [2])] s'"
proof -
  obtain s where s: "hash_ok HASH_BER 0 (Some 2) [(2, [2]), (1, [1])] s" using demo_ok by blast
  have "\<forall>a b. by_address a b \<le> 0 \<longleftrightarrow> int a \<le> int b" by (simp add: by_address_def)
  from uthash_sort_stable [OF s this] show ?thesis by auto
qed

text \<open>C19: Doubling the buckets keeps the map and its order.  It ends the process only for lack of memory; otherwise every item is in one of twice as many buckets, the ideal length of a chain is the number of
  items divided by the number of buckets, rounded up, the items beyond it are counted exactly, and expansion is given up after the second time in a row that this count exceeds half of the items.\<close>

theorem uthash_expansion:
  assumes "hash_ok fcn hh (Some h) al s"
  shows "\<exists>t tb. tbl (handles s hh) h = Some t \<and> tables s t = Some tb \<and>
     ends_in (HASH_EXPAND_BUCKETS (Some t) s) (mem_short hh (Some h) s) (\<lambda>s'.
       hash_ok fcn hh (Some h) al s' \<and>
       (\<exists>tb' b bs. tables s' t = Some tb' \<and> buckets tb' = Some b \<and> barrays s' b = Some bs \<and>
          num_buckets tb' = 2 * num_buckets tb \<and> length bs = unat (num_buckets tb') \<and> (\<Sum>bk \<leftarrow> bs. unat (bkt_count bk)) = length al \<and>
          unat (ideal_chain_maxlen tb') = (length al + length bs - 1) div length bs \<and>
          unat (nonideal_items tb') = (\<Sum>bk \<leftarrow> bs. unat (bkt_count bk) - unat (ideal_chain_maxlen tb')) \<and>
          ineff_expands tb' = (if length al div 2 < unat (nonideal_items tb') then ineff_expands tb + 1 else 0) \<and>
          noexpand tb' = (if 1 < ineff_expands tb' then 1 else noexpand tb)))"
  using assms
proof (cases rule: hash_ok_cases)
  case (2 t tb h')
  have h: "al \<noteq> []" "tbl (handles s hh) h = Some t" "tables s t = Some tb" using 2 by auto
  have l: "wf_table hh t tb (fst ` set al) s" "num_items tb = word_of_nat (length al)" "tail tb = Some (last (map fst al))" "distinct (map fst al)" using 2(4) by (auto simp: list_ok_def)
  have c: "card (fst ` set al) = length al" using distinct_card [OF l(4)] by simp
  have n: "length al < 2 ^ 27" using HASH_CNT_ok(2) [OF assms] .
  have n30: "card (fst ` set al) < 2 ^ 30" using n by (simp add: c)
  have short: "mem_short hh (Some h) s \<longleftrightarrow> \<not> no_oom s \<or> num_buckets tb = 2 ^ 27" using mem_short_list [OF 2(4)] 2(1-3) by simp
  from HASH_EXPAND_BUCKETS_wf [OF l(1) _ _ n30] l(2) 2(1) c consider "HASH_EXPAND_BUCKETS (Some t) s = Some Exit" "mem_short hh (Some h) s"
    | s' tb' k D where "HASH_EXPAND_BUCKETS (Some t) s = Some (Ret s')" "expanded hh t tb (fst ` set al) k tb' D s s'" unfolding short by auto
  then show ?thesis
  proof cases
    case 1
    then show ?thesis using 2 by auto
  next
    case (2 s' tb' k D)
    note e = 2(2) [unfolded expanded_def]
    from e obtain b bs where w: "wf_buckets hh tb' (fst ` set al) k b bs D s'" by blast
    note b = bucket_counts [OF w finite_imageI [OF finite_set] n30]
    have "hash_ok fcn hh (Some h) al s'"
      using hash_ok_same_list [OF assms _ _ expanded_wf [OF 2(2) l(1)]] e l(2,3) h(1) by auto
    moreover have "(\<Sum>bk \<leftarrow> bs. g (unat (bkt_count bk))) = (\<Sum>i < 2 ^ k. g (length (D i)))" for g :: "nat \<Rightarrow> nat"
    proof -
      have "map (\<lambda>bk. g (unat (bkt_count bk))) bs = map (\<lambda>i. g (length (D i))) [0..<2 ^ k]" using arg_cong [OF b(2), of "map g"] by (simp add: comp_def)
      then show ?thesis by (simp add: interv_sum_list_conv_sum_set_nat lessThan_atLeast0)
    qed
    note this [of "\<lambda>x. x"] this [of "\<lambda>x. x - unat (ideal_chain_maxlen tb')"]
    moreover have "(\<Sum>i < 2 ^ k. length (D i)) = length al" using spread_card [of k "handles s' hh" "fst ` set al" D] w c by (simp add: wf_buckets_def)
    moreover have "unat (num_buckets tb') = length bs" "buckets tb' = Some b" "barrays s' b = Some bs" using w by (auto simp: wf_buckets_def unat_pow2)
    ultimately show ?thesis using 2(1) e c b(1) h
      by (intro exI [of _ t] exI [of _ tb] conjI) (simp_all add: beyond_def)
  qed
qed simp

theorem uthash_expansion_witness:
  "\<exists>s t. tbl (handles s 0) 2 = Some t \<and> ends_in (HASH_EXPAND_BUCKETS (Some t) s) (mem_short 0 (Some 2) s) (\<lambda>s'. hash_ok HASH_BER 0 (Some 2) [(2, [2]), (1, [1])] s')"
proof -
  obtain s where s: "hash_ok HASH_BER 0 (Some 2) [(2, [2]), (1, [1])] s" using demo_ok by blast
  from uthash_expansion [OF s] show ?thesis by (force simp: ends_in_def split: option.splits outcome.splits)
qed


end
