(* ===== verification/UtHashBloom.thy ===== *)
theory UtHashBloom
  imports UtHash
begin

unbundle bit_operations_syntax

text \<open>
  The bloom filter of \<open>src/include/uthash.h\<close>, which a table has when a program defines \<open>HASH_BLOOM\<close>, the number \<open>n\<close> of bits of the hash value that it uses: a vector of bits with one bit for each
  value of these bits.  The filter may make a search unnecessary; it must never hide an item.
\<close>

definition HASH_BLOOM_BITLEN :: "nat \<Rightarrow> nat" where
  "HASH_BLOOM_BITLEN n = 2 ^ n"

definition HASH_BLOOM_BYTELEN :: "nat \<Rightarrow> nat" where
  "HASH_BLOOM_BYTELEN n = HASH_BLOOM_BITLEN n div 8 + (if HASH_BLOOM_BITLEN n mod 8 \<noteq> 0 then 1 else 0)"

text \<open>A new table gets an empty filter; \<open>p\<close> is what the allocator returned.\<close>

definition HASH_BLOOM_MAKE :: "nat \<Rightarrow> ptr \<Rightarrow> byte list outcome" where
  "HASH_BLOOM_MAKE n p = (if p = None then Exit else Ret (replicate (HASH_BLOOM_BYTELEN n) 0))"

definition HASH_BLOOM_BITSET :: "byte list \<Rightarrow> nat \<Rightarrow> byte list option" where
  "HASH_BLOOM_BITSET bv idx = (if idx div 8 < length bv then Some (bv[idx div 8 := bv ! (idx div 8) OR push_bit (idx mod 8) 1]) else None)"

definition HASH_BLOOM_BITTEST :: "byte list \<Rightarrow> nat \<Rightarrow> bool option" where
  "HASH_BLOOM_BITTEST bv idx = (if idx div 8 < length bv then Some (bv ! (idx div 8) AND push_bit (idx mod 8) 1 \<noteq> 0) else None)"

definition bloom_idx :: "nat \<Rightarrow> 32 word \<Rightarrow> nat" where
  "bloom_idx n hv = unat (hv AND word_of_nat (2 ^ n - 1))"

definition HASH_BLOOM_ADD :: "nat \<Rightarrow> byte list \<Rightarrow> 32 word \<Rightarrow> byte list option" where
  "HASH_BLOOM_ADD n bv hv = HASH_BLOOM_BITSET bv (bloom_idx n hv)"

definition HASH_BLOOM_TEST :: "nat \<Rightarrow> byte list \<Rightarrow> 32 word \<Rightarrow> bool option" where
  "HASH_BLOOM_TEST n bv hv = HASH_BLOOM_BITTEST bv (bloom_idx n hv)"

fun bloom_add_all :: "nat \<Rightarrow> byte list \<Rightarrow> 32 word list \<Rightarrow> byte list option" where
  "bloom_add_all n bv [] = Some bv"
| "bloom_add_all n bv (hv # hvs) = Option.bind (HASH_BLOOM_ADD n bv hv) (\<lambda>bv. bloom_add_all n bv hvs)"

lemma bloom_idx_less: "n \<le> 31 \<Longrightarrow> bloom_idx n hv < 2 ^ n"
proof -
  assume n: "n \<le> 31"
  have "(word_of_nat (2 ^ n - 1) :: 32 word) = mask n" by (simp add: mask_eq_exp_minus_1 of_nat_diff)
  then have "bloom_idx n hv = unat (take_bit n hv)" by (simp add: bloom_idx_def take_bit_eq_mask)
  also have "\<dots> = take_bit n (unat hv)" by (simp add: unsigned_take_bit_eq)
  also have "\<dots> < 2 ^ n" by (rule take_bit_nat_less_exp)
  finally show ?thesis .
qed

lemma bloom_idx_in_range: "n \<le> 31 \<Longrightarrow> bloom_idx n hv div 8 < HASH_BLOOM_BYTELEN n"
proof -
  assume "n \<le> 31"
  then have "bloom_idx n hv < 2 ^ n" by (rule bloom_idx_less)
  moreover have "(2 :: nat) ^ n = 2 ^ n div 8 * 8 + 2 ^ n mod 8" by simp
  ultimately show ?thesis by (auto simp: HASH_BLOOM_BYTELEN_def HASH_BLOOM_BITLEN_def less_mult_imp_div_less)
qed

lemma bit_set_test: "(w OR push_bit j 1 :: byte) AND push_bit i 1 \<noteq> 0 \<longleftrightarrow> w AND push_bit i 1 \<noteq> 0 \<or> (i = j \<and> i < 8)"
  unfolding bit_iff_and_push_bit_not_eq_0 [symmetric] by (auto simp: bit_simps)

lemma HASH_BLOOM_ADD_ok:
  assumes "n \<le> 31" "length bv = HASH_BLOOM_BYTELEN n"
  shows "\<exists>bv'. HASH_BLOOM_ADD n bv hv = Some bv' \<and> length bv' = HASH_BLOOM_BYTELEN n \<and>
     (\<forall>h. HASH_BLOOM_TEST n bv' h = map_option (\<lambda>b. b \<or> bloom_idx n h = bloom_idx n hv) (HASH_BLOOM_TEST n bv h))"
proof -
  let ?i = "bloom_idx n hv"
  let ?bv = "bv[?i div 8 := bv ! (?i div 8) OR push_bit (?i mod 8) 1]"
  have r: "bloom_idx n h div 8 < length bv" for h using bloom_idx_in_range [OF assms(1)] assms(2) by simp
  have "HASH_BLOOM_TEST n ?bv h = map_option (\<lambda>b. b \<or> bloom_idx n h = ?i) (HASH_BLOOM_TEST n bv h)" for h
  proof (cases "bloom_idx n h div 8 = ?i div 8")
    case True
    then have "bloom_idx n h = ?i \<longleftrightarrow> bloom_idx n h mod 8 = ?i mod 8" by (metis div_mult_mod_eq)
    with r [of h] r [of hv] True bit_set_test [of "bv ! (?i div 8)" "?i mod 8" "bloom_idx n h mod 8"] show ?thesis
      by (auto simp: HASH_BLOOM_TEST_def HASH_BLOOM_BITTEST_def)
  next
    case False
    then have "bloom_idx n h \<noteq> ?i" by metis
    with r [of h] False show ?thesis by (simp add: HASH_BLOOM_TEST_def HASH_BLOOM_BITTEST_def)
  qed
  with r [of hv] assms(2) show ?thesis by (auto simp: HASH_BLOOM_ADD_def HASH_BLOOM_BITSET_def)
qed

text \<open>After any additions to an empty filter the test holds exactly for the hash values that agree with an added one in the bits that the filter uses: an item is never hidden.\<close>

lemma bloom_add_all_ok:
  assumes "n \<le> 31" "length bv = HASH_BLOOM_BYTELEN n"
  shows "\<exists>bv'. bloom_add_all n bv hvs = Some bv' \<and>
     (\<forall>h. HASH_BLOOM_TEST n bv' h = map_option (\<lambda>b. b \<or> bloom_idx n h \<in> bloom_idx n ` set hvs) (HASH_BLOOM_TEST n bv h))"
  using assms(2)
proof (induction hvs arbitrary: bv)
  case (Cons hv hvs)
  from HASH_BLOOM_ADD_ok [OF assms(1) Cons.prems, of hv] obtain bv1 where
    b1: "HASH_BLOOM_ADD n bv hv = Some bv1" "length bv1 = HASH_BLOOM_BYTELEN n"
      "\<forall>h. HASH_BLOOM_TEST n bv1 h = map_option (\<lambda>b. b \<or> bloom_idx n h = bloom_idx n hv) (HASH_BLOOM_TEST n bv h)" by blast
  from Cons.IH [OF b1(2)] b1(1,3) show ?case by (auto simp: option.map_comp comp_def)
qed (simp add: option.map_ident)

lemma bloom_exact:
  assumes "n \<le> 31" "HASH_BLOOM_MAKE n p = Ret bv"
  shows "\<exists>bv'. bloom_add_all n bv hvs = Some bv' \<and> (\<forall>h. HASH_BLOOM_TEST n bv' h = Some (bloom_idx n h \<in> bloom_idx n ` set hvs))"
proof -
  have bv: "bv = replicate (HASH_BLOOM_BYTELEN n) 0" using assms(2) by (simp add: HASH_BLOOM_MAKE_def split: if_splits)
  have "HASH_BLOOM_TEST n bv h = Some False" for h using bloom_idx_in_range [OF assms(1), of h] by (simp add: HASH_BLOOM_TEST_def HASH_BLOOM_BITTEST_def bv)
  with bloom_add_all_ok [OF assms(1), of bv hvs] show ?thesis by (simp add: bv)
qed

end
