(* ===== verification/AvlTree.thy ===== *)
theory AvlTree
  imports UboxList
begin

text \<open>
  The part of \<open>src/include/libubox/avl.h\<close> that is compiled into a program: the tree object, the tests on it and the iteration macros.  The nodes of a tree are
  also linked, in the order of their keys, into a list of \<open>libubox/list.h\<close>, over which the macros run.  The functions that search and change the tree are in the library
  and are arguments here.  A node stands for the element that contains it, so that \<open>container_of\<close> only changes the type; it is applied to the head of the list as well.  The comparison function of a tree includes the
  pointer \<open>cmp_ptr\<close> that it gets.
\<close>

section \<open>The macros\<close>

record ('l, 'k) avl_tree =
  list_head :: 'l
  root :: "'l option"
  avl_count :: "32 word"
  allow_dups :: bool
  comp :: "'k \<Rightarrow> 'k \<Rightarrow> int"

datatype avl_find_mode = AVL_FIND_EQUAL | AVL_FIND_LESSEQUAL | AVL_FIND_GREATEREQUAL

definition AVL_TREE_INIT :: "'l \<Rightarrow> ('k \<Rightarrow> 'k \<Rightarrow> int) \<Rightarrow> bool \<Rightarrow> 'l links \<Rightarrow> ('l, 'k) avl_tree \<times> 'l links" where
  "AVL_TREE_INIT head cmp dups L = (\<lparr>list_head = head, root = None, avl_count = 0, allow_dups = dups, comp = cmp\<rparr>, INIT_LIST_HEAD_ubox head L)"

definition avl_is_first :: "('l, 'k) avl_tree \<Rightarrow> 'l \<Rightarrow> 'l links \<Rightarrow> bool" where
  "avl_is_first tree node L \<longleftrightarrow> lnext L (list_head tree) = Some node"

definition avl_is_last :: "('l, 'k) avl_tree \<Rightarrow> 'l \<Rightarrow> 'l links \<Rightarrow> bool" where
  "avl_is_last tree node L \<longleftrightarrow> lprev L (list_head tree) = Some node"

definition avl_is_empty :: "('l, 'k) avl_tree \<Rightarrow> bool" where
  "avl_is_empty tree \<longleftrightarrow> avl_count tree = 0"

text \<open>\<open>__avl_find_element\<close> and the three macros around it, with the search functions of the library.\<close>

record ('l, 'k) avl_search =
  avl_find :: "('l, 'k) avl_tree \<Rightarrow> 'k \<Rightarrow> 'l option"
  avl_find_lessequal :: "('l, 'k) avl_tree \<Rightarrow> 'k \<Rightarrow> 'l option"
  avl_find_greaterequal :: "('l, 'k) avl_tree \<Rightarrow> 'k \<Rightarrow> 'l option"

definition avl_find_by_mode :: "('l, 'k) avl_search \<Rightarrow> ('l, 'k) avl_tree \<Rightarrow> 'k \<Rightarrow> avl_find_mode \<Rightarrow> 'l option" where
  "avl_find_by_mode lib tree key mode =
     (case mode of
        AVL_FIND_EQUAL \<Rightarrow> avl_find lib tree key
      | AVL_FIND_LESSEQUAL \<Rightarrow> avl_find_lessequal lib tree key
      | AVL_FIND_GREATEREQUAL \<Rightarrow> avl_find_greaterequal lib tree key)"

definition avl_first_element :: "('l, 'k) avl_tree \<Rightarrow> 'l links \<Rightarrow> 'l option" where
  "avl_first_element tree L = lnext L (list_head tree)"

definition avl_last_element :: "('l, 'k) avl_tree \<Rightarrow> 'l links \<Rightarrow> 'l option" where
  "avl_last_element tree L = lprev L (list_head tree)"

definition avl_next_element :: "'l option \<Rightarrow> 'l links \<Rightarrow> 'l option" where
  "avl_next_element element L = Option.bind element (lnext L)"

definition avl_prev_element :: "'l option \<Rightarrow> 'l links \<Rightarrow> 'l option" where
  "avl_prev_element element L = Option.bind element (lprev L)"

text \<open>The loops.  \<open>nx\<close> leads to the next element and \<open>pv\<close> back; the loop ends at the element behind \<open>lst\<close>.  A null element is dereferenced by the condition.\<close>

partial_function (option) range_loop :: "('l \<Rightarrow> 'l option) \<Rightarrow> ('l \<Rightarrow> 'l option) \<Rightarrow> 'l option \<Rightarrow> 'l option \<Rightarrow> 'l list option" where
  "range_loop nx pv lst element =
     (case element of
        None \<Rightarrow> None
      | Some e \<Rightarrow> if pv e = lst then Some [] else Option.bind (range_loop nx pv lst (nx e)) (\<lambda>xs. Some (e # xs)))"

definition avl_for_element_range :: "'l option \<Rightarrow> 'l option \<Rightarrow> 'l links \<Rightarrow> 'l list option" where
  "avl_for_element_range first lst L = range_loop (lnext L) (lprev L) lst first"

definition avl_for_element_range_reverse :: "'l option \<Rightarrow> 'l option \<Rightarrow> 'l links \<Rightarrow> 'l list option" where
  "avl_for_element_range_reverse first lst L = range_loop (lprev L) (lnext L) first lst"

definition avl_for_each_element :: "('l, 'k) avl_tree \<Rightarrow> 'l links \<Rightarrow> 'l list option" where
  "avl_for_each_element tree L = avl_for_element_range (avl_first_element tree L) (avl_last_element tree L) L"

definition avl_for_each_element_reverse :: "('l, 'k) avl_tree \<Rightarrow> 'l links \<Rightarrow> 'l list option" where
  "avl_for_each_element_reverse tree L = avl_for_element_range_reverse (avl_first_element tree L) (avl_last_element tree L) L"

definition avl_for_element_to_last :: "('l, 'k) avl_tree \<Rightarrow> 'l option \<Rightarrow> 'l links \<Rightarrow> 'l list option" where
  "avl_for_element_to_last tree first L = avl_for_element_range first (avl_last_element tree L) L"

definition avl_for_element_to_last_reverse :: "('l, 'k) avl_tree \<Rightarrow> 'l option \<Rightarrow> 'l links \<Rightarrow> 'l list option" where
  "avl_for_element_to_last_reverse tree first L = avl_for_element_range_reverse first (avl_last_element tree L) L"

definition avl_for_first_to_element :: "('l, 'k) avl_tree \<Rightarrow> 'l option \<Rightarrow> 'l links \<Rightarrow> 'l list option" where
  "avl_for_first_to_element tree lst L = avl_for_element_range (avl_first_element tree L) lst L"

definition avl_for_first_to_element_reverse :: "('l, 'k) avl_tree \<Rightarrow> 'l option \<Rightarrow> 'l links \<Rightarrow> 'l list option" where
  "avl_for_first_to_element_reverse tree lst L = avl_for_element_range_reverse (avl_first_element tree L) lst L"

text \<open>The safe loops: \<open>ptr\<close> is fetched before the body runs, which may take the element out of the list.  The bound is an expression of the program, which the condition evaluates again in every round.\<close>

partial_function (option) safe_loop :: "('l links \<Rightarrow> 'l \<Rightarrow> 'l option) \<Rightarrow> ('l links \<Rightarrow> 'l \<Rightarrow> 'l option) \<Rightarrow> ('l links \<Rightarrow> 'l option) \<Rightarrow> ('l \<Rightarrow> 'l links \<Rightarrow> 'l links option) \<Rightarrow>
    'l option \<Rightarrow> 'l option \<Rightarrow> 'l links \<Rightarrow> ('l list \<times> 'l links) option" where
  "safe_loop nx pv bound body element ptr L =
     (case element of
        None \<Rightarrow> None
      | Some e \<Rightarrow>
          if pv L e = bound L then Some ([], L)
          else Option.bind (body e L) (\<lambda>L.
            Option.bind ptr (\<lambda>p.
              Option.bind (safe_loop nx pv bound body ptr (nx L p) L) (\<lambda>(xs, L). Some (e # xs, L)))))"

definition avl_for_element_range_safe :: "('l \<Rightarrow> 'l links \<Rightarrow> 'l links option) \<Rightarrow> ('l links \<Rightarrow> 'l option) \<Rightarrow> ('l links \<Rightarrow> 'l option) \<Rightarrow> 'l links \<Rightarrow> ('l list \<times> 'l links) option" where
  "avl_for_element_range_safe body first_element last_element L =
     Option.bind (first_element L) (\<lambda>f. safe_loop lnext lprev last_element body (Some f) (avl_next_element (Some f) L) L)"

definition avl_for_element_range_reverse_safe :: "('l \<Rightarrow> 'l links \<Rightarrow> 'l links option) \<Rightarrow> ('l links \<Rightarrow> 'l option) \<Rightarrow> ('l links \<Rightarrow> 'l option) \<Rightarrow> 'l links \<Rightarrow> ('l list \<times> 'l links) option" where
  "avl_for_element_range_reverse_safe body first_element last_element L =
     Option.bind (last_element L) (\<lambda>l. safe_loop lprev lnext first_element body (Some l) (avl_prev_element (Some l) L) L)"

definition avl_for_each_element_safe :: "('l, 'k) avl_tree \<Rightarrow> ('l \<Rightarrow> 'l links \<Rightarrow> 'l links option) \<Rightarrow> 'l links \<Rightarrow> ('l list \<times> 'l links) option" where
  "avl_for_each_element_safe tree body = avl_for_element_range_safe body (avl_first_element tree) (avl_last_element tree)"

definition avl_for_each_element_reverse_safe :: "('l, 'k) avl_tree \<Rightarrow> ('l \<Rightarrow> 'l links \<Rightarrow> 'l links option) \<Rightarrow> 'l links \<Rightarrow> ('l list \<times> 'l links) option" where
  "avl_for_each_element_reverse_safe tree body = avl_for_element_range_reverse_safe body (avl_first_element tree) (avl_last_element tree)"

text \<open>\<open>avl_remove_all_elements\<close> empties the tree first and then runs over the elements, which the body may free; the number of rounds is the old number of nodes.\<close>

partial_function (option) remove_loop :: "('l \<Rightarrow> 'l links \<Rightarrow> 'l links option) \<Rightarrow> 'l option \<Rightarrow> 'l option \<Rightarrow> ('l, 'k) avl_tree \<Rightarrow> 'l links \<Rightarrow> ('l list \<times> ('l, 'k) avl_tree \<times> 'l links) option" where
  "remove_loop body element ptr tree L =
     (if avl_count tree = 0 then Some ([], tree, L)
      else Option.bind element (\<lambda>e.
        Option.bind (body e L) (\<lambda>L.
          Option.bind ptr (\<lambda>p.
            Option.bind (remove_loop body ptr (lnext L p) (tree\<lparr>avl_count := avl_count tree - 1\<rparr>) L) (\<lambda>(xs, r). Some (e # xs, r))))))"

definition avl_remove_all_elements :: "('l, 'k) avl_tree \<Rightarrow> ('l \<Rightarrow> 'l links \<Rightarrow> 'l links option) \<Rightarrow> 'l links \<Rightarrow> ('l list \<times> ('l, 'k) avl_tree \<times> 'l links) option" where
  "avl_remove_all_elements tree body L = do {
     e \<leftarrow> avl_first_element tree L;
     let ptr = avl_next_element (Some e) L;
     let L = INIT_LIST_HEAD_ubox (list_head tree) L;
     let tree = tree\<lparr>root := None\<rparr>;
     remove_loop body (Some e) ptr tree L }"

section \<open>The loops that leave the list alone\<close>

text \<open>The same list read backwards.\<close>

definition mirror :: "'l links \<Rightarrow> 'l links" where
  "mirror L = \<lparr>lnext = lprev L, lprev = lnext L\<rparr>"

lemma mirror_sel [simp]: "lnext (mirror L) = lprev L" "lprev (mirror L) = lnext L"
  by (simp_all add: mirror_def)

lemma chain_mirror: "chain L xs \<Longrightarrow> chain (mirror L) (rev xs)"
proof (induction L xs rule: chain.induct)
  case (1 L x y ys)
  then show ?case using chain_append [of "mirror L" "rev ys" y x "[]"] by simp
qed simp_all

lemma ring_mirror: "ring L h xs \<Longrightarrow> ring (mirror L) h (rev xs)"
  using chain_mirror [of L "h # xs @ [h]"] by (auto simp: ring_def)

text \<open>The neighbours of an entry, the head included.\<close>

lemma ring_neighbours:
  assumes "ring L h (us @ x # vs)"
  shows "lnext L x = Some (hd (vs @ [h]))" "lprev L x = Some (last (h # us))"
proof -
  show "lnext L x = Some (hd (vs @ [h]))" using ring_next [OF assms] by (simp add: list_next_def)
  have "ring (mirror L) h (rev vs @ x # rev us)" using ring_mirror [OF assms] by simp
  from ring_next [OF this] show "lprev L x = Some (last (h # us))" by (simp add: list_next_def hd_append hd_rev)
qed

lemma last_neq_prefix: "distinct (h # us @ x # vs) \<Longrightarrow> last (h # us @ x # vs) \<noteq> last (h # us)"
  by (auto split: if_splits) (metis last_in_set Int_iff emptyE last.simps list.set_intros(1) set_ConsD)+

lemma range_ring:
  assumes "ring L h (us @ xs @ vs)" "lst = Some (last (h # us @ xs))"
  shows "range_loop (lnext L) (lprev L) lst (Some (hd (xs @ vs @ [h]))) = Some xs"
  using assms
proof (induction xs arbitrary: us)
  case Nil
  have "lprev L (hd (vs @ [h])) = lst"
  proof (cases vs)
    case Nil
    with ring_back [OF Nil.prems(1)] Nil.prems(2) show ?thesis by simp
  next
    case (Cons v vs')
    with ring_neighbours(2) [of L h us v vs'] Nil.prems show ?thesis by simp
  qed
  then show ?case by (subst range_loop.simps) simp
next
  case (Cons x xs)
  have "last (h # us @ x # xs) \<noteq> last (h # us)" by (rule last_neq_prefix) (use Cons.prems(1) in \<open>auto simp: ring_def\<close>)
  moreover have "lprev L x = Some (last (h # us))" "lnext L x = Some (hd (xs @ vs @ [h]))" using ring_neighbours [of L h us x "xs @ vs"] Cons.prems(1) by simp_all
  moreover have "range_loop (lnext L) (lprev L) lst (Some (hd (xs @ vs @ [h]))) = Some xs"
    using Cons.IH [of "us @ [x]"] Cons.prems by simp
  ultimately show ?case using Cons.prems(2) by (subst range_loop.simps) simp
qed

text \<open>Every loop over a block of elements visits the block, forwards or backwards.\<close>

lemma avl_range_visits:
  assumes "ring L h (us @ xs @ vs)" "xs \<noteq> []"
  shows "avl_for_element_range (Some (hd xs)) (Some (last xs)) L = Some xs"
    and "avl_for_element_range_reverse (Some (hd xs)) (Some (last xs)) L = Some (rev xs)"
proof -
  show "avl_for_element_range (Some (hd xs)) (Some (last xs)) L = Some xs"
    using range_ring [OF assms(1)] assms(2) by (simp add: avl_for_element_range_def)
  have "ring (mirror L) h (rev vs @ rev xs @ rev us)" using ring_mirror [OF assms(1)] by simp
  from range_ring [OF this] show "avl_for_element_range_reverse (Some (hd xs)) (Some (last xs)) L = Some (rev xs)"
    using assms(2) by (simp add: avl_for_element_range_reverse_def hd_rev last_rev)
qed

lemma avl_ends:
  assumes "ring L (list_head tree) xs"
  shows "avl_first_element tree L = Some (hd (xs @ [list_head tree]))" "avl_last_element tree L = Some (last (list_head tree # xs))"
  using ring_ends [OF assms] ring_back [OF assms] by (simp_all add: avl_first_element_def avl_last_element_def)

lemma avl_each_visits:
  assumes "ring L (list_head tree) xs"
  shows "avl_for_each_element tree L = Some xs" "avl_for_each_element_reverse tree L = Some (rev xs)"
proof -
  note e = avl_ends [OF assms]
  show "avl_for_each_element tree L = Some xs"
    using range_ring [of L "list_head tree" "[]" xs "[]"] assms by (simp add: avl_for_each_element_def avl_for_element_range_def e)
  have f: "hd (xs @ [list_head tree]) = last (list_head tree # rev xs)" "last (list_head tree # xs) = hd (rev xs @ [list_head tree])"
    by (simp_all add: hd_append last_rev hd_rev)
  show "avl_for_each_element_reverse tree L = Some (rev xs)"
    using range_ring [of "mirror L" "list_head tree" "[]" "rev xs" "[]"] ring_mirror [OF assms]
    unfolding avl_for_each_element_reverse_def avl_for_element_range_reverse_def e f by simp
qed

text \<open>The loops that start or end at a given element \<open>x\<close>.\<close>

lemma avl_partial_visits:
  assumes "ring L (list_head tree) (us @ x # vs)"
  shows "avl_for_element_to_last tree (Some x) L = Some (x # vs)" "avl_for_element_to_last_reverse tree (Some x) L = Some (rev (x # vs))"
    "avl_for_first_to_element tree (Some x) L = Some (us @ [x])" "avl_for_first_to_element_reverse tree (Some x) L = Some (rev (us @ [x]))"
proof -
  have r: "ring L (list_head tree) (us @ (x # vs) @ [])" "ring L (list_head tree) ([] @ (us @ [x]) @ vs)" using assms by simp_all
  note e = avl_ends [OF assms]
  note v = avl_range_visits [OF r(1) list.distinct(2)] avl_range_visits [OF r(2) snoc_eq_iff_butlast [THEN iffD1, THEN conjunct1, OF refl]]
  have f: "last (list_head tree # us @ x # vs) = last (x # vs)" "hd ((us @ x # vs) @ [list_head tree]) = hd (us @ [x])" by (simp_all add: hd_append)
  show "avl_for_element_to_last tree (Some x) L = Some (x # vs)" "avl_for_element_to_last_reverse tree (Some x) L = Some (rev (x # vs))"
    "avl_for_first_to_element tree (Some x) L = Some (us @ [x])" "avl_for_first_to_element_reverse tree (Some x) L = Some (rev (us @ [x]))"
    using v unfolding avl_for_element_to_last_def avl_for_element_to_last_reverse_def avl_for_first_to_element_def avl_for_first_to_element_reverse_def e f
    by simp_all
qed

text \<open>The tests, for a tree whose count is right.\<close>

definition avl_ok :: "('l, 'k) avl_tree \<Rightarrow> 'l list \<Rightarrow> 'l links \<Rightarrow> bool" where
  "avl_ok tree xs L \<longleftrightarrow> ring L (list_head tree) xs \<and> avl_count tree = word_of_nat (length xs) \<and> length xs < 2 ^ 32"

lemma count_zero: "n < 2 ^ 32 \<Longrightarrow> (word_of_nat n :: 32 word) = 0 \<longleftrightarrow> n = 0"
  by (auto simp: word_of_nat_eq_0_iff dest: dvd_imp_le)

lemma avl_ok_init: "AVL_TREE_INIT head cmp dups L = (tree, L') \<Longrightarrow> avl_ok tree [] L'"
  by (auto simp: AVL_TREE_INIT_def avl_ok_def init_ubox ring_init)

lemma avl_tests:
  assumes "avl_ok tree xs L" "x \<in> set xs"
  shows "avl_is_first tree x L \<longleftrightarrow> x = hd xs" "avl_is_last tree x L \<longleftrightarrow> x = last xs" "\<not> avl_is_empty tree"
proof -
  from assms have r: "ring L (list_head tree) xs" and ne: "xs \<noteq> []" by (auto simp: avl_ok_def)
  from avl_ends [OF r] ne show "avl_is_first tree x L \<longleftrightarrow> x = hd xs" "avl_is_last tree x L \<longleftrightarrow> x = last xs"
    by (auto simp: avl_is_first_def avl_is_last_def avl_first_element_def avl_last_element_def)
  from ne assms(1) count_zero show "\<not> avl_is_empty tree" by (auto simp: avl_is_empty_def avl_ok_def)
qed

section \<open>The loops that change the list\<close>

lemma safe_drain:
  assumes step: "\<And>L x xs. P L (x # xs) \<Longrightarrow> pv L x \<noteq> bound L \<and> nx L x = Some (hd (xs @ [z])) \<and> (\<exists>L'. body x L = Some L' \<and> P L' xs)"
    and stop: "\<And>L. P L [] \<Longrightarrow> pv L z = bound L"
  shows "P L xs \<Longrightarrow> \<exists>L'. safe_loop nx pv bound body (Some (hd (xs @ [z]))) (nx L (hd (xs @ [z]))) L = Some (xs, L') \<and> P L' []"
proof (induction xs arbitrary: L)
  case Nil
  with stop show ?case by (subst safe_loop.simps) simp
next
  case (Cons x xs)
  from step [OF Cons.prems] obtain L1 where "pv L x \<noteq> bound L" "nx L x = Some (hd (xs @ [z]))" "body x L = Some L1" "P L1 xs" by blast
  with Cons.IH [of L1] show ?case by (subst safe_loop.simps) auto
qed

text \<open>A body that takes the elements with \<open>c\<close> out of the list.\<close>

definition delete_if :: "('l \<Rightarrow> bool) \<Rightarrow> 'l \<Rightarrow> 'l links \<Rightarrow> 'l links option" where
  "delete_if c x L = (if c x then list_del_ubox x L else Some L)"

lemma delete_if_ring: "ring L h (us @ x # vs) \<Longrightarrow> \<exists>L'. delete_if c x L = Some L' \<and> ring L' h ((us @ filter (\<lambda>x. \<not> c x) [x]) @ vs)"
  using del_ring [of L h us x vs] by (auto simp: delete_if_def)

text \<open>Both loops over all elements visit every element once and in order, whatever the body takes out.\<close>

lemma avl_each_safe_visits:
  assumes "ring L (list_head tree) xs"
  shows "\<exists>L'. avl_for_each_element_safe tree (delete_if c) L = Some (xs, L') \<and> ring L' (list_head tree) (filter (\<lambda>x. \<not> c x) xs)"
    and "\<exists>L'. avl_for_each_element_reverse_safe tree (delete_if c) L = Some (rev xs, L') \<and> ring L' (list_head tree) (filter (\<lambda>x. \<not> c x) xs)"
proof -
  let ?h = "list_head tree" and ?f = "filter (\<lambda>x. \<not> c x)"
  note e = avl_ends [OF assms]
  have "\<exists>L'. safe_loop lnext lprev (avl_last_element tree) (delete_if c) (Some (hd (xs @ [?h]))) (lnext L (hd (xs @ [?h]))) L = Some (xs, L') \<and>
      (\<exists>us. ring L' ?h (us @ []) \<and> us @ ?f [] = ?f xs)"
  proof (rule safe_drain [where P = "\<lambda>L ys. \<exists>us. ring L ?h (us @ ys) \<and> us @ ?f ys = ?f xs"])
    fix L' y ys assume "\<exists>us. ring L' ?h (us @ y # ys) \<and> us @ ?f (y # ys) = ?f xs"
    then obtain us where us: "ring L' ?h (us @ y # ys)" "us @ ?f (y # ys) = ?f xs" by blast
    have "last (?h # us @ y # ys) \<noteq> last (?h # us)" by (rule last_neq_prefix) (use us(1) in \<open>simp add: ring_def\<close>)
    with us delete_if_ring [OF us(1), of c] ring_neighbours [OF us(1)] avl_ends(2) [OF us(1)]
    show "lprev L' y \<noteq> avl_last_element tree L' \<and> lnext L' y = Some (hd (ys @ [?h])) \<and>
        (\<exists>L''. delete_if c y L' = Some L'' \<and> (\<exists>us. ring L'' ?h (us @ ys) \<and> us @ ?f ys = ?f xs))"
      by (fastforce split: if_splits)
  qed (use assms in \<open>auto simp: avl_last_element_def intro: exI [of _ "[]"]\<close>)
  then show "\<exists>L'. avl_for_each_element_safe tree (delete_if c) L = Some (xs, L') \<and> ring L' ?h (?f xs)"
    by (auto simp: avl_for_each_element_safe_def avl_for_element_range_safe_def e avl_next_element_def)
  have "\<exists>L'. safe_loop lprev lnext (avl_first_element tree) (delete_if c) (Some (hd (rev xs @ [?h]))) (lprev L (hd (rev xs @ [?h]))) L = Some (rev xs, L') \<and>
      (\<exists>us. ring L' ?h (rev [] @ us) \<and> ?f (rev []) @ us = ?f xs)"
  proof (rule safe_drain [where P = "\<lambda>L ys. \<exists>us. ring L ?h (rev ys @ us) \<and> ?f (rev ys) @ us = ?f xs"])
    fix L' y ys assume "\<exists>us. ring L' ?h (rev (y # ys) @ us) \<and> ?f (rev (y # ys)) @ us = ?f xs"
    then obtain us where us: "ring L' ?h (rev ys @ y # us)" "?f (rev (y # ys)) @ us = ?f xs" by auto
    have "hd ((rev ys @ y # us) @ [?h]) \<noteq> hd (us @ [?h])" using us(1) by (cases ys rule: rev_cases; cases us) (auto simp: ring_def)
    with us delete_if_ring [OF us(1), of c] ring_neighbours [OF us(1)] avl_ends(1) [OF us(1)]
    show "lnext L' y \<noteq> avl_first_element tree L' \<and> lprev L' y = Some (hd (ys @ [?h])) \<and>
        (\<exists>L''. delete_if c y L' = Some L'' \<and> (\<exists>us. ring L'' ?h (rev ys @ us) \<and> ?f (rev ys) @ us = ?f xs))"
      by (fastforce simp: hd_append last_rev split: if_splits)
  qed (use assms in \<open>auto simp: avl_first_element_def intro: exI [of _ "[]"]\<close>)
  moreover have "last (?h # xs) = hd (rev xs @ [?h])" by (simp add: hd_append hd_rev)
  ultimately show "\<exists>L'. avl_for_each_element_reverse_safe tree (delete_if c) L = Some (rev xs, L') \<and> ring L' ?h (?f xs)"
    by (auto simp: avl_for_each_element_reverse_safe_def avl_for_element_range_reverse_safe_def e avl_prev_element_def)
qed

text \<open>A loop over a block must not take out the last element of the block; then it visits the block.\<close>

lemma avl_range_safe_visits:
  assumes "ring L h (us @ xs @ vs)" "xs \<noteq> []" "\<not> c (last xs)"
  shows "\<exists>L'. avl_for_element_range_safe (delete_if c) (\<lambda>_. Some (hd xs)) (\<lambda>_. Some (last xs)) L = Some (xs, L') \<and> ring L' h (us @ filter (\<lambda>x. \<not> c x) xs @ vs)"
proof -
  let ?z = "hd (vs @ [h])" and ?f = "filter (\<lambda>x. \<not> c x)"
  have "\<exists>L'. safe_loop lnext lprev (\<lambda>_. Some (last xs)) (delete_if c) (Some (hd (xs @ [?z]))) (lnext L (hd (xs @ [?z]))) L = Some (xs, L') \<and>
      (\<exists>ks. ring L' h (ks @ [] @ vs) \<and> ks @ ?f [] = us @ ?f xs \<and> last (ks @ []) = last xs \<and> ks @ [] \<noteq> [])"
  proof (rule safe_drain [where P = "\<lambda>L ys. \<exists>ks. ring L h (ks @ ys @ vs) \<and> ks @ ?f ys = us @ ?f xs \<and> last (ks @ ys) = last xs \<and> ks @ ys \<noteq> []"])
    fix L' y ys assume "\<exists>ks. ring L' h (ks @ (y # ys) @ vs) \<and> ks @ ?f (y # ys) = us @ ?f xs \<and> last (ks @ y # ys) = last xs \<and> ks @ y # ys \<noteq> []"
    then obtain ks where ks: "ring L' h (ks @ y # ys @ vs)" "ks @ ?f (y # ys) = us @ ?f xs" "last (ks @ y # ys) = last xs" by auto
    have "last (h # ks @ y # ys) \<noteq> last (h # ks)" by (rule last_neq_prefix) (use ks(1) in \<open>auto simp: ring_def\<close>)
    moreover have "hd (ys @ vs @ [h]) = hd (ys @ [?z])" by (simp add: hd_append)
    moreover have "\<exists>L''. delete_if c y L' = Some L'' \<and> (\<exists>ks. ring L'' h (ks @ ys @ vs) \<and> ks @ ?f ys = us @ ?f xs \<and> last (ks @ ys) = last xs \<and> ks @ ys \<noteq> [])"
    proof -
      from delete_if_ring [OF ks(1), of c] obtain L'' where d: "delete_if c y L' = Some L''" "ring L'' h ((ks @ ?f [y]) @ ys @ vs)" by blast
      have "last ((ks @ ?f [y]) @ ys) = last xs" "(ks @ ?f [y]) @ ys \<noteq> []" using ks(3) assms(3) by (cases ys; auto split: if_splits)+
      moreover have "(ks @ ?f [y]) @ ?f ys = us @ ?f xs" using ks(2) by (cases "c y") simp_all
      ultimately show ?thesis using d by blast
    qed
    ultimately show "lprev L' y \<noteq> Some (last xs) \<and> lnext L' y = Some (hd (ys @ [?z])) \<and>
        (\<exists>L''. delete_if c y L' = Some L'' \<and> (\<exists>ks. ring L'' h (ks @ ys @ vs) \<and> ks @ ?f ys = us @ ?f xs \<and> last (ks @ ys) = last xs \<and> ks @ ys \<noteq> []))"
      using ks(3) ring_neighbours [OF ks(1)] by simp
  next
    fix L' assume "\<exists>ks. ring L' h (ks @ [] @ vs) \<and> ks @ ?f [] = us @ ?f xs \<and> last (ks @ []) = last xs \<and> ks @ [] \<noteq> []"
    then obtain ks where "ring L' h (ks @ vs)" "last ks = last xs" "ks \<noteq> []" by (metis append_Nil append_Nil2)
    then show "lprev L' ?z = Some (last xs)" by (cases vs) (use ring_back [of L' h ks] ring_neighbours(2) [of L' h ks] in auto)
  next
    show "\<exists>ks. ring L h (ks @ xs @ vs) \<and> ks @ ?f xs = us @ ?f xs \<and> last (ks @ xs) = last xs \<and> ks @ xs \<noteq> []" using assms by (intro exI [of _ us]) simp
  qed
  then show ?thesis using assms(2) by (auto simp: avl_for_element_range_safe_def avl_next_element_def)
qed

text \<open>Otherwise it runs on behind the block: in a list of three elements, of which the first two are to be taken out, the body is called with the third.\<close>

lemma avl_range_safe_overruns:
  fixes L :: "nat links" defines "L \<equiv> \<lparr>lnext = \<lambda>x. Some ((x + 1) mod 4), lprev = \<lambda>x. Some ((x + 3) mod 4)\<rparr>"
  shows "avl_for_element_range (Some 1) (Some 2) L = Some [1, 2]"
    "avl_for_element_range_safe (\<lambda>x L. if x \<in> {1, 2} then list_del_ubox x L else None) (\<lambda>_. Some 1) (\<lambda>_. Some 2) L = None"
  by (simp_all add: L_def avl_for_element_range_def avl_for_element_range_safe_def avl_next_element_def list_del_ubox_def list_del_entry_def
      safe_loop.simps [of _ _ _ _ "Some a" for a] range_loop.simps [of _ _ _ "Some a" for a])

section \<open>Removing all elements\<close>

text \<open>A body that may change or free its element, and nothing else of the list.\<close>

definition local_body :: "('l \<Rightarrow> 'l links \<Rightarrow> 'l links option) \<Rightarrow> bool" where
  "local_body body \<longleftrightarrow> (\<forall>e L. \<exists>L'. body e L = Some L' \<and> (\<forall>z. z \<noteq> e \<longrightarrow> lnext L' z = lnext L z \<and> lprev L' z = lprev L z))"

lemma next_path_cong: "path lnext L h xs \<Longrightarrow> (\<And>x. x \<in> set xs \<Longrightarrow> lnext L' x = lnext L x) \<Longrightarrow> path lnext L' h xs"
  by (induction xs) auto

lemma remove_loop_visits:
  assumes "local_body body"
  shows "path lnext L h xs \<Longrightarrow> distinct (h # xs) \<Longrightarrow> ring L h [] \<Longrightarrow> length xs < 2 ^ 32 \<Longrightarrow>
    \<exists>L'. remove_loop body (Some (hd (xs @ [h]))) (lnext L (hd (xs @ [h]))) (tree\<lparr>avl_count := word_of_nat (length xs)\<rparr>) L = Some (xs, tree\<lparr>avl_count := 0\<rparr>, L') \<and> ring L' h []"
proof (induction xs arbitrary: L)
  case Nil
  then show ?case by (subst remove_loop.simps) simp
next
  case (Cons x xs)
  obtain L1 where L1: "body x L = Some L1" "\<And>z. z \<noteq> x \<Longrightarrow> lnext L1 z = lnext L z \<and> lprev L1 z = lprev L z" using assms unfolding local_body_def by blast
  have "lnext L1 z = lnext L z" if "z \<in> set xs" for z using L1(2) [of z] Cons.prems(2) that by auto
  then have p: "path lnext L1 h xs" using next_path_cong [of L h xs L1] Cons.prems(1) by simp
  have "(word_of_nat (length (x # xs)) :: 32 word) \<noteq> 0"
    using count_zero [OF Cons.prems(4)] by simp
  moreover have "\<exists>L'. remove_loop body (Some (hd (xs @ [h]))) (lnext L1 (hd (xs @ [h]))) (tree\<lparr>avl_count := word_of_nat (length xs)\<rparr>) L1 = Some (xs, tree\<lparr>avl_count := 0\<rparr>, L') \<and> ring L' h []"
    by (rule Cons.IH) (use Cons.prems L1(2) p in \<open>auto simp: ring_empty\<close>)
  ultimately show ?case using Cons.prems L1(1) by (subst remove_loop.simps) auto
qed

lemma avl_remove_all_visits:
  assumes "avl_ok tree xs L" "local_body body"
  shows "\<exists>L'. avl_remove_all_elements tree body L = Some (xs, tree\<lparr>root := None, avl_count := 0\<rparr>, L') \<and> avl_ok (tree\<lparr>root := None, avl_count := 0\<rparr>) [] L'"
proof -
  let ?h = "list_head tree" and ?L = "INIT_LIST_HEAD_ubox (list_head tree) L"
  from assms(1) have r: "ring L ?h xs" "avl_count tree = word_of_nat (length xs)" "length xs < 2 ^ 32" by (auto simp: avl_ok_def)
  have d: "distinct (?h # xs)" using r(1) by (simp add: ring_def)
  have p: "path lnext ?L ?h xs" by (rule next_path_cong [OF ring_paths(1) [OF r(1)]]) (use d in \<open>auto simp: INIT_LIST_HEAD_ubox_def\<close>)
  have ring: "ring ?L ?h []" by (simp add: init_ubox ring_init)
  have next_eq: "lnext L (hd (xs @ [?h])) = lnext ?L (hd (xs @ [?h]))"
    using d ring ring_ends(1) [OF r(1)] by (cases xs) (auto simp: INIT_LIST_HEAD_ubox_def)
  have t: "tree\<lparr>root := None\<rparr> = tree\<lparr>root := None\<rparr>\<lparr>avl_count := word_of_nat (length xs)\<rparr>" using r(2) by simp
  from remove_loop_visits [OF assms(2) p d ring r(3), of "tree\<lparr>root := None\<rparr>"] show ?thesis
    using avl_ends(1) [OF r(1)] next_eq t by (auto simp: avl_remove_all_elements_def avl_next_element_def Let_def avl_ok_def)
qed

end
