(* ===== verification/Spec2Isabelle.thy ===== *)
theory Spec2Isabelle
  imports TlvBoxWire OsTimerRun OsalTimer UboxList OsalIpc OsThread EgNetCorrect Eg9531 MainProg ControllerWf HidTest ReaderTest UtHashMap UtHashBloom AvlTree
begin

text \<open>
  \<^bold>\<open>The program.\<close>  \<open>pc02\<close> is the software of a door controller on a big-endian MIPS board under Linux.  It talks to up to four card readers behind USB ports,
  to a server over TCP and to other processes of the board over a message bus.  Its parts, from the bottom up:

    \<^item> the Linux layer, \<open>src/osal/linux\<close>: mutexes, semaphores, spin locks, clocks and message queues (\<open>os_core.c\<close>), threads (\<open>os_pthread.c\<close>), and software timers (\<open>os_timer.c\<close>);
    \<^item> the portability layer, \<open>src/osal\<close>, which wraps the Linux layer into handles and status codes, and the debug output (\<open>cv_osal_dbg.c\<close>);
    \<^item> containers: the keyed list (\<open>src/app/sys/key_list.c\<close>), the TLV box on top of it (\<open>src/app/sys/tlv_box.c\<close>), the intrusive lists of \<open>src/include/list.h\<close>, and the intrusive
      hash table of \<open>src/include/uthash.h\<close>, which comes with the program although none of its files uses it yet;
    \<^item> the headers of the bus library that are compiled into the program: messages (\<open>src/include/libubox/blob.h\<close>, \<open>blobmsg.h\<close>, \<open>utils.h\<close>) lists (\<open>src/include/libubox/list.h\<close>) and iteration over
      trees (\<open>src/include/libubox/avl.h\<close>);
    \<^item> the application, \<open>src/app/sys\<close>: the readers (\<open>eg_usbto322.c\<close>), the TCP client (\<open>eg_net.c\<close>), the bus client (\<open>eg_9531.c\<close>) and \<open>main.c\<close>, which clears the
      controller object (\<open>src/include/cv_cms_def.h\<close>), starts the readers and sleeps;
    \<^item> two test programs, for a HID device (\<open>src/app/sys/test.c\<close>) and for the reader library (\<open>src/test.c\<close>).

  \<^bold>\<open>Conventions.\<close>  A C function is a HOL function of its arguments and the state it touches, which it returns changed.  Undefined behaviour (an access outside an object, a null or dangling pointer, signed
  overflow, an assertion that never returns) is the result \<open>None\<close> of the option monad; error codes are ordinary results.  Memory that is shared or freed is an explicit store from addresses to objects with a bump
  allocator whose failures are arbitrary (\<open>Prelude\<close>).  Integers are words or integers with the wrap-around written out.  What the program observes of its environment (clocks,
  results of the kernel and the C library, the order in which other threads act) is an argument, so that the theorems hold for every behaviour of it.  Libraries whose code is not in the repository are records of functions over an arbitrary state type: \<open>luareader\<close> in \<open>UsbTo322\<close>, \<open>ubus_lib\<close> in
  \<open>Eg9531\<close>, \<open>hiddev\<close> in \<open>HidTest\<close>.  What is assumed of them is \<open>reader_contract\<close> (answers fit the buffer that was given; \<open>texts_contract\<close> says the same of texts), \<open>blob_contract\<close> (a message buffer holds the
  format of the bus headers) and \<open>hid_driver\<close> (the driver hands out the reports of the device one after the other); each is shown to hold of a concrete instance.  Endless loops are run for a number of rounds or a list of events that is universally quantified; loops
  whose end depends on pointers are partial functions whose termination is part of the theorems.  No other bound is used.

  \<^bold>\<open>Theories.\<close>

    \<^item> \<open>Prelude\<close>: bytes, byte order, bounds-checked arrays, the allocator.  \<open>CFormat\<close>: the conversions of \<open>printf\<close>.  \<open>OsalStatus\<close>: the status codes.
    \<^item> \<open>KeyList\<close>: \<open>key_list.c\<close>.  The doubly linked list on the heap is abstracted to a sequence of entries; every function returns and does what it should on every branch.  The interface \<open>value_releaser\<close> states
      what the list needs of the function that frees its values, \<open>keyed_store\<close> what its clients rely on.
    \<^item> \<open>TlvBox\<close>, \<open>TlvBoxCorrect\<close>, \<open>TlvBoxWire\<close>: \<open>tlv_box.c\<close>; the representation invariant of a box, the wire format, the round trip between machines of either byte order, parsing of arbitrary bytes, and that
      destruction frees exactly what the box owns.
    \<^item> \<open>ListLinks\<close>, \<open>RingStore\<close>, \<open>ListHead\<close>, \<open>UboxList\<close>: circular lists.  Pointers are abstracted to families of disjoint rings; the interface \<open>ring_store\<close> is provided by the lists of \<open>os_timer.c\<close>, by those of
      \<open>list.h\<close> and by those of \<open>libubox/list.h\<close>; the operations of the last two refine operations on sequences, splicing included.
    \<^item> \<open>AvlTree\<close>: the iteration macros of \<open>libubox/avl.h\<close> over the list of the nodes of a tree; each visits exactly its block of elements, forwards or backwards, and the safe ones also when elements are taken out
      meanwhile, but for one case.
    \<^item> \<open>UtHashFun\<close>, \<open>UtHash\<close>: the hash functions and all macros of \<open>uthash.h\<close>.  \<open>UtHashInv\<close>: doubly linked lists, buckets, and the expansion of the array of buckets, which moves every item
      to its new chain.  \<open>UtHashOps\<close>: what a table represents (\<open>hash_ok\<close>: a list of elements with their keys, in application order) and each operation on it.  \<open>UtHashSort\<close>: the merge sort in place is the stable sort.
      \<open>UtHashMap\<close>: the interface \<open>keyed_table\<close>, provided by adding at the end and by adding in order, and all sequences of operations as a transition system that refines operations on association
      lists.  \<open>UtHashBloom\<close>: the bloom filter never hides an item.
    \<^item> \<open>Timespec\<close>, \<open>OsTimer\<close>: the time arithmetic and all of \<open>os_timer.c\<close>.  \<open>OsTimerLinks\<close>, \<open>OsTimerInv\<close>, \<open>OsTimerOps\<close>: the abstraction of its lists, the invariant, and what the internal functions do under it.
      \<open>OsTimerApi\<close>: the public functions and the service thread.  \<open>OsTimerRun\<close>: all interleavings of callers, handlers and service threads as a transition system, and its safety.  \<open>OsalTimer\<close>: the handles of \<open>osal_timer.c\<close>.
    \<^item> \<open>OsCore\<close>, \<open>Channel\<close>, \<open>OsalIpc\<close>: \<open>os_core.c\<close> and the wrappers; semaphores with deadlines, mutual exclusion, delivery through message queues, delays.  The interface \<open>priority_channel\<close> states what a queue promises; it is provided by the
      descriptors of \<open>os_core.c\<close> and by the handles of \<open>osal_queue.c\<close>.
    \<^item> \<open>OsThread\<close>: thread creation in \<open>os_pthread.c\<close> and \<open>osal_thread.c\<close>, with the start record and the process name.
    \<^item> \<open>OsalDbg\<close>: the debug output; the dump routines print the table of rows they are meant to.
    \<^item> \<open>CmsDef\<close>: the controller object and the byte-order helpers.
    \<^item> \<open>UsbTo322\<close>, \<open>UsbTo322Correct\<close>: the readers; cutting the reader list, the reader threads, the time frame, the cadence of the timer callback, start-up.
    \<^item> \<open>EgNet\<close>, \<open>EgNetCorrect\<close>: the TCP client; hexadecimal decoding, reception of frames, the connection state.
    \<^item> \<open>Blob\<close>, \<open>BlobWire\<close>: the messages of the bus; iteration over arbitrary bytes stays inside the message, and what a program of either byte order puts into a message a program of either byte order reads from it.
    \<^item> \<open>Eg9531\<close>: the bus client, down to what its subscribers read, and the reader of the configuration file.
    \<^item> \<open>MainProg\<close>: the program from \<open>main\<close> on, down to the threads and timers it leaves behind.  \<open>ControllerWf\<close>: the controller object stays well-formed under every operation that writes to it, in any order.
    \<^item> \<open>HidTest\<close>, \<open>ReaderTest\<close>: the test programs; the listing of a HID device is complete, and the reader test stays inside its buffers.

  \<^bold>\<open>What the theorems show.\<close>  Most of the code does what it means to, and the theorems say so for all inputs: see the numbered statements.  Where it does not, the theorem states what happens instead: a put of a duplicate type leaks,
  a parser, the frame receiver and the configuration reader run over their buffers, a time frame is a byte too long for its array, a deletion that waits may lose a timer, an empty message is lost, a failed connection is final, a hash table that was filled by selection loses items at the next addition, a safe loop over a block of a tree does not end where the last element of the block is removed.

  \<^bold>\<open>Assumptions.\<close>  The theorems on timers assume normalised clocks before the year 2034 on a machine that is up for less than three years (\<open>env_ok\<close>), so that no sum of times wraps, and clients that do not delete a timer while its deletion
  waits.  Theorems on heaps say when they need memory to be left (\<open>no_oom\<close>).  The theorems on the hash table assume fewer than \<open>2 ^ 27\<close> elements (\<open>handles_fit\<close>; an element has at least the 32 bytes of its handle,
  and the address space 4 GB), elements that are added at most once, and keys that differ and do not change; an operation that adds ends the process only for lack of memory (\<open>mem_short\<close>).

  \<^bold>\<open>Not modelled.\<close>  Code that is compiled out (the polling loop of \<open>eg_usb_thread_entry\<close>, the
  test of \<open>tlv_box.c\<close>, the shell commands of another operating system in \<open>cv_osal_dbg.c\<close>); the exit of a service thread by cancellation, which nothing requests, beyond the function \<open>thread_cleanup\<close> itself; headers of libraries that only declare
  (\<open>luareader.h\<close>, most of \<open>libubus.h\<close> and \<open>uloop.h\<close>, \<open>ustream.h\<close>, \<open>ubusmsg.h\<close> and the other headers of \<open>libubox\<close>); third-party headers that no file includes (\<open>sqlite3.h\<close>, \<open>hidapi.h\<close>, \<open>libudev.h\<close>);
  and the declarations left over from another product (\<open>cv_vam.h\<close>, \<open>cv_vsa.h\<close>, \<open>cv_rcp.h\<close> and others), which no file of the program uses.
\<close>

end
